(* ===== verification/Prelude.thy ===== *)
theory Prelude
  imports Main "HOL-Library.Finite_Map" "HOL-Library.Char_ord" "HOL-Library.List_Lexorder"
    "HOL-Library.Product_Lexorder"
begin

section \<open>Shared types, text helpers and automation\<close>

text \<open>
  What every component of the development shares.  A Rust \<open>String\<close> or \<open>&str\<close> is a
  \<open>string\<close>, the list of its UTF-8 bytes, so \<open>length\<close> is Rust's \<open>len()\<close>; a byte
  vector has the same type.  A \<open>u64\<close> is a \<open>nat\<close>; where a value crosses into SQLite's signed
  integers the wrap of \<open>as i64\<close> is written out by \<open>as_i64\<close> and \<open>as_u64\<close>.
  A \<open>HashMap\<close> or \<open>BTreeMap\<close> is an \<open>fmap\<close>, and a \<open>BTreeMap\<close>'s first entry is
  \<open>fm_first\<close>.  A fallible operation returns \<open>'e + 'a\<close>, with \<open>Inl\<close> for the error.
\<close>

named_theorems text_simps "facts that evaluate and invert textual encodings"
named_theorems int_conv "facts on the signed and unsigned readings of a stored position"

type_synonym bytes = string

subsection \<open>Fallible computations\<close>

fun bind_res :: "'e + 'a \<Rightarrow> ('a \<Rightarrow> 'e + 'b) \<Rightarrow> 'e + 'b" where
  "bind_res (Inl e) f = Inl e"
| "bind_res (Inr a) f = f a"

fun ok_or :: "'a option \<Rightarrow> 'e \<Rightarrow> 'e + 'a" where
  "ok_or None e = Inl e"
| "ok_or (Some a) e = Inr a"

fun map_err :: "('e \<Rightarrow> 'f) \<Rightarrow> 'e + 'a \<Rightarrow> 'f + 'a" where
  "map_err g (Inl e) = Inl (g e)"
| "map_err g (Inr a) = Inr a"

fun traverse :: "('a \<Rightarrow> 'e + 'b) \<Rightarrow> 'a list \<Rightarrow> 'e + 'b list" where
  "traverse f [] = Inr []"
| "traverse f (x # xs) =
     bind_res (f x) (\<lambda>y. bind_res (traverse f xs) (\<lambda>ys. Inr (y # ys)))"

lemma bind_res_Inr_iff: "bind_res r f = Inr b \<longleftrightarrow> (\<exists>a. r = Inr a \<and> f a = Inr b)"
  by (cases r) auto

lemma bind_res_Inl_iff:
  "bind_res r f = Inl e \<longleftrightarrow> r = Inl e \<or> (\<exists>a. r = Inr a \<and> f a = Inl e)"
  by (cases r) auto

lemma ok_or_Inr_iff: "ok_or v e = Inr a \<longleftrightarrow> v = Some a"
  by (cases v) auto

lemma map_err_Inr_iff: "map_err g r = Inr x \<longleftrightarrow> r = Inr x"
  by (cases r) auto

lemma map_sum_id_Inr_iff: "map_sum id f x = Inr y \<longleftrightarrow> (\<exists>z. x = Inr z \<and> y = f z)"
  by (cases x) auto

lemma traverse_Inr_iff:
  "traverse f xs = Inr ys \<longleftrightarrow> list_all2 (\<lambda>x y. f x = Inr y) xs ys"
  by (induction xs arbitrary: ys)
    (auto simp: bind_res_Inr_iff list_all2_Cons1 list_all2_Cons2)

lemma traverse_Inl_split:
  "traverse f xs = Inl e \<Longrightarrow>
     \<exists>us x vs. xs = us @ x # vs \<and> f x = Inl e \<and> (\<forall>u \<in> set us. \<exists>y. f u = Inr y)"
proof (induction xs)
  case Nil
  then show ?case by simp
next
  case (Cons x xs)
  show ?case
  proof (cases "f x")
    case (Inl a)
    with Cons.prems have "f x = Inl e" by simp
    then have "x # xs = [] @ x # xs \<and> f x = Inl e \<and> (\<forall>u \<in> set []. \<exists>y. f u = Inr y)" by simp
    then show ?thesis by blast
  next
    case (Inr y)
    with Cons.prems have "traverse f xs = Inl e" by (auto simp: bind_res_Inl_iff)
    then obtain us z vs where
      "xs = us @ z # vs" "f z = Inl e" "\<forall>u \<in> set us. \<exists>y. f u = Inr y"
      using Cons.IH by blast
    then have "x # xs = (x # us) @ z # vs \<and> f z = Inl e \<and> (\<forall>u \<in> set (x # us). \<exists>y. f u = Inr y)"
      using Inr by simp
    then show ?thesis by blast
  qed
qed

subsection \<open>Signed storage of unsigned positions\<close>

definition as_i64 :: "nat \<Rightarrow> int" where
  "as_i64 n = (if n mod 2 ^ 64 < 2 ^ 63 then int (n mod 2 ^ 64) else int (n mod 2 ^ 64) - 2 ^ 64)"

definition as_u64 :: "int \<Rightarrow> nat" where
  "as_u64 i = nat (i mod 2 ^ 64)"

lemma as_i64_code [code]:
  "as_i64 n = (let m = int n mod 18446744073709551616
     in if m < 9223372036854775808 then m else m - 18446744073709551616)"
proof -
  have "int (n mod 2 ^ 64) = int n mod 18446744073709551616" by (simp add: zmod_int)
  then show ?thesis unfolding as_i64_def Let_def by auto
qed

lemma as_u64_code [code]: "as_u64 i = nat (i mod 18446744073709551616)"
  by (simp add: as_u64_def)

lemma as_u64_as_i64 [int_conv]:
  assumes "n < 2 ^ 64"
  shows "as_u64 (as_i64 n) = n"
proof (cases "n < 2 ^ 63")
  case True
  with assms show ?thesis by (simp add: as_i64_def as_u64_def)
next
  case False
  have m: "n mod 2 ^ 64 = n" using assms by simp
  have "(int n - 2 ^ 64) mod 2 ^ 64 = int n mod 2 ^ 64"
    by (metis minus_mod_self2)
  also have "\<dots> = int n" using assms by simp
  finally show ?thesis using False unfolding as_i64_def as_u64_def m by simp
qed

lemma as_i64_small [int_conv]: "n < 2 ^ 63 \<Longrightarrow> as_i64 n = int n"
  by (simp add: as_i64_def)

lemma as_i64_le_iff [int_conv]:
  "m < 2 ^ 63 \<Longrightarrow> n < 2 ^ 63 \<Longrightarrow> as_i64 m \<le> as_i64 n \<longleftrightarrow> m \<le> n"
  by (simp add: as_i64_small)

lemma as_i64_less_iff [int_conv]:
  "m < 2 ^ 63 \<Longrightarrow> n < 2 ^ 63 \<Longrightarrow> as_i64 m < as_i64 n \<longleftrightarrow> m < n"
  by (simp add: as_i64_small)

lemma as_i64_inj [int_conv]:
  "m < 2 ^ 64 \<Longrightarrow> n < 2 ^ 64 \<Longrightarrow> as_i64 m = as_i64 n \<longleftrightarrow> m = n"
  by (metis as_u64_as_i64)

subsection \<open>Ordered finite maps\<close>

definition fm_first :: "('k::linorder, 'v) fmap \<Rightarrow> ('k \<times> 'v) option" where
  "fm_first m =
     (case sorted_list_of_set (fset (fmdom m)) of
        [] \<Rightarrow> None
      | k # _ \<Rightarrow> map_option (Pair k) (fmlookup m k))"

lemma fm_first_None_iff: "fm_first m = None \<longleftrightarrow> m = fmempty"
proof
  assume n: "fm_first m = None"
  show "m = fmempty"
  proof (cases "sorted_list_of_set (fset (fmdom m))")
    case Nil
    then have "fset (fmdom m) = {}" by simp
    then show ?thesis by (metis fmrestrict_fset_dom fmrestrict_fset_null bot_fset.rep_eq fset_inject)
  next
    case (Cons k ks)
    then have "k \<in> fset (fmdom m)"
      by (metis finite_fset list.set_intros(1) set_sorted_list_of_set)
    with Cons n show ?thesis
      by (auto simp: fm_first_def fmdom_notI split: option.splits)
  qed
next
  assume "m = fmempty"
  then show "fm_first m = None" by (simp add: fm_first_def)
qed

lemma fm_first_Some_iff:
  "fm_first m = Some (k, v) \<longleftrightarrow> fmlookup m k = Some v \<and> (\<forall>j. fmlookup m j \<noteq> None \<longrightarrow> k \<le> j)"
proof -
  let ?ks = "sorted_list_of_set (fset (fmdom m))"
  have set_ks: "set ?ks = fset (fmdom m)" by simp
  have sorted: "sorted ?ks" by simp
  show ?thesis
  proof (cases ?ks)
    case Nil
    then have "fset (fmdom m) = {}" by simp
    then have "fmlookup m k = None" by (metis emptyE fmdom_notD)
    with Nil show ?thesis by (simp add: fm_first_def)
  next
    case (Cons a as)
    have a_in: "a \<in> fset (fmdom m)" using set_ks Cons by (metis list.set_intros(1))
    have a_min: "a \<le> j" if "fmlookup m j \<noteq> None" for j
    proof -
      have "j \<in> set ?ks" using that set_ks by (auto intro: fmdomI)
      with sorted Cons show ?thesis by auto
    qed
    from a_in obtain w where w: "fmlookup m a = Some w" by (metis fmlookup_dom_iff)
    with Cons have first: "fm_first m = Some (a, w)" by (simp add: fm_first_def)
    have "a = k" if "fmlookup m k = Some v" and "\<forall>j. fmlookup m j \<noteq> None \<longrightarrow> k \<le> j"
      using that a_min w by (metis option.distinct(1) order.antisym)
    then show ?thesis using first w a_min by auto
  qed
qed

lemma fm_first_least:
  "fm_first m = Some (k, v) \<Longrightarrow> fmlookup m j = Some w \<Longrightarrow> k \<le> j"
  by (auto simp: fm_first_Some_iff)

lemma fm_first_Some_ex: "fmlookup m j = Some w \<Longrightarrow> \<exists>k v. fm_first m = Some (k, v) \<and> k \<le> j"
  by (cases "fm_first m") (auto simp: fm_first_None_iff dest: fm_first_least)

lemma sorted_fmap: "distinct (map fst (sorted_list_of_fmap m))" "map_of (sorted_list_of_fmap m) = fmlookup m"
  "set (sorted_list_of_fmap m) = {(k, v). fmlookup m k = Some v}"
proof -
  show d: "distinct (map fst (sorted_list_of_fmap m))"
    by (simp add: sorted_list_of_fmap_def comp_def sorted_list_of_fset.rep_eq)
  show m: "map_of (sorted_list_of_fmap m) = fmlookup m" by simp
  show "set (sorted_list_of_fmap m) = {(k, v). fmlookup m k = Some v}"
    using map_of_eq_Some_iff [OF d] m by auto
qed

subsection \<open>Decimal and hexadecimal text\<close>

definition digit_char :: "nat \<Rightarrow> char" where
  "digit_char d = char_of (48 + d)"

fun nat_str :: "nat \<Rightarrow> string" where
  "nat_str n = (if n < 10 then [digit_char n] else nat_str (n div 10) @ [digit_char (n mod 10)])"

declare nat_str.simps [simp del]

definition int_str :: "int \<Rightarrow> string" where
  "int_str i = (if i < 0 then CHR ''-'' # nat_str (nat (- i)) else nat_str (nat i))"

definition is_digit :: "char \<Rightarrow> bool" where
  "is_digit c \<longleftrightarrow> 48 \<le> (of_char c :: nat) \<and> (of_char c :: nat) < 58"

fun str_nat :: "nat \<Rightarrow> string \<Rightarrow> nat" where
  "str_nat acc [] = acc"
| "str_nat acc (c # cs) = str_nat (10 * acc + (of_char c - 48)) cs"

lemma of_char_digit: "d < 10 \<Longrightarrow> (of_char (digit_char d) :: nat) = 48 + d"
  by (simp add: digit_char_def)

lemma str_nat_append: "str_nat acc (xs @ ys) = str_nat (str_nat acc xs) ys"
  by (induction xs arbitrary: acc) auto

lemma str_nat_nat_str [text_simps]: "str_nat 0 (nat_str n) = n"
proof (induction n rule: nat_str.induct)
  case (1 n)
  show ?case
  proof (cases "n < 10")
    case True
    then show ?thesis by (simp add: nat_str.simps [of n] of_char_digit)
  next
    case False
    with "1.IH" have "str_nat 0 (nat_str (n div 10)) = n div 10" by simp
    with False show ?thesis
      by (simp add: nat_str.simps [of n] str_nat_append of_char_digit)
  qed
qed

lemma nat_str_inj [text_simps]: "nat_str m = nat_str n \<longleftrightarrow> m = n"
  by (metis str_nat_nat_str)

lemma nat_str_digits: "\<forall>c \<in> set (nat_str n). is_digit c"
proof (induction n rule: nat_str.induct)
  case (1 n)
  have "is_digit (digit_char (n mod 10))" by (simp add: is_digit_def of_char_digit)
  with 1 show ?case
    by (cases "n < 10") (auto simp: nat_str.simps [of n] is_digit_def of_char_digit)
qed

lemma nat_str_not_Nil [simp]: "nat_str n \<noteq> []"
  by (subst nat_str.simps) simp

lemma int_str_inj [text_simps]: "int_str i = int_str j \<longleftrightarrow> i = j"
proof -
  have "\<not> is_digit (CHR ''-'')" by (simp add: is_digit_def)
  then have "nat_str n \<noteq> CHR ''-'' # s" "CHR ''-'' # s \<noteq> nat_str n" for n s
    by (metis list.set_intros(1) nat_str_digits)+
  then show ?thesis by (auto simp: int_str_def text_simps)
qed

lemma int_str_chars: "c \<in> set (int_str i) \<Longrightarrow> is_digit c \<or> c = CHR ''-''"
  using nat_str_digits by (auto simp: int_str_def split: if_splits)

definition hex_digit :: "nat \<Rightarrow> char" where
  "hex_digit d = (if d < 10 then char_of (48 + d) else char_of (87 + d))"

definition hex_byte :: "char \<Rightarrow> string" where
  "hex_byte c = [hex_digit (of_char c div 16), hex_digit (of_char c mod 16)]"

lemma hex_digit_val: "d < 16 \<Longrightarrow> (of_char (hex_digit d) :: nat) = (if d < 10 then 48 + d else 87 + d)"
  by (simp add: hex_digit_def)

lemma hex_digit_inj:
  assumes "d < 16" and "e < 16" and "hex_digit d = hex_digit e"
  shows "d = e"
proof -
  have "(if d < 10 then 48 + d else 87 + d) = (if e < 10 then 48 + e else 87 + e)"
    using assms hex_digit_val by metis
  then show ?thesis by (auto split: if_splits)
qed

lemma hex_byte_inj: "hex_byte c = hex_byte d \<longleftrightarrow> c = d"
proof
  assume eq: "hex_byte c = hex_byte d"
  let ?c = "of_char c :: nat" and ?d = "of_char d :: nat"
  have bound: "?c div 16 < 16" "?d div 16 < 16"
    by (simp_all add: less_mult_imp_div_less)
  have "hex_digit (?c div 16) = hex_digit (?d div 16)" "hex_digit (?c mod 16) = hex_digit (?d mod 16)"
    using eq by (simp_all add: hex_byte_def)
  then have "?c div 16 = ?d div 16" "?c mod 16 = ?d mod 16"
    using bound by (auto intro: hex_digit_inj)
  then have "?c = ?d" by (metis div_mult_mod_eq)
  then show "c = d" by simp
qed simp

subsection \<open>Texts of messages\<close>

definition quoted :: "string \<Rightarrow> string" where
  "quoted s = ''`'' @ s @ ''`''"

fun joined :: "string \<Rightarrow> string list \<Rightarrow> string" where
  "joined sep [] = []"
| "joined sep [x] = x"
| "joined sep (x # xs) = x @ sep @ joined sep xs"

subsection \<open>Joining parts with a separator\<close>

fun join_with :: "'a \<Rightarrow> 'a list list \<Rightarrow> 'a list" where
  "join_with sep [] = []"
| "join_with sep [x] = x"
| "join_with sep (x # y # ys) = x @ sep # join_with sep (y # ys)"

lemma append_sep_inj:
  "sep \<notin> set xs \<Longrightarrow> sep \<notin> set ys \<Longrightarrow> xs @ sep # as = ys @ sep # bs \<longleftrightarrow> xs = ys \<and> as = bs"
proof (induction xs arbitrary: ys)
  case Nil
  then show ?case by (cases ys) auto
next
  case (Cons x xs)
  then show ?case by (cases ys) auto
qed

lemma append_sep_neq: "sep \<notin> set xs \<Longrightarrow> xs \<noteq> ys @ sep # zs"
  by auto

lemma join_with_Cons: "xs \<noteq> [] \<Longrightarrow> join_with sep (x # xs) = x @ sep # join_with sep xs"
  by (cases xs) auto

lemma join_with_eq_Nil: "\<forall>x \<in> set xs. x \<noteq> [] \<Longrightarrow> join_with sep xs = [] \<longleftrightarrow> xs = []"
  by (cases "(sep, xs)" rule: join_with.cases) auto

lemma join_with_inj:
  assumes "\<forall>x \<in> set xs. x \<noteq> [] \<and> sep \<notin> set x" and "\<forall>y \<in> set ys. y \<noteq> [] \<and> sep \<notin> set y"
    and "join_with sep xs = join_with sep ys"
  shows "xs = ys"
  using assms
proof (induction xs arbitrary: ys)
  case Nil
  then show ?case using join_with_eq_Nil [of ys sep] by simp
next
  case (Cons x xs)
  then obtain y ys' where ys: "ys = y # ys'"
    using join_with_eq_Nil [of "x # xs" sep] by (cases ys) auto
  have parts: "sep \<notin> set x" "sep \<notin> set y" using Cons.prems ys by auto
  show ?case
  proof (cases "xs = []")
    case True
    then have "ys' = []"
      using Cons.prems(3) ys parts append_sep_neq [of sep x y]
      by (cases "ys' = []") (simp_all add: join_with_Cons)
    then show ?thesis using Cons.prems(3) True ys by simp
  next
    case False
    then have "ys' \<noteq> []"
      using Cons.prems(3) ys parts append_sep_neq [of sep y x]
      by (cases "ys' = []") (simp_all add: join_with_Cons, metis)
    with False Cons.prems(3) ys parts
    have "x = y" "join_with sep xs = join_with sep ys'"
      by (simp_all add: join_with_Cons append_sep_inj)
    then show ?thesis using Cons.IH [of ys'] Cons.prems ys by simp
  qed
qed

end
