(* ===== verification/Lane.thy ===== *)
theory Lane
  imports Prelude
begin

section \<open>Lane identifiers (src/lane.rs, src/hash.rs)\<close>

text \<open>
  The durable name of an effect lane: the encoding of an arm's \<open>@key\<close> values.  A
  \<open>heklang::value::Key\<close> is the datatype \<open>key\<close> with the constructors \<open>push_key\<close> matches
  on.  The SHA-256 digest of the \<open>sha2\<close> crate is the parameter \<open>sha\<close>, a function from the
  hashed bytes to the digest's bytes.  The lemmas show that the encoding is injective up to
  a collision of that digest, and that the name of the unreadable lane is never encoded.
\<close>

datatype key =
    KInt int
  | KStr string
  | KUuid string
  | KTimestamp int
  | KEnum string string

type_synonym lane_id = string

definition UNIT_SEP :: char where
  "UNIT_SEP = CHR 0x1F"

definition PART_SEP :: char where
  "PART_SEP = CHR 0x1E"

definition LANE_MAX :: nat where
  "LANE_MAX = 512"

definition ELIDED :: string where
  "ELIDED = ''h:''"

definition sha256_hex :: "(bytes \<Rightarrow> bytes) \<Rightarrow> bytes \<Rightarrow> string" where
  "sha256_hex sha b = concat (map hex_byte (sha b))"

definition unreadable :: lane_id where
  "unreadable = ''!''"

fun escape :: "string \<Rightarrow> string" where
  "escape [] = []"
| "escape (ch # text) =
     (if ch = CHR 0x5C then [CHR 0x5C, CHR 0x5C]
      else if ch = UNIT_SEP then [CHR 0x5C, CHR ''u'']
      else if ch = PART_SEP then [CHR 0x5C, CHR ''v'']
      else [ch]) @ escape text"

fun push_key :: "key \<Rightarrow> string" where
  "push_key (KInt value) = ''i:'' @ int_str value"
| "push_key (KStr text) = ''s:'' @ escape text"
| "push_key (KUuid text) = ''u:'' @ escape text"
| "push_key (KTimestamp value) = ''t:'' @ int_str value"
| "push_key (KEnum ty variant) = ''e:'' @ escape ty @ PART_SEP # escape variant"

fun push_keys :: "nat \<Rightarrow> key list \<Rightarrow> string \<Rightarrow> string" where
  "push_keys index [] out = out"
| "push_keys index (k # keys) out =
     push_keys (index + 1) keys ((if index > 0 then out @ [UNIT_SEP] else out) @ push_key k)"

definition encode :: "(bytes \<Rightarrow> bytes) \<Rightarrow> key list \<Rightarrow> lane_id" where
  "encode sha keys =
     (let out = push_keys 0 keys []
      in if length out > LANE_MAX then ELIDED @ sha256_hex sha out else out)"

subsection \<open>Escaping\<close>

lemmas sep_defs = UNIT_SEP_def PART_SEP_def

lemma escape_no_sep [text_simps]: "UNIT_SEP \<notin> set (escape t)" "PART_SEP \<notin> set (escape t)"
  by (induction t) (auto simp: sep_defs)

lemma escape_inj [text_simps]: "escape s = escape t \<longleftrightarrow> s = t"
proof (induction s arbitrary: t)
  case Nil
  then show ?case by (cases t) auto
next
  case (Cons a s)
  then show ?case by (cases t) (auto simp: sep_defs)
qed

lemma int_str_no_sep [text_simps]: "UNIT_SEP \<notin> set (int_str i)" "PART_SEP \<notin> set (int_str i)"
  using int_str_chars by (fastforce simp: sep_defs is_digit_def)+

subsection \<open>One key\<close>

lemma push_key_no_unit: "UNIT_SEP \<notin> set (push_key k)"
  by (cases k) (auto simp: text_simps, auto simp: sep_defs)

lemma push_key_not_Nil [simp]: "push_key k \<noteq> []"
  by (cases k) auto

lemma push_key_inj: "push_key j = push_key k \<longleftrightarrow> j = k"
  by (cases j; cases k) (auto simp: text_simps append_sep_inj)

lemma push_key_tag: "push_key k = t # rest \<Longrightarrow> t \<in> set ''isute''"
  by (cases k) auto

subsection \<open>Composite keys\<close>

lemma push_keys_later:
  "index > 0 \<Longrightarrow> push_keys index ks out = out @ concat (map (\<lambda>k. UNIT_SEP # push_key k) ks)"
  by (induction ks arbitrary: index out) auto

lemma join_with_concat:
  "join_with sep (x # xs) = x @ concat (map (\<lambda>y. sep # y) xs)"
  by (induction xs arbitrary: x) auto

lemma push_keys_join: "push_keys 0 ks [] = join_with UNIT_SEP (map push_key ks)"
proof (cases ks)
  case (Cons k ks')
  then show ?thesis
    by (simp add: push_keys_later join_with_concat comp_def)
qed simp

lemma push_keys_inj: "push_keys 0 js [] = push_keys 0 ks [] \<longleftrightarrow> js = ks"
proof
  assume "push_keys 0 js [] = push_keys 0 ks []"
  then have "map push_key js = map push_key ks"
    unfolding push_keys_join by (rule join_with_inj [rotated 2]) (auto simp: push_key_no_unit)
  then show "js = ks"
    by (rule map_injective) (simp add: inj_def push_key_inj)
qed simp

lemma push_keys_tag: "push_keys 0 ks [] = t # rest \<Longrightarrow> t \<in> set ''isute''"
proof (cases ks)
  case (Cons k ks')
  assume "push_keys 0 ks [] = t # rest"
  with Cons have "push_key k @ concat (map (\<lambda>y. UNIT_SEP # y) (map push_key ks')) = t # rest"
    by (simp only: push_keys_join join_with_concat list.map)
  then obtain rest' where "push_key k = t # rest'"
    by (cases "push_key k") auto
  then show ?thesis by (rule push_key_tag)
qed simp

subsection \<open>Hexadecimal digests\<close>

lemma concat_hex_inj: "concat (map hex_byte xs) = concat (map hex_byte ys) \<longleftrightarrow> xs = ys"
proof (induction xs arbitrary: ys)
  case Nil
  then show ?case by (cases ys) (auto simp: hex_byte_def)
next
  case (Cons x xs)
  have len: "length (hex_byte c) = 2" for c by (simp add: hex_byte_def)
  show ?case
  proof (cases ys)
    case Nil
    then show ?thesis using len [of x] by auto
  next
    case (Cons y ys')
    then show ?thesis using Cons.IH [of ys'] len by (simp add: append_eq_append_conv hex_byte_inj)
  qed
qed

lemma sha256_hex_inj: "sha256_hex sha a = sha256_hex sha b \<longleftrightarrow> sha a = sha b"
  by (simp add: sha256_hex_def concat_hex_inj)

subsection \<open>The encoding as an interface\<close>

text \<open>
  What the schedulers rely on: a lane name stands for its key alone.  The interface has the
  encoder, the reserved name and the pairs of inputs the encoder may confuse.
\<close>

locale lane_names =
  fixes enc :: "'k list \<Rightarrow> lane_id" and reserved :: lane_id and clash :: "'k list \<Rightarrow> 'k list \<Rightarrow> bool"
  assumes enc_eq: "enc js = enc ks \<Longrightarrow> js = ks \<or> clash js ks"
    and enc_reserved: "enc ks \<noteq> reserved"
begin

lemma separates: "\<not> clash js ks \<Longrightarrow> js \<noteq> ks \<Longrightarrow> enc js \<noteq> enc ks"
  using enc_eq by blast

lemma lane_function:
  assumes "\<And>js ks. \<not> clash js ks"
  shows "inj enc"
  using assms enc_eq by (auto simp: inj_def)

lemma option_lane_inj:
  assumes "(case a of None \<Rightarrow> reserved | Some ks \<Rightarrow> enc ks) = (case b of None \<Rightarrow> reserved | Some ks \<Rightarrow> enc ks)"
  shows "a = b \<or> (\<exists>js ks. a = Some js \<and> b = Some ks \<and> clash js ks)"
  using assms enc_eq enc_reserved by (auto split: option.splits)

end

definition sha_clash :: "(bytes \<Rightarrow> bytes) \<Rightarrow> key list \<Rightarrow> key list \<Rightarrow> bool" where
  "sha_clash sha js ks \<longleftrightarrow>
     push_keys 0 js [] \<noteq> push_keys 0 ks [] \<and>
     length (push_keys 0 js []) > LANE_MAX \<and> length (push_keys 0 ks []) > LANE_MAX \<and>
     sha (push_keys 0 js []) = sha (push_keys 0 ks [])"

lemma verbatim_not_elided: "push_keys 0 ks [] \<noteq> ELIDED @ s"
  using push_keys_tag [of ks] by (auto simp: ELIDED_def)

lemma encode_eq: "encode sha js = encode sha ks \<Longrightarrow> js = ks \<or> sha_clash sha js ks"
  using verbatim_not_elided [of js] verbatim_not_elided [of ks]
  by (auto simp: encode_def Let_def sha_clash_def push_keys_inj sha256_hex_inj split: if_splits)
    (metis verbatim_not_elided)+

lemma encode_not_unreadable: "encode sha ks \<noteq> unreadable"
  using push_keys_tag [of ks "CHR ''!''" "[]"]
  by (auto simp: encode_def Let_def unreadable_def ELIDED_def)

interpretation ln: lane_names "encode sha" unreadable "sha_clash sha" for sha
  by unfold_locales (auto dest: encode_eq simp: encode_not_unreadable)

lemma sha_clash_encode: "sha_clash sha js ks \<Longrightarrow> encode sha js = encode sha ks"
  by (simp add: sha_clash_def encode_def Let_def sha256_hex_def)

text \<open>
  C8: a lane name stands for its key.  Two key lists have the same lane exactly when they are
  equal or collide under the digest of their over-long encodings, and no key list is ever encoded
  to the name of the unreadable lane.
\<close>

theorem lane_separates_keys:
  "(encode sha js = encode sha ks \<longleftrightarrow> js = ks \<or> sha_clash sha js ks) \<and> encode sha js \<noteq> unreadable"
  using ln.enc_eq ln.enc_reserved sha_clash_encode by blast

end
