(* ===== verification/Lanes.thy ===== *)
theory Lanes
  imports Lane
begin

section \<open>The lane scheduler (src/lanes.rs)\<close>

text \<open>
  One effect's scheduling state, \<open>LaneState\<close>, field for field, and every method of it as a
  function from the state to the result and the new state.  An \<open>Instant\<close> is a \<open>nat\<close>; a
  \<open>VecDeque\<close> is a list whose head is the front; the \<open>BTreeSet\<close> of parked lanes is a set read
  in the order of its pairs.  The lemmas describe each operation through \<open>queue\<close>, the queue
  of a lane (empty when the lane has no entry).
\<close>

datatype place = Queued | Running | Deferred nat

record pending =
  lo :: nat
  hi :: nat
  arm :: nat

record work =
  w_position :: nat
  collapsed_from :: "nat option"

record admitted =
  armed :: bool
  folded :: bool

record lane_state =
  queues :: "(lane_id, pending list) fmap"
  latest :: "(lane_id \<times> nat, nat) fmap"
  high :: "(lane_id, nat) fmap"
  place_of :: "(lane_id, place) fmap"
  deferred :: "(nat \<times> lane_id) set"
  inflight :: "(nat, lane_id) fmap"
  scanned :: nat
  rows :: "(lane_id, nat) fmap"
  begun :: "nat set"
  blind :: bool
  skip_promoted :: "(lane_id \<times> nat) set"

definition resuming :: "nat \<Rightarrow> (lane_id, nat) fmap \<Rightarrow> nat set \<Rightarrow> bool \<Rightarrow> lane_state" where
  "resuming scanned' rows' begun' blind' =
     \<lparr>queues = fmempty, latest = fmempty, high = rows', place_of = fmempty, deferred = {},
      inflight = fmempty, scanned = scanned', rows = rows', begun = begun', blind = blind',
      skip_promoted = {}\<rparr>"

definition record_row :: "lane_state \<Rightarrow> lane_id \<Rightarrow> nat \<Rightarrow> lane_state" where
  "record_row st lane position =
     (let held = (case fmlookup (rows st) lane of None \<Rightarrow> 0 | Some p \<Rightarrow> p)
      in st\<lparr>rows := fmupd lane (max held position) (rows st)\<rparr>)"

definition rows_to_sweep :: "lane_state \<Rightarrow> nat \<Rightarrow> bool" where
  "rows_to_sweep st mark \<longleftrightarrow> fBex (fmran (rows st)) (\<lambda>position. position \<le> mark)"

text \<open>The open group an \<open>on latest\<close> position takes over, removed from its queue.\<close>

definition take_open :: "lane_state \<Rightarrow> bool \<Rightarrow> lane_id \<Rightarrow> nat \<Rightarrow> pending option \<times> lane_state" where
  "take_open st collapsible lane a =
     (if \<not> collapsible then (None, st)
      else case fmlookup (latest st) (lane, a) of
        None \<Rightarrow> (None, st)
      | Some op \<Rightarrow>
         (case fmlookup (queues st) lane of
            None \<Rightarrow> (None, st)
          | Some q \<Rightarrow>
             (case List.extract (\<lambda>grp. hi grp = op \<and> arm grp = a) q of
                None \<Rightarrow> (None, st)
              | Some (before, grp, after) \<Rightarrow>
                  (Some grp, st\<lparr>queues := fmupd lane (before @ after) (queues st)\<rparr>))))"

definition queue :: "lane_state \<Rightarrow> lane_id \<Rightarrow> pending list" where
  "queue st l = (case fmlookup (queues st) l of None \<Rightarrow> [] | Some q \<Rightarrow> q)"

definition covered :: "lane_state \<Rightarrow> lane_id \<Rightarrow> nat \<Rightarrow> bool" where
  "covered st lane position =
     (case fmlookup (high st) lane of None \<Rightarrow> False | Some seen \<Rightarrow> seen \<ge> position)"

definition admit :: "lane_state \<Rightarrow> lane_id \<Rightarrow> nat \<Rightarrow> nat \<Rightarrow> bool \<Rightarrow> admitted \<times> lane_state" where
  "admit st lane position a declared =
     (let collapsible = declared \<and> \<not> blind st in
      if covered st lane position then (\<lparr>armed = False, folded = False\<rparr>, st)
      else
        let st = st\<lparr>high := fmupd lane position (high st)\<rparr>;
            supersedable = collapsible \<and> position \<notin> begun st;
            (superseded, st) = take_open st collapsible lane a;
            (grp, st) =
              (case superseded of
                 Some op \<Rightarrow> (\<lparr>lo = lo op, hi = position, arm = a\<rparr>, st)
               | None \<Rightarrow> (\<lparr>lo = position, hi = position, arm = a\<rparr>,
                   st\<lparr>inflight := fmupd position lane (inflight st)\<rparr>));
            st = (if supersedable then st\<lparr>latest := fmupd (lane, a) position (latest st)\<rparr>
                  else if collapsible then st\<lparr>latest := fmdrop (lane, a) (latest st)\<rparr>
                  else st);
            st = st\<lparr>queues := fmupd lane (queue st lane @ [grp]) (queues st)\<rparr>;
            is_armed = (fmlookup (place_of st) lane = None);
            st = (if is_armed then st\<lparr>place_of := fmupd lane Queued (place_of st)\<rparr> else st)
        in (\<lparr>armed = is_armed, folded = (superseded \<noteq> None)\<rparr>, st))"

definition set_scanned :: "lane_state \<Rightarrow> nat \<Rightarrow> lane_state" where
  "set_scanned st n = st\<lparr>scanned := max (scanned st) n\<rparr>"

definition low_water :: "lane_state \<Rightarrow> nat" where
  "low_water st =
     (case fm_first (inflight st) of
        Some (oldest, _) \<Rightarrow> min (oldest - 1) (scanned st)
      | None \<Rightarrow> scanned st)"

definition pinned_by :: "lane_state \<Rightarrow> (lane_id \<times> nat) option" where
  "pinned_by st =
     (case fm_first (inflight st) of
        None \<Rightarrow> None
      | Some (oldest, lane) \<Rightarrow>
          Some (lane,
            case fmlookup (queues st) lane of
              None \<Rightarrow> oldest
            | Some [] \<Rightarrow> oldest
            | Some (grp # _) \<Rightarrow> hi grp))"

definition inflight_count :: "lane_state \<Rightarrow> nat" where
  "inflight_count st = card (fset (fmdom (inflight st)))"

definition running :: "lane_state \<Rightarrow> nat" where
  "running st = card (Set.filter (\<lambda>l. fmlookup (place_of st) l = Some Running) (fset (fmdom (place_of st))))"

definition claim :: "lane_state \<Rightarrow> lane_id \<Rightarrow> bool \<times> lane_state" where
  "claim st lane =
     (if fmlookup (place_of st) lane \<noteq> Some Queued then (False, st)
      else (True, st\<lparr>place_of := fmupd lane Running (place_of st)\<rparr>))"

definition head :: "lane_state \<Rightarrow> lane_id \<Rightarrow> work option \<times> lane_state" where
  "head st lane =
     (case fmlookup (queues st) lane of
        None \<Rightarrow> (None, st)
      | Some [] \<Rightarrow> (None, st)
      | Some (grp # _) \<Rightarrow>
          (Some \<lparr>w_position = hi grp,
                 collapsed_from = (if lo grp < hi grp then Some (lo grp) else None)\<rparr>,
           if fmlookup (latest st) (lane, arm grp) = Some (hi grp)
           then st\<lparr>latest := fmdrop (lane, arm grp) (latest st)\<rparr> else st))"

definition complete :: "lane_state \<Rightarrow> lane_id \<Rightarrow> nat \<Rightarrow> bool \<times> lane_state" where
  "complete st lane position =
     (let (retired, st) =
        (case fmlookup (queues st) lane of
           None \<Rightarrow> (position, st)
         | Some [] \<Rightarrow> (position, st)
         | Some (grp # rest) \<Rightarrow>
             if hi grp \<noteq> position then (position, st)
             else
               let st = st\<lparr>queues := (if rest = [] then fmdrop lane (queues st)
                                      else fmupd lane rest (queues st))\<rparr>;
                   st = (if fmlookup (latest st) (lane, arm grp) = Some (hi grp)
                         then st\<lparr>latest := fmdrop (lane, arm grp) (latest st)\<rparr> else st)
               in (lo grp, st));
        st = st\<lparr>inflight := fmdrop retired (inflight st),
                skip_promoted := skip_promoted st - {(lane, position)}\<rparr>
      in (case fm_first (inflight st) of None \<Rightarrow> False | Some (oldest, _) \<Rightarrow> oldest < position, st))"

definition release :: "lane_state \<Rightarrow> lane_id \<Rightarrow> bool \<times> lane_state" where
  "release st lane =
     (let st = st\<lparr>place_of := fmdrop lane (place_of st)\<rparr> in
      if fmlookup (queues st) lane \<noteq> None
      then (True, st\<lparr>place_of := fmupd lane Queued (place_of st)\<rparr>)
      else (False, st))"

definition defer_lane :: "lane_state \<Rightarrow> lane_id \<Rightarrow> nat \<Rightarrow> lane_state" where
  "defer_lane st lane deadline =
     st\<lparr>place_of := fmupd lane (Deferred deadline) (place_of st),
        deferred := insert (deadline, lane) (deferred st)\<rparr>"

text \<open>One entry of the \<open>due\<close> list: it leaves the set, and wakes its lane if it is current.\<close>

definition wake_one :: "(nat \<times> lane_id) \<Rightarrow> lane_id list \<times> lane_state \<Rightarrow> lane_id list \<times> lane_state" where
  "wake_one entry acc =
     (case (entry, acc) of ((deadline, lane), (woken, st)) \<Rightarrow>
       let st = st\<lparr>deferred := deferred st - {entry}\<rparr> in
       if fmlookup (place_of st) lane = Some (Deferred deadline)
       then (woken @ [lane], st\<lparr>place_of := fmupd lane Queued (place_of st)\<rparr>)
       else (woken, st))"

definition promote :: "lane_state \<Rightarrow> nat \<Rightarrow> lane_id list \<times> lane_state" where
  "promote st now =
     (let due = takeWhile (\<lambda>(deadline, _). deadline \<le> now) (sorted_list_of_set (deferred st))
      in fold wake_one due ([], st))"

definition wake_skipped :: "(nat \<times> lane_id) \<Rightarrow> lane_id list \<times> lane_state \<Rightarrow> lane_id list \<times> lane_state" where
  "wake_skipped entry acc =
     (case (entry, acc) of ((deadline, lane), (woken, st)) \<Rightarrow>
       let st = st\<lparr>deferred := deferred st - {entry}\<rparr> in
       if fmlookup (place_of st) lane = Some (Deferred deadline)
       then
         let st = (case queue st lane of
                     [] \<Rightarrow> st
                   | grp # _ \<Rightarrow> st\<lparr>skip_promoted := insert (lane, hi grp) (skip_promoted st)\<rparr>)
         in (woken @ [lane], st\<lparr>place_of := fmupd lane Queued (place_of st)\<rparr>)
       else (woken, st))"

definition promote_matching :: "lane_state \<Rightarrow> (nat \<Rightarrow> bool) \<Rightarrow> lane_id list \<times> lane_state" where
  "promote_matching st wanted =
     (let due = filter (\<lambda>(_, lane). case queue st lane of
                           [] \<Rightarrow> False
                         | grp # _ \<Rightarrow> (lane, hi grp) \<notin> skip_promoted st \<and> wanted (hi grp))
                  (sorted_list_of_set (deferred st))
      in fold wake_skipped due ([], st))"

definition next_deadline :: "lane_state \<Rightarrow> nat option" where
  "next_deadline st =
     (case sorted_list_of_set (deferred st) of [] \<Rightarrow> None | (deadline, _) # _ \<Rightarrow> Some deadline)"

definition prune_rows :: "lane_state \<Rightarrow> nat \<Rightarrow> lane_state" where
  "prune_rows st mark =
     st\<lparr>rows := fmfilter (\<lambda>l. case fmlookup (rows st) l of None \<Rightarrow> False | Some d \<Rightarrow> d > mark) (rows st)\<rparr>"

definition forget :: "lane_state \<Rightarrow> nat \<Rightarrow> lane_state" where
  "forget st mark =
     st\<lparr>high := fmfilter (\<lambda>l. case fmlookup (high st) l of None \<Rightarrow> False | Some d \<Rightarrow> d > mark) (high st),
        begun := Set.filter (\<lambda>position. position > mark) (begun st)\<rparr>"

subsection \<open>Queues and the operations on them\<close>

lemma queue_simps [simp]:
  "queue (st\<lparr>high := x1\<rparr>) = queue st" "queue (st\<lparr>latest := x2\<rparr>) = queue st"
  "queue (st\<lparr>place_of := x3\<rparr>) = queue st" "queue (st\<lparr>deferred := x4\<rparr>) = queue st"
  "queue (st\<lparr>inflight := x5\<rparr>) = queue st" "queue (st\<lparr>scanned := x6\<rparr>) = queue st"
  "queue (st\<lparr>rows := x7\<rparr>) = queue st" "queue (st\<lparr>begun := x8\<rparr>) = queue st"
  "queue (st\<lparr>skip_promoted := x9\<rparr>) = queue st"
  by (simp_all add: queue_def fun_eq_iff)

lemma queue_upd [simp]: "queue (st\<lparr>queues := fmupd l q (queues st)\<rparr>) = (queue st)(l := q)"
  by (auto simp: queue_def fun_eq_iff)

lemma queue_drop [simp]: "queue (st\<lparr>queues := fmdrop l (queues st)\<rparr>) = (queue st)(l := [])"
  by (auto simp: queue_def fun_eq_iff)

lemma queue_lookup: "queue st l = g # q \<Longrightarrow> fmlookup (queues st) l = Some (g # q)"
  by (auto simp: queue_def split: option.splits)

lemma queue_resuming [simp]: "queue (resuming n r b bl) l = []"
  by (simp add: queue_def resuming_def)

lemma take_open_Some:
  assumes "take_open st c l a = (Some g, st')"
  shows "c \<and> fmlookup (latest st) (l, a) = Some (hi g) \<and> arm g = a \<and>
    (\<exists>us vs. queue st l = us @ g # vs \<and> st' = st\<lparr>queues := fmupd l (us @ vs) (queues st)\<rparr>)"
  using assms
  by (auto simp: take_open_def queue_def split: if_splits option.splits dest!: extract_SomeE)

lemma take_open_None:
  assumes "take_open st c l a = (None, st')"
  shows "st' = st \<and> (c \<longrightarrow> (\<forall>g \<in> set (queue st l). fmlookup (latest st) (l, a) = Some (hi g) \<longrightarrow> arm g \<noteq> a))"
  using assms
  by (auto simp: take_open_def queue_def extract_None_iff split: if_splits option.splits)

lemma admit_covered: "covered st l p \<Longrightarrow> admit st l p a d = (\<lparr>armed = False, folded = False\<rparr>, st)"
  by (simp add: admit_def)

text \<open>
  A fresh position either queues a group of its own or takes over the open group of its arm;
  the two shapes of the new state, field by field.
\<close>

definition admit_latest :: "lane_state \<Rightarrow> lane_id \<Rightarrow> nat \<Rightarrow> nat \<Rightarrow> bool \<Rightarrow> (lane_id \<times> nat, nat) fmap" where
  "admit_latest st l p a d =
     (if d \<and> \<not> blind st \<and> p \<notin> begun st then fmupd (l, a) p (latest st)
      else if d \<and> \<not> blind st then fmdrop (l, a) (latest st) else latest st)"

definition admit_place :: "lane_state \<Rightarrow> lane_id \<Rightarrow> (lane_id, place) fmap" where
  "admit_place st l = (if fmlookup (place_of st) l = None then fmupd l Queued (place_of st) else place_of st)"

lemma take_open_high [simp]:
  "take_open (st\<lparr>high := h\<rparr>) c l a = (case take_open st c l a of (g, s) \<Rightarrow> (g, s\<lparr>high := h\<rparr>))"
  by (auto simp: take_open_def split: option.splits)

lemma admit_fresh:
  assumes "\<not> covered st l p" and "take_open st (d \<and> \<not> blind st) l a = (None, st')"
  shows "admit st l p a d =
    (\<lparr>armed = (fmlookup (place_of st) l = None), folded = False\<rparr>,
     st\<lparr>high := fmupd l p (high st), latest := admit_latest st l p a d,
        queues := fmupd l (queue st l @ [\<lparr>lo = p, hi = p, arm = a\<rparr>]) (queues st),
        inflight := fmupd p l (inflight st), place_of := admit_place st l\<rparr>)"
proof -
  have "st' = st" using take_open_None [OF assms(2)] by simp
  with assms show ?thesis
    by (cases "fmlookup (place_of st) l")
      (auto simp: admit_def admit_latest_def admit_place_def Let_def intro!: lane_state.equality)
qed

lemma admit_folds:
  assumes "\<not> covered st l p" and "take_open st (d \<and> \<not> blind st) l a = (Some g, st')"
    and "queue st l = us @ g # vs" and "queues st' = fmupd l (us @ vs) (queues st)"
  shows "admit st l p a d =
    (\<lparr>armed = (fmlookup (place_of st) l = None), folded = True\<rparr>,
     st\<lparr>high := fmupd l p (high st), latest := admit_latest st l p a d,
        queues := fmupd l (us @ vs @ [\<lparr>lo = lo g, hi = p, arm = a\<rparr>]) (queues st),
        place_of := admit_place st l\<rparr>)"
proof -
  have "st' = st\<lparr>queues := fmupd l (us @ vs) (queues st)\<rparr>"
    using take_open_Some [OF assms(2)] assms(4) by auto
  moreover have "d \<and> \<not> blind st" using take_open_Some [OF assms(2)] by simp
  ultimately show ?thesis
    using assms(1,2) by (cases "fmlookup (place_of st) l")
      (auto simp: admit_def admit_latest_def admit_place_def Let_def intro!: lane_state.equality)
qed

lemma complete_head:
  assumes "queue st l = g # q" and "hi g = p"
  shows "complete st l p =
    (let st' = st\<lparr>queues := (if q = [] then fmdrop l (queues st) else fmupd l q (queues st)),
           latest := (if fmlookup (latest st) (l, arm g) = Some (hi g)
                      then fmdrop (l, arm g) (latest st) else latest st),
           inflight := fmdrop (lo g) (inflight st),
           skip_promoted := skip_promoted st - {(l, p)}\<rparr>
     in (case fm_first (inflight st') of None \<Rightarrow> False | Some (oldest, _) \<Rightarrow> oldest < p, st'))"
  using queue_lookup [OF assms(1)] assms(2) by (simp add: complete_def Let_def)

lemma queue_complete:
  assumes "queue st l = g # q" and "hi g = p"
  shows "queue (snd (complete st l p)) = (queue st)(l := q)"
  by (auto simp: complete_head [OF assms] Let_def queue_def fun_eq_iff)

end
