(* ===== verification/Lane_Inv.thy ===== *)
theory Lane_Inv
  imports Lanes
begin

section \<open>The invariant of the lane scheduler\<close>

text \<open>
  What the scheduler keeps true between its fields, split by concern, and one preservation
  lemma per operation.  \<open>ans p\<close> says what the log holds at a position: \<open>None\<close> for an event
  the effect does not answer, and the lane, the arm and the collapsibility of one it does.
  \<open>start\<close> is the position the process resumed from, \<open>mark\<close> the persisted watermark,
  \<open>offered\<close> the last position offered, \<open>retired\<close> the positions a finished invocation covers and
  \<open>hist\<close> the completions in their order.
\<close>

type_synonym answers = "nat \<Rightarrow> (lane_id \<times> nat \<times> bool) option"

named_theorems sched_defs "the conjuncts of the scheduler's invariant"

definition group_ok :: "answers \<Rightarrow> nat \<Rightarrow> nat \<Rightarrow> lane_state \<Rightarrow> lane_id \<Rightarrow> pending \<Rightarrow> bool" where
  "group_ok ans mark offered st l g \<longleftrightarrow>
     lo g \<le> hi g \<and> mark < lo g \<and> hi g \<le> offered \<and>
     (\<exists>c. ans (lo g) = Some (l, arm g, c)) \<and> (\<exists>c. ans (hi g) = Some (l, arm g, c)) \<and>
     (\<exists>h. fmlookup (high st) l = Some h \<and> hi g \<le> h) \<and>
     (lo g < hi g \<longrightarrow> ans (hi g) = Some (l, arm g, True))"

definition queues_ok :: "answers \<Rightarrow> nat \<Rightarrow> nat \<Rightarrow> lane_state \<Rightarrow> bool" where
  "queues_ok ans mark offered st \<longleftrightarrow>
     (\<forall>l. fmlookup (queues st) l \<noteq> Some []) \<and>
     (\<forall>l. sorted_wrt (\<lambda>g h. hi g < hi h) (queue st l)) \<and>
     (\<forall>l. \<forall>g \<in> set (queue st l). group_ok ans mark offered st l g) \<and>
     (\<forall>l. \<forall>g \<in> set (queue st l). \<forall>g' \<in> set (queue st l).
        arm g = arm g' \<longrightarrow> g \<noteq> g' \<longrightarrow> hi g < lo g' \<or> hi g' < lo g)"

definition inflight_ok :: "lane_state \<Rightarrow> bool" where
  "inflight_ok st \<longleftrightarrow>
     (\<forall>p l. fmlookup (inflight st) p = Some l \<longleftrightarrow> (\<exists>g \<in> set (queue st l). lo g = p))"

definition latest_ok :: "answers \<Rightarrow> lane_state \<Rightarrow> bool" where
  "latest_ok ans st \<longleftrightarrow>
     (\<forall>l a p. fmlookup (latest st) (l, a) = Some p \<longrightarrow>
        \<not> blind st \<and> (\<forall>q c. ans q = Some (l, a, c) \<longrightarrow> c) \<and>
        (\<exists>g \<in> set (queue st l). hi g = p \<and> arm g = a \<and>
           (\<forall>g' \<in> set (queue st l). arm g' = a \<longrightarrow> hi g' \<le> p)))"

definition place_ok :: "lane_state \<Rightarrow> bool" where
  "place_ok st \<longleftrightarrow>
     finite (deferred st) \<and>
     (\<forall>l. (queue st l \<noteq> [] \<longrightarrow> fmlookup (place_of st) l \<noteq> None) \<and>
          (fmlookup (place_of st) l \<noteq> None \<longrightarrow> fmlookup (place_of st) l \<noteq> Some Running \<longrightarrow> queue st l \<noteq> []) \<and>
          (\<forall>d. fmlookup (place_of st) l = Some (Deferred d) \<longrightarrow> (d, l) \<in> deferred st))"

definition cover_ok :: "answers \<Rightarrow> nat \<Rightarrow> nat \<Rightarrow> nat \<Rightarrow> nat set \<Rightarrow> lane_state \<Rightarrow> bool" where
  "cover_ok ans start mark offered retired st \<longleftrightarrow>
     start \<le> mark \<and> mark \<le> offered \<and>
     (\<forall>p l a c h. ans p = Some (l, a, c) \<longrightarrow> start < p \<longrightarrow> fmlookup (high st) l = Some h \<longrightarrow> p \<le> h \<longrightarrow>
        p \<in> retired \<or> (\<exists>g \<in> set (queue st l). arm g = a \<and> lo g \<le> p \<and> p \<le> hi g)) \<and>
     (\<forall>p l a c. ans p = Some (l, a, c) \<longrightarrow> start < p \<longrightarrow> p \<le> mark \<longrightarrow> p \<in> retired) \<and>
     (\<forall>p l a c. ans p = Some (l, a, c) \<longrightarrow> mark < p \<longrightarrow> p \<le> offered \<longrightarrow>
        p \<in> retired \<or> (\<exists>h. fmlookup (high st) l = Some h \<and> p \<le> h))"

definition order_ok :: "nat \<Rightarrow> (lane_id \<times> nat) list \<Rightarrow> lane_state \<Rightarrow> bool" where
  "order_ok mark hist st \<longleftrightarrow>
     (\<forall>l. sorted_wrt (<) (map snd (filter (\<lambda>e. fst e = l) hist))) \<and>
     (\<forall>l c. (l, c) \<in> set hist \<longrightarrow>
        (c \<le> mark \<or> (\<exists>h. fmlookup (high st) l = Some h \<and> c \<le> h)) \<and>
        (\<forall>g \<in> set (queue st l). c < hi g))"

definition sched_ok :: "answers \<Rightarrow> nat \<Rightarrow> nat \<Rightarrow> nat \<Rightarrow> nat set \<Rightarrow> (lane_id \<times> nat) list \<Rightarrow> lane_state \<Rightarrow> bool" where
  "sched_ok ans start mark offered retired hist st \<longleftrightarrow>
     queues_ok ans mark offered st \<and> inflight_ok st \<and> latest_ok ans st \<and> place_ok st \<and>
     cover_ok ans start mark offered retired st \<and> order_ok mark hist st"

lemmas sched_conj = queues_ok_def group_ok_def inflight_ok_def latest_ok_def place_ok_def
  cover_ok_def order_ok_def

text \<open>The collapsibility an arm declares is fixed for a lane and an arm.\<close>

definition answers_ok :: "answers \<Rightarrow> bool" where
  "answers_ok ans \<longleftrightarrow>
     (\<forall>p q l a c d. ans p = Some (l, a, c) \<longrightarrow> ans q = Some (l, a, d) \<longrightarrow> c = d)"

subsection \<open>Consequences\<close>

lemma queues_okD:
  assumes "queues_ok ans mark offered st"
  shows "fmlookup (queues st) l \<noteq> Some []"
    and "sorted_wrt (\<lambda>g h. hi g < hi h) (queue st l)"
    and "g \<in> set (queue st l) \<Longrightarrow> group_ok ans mark offered st l g"
    and "g \<in> set (queue st l) \<Longrightarrow> g' \<in> set (queue st l) \<Longrightarrow> arm g = arm g' \<Longrightarrow> g \<noteq> g' \<Longrightarrow>
           hi g < lo g' \<or> hi g' < lo g"
  using assms by (simp_all add: queues_ok_def)

lemma group_okD:
  assumes "group_ok ans mark offered st l g"
  shows "lo g \<le> hi g" "mark < lo g" "hi g \<le> offered" "0 < lo g"
    "\<exists>c. ans (lo g) = Some (l, arm g, c)" "\<exists>c. ans (hi g) = Some (l, arm g, c)"
    "\<exists>h. fmlookup (high st) l = Some h \<and> hi g \<le> h"
    "lo g < hi g \<Longrightarrow> ans (hi g) = Some (l, arm g, True)"
  using assms by (auto simp: group_ok_def)

lemma cover_okD:
  assumes "cover_ok ans start mark offered retired st" and "ans p = Some (l, a, c)"
  shows "start < p \<Longrightarrow> fmlookup (high st) l = Some h \<Longrightarrow> p \<le> h \<Longrightarrow>
           p \<in> retired \<or> (\<exists>g \<in> set (queue st l). arm g = a \<and> lo g \<le> p \<and> p \<le> hi g)"
    and "start < p \<Longrightarrow> p \<le> mark \<Longrightarrow> p \<in> retired"
    and "mark < p \<Longrightarrow> p \<le> offered \<Longrightarrow> p \<in> retired \<or> (\<exists>h. fmlookup (high st) l = Some h \<and> p \<le> h)"
  using assms unfolding cover_ok_def by blast+

lemma sorted_wrt_hi_inj:
  "sorted_wrt (\<lambda>g h. hi g < hi h) q \<Longrightarrow> x \<in> set q \<Longrightarrow> y \<in> set q \<Longrightarrow> hi x = hi y \<Longrightarrow> x = (y :: pending)"
  by (induction q) auto

lemma groups_distinct_lo:
  assumes "queues_ok ans mark offered st" and "g \<in> set (queue st l)" and "g' \<in> set (queue st l)"
    and "lo g = lo g'"
  shows "g = g'"
proof (rule ccontr)
  assume "g \<noteq> g'"
  note ok = group_okD [OF queues_okD(3) [OF assms(1,2)]] group_okD [OF queues_okD(3) [OF assms(1,3)]]
  have "arm g = arm g'" using ok assms(4) by auto
  then have "hi g < lo g' \<or> hi g' < lo g"
    using queues_okD(4) [OF assms(1-3)] \<open>g \<noteq> g'\<close> by blast
  with assms(4) ok show False by auto
qed

lemma low_water_le_scanned: "low_water st \<le> scanned st"
  by (simp add: low_water_def split: option.splits prod.splits)

lemma low_water_below:
  assumes "queues_ok ans mark offered st" and "inflight_ok st" and "g \<in> set (queue st l)"
  shows "low_water st < lo g"
proof -
  have pos: "0 < lo g" by (rule group_okD(4) [OF queues_okD(3) [OF assms(1,3)]])
  have "fmlookup (inflight st) (lo g) = Some l"
    using assms(2,3) by (auto simp: inflight_ok_def)
  then obtain k v where "fm_first (inflight st) = Some (k, v)" "k \<le> lo g"
    using fm_first_Some_ex [of "inflight st" "lo g" l] by blast
  then have "low_water st \<le> k - 1" by (simp add: low_water_def)
  with \<open>k \<le> lo g\<close> pos show ?thesis by linarith
qed

lemma low_water_bound:
  assumes "n \<le> scanned st" and "\<And>p l. fmlookup (inflight st) p = Some l \<Longrightarrow> n < p"
  shows "n \<le> low_water st"
proof (cases "fm_first (inflight st)")
  case None
  with assms show ?thesis by (simp add: low_water_def)
next
  case (Some kv)
  then obtain k v where kv: "fm_first (inflight st) = Some (k, v)" by (cases kv) auto
  then have "n < k" using assms(2) by (auto simp: fm_first_Some_iff)
  with kv assms(1) show ?thesis by (simp add: low_water_def)
qed

lemma mark_le_low_water:
  assumes "queues_ok ans mark offered st" and "inflight_ok st" and "mark \<le> scanned st"
  shows "mark \<le> low_water st"
proof (rule low_water_bound [OF assms(3)])
  fix p l
  assume "fmlookup (inflight st) p = Some l"
  then obtain g where "g \<in> set (queue st l)" "lo g = p"
    using assms(2) by (auto simp: inflight_ok_def)
  then show "mark < p" using group_okD(2) [OF queues_okD(3) [OF assms(1)]] by blast
qed

lemma low_water_retired:
  assumes ok: "sched_ok ans start mark offered retired hist st" and sc: "scanned st \<le> offered"
    and ans: "ans p = Some (l, a, c)" and "start < p" and "p \<le> low_water st"
  shows "p \<in> retired"
proof (rule ccontr)
  assume no: "p \<notin> retired"
  have cov: "cover_ok ans start mark offered retired st" and q: "queues_ok ans mark offered st"
    and inf: "inflight_ok st" using ok by (simp_all add: sched_ok_def)
  have "p \<le> offered" using sc assms(5) low_water_le_scanned [of st] by linarith
  moreover have "mark < p" using cover_okD(2) [OF cov ans \<open>start < p\<close>] no by force
  ultimately obtain h where "fmlookup (high st) l = Some h" "p \<le> h"
    using cover_okD(3) [OF cov ans] no by blast
  then obtain g where "g \<in> set (queue st l)" "lo g \<le> p"
    using cover_okD(1) [OF cov ans \<open>start < p\<close>] no by blast
  with low_water_below [OF q inf] assms(5) show False by force
qed

subsection \<open>Operations on the places of the lanes\<close>

lemma sched_frame:
  assumes "sched_ok ans start mark offered retired hist st"
    and "queues st' = queues st" and "latest st' = latest st" and "high st' = high st"
    and "inflight st' = inflight st" and "blind st' = blind st" and "place_ok st'"
  shows "sched_ok ans start mark offered retired hist st'"
proof -
  have q: "queue st' = queue st" using assms(2) by (simp add: queue_def fun_eq_iff)
  have "queues_ok ans mark offered st' = queues_ok ans mark offered st"
    by (simp only: queues_ok_def group_ok_def q assms)
  moreover have "inflight_ok st' = inflight_ok st" by (simp only: inflight_ok_def q assms)
  moreover have "latest_ok ans st' = latest_ok ans st" by (simp only: latest_ok_def q assms)
  moreover have "cover_ok ans start mark offered retired st' = cover_ok ans start mark offered retired st"
    by (simp only: cover_ok_def q assms)
  moreover have "order_ok mark hist st' = order_ok mark hist st" by (simp only: order_ok_def q assms)
  ultimately show ?thesis using assms(1,7) by (simp only: sched_ok_def)
qed

lemma place_ok_cong:
  "queues st' = queues st \<Longrightarrow> place_of st' = place_of st \<Longrightarrow> deferred st' = deferred st \<Longrightarrow>
     place_ok st \<Longrightarrow> place_ok st'"
proof -
  assume eq: "queues st' = queues st" "place_of st' = place_of st" "deferred st' = deferred st"
  then have "queue st' = queue st" by (simp add: queue_def fun_eq_iff)
  with eq have "place_ok st' = place_ok st" by (simp only: place_ok_def)
  then show "place_ok st \<Longrightarrow> place_ok st'" by simp
qed

lemma sched_place: "sched_ok ans start mark offered retired hist st \<Longrightarrow> place_ok st"
  by (simp add: sched_ok_def)

lemma place_okD:
  assumes "place_ok st"
  shows "finite (deferred st)"
    and "queue st l \<noteq> [] \<Longrightarrow> fmlookup (place_of st) l \<noteq> None"
    and "fmlookup (place_of st) l = Some pl \<Longrightarrow> pl \<noteq> Running \<Longrightarrow> queue st l \<noteq> []"
    and "fmlookup (place_of st) l = Some (Deferred d) \<Longrightarrow> (d, l) \<in> deferred st"
  using assms by (auto simp: place_ok_def)

lemma sched_set_scanned:
  "sched_ok ans start mark offered retired hist st \<Longrightarrow> sched_ok ans start mark offered retired hist (set_scanned st n)"
  by (rule sched_frame, assumption) (auto intro: place_ok_cong sched_place simp: set_scanned_def Let_def)

lemma sched_record_row:
  "sched_ok ans start mark offered retired hist st \<Longrightarrow> sched_ok ans start mark offered retired hist (record_row st l p)"
  by (rule sched_frame, assumption) (auto intro: place_ok_cong sched_place simp: record_row_def Let_def)

lemma sched_prune_rows:
  "sched_ok ans start mark offered retired hist st \<Longrightarrow> sched_ok ans start mark offered retired hist (prune_rows st n)"
  by (rule sched_frame, assumption) (auto intro: place_ok_cong sched_place simp: prune_rows_def Let_def)

lemma claim_place:
  "claim st l = (True, st') \<longleftrightarrow>
     fmlookup (place_of st) l = Some Queued \<and> st' = st\<lparr>place_of := fmupd l Running (place_of st)\<rparr>"
  by (auto simp: claim_def split: if_splits)

lemma sched_claim:
  assumes "sched_ok ans start mark offered retired hist st"
  shows "sched_ok ans start mark offered retired hist (snd (claim st l))"
  using assms
proof (rule sched_frame)
  show "place_ok (snd (claim st l))"
    using sched_place [OF assms] by (auto simp: claim_def place_ok_def)
qed (simp_all add: claim_def)

lemma sched_release:
  assumes "sched_ok ans start mark offered retired hist st"
  shows "sched_ok ans start mark offered retired hist (snd (release st l))"
  using assms
proof (rule sched_frame)
  have "fmlookup (queues st) l \<noteq> Some []" using assms by (simp add: sched_ok_def queues_ok_def)
  then show "place_ok (snd (release st l))"
    using sched_place [OF assms]
    by (auto simp: release_def place_ok_def Let_def queue_def split: option.splits if_splits)
qed (simp_all add: release_def Let_def)

lemma sched_defer:
  assumes "sched_ok ans start mark offered retired hist st" and "queue st l \<noteq> []"
  shows "sched_ok ans start mark offered retired hist (defer_lane st l d)"
  using assms(1)
proof (rule sched_frame)
  show "place_ok (defer_lane st l d)"
    using sched_place [OF assms(1)] assms(2) by (auto simp: defer_lane_def place_ok_def)
qed (simp_all add: defer_lane_def)

text \<open>What waking a list of parked entries keeps, shared by both kinds of promotion.\<close>

definition same_work :: "lane_state \<Rightarrow> lane_state \<Rightarrow> bool" where
  "same_work st st' \<longleftrightarrow>
     queues st' = queues st \<and> latest st' = latest st \<and> high st' = high st \<and>
     inflight st' = inflight st \<and> blind st' = blind st \<and> scanned st' = scanned st \<and>
     rows st' = rows st \<and> begun st' = begun st \<and>
     (\<forall>l. fmlookup (place_of st') l = Some Running \<longleftrightarrow> fmlookup (place_of st) l = Some Running)"

lemma same_work_refl [simp]: "same_work st st"
  by (simp add: same_work_def)

lemma same_work_trans: "same_work a b \<Longrightarrow> same_work b c \<Longrightarrow> same_work a c"
  by (simp add: same_work_def)

lemma same_work_queue: "same_work st st' \<Longrightarrow> queue st' = queue st"
  by (simp add: same_work_def queue_def fun_eq_iff)

lemma wake_one_step:
  assumes "place_ok st"
  shows "place_ok (snd (wake_one e (w, st))) \<and> same_work st (snd (wake_one e (w, st)))"
  using assms
  by (cases e) (auto simp: wake_one_def Let_def place_ok_def same_work_def)

lemma wake_skipped_step:
  assumes "place_ok st"
  shows "place_ok (snd (wake_skipped e (w, st))) \<and> same_work st (snd (wake_skipped e (w, st)))"
  using assms
  by (cases e) (auto simp: wake_skipped_def Let_def place_ok_def same_work_def split: list.splits)

lemma fold_wake_ok:
  assumes step: "\<And>e w st. place_ok st \<Longrightarrow> place_ok (snd (f e (w, st))) \<and> same_work st (snd (f e (w, st)))"
    and "place_ok st"
  shows "place_ok (snd (fold f due (w, st))) \<and> same_work st (snd (fold f due (w, st)))"
  using assms(2)
proof (induction due arbitrary: w st)
  case (Cons e due)
  have s: "place_ok (snd (f e (w, st)))" "same_work st (snd (f e (w, st)))"
    using step [OF Cons.prems] by auto
  obtain w' st' where r: "f e (w, st) = (w', st')" by fastforce
  with s Cons.IH [of st' w'] show ?case by (auto intro: same_work_trans)
qed simp

lemma promote_ok:
  "place_ok st \<Longrightarrow> place_ok (snd (promote st now)) \<and> same_work st (snd (promote st now))"
  unfolding promote_def Let_def by (rule fold_wake_ok [OF wake_one_step])

lemma promote_matching_ok:
  "place_ok st \<Longrightarrow> place_ok (snd (promote_matching st f)) \<and> same_work st (snd (promote_matching st f))"
  unfolding promote_matching_def Let_def by (rule fold_wake_ok [OF wake_skipped_step])

lemma sched_same_work:
  "sched_ok ans start mark offered retired hist st \<Longrightarrow> same_work st st' \<Longrightarrow> place_ok st' \<Longrightarrow>
     sched_ok ans start mark offered retired hist st'"
  by (rule sched_frame) (simp_all add: same_work_def)

subsection \<open>Taking, finishing and forgetting work\<close>

lemma latest_okD:
  assumes "latest_ok ans st" and "fmlookup (latest st) (l, a) = Some p"
  shows "\<not> blind st" and "ans q = Some (l, a, c) \<Longrightarrow> c"
    and "\<exists>g \<in> set (queue st l). hi g = p \<and> arm g = a \<and> (\<forall>g' \<in> set (queue st l). arm g' = a \<longrightarrow> hi g' \<le> p)"
  using assms unfolding latest_ok_def by blast+

lemma latest_ok_sub:
  assumes "latest_ok ans st" and "blind st' = blind st" and "queue st' = queue st"
    and "\<And>k p. fmlookup (latest st') k = Some p \<Longrightarrow> fmlookup (latest st) k = Some p"
  shows "latest_ok ans st'"
  unfolding latest_ok_def
proof (intro allI impI)
  fix l a p
  assume "fmlookup (latest st') (l, a) = Some p"
  then have lk: "fmlookup (latest st) (l, a) = Some p" by (rule assms(4))
  show "\<not> blind st' \<and> (\<forall>q c. ans q = Some (l, a, c) \<longrightarrow> c) \<and>
      (\<exists>g \<in> set (queue st' l). hi g = p \<and> arm g = a \<and> (\<forall>g' \<in> set (queue st' l). arm g' = a \<longrightarrow> hi g' \<le> p))"
    unfolding assms(2,3) using latest_okD [OF assms(1) lk] by blast
qed

lemma sched_head:
  assumes "sched_ok ans start mark offered retired hist st"
  shows "sched_ok ans start mark offered retired hist (snd (head st l))"
proof -
  obtain m where m: "snd (head st l) = st\<lparr>latest := m\<rparr>"
    and sub: "\<And>k p. fmlookup m k = Some p \<Longrightarrow> fmlookup (latest st) k = Some p"
  proof (cases "snd (head st l) = st")
    case True
    then show ?thesis by (intro that [of "latest st"]) simp_all
  next
    case False
    then obtain k where "snd (head st l) = st\<lparr>latest := fmdrop k (latest st)\<rparr>"
      by (auto simp: head_def split: option.splits list.splits if_splits)
    then show ?thesis by (intro that [of "fmdrop k (latest st)"]) (auto split: if_splits)
  qed
  have "latest_ok ans st" using assms by (simp add: sched_ok_def)
  then have "latest_ok ans (st\<lparr>latest := m\<rparr>)"
    by (rule latest_ok_sub) (simp_all add: sub)
  moreover have "place_ok (st\<lparr>latest := m\<rparr>)"
    using assms by (auto intro: place_ok_cong simp: sched_ok_def)
  moreover have "queues_ok ans mark offered (st\<lparr>latest := m\<rparr>) = queues_ok ans mark offered st"
    "inflight_ok (st\<lparr>latest := m\<rparr>) = inflight_ok st"
    "cover_ok ans start mark offered retired (st\<lparr>latest := m\<rparr>) = cover_ok ans start mark offered retired st"
    "order_ok mark hist (st\<lparr>latest := m\<rparr>) = order_ok mark hist st"
    by (simp_all add: queues_ok_def group_ok_def inflight_ok_def cover_ok_def order_ok_def)
  ultimately show ?thesis using assms unfolding m by (simp add: sched_ok_def)
qed

lemma head_work:
  assumes "queue st l = g # q"
  shows "fst (head st l) = Some \<lparr>w_position = hi g, collapsed_from = (if lo g < hi g then Some (lo g) else None)\<rparr>"
    and "queue (snd (head st l)) = queue st" and "place_of (snd (head st l)) = place_of st"
    and "fmlookup (latest (snd (head st l))) (l, arm g) \<noteq> Some (hi g)"
    and "fmlookup (latest (snd (head st l))) k \<noteq> None \<Longrightarrow>
      fmlookup (latest (snd (head st l))) k = fmlookup (latest st) k"
  using queue_lookup [OF assms] by (auto simp: head_def split: if_splits)

text \<open>The positions a unit of work covers: its range, in its lane and of its arm.\<close>

definition covers :: "answers \<Rightarrow> lane_id \<Rightarrow> work \<Rightarrow> nat set" where
  "covers ans l w =
     (let oldest = (case collapsed_from w of None \<Rightarrow> w_position w | Some f \<Rightarrow> f) in
      case ans (w_position w) of
        None \<Rightarrow> {}
      | Some (l', a, _) \<Rightarrow>
          Set.filter (\<lambda>p. l' = l \<and> (case ans p of None \<Rightarrow> False | Some (m, b, _) \<Rightarrow> m = l \<and> b = a))
            {oldest..w_position w})"

definition work_of :: "pending \<Rightarrow> work" where
  "work_of g = \<lparr>w_position = hi g, collapsed_from = (if lo g < hi g then Some (lo g) else None)\<rparr>"

lemma covers_group:
  assumes "group_ok ans mark offered st l g"
  shows "p \<in> covers ans l (work_of g) \<longleftrightarrow> (\<exists>d. ans p = Some (l, arm g, d)) \<and> lo g \<le> p \<and> p \<le> hi g"
proof -
  obtain c where c: "ans (hi g) = Some (l, arm g, c)" using group_okD(6) [OF assms] by blast
  have "lo g \<le> hi g" using group_okD(1) [OF assms] .
  with c show ?thesis
    by (cases "lo g = hi g") (auto simp: covers_def work_of_def Let_def split: option.splits)
qed

lemma fmlookup_inflight_unique:
  assumes "inflight_ok st" and "g \<in> set (queue st l)" and "g' \<in> set (queue st l')" and "lo g = lo g'"
  shows "l = l'"
  using assms by (metis inflight_ok_def option.inject)

lemma complete_shape:
  assumes "queue st l = g # q" and "hi g = p"
  shows "\<exists>m. snd (complete st l p) = st\<lparr>queues := queues (snd (complete st l p)), latest := m,
      inflight := fmdrop (lo g) (inflight st), skip_promoted := skip_promoted st - {(l, p)}\<rparr> \<and>
      (\<forall>k p. fmlookup m k = Some p \<longrightarrow> fmlookup (latest st) k = Some p) \<and>
      fmlookup m (l, arm g) \<noteq> Some (hi g)"
  unfolding complete_head [OF assms] Let_def snd_conv
  by (intro exI conjI) (auto split: if_splits)

lemma complete_queues:
  assumes "queue st l = g # q" and "hi g = p"
  shows "queues (snd (complete st l p)) = (if q = [] then fmdrop l (queues st) else fmupd l q (queues st))"
  by (simp add: complete_head [OF assms] Let_def)

lemma sched_complete:
  assumes ok: "sched_ok ans start mark offered retired hist st"
    and q: "queue st l = g # q" and p: "hi g = p"
    and run: "fmlookup (place_of st) l = Some Running"
  shows "sched_ok ans start mark offered (retired \<union> covers ans l (work_of g)) (hist @ [(l, p)])
           (snd (complete st l p))"
proof -
  let ?st = "snd (complete st l p)"
  have Q: "queues_ok ans mark offered st" and I: "inflight_ok st" and L: "latest_ok ans st"
    and P: "place_ok st" and C: "cover_ok ans start mark offered retired st" and O: "order_ok mark hist st"
    using ok by (simp_all add: sched_ok_def)
  have gin: "g \<in> set (queue st l)" using q by simp
  note gok = queues_okD(3) [OF Q gin]
  obtain m where st: "?st = st\<lparr>queues := queues ?st, latest := m,
      inflight := fmdrop (lo g) (inflight st), skip_promoted := skip_promoted st - {(l, p)}\<rparr>"
    and sub: "\<And>k p. fmlookup m k = Some p \<Longrightarrow> fmlookup (latest st) k = Some p"
    and gone: "fmlookup m (l, arm g) \<noteq> Some (hi g)"
    using complete_shape [OF q p] by blast
  have fields: "latest ?st = m" "inflight ?st = fmdrop (lo g) (inflight st)" "high ?st = high st"
    "place_of ?st = place_of st" "deferred ?st = deferred st" "blind ?st = blind st"
    by (subst st, simp)+
  note qs = queue_complete [OF q p]
  have sub_q: "set (queue ?st l') \<subseteq> set (queue st l')" for l' by (auto simp: qs q)
  have sorted: "sorted_wrt (\<lambda>g h. hi g < hi h) (g # q)" using queues_okD(2) [OF Q, of l] q by simp
  have g_notin: "g \<notin> set q" using sorted by auto
  have "queues_ok ans mark offered ?st"
  proof -
    have "fmlookup (queues ?st) l' \<noteq> Some []" for l'
      using queues_okD(1) [OF Q, of l'] by (simp add: complete_queues [OF q p])
    moreover have "sorted_wrt (\<lambda>g h. hi g < hi h) (queue ?st l')" for l'
      using queues_okD(2) [OF Q, of l'] sorted by (simp add: qs)
    moreover have "group_ok ans mark offered ?st l' g'" if "g' \<in> set (queue ?st l')" for l' g'
      using queues_okD(3) [OF Q, of g' l'] sub_q [of l'] that by (auto simp: group_ok_def fields)
    moreover have "hi g1 < lo g2 \<or> hi g2 < lo g1"
      if "g1 \<in> set (queue ?st l')" "g2 \<in> set (queue ?st l')" "arm g1 = arm g2" "g1 \<noteq> g2" for l' g1 g2
      using queues_okD(4) [OF Q, of g1 l' g2] sub_q [of l'] that by blast
    ultimately show ?thesis unfolding queues_ok_def by blast
  qed
  moreover have "inflight_ok ?st"
  proof -
    have "(\<exists>g' \<in> set (queue ?st l'). lo g' = x) \<longleftrightarrow> x \<noteq> lo g \<and> (\<exists>g' \<in> set (queue st l'). lo g' = x)" for l' x
    proof (cases "l' = l")
      case True
      have "lo g' \<noteq> lo g" if "g' \<in> set q" for g'
        using groups_distinct_lo [OF Q, of g' l g] that q g_notin by auto
      with True q show ?thesis by (auto simp: qs)
    next
      case False
      then have "lo g' \<noteq> lo g" if "g' \<in> set (queue st l')" for g'
        using fmlookup_inflight_unique [OF I gin that] by metis
      with False show ?thesis by (auto simp: qs)
    qed
    with I show ?thesis by (auto simp: inflight_ok_def fields)
  qed
  moreover have "latest_ok ans ?st"
  proof -
    have "\<not> blind st \<and> (\<forall>r c. ans r = Some (l', a, c) \<longrightarrow> c) \<and>
        (\<exists>g' \<in> set (queue ?st l'). hi g' = x \<and> arm g' = a \<and> (\<forall>h \<in> set (queue ?st l'). arm h = a \<longrightarrow> hi h \<le> x))"
      if lk: "fmlookup m (l', a) = Some x" for l' a x
    proof -
      note old = latest_okD [OF L sub [OF lk]]
      obtain g' where g': "g' \<in> set (queue st l')" "hi g' = x" "arm g' = a"
        "\<forall>h \<in> set (queue st l'). arm h = a \<longrightarrow> hi h \<le> x" using old(3) by blast
      have "g' \<in> set (queue ?st l')"
        using g' lk gone q by (cases "l' = l") (auto simp: qs)
      with g' old(1,2) sub_q [of l'] show ?thesis by blast
    qed
    then show ?thesis unfolding latest_ok_def fields by blast
  qed
  moreover have "place_ok ?st"
    using P run by (auto simp: place_ok_def fields qs)
  moreover have "cover_ok ans start mark offered (retired \<union> covers ans l (work_of g)) ?st"
  proof -
    have "x \<in> retired \<union> covers ans l (work_of g) \<or>
        (\<exists>g' \<in> set (queue ?st l'). arm g' = a \<and> lo g' \<le> x \<and> x \<le> hi g')"
      if "ans x = Some (l', a, c)" "start < x" "fmlookup (high st) l' = Some h" "x \<le> h" for x l' a c h
    proof -
      from cover_okD(1) [OF C that(1-2,3,4)] consider "x \<in> retired"
        | g' where "g' \<in> set (queue st l')" "arm g' = a" "lo g' \<le> x" "x \<le> hi g'" by blast
      then show ?thesis
      proof cases
        case 2
        show ?thesis
        proof (cases "l' = l \<and> g' = g")
          case True
          then show ?thesis using 2 that(1) by (auto simp: covers_group [OF gok])
        next
          case False
          then have "g' \<in> set (queue ?st l')" using 2 q by (auto simp: qs)
          with 2 show ?thesis by blast
        qed
      qed blast
    qed
    then show ?thesis using C unfolding cover_ok_def fields by blast
  qed
  moreover have "order_ok mark (hist @ [(l, p)]) ?st"
  proof -
    obtain h where h: "fmlookup (high st) l = Some h" "hi g \<le> h" using group_okD(7) [OF gok] by blast
    have below: "x < p" if "(l, x) \<in> set hist" for x
      using O gin p that unfolding order_ok_def by blast
    have "sorted_wrt (<) (map snd (filter (\<lambda>e. fst e = l') (hist @ [(l, p)])))" for l'
      using O below unfolding order_ok_def by (auto simp: sorted_wrt_append)
    moreover have "c \<le> mark \<or> (\<exists>h. fmlookup (high st) l' = Some h \<and> c \<le> h)"
      if "(l', c) \<in> set (hist @ [(l, p)])" for l' c
      using O that h p unfolding order_ok_def by auto
    moreover have "c < hi g'" if "(l', c) \<in> set (hist @ [(l, p)])" "g' \<in> set (queue ?st l')" for l' c g'
    proof (cases "(l', c) \<in> set hist")
      case True
      then show ?thesis using O that(2) sub_q [of l'] unfolding order_ok_def by blast
    next
      case False
      then show ?thesis using that sorted p by (auto simp: qs)
    qed
    ultimately show ?thesis unfolding order_ok_def fields by blast
  qed
  ultimately show ?thesis by (simp add: sched_ok_def)
qed

lemma sched_forget:
  assumes ok: "sched_ok ans start mark offered retired hist st" and sc: "scanned st \<le> offered"
    and ge: "mark \<le> low_water st"
  shows "sched_ok ans start (low_water st) offered retired hist (forget st (low_water st))"
proof -
  let ?n = "low_water st" and ?st = "forget st (low_water st)"
  have Q: "queues_ok ans mark offered st" and I: "inflight_ok st" and L: "latest_ok ans st"
    and P: "place_ok st" and C: "cover_ok ans start mark offered retired st" and O: "order_ok mark hist st"
    using ok by (simp_all add: sched_ok_def)
  have q: "queue ?st = queue st" by (simp add: forget_def)
  have fields: "queues ?st = queues st" "latest ?st = latest st" "inflight ?st = inflight st"
    "place_of ?st = place_of st" "deferred ?st = deferred st" "blind ?st = blind st"
    by (simp_all add: forget_def)
  have high: "fmlookup (high ?st) l = (case fmlookup (high st) l of
      None \<Rightarrow> None | Some h \<Rightarrow> if h > ?n then Some h else None)" for l
    by (simp add: forget_def split: option.splits)
  have "queues_ok ans ?n offered ?st"
  proof -
    have "group_ok ans ?n offered ?st l g" if g: "g \<in> set (queue st l)" for l g
    proof -
      note gok = queues_okD(3) [OF Q g]
      have n: "?n < lo g" by (rule low_water_below [OF Q I g])
      obtain h where "fmlookup (high st) l = Some h" "hi g \<le> h" using group_okD(7) [OF gok] by blast
      with gok n show ?thesis by (auto simp: group_ok_def high)
    qed
    then show ?thesis using Q unfolding queues_ok_def q fields by blast
  qed
  moreover have "inflight_ok ?st" using I by (simp add: inflight_ok_def q fields)
  moreover have "latest_ok ans ?st" by (rule latest_ok_sub [OF L]) (simp_all add: fields q)
  moreover have "place_ok ?st" by (rule place_ok_cong [OF _ _ _ P]) (simp_all add: fields)
  moreover have "cover_ok ans start ?n offered retired ?st"
  proof -
    have "start \<le> ?n" "?n \<le> offered"
      using C ge sc low_water_le_scanned [of st] by (auto simp: cover_ok_def)
    moreover have "p \<in> retired \<or> (\<exists>g \<in> set (queue st l). arm g = a \<and> lo g \<le> p \<and> p \<le> hi g)"
      if "ans p = Some (l, a, c)" "start < p" "fmlookup (high ?st) l = Some h" "p \<le> h" for p l a c h
      using cover_okD(1) [OF C that(1,2) _ that(4)] that(3) by (auto simp: high split: option.splits if_splits)
    moreover have "p \<in> retired" if "ans p = Some (l, a, c)" "start < p" "p \<le> ?n" for p l a c
      by (rule low_water_retired [OF ok sc that])
    moreover have "p \<in> retired \<or> (\<exists>h. fmlookup (high ?st) l = Some h \<and> p \<le> h)"
      if "ans p = Some (l, a, c)" "?n < p" "p \<le> offered" for p l a c
    proof -
      have "mark < p" using ge that(2) by simp
      from cover_okD(3) [OF C that(1) this that(3)] that(2) show ?thesis by (auto simp: high)
    qed
    ultimately show ?thesis unfolding cover_ok_def q by blast
  qed
  moreover have "order_ok ?n hist ?st"
  proof -
    have "c \<le> ?n \<or> (\<exists>h. fmlookup (high ?st) l = Some h \<and> c \<le> h)" if "(l, c) \<in> set hist" for l c
    proof (cases "c \<le> ?n")
      case False
      have "c \<le> mark \<or> (\<exists>h. fmlookup (high st) l = Some h \<and> c \<le> h)"
        using O that unfolding order_ok_def by blast
      with False ge obtain h where "fmlookup (high st) l = Some h" "c \<le> h" by auto
      with False show ?thesis by (auto simp: high)
    qed simp
    then show ?thesis using O unfolding order_ok_def q by blast
  qed
  ultimately show ?thesis by (simp add: sched_ok_def)
qed

text \<open>Forgetting without moving the floor the invariant is stated over.\<close>

lemma sched_forget_keep:
  assumes ok: "sched_ok ans start mark offered retired [] st" and sc: "scanned st \<le> offered"
    and n: "n \<le> low_water st"
  shows "sched_ok ans start mark offered retired [] (forget st n)"
proof -
  let ?st = "forget st n"
  have Q: "queues_ok ans mark offered st" and I: "inflight_ok st" and L: "latest_ok ans st"
    and P: "place_ok st" and C: "cover_ok ans start mark offered retired st"
    using ok by (simp_all add: sched_ok_def)
  have q: "queue ?st = queue st" by (simp add: forget_def)
  have fields: "queues ?st = queues st" "latest ?st = latest st" "inflight ?st = inflight st"
    "place_of ?st = place_of st" "deferred ?st = deferred st" "blind ?st = blind st"
    by (simp_all add: forget_def)
  have high: "fmlookup (high ?st) l = (case fmlookup (high st) l of
      None \<Rightarrow> None | Some h \<Rightarrow> if h > n then Some h else None)" for l
    by (simp add: forget_def split: option.splits)
  have "group_ok ans mark offered ?st l g" if g: "g \<in> set (queue st l)" for l g
  proof -
    note gok = queues_okD(3) [OF Q g]
    obtain h where "fmlookup (high st) l = Some h" "hi g \<le> h" using group_okD(7) [OF gok] by blast
    with gok low_water_below [OF Q I g] n show ?thesis by (auto simp: group_ok_def high)
  qed
  then have "queues_ok ans mark offered ?st" using Q unfolding queues_ok_def q fields by blast
  moreover have "inflight_ok ?st" using I by (simp add: inflight_ok_def q fields)
  moreover have "latest_ok ans ?st" by (rule latest_ok_sub [OF L]) (simp_all add: fields q)
  moreover have "place_ok ?st" by (rule place_ok_cong [OF _ _ _ P]) (simp_all add: fields)
  moreover have "cover_ok ans start mark offered retired ?st"
  proof -
    have "p \<in> retired \<or> (\<exists>g \<in> set (queue st l). arm g = a \<and> lo g \<le> p \<and> p \<le> hi g)"
      if "ans p = Some (l, a, c)" "start < p" "fmlookup (high ?st) l = Some h" "p \<le> h" for p l a c h
      using cover_okD(1) [OF C that(1,2) _ that(4)] that(3) by (auto simp: high split: option.splits if_splits)
    moreover have "p \<in> retired \<or> (\<exists>h. fmlookup (high ?st) l = Some h \<and> p \<le> h)"
      if "ans p = Some (l, a, c)" "mark < p" "p \<le> offered" for p l a c
    proof (cases "p \<le> n")
      case True
      have "start < p" using that(2) C unfolding cover_ok_def by linarith
      then show ?thesis using low_water_retired [OF ok sc that(1)] True n by simp
    next
      case False
      then show ?thesis using cover_okD(3) [OF C that] by (auto simp: high)
    qed
    ultimately show ?thesis using C unfolding cover_ok_def q by blast
  qed
  moreover have "order_ok mark [] ?st" by (simp add: order_ok_def)
  ultimately show ?thesis by (simp add: sched_ok_def)
qed

lemma sched_no_hist:
  "sched_ok ans start mark offered retired hist st \<Longrightarrow> sched_ok ans start mark offered retired [] st"
  by (simp add: sched_ok_def order_ok_def)

subsection \<open>Admitting a position\<close>

lemma open_group_unique:
  assumes Q: "queues_ok ans mark offered st" and L: "latest_ok ans st"
    and lk: "fmlookup (latest st) (l, a) = Some p"
    and g: "g \<in> set (queue st l)" "hi g = p" and g': "g' \<in> set (queue st l)" "arm g' = a"
  shows "g' = g \<or> hi g' < lo g"
proof -
  obtain h where h: "h \<in> set (queue st l)" "hi h = p" "arm h = a"
    and last: "\<And>g'. g' \<in> set (queue st l) \<Longrightarrow> arm g' = a \<Longrightarrow> hi g' \<le> p"
    using latest_okD(3) [OF L lk] by blast
  have inj: "x = y" if "x \<in> set (queue st l)" "y \<in> set (queue st l)" "hi x = hi y" for x y
    using sorted_wrt_hi_inj [OF queues_okD(2) [OF Q, of l]] that by blast
  have "g = h" using inj g h by simp
  moreover have "g' = h \<or> hi g' < lo h"
    using queues_okD(4) [OF Q g'(1) h(1)] g'(2) h last [OF g'] group_okD(1) [OF queues_okD(3) [OF Q g'(1)]]
    by force
  ultimately show ?thesis by simp
qed

lemma covered_iff: "covered st l p \<longleftrightarrow> (\<exists>h. fmlookup (high st) l = Some h \<and> p \<le> h)"
  by (simp add: covered_def split: option.splits)

lemma sched_offer:
  assumes ok: "sched_ok ans start mark offered retired hist st" and n: "offered \<le> n"
    and cov: "\<And>x l a c. ans x = Some (l, a, c) \<Longrightarrow> offered < x \<Longrightarrow> x \<le> n \<Longrightarrow> covered st l x"
  shows "sched_ok ans start mark n retired hist st"
proof -
  have Q: "queues_ok ans mark offered st" and C: "cover_ok ans start mark offered retired st"
    using ok by (simp_all add: sched_ok_def)
  have "queues_ok ans mark n st"
    using Q n unfolding queues_ok_def group_ok_def by (meson order_trans)
  moreover have "cover_ok ans start mark n retired st"
  proof -
    have "x \<in> retired \<or> (\<exists>h. fmlookup (high st) l = Some h \<and> x \<le> h)"
      if "ans x = Some (l, a, c)" "mark < x" "x \<le> n" for x l a c
      using cover_okD(3) [OF C that(1,2)] cov [OF that(1)] that(3)
      by (cases "x \<le> offered") (auto simp: covered_iff)
    then show ?thesis using C n unfolding cover_ok_def by (meson order_trans)
  qed
  ultimately show ?thesis using ok by (simp add: sched_ok_def)
qed

lemma fresh_above:
  assumes "queues_ok ans mark offered st" and "g \<in> set (queue st l)" and "\<not> covered st l p"
  shows "hi g < p"
  using group_okD(7) [OF queues_okD(3) [OF assms(1,2)]] assms(3) unfolding covered_iff by fastforce

lemma sched_push:
  assumes ok: "sched_ok ans start mark offered retired hist st"
    and ans: "ans p = Some (l, a, c)" and cons: "answers_ok ans" and p: "p \<le> Suc offered"
    and fresh: "\<not> covered st l p"
    and queues: "queues st' = fmupd l (qs @ [n]) (queues st)" and high: "high st' = fmupd l p (high st)"
    and place: "place_of st' = admit_place st l" and def: "deferred st' = deferred st"
    and blind: "blind st' = blind st"
    and n: "hi n = p" "arm n = a" "lo n \<le> p" "mark < lo n" "\<exists>c. ans (lo n) = Some (l, a, c)"
      "lo n < p \<Longrightarrow> c"
    and qs: "sorted_wrt (\<lambda>g h. hi g < hi h) qs" "set qs \<subseteq> set (queue st l)"
    and apart: "\<And>g. g \<in> set qs \<Longrightarrow> arm g = a \<Longrightarrow> hi g < lo n"
    and replaced: "\<And>g. g \<in> set (queue st l) \<Longrightarrow> g \<in> set qs \<or> arm g = a \<and> lo n \<le> lo g"
    and inflight: "inflight_ok st'"
    and latest: "\<And>k x. fmlookup (latest st') k = Some x \<Longrightarrow>
      (k = (l, a) \<and> x = p \<and> \<not> blind st \<and> c) \<or> (k \<noteq> (l, a) \<and> fmlookup (latest st) k = Some x)"
  shows "sched_ok ans start mark (max offered p) retired hist st'"
proof -
  have Q: "queues_ok ans mark offered st" and L: "latest_ok ans st" and P: "place_ok st"
    and C: "cover_ok ans start mark offered retired st" and O: "order_ok mark hist st"
    using ok by (simp_all add: sched_ok_def)
  have q: "queue st' = (queue st)(l := qs @ [n])" using queues by (auto simp: queue_def fun_eq_iff)
  have mem: "g = n \<and> l' = l \<or> g \<in> set (queue st l') \<and> (l' = l \<longrightarrow> g \<in> set qs)"
    if "g \<in> set (queue st' l')" for g l' using that qs(2) by (cases "l' = l") (auto simp: q)
  have below: "hi g < p" if "g \<in> set (queue st l)" for g
    by (rule fresh_above [OF Q that fresh])
  have high_ge: "\<exists>h'. fmlookup (high st') l' = Some h' \<and> x \<le> h'"
    if "fmlookup (high st) l' = Some h" "x \<le> h" "l' = l \<longrightarrow> x \<le> p" for l' h x using that by (auto simp: high)
  have "queues_ok ans mark (max offered p) st'"
  proof -
    have "fmlookup (queues st') l' \<noteq> Some []" for l' using queues_okD(1) [OF Q, of l'] by (simp add: queues)
    moreover have "sorted_wrt (\<lambda>g h. hi g < hi h) (queue st' l')" for l'
      using queues_okD(2) [OF Q, of l'] qs below n(1) by (auto simp: q sorted_wrt_append)
    moreover have "group_ok ans mark (max offered p) st' l' g" if "g \<in> set (queue st' l')" for l' g
    proof (cases "g = n \<and> l' = l")
      case True
      then show ?thesis using n ans by (auto simp: group_ok_def high)
    next
      case False
      then have g: "g \<in> set (queue st l')" using mem [OF that] by blast
      note gok = queues_okD(3) [OF Q g]
      have "l' = l \<longrightarrow> hi g \<le> p" using less_imp_le [OF below] g by blast
      with group_okD(7) [OF gok] high_ge gok show ?thesis by (fastforce simp: group_ok_def)
    qed
    moreover have "hi g < lo g' \<or> hi g' < lo g"
      if "g \<in> set (queue st' l')" "g' \<in> set (queue st' l')" "arm g = arm g'" "g \<noteq> g'" for l' g g'
      using mem [OF that(1)] mem [OF that(2)] queues_okD(4) [OF Q, of g l' g'] apart that(3,4) n(2) by metis
    ultimately show ?thesis unfolding queues_ok_def by blast
  qed
  moreover have "latest_ok ans st'"
    unfolding latest_ok_def
  proof (intro allI impI)
    fix l' a' x
    assume lk: "fmlookup (latest st') (l', a') = Some x"
    show "\<not> blind st' \<and> (\<forall>r c. ans r = Some (l', a', c) \<longrightarrow> c) \<and>
      (\<exists>g \<in> set (queue st' l'). hi g = x \<and> arm g = a' \<and> (\<forall>g' \<in> set (queue st' l'). arm g' = a' \<longrightarrow> hi g' \<le> x))"
    proof (cases "l' = l \<and> a' = a")
      case True
      then have x: "x = p" "\<not> blind st" "c" using latest [OF lk] by auto
      have "\<forall>r c. ans r = Some (l, a, c) \<longrightarrow> c" using cons ans x(3) unfolding answers_ok_def by blast
      moreover have "hi g' \<le> p" if "g' \<in> set (queue st' l)" for g'
        using mem [OF that] below [of g'] n(1) by auto
      ultimately show ?thesis using True x n(1,2) blind by (auto simp: q)
    next
      case False
      then have old: "fmlookup (latest st) (l', a') = Some x" using latest [OF lk] by auto
      obtain g where g: "g \<in> set (queue st l')" "hi g = x" "arm g = a'"
        "\<forall>g' \<in> set (queue st l'). arm g' = a' \<longrightarrow> hi g' \<le> x" using latest_okD(3) [OF L old] by blast
      have "g \<in> set (queue st' l')" using g(1,3) False replaced by (cases "l' = l") (auto simp: q)
      moreover have "hi g' \<le> x" if "g' \<in> set (queue st' l')" "arm g' = a'" for g'
        using mem [OF that(1)] g(4) that(2) False n(2) by blast
      ultimately show ?thesis using g(2,3) latest_okD(1,2) [OF L old] blind by blast
    qed
  qed
  moreover have "place_ok st'"
    using P by (auto simp: place_ok_def q def place admit_place_def)
  moreover have "cover_ok ans start mark (max offered p) retired st'"
  proof -
    have "x \<in> retired \<or> (\<exists>g \<in> set (queue st' l'). arm g = a' \<and> lo g \<le> x \<and> x \<le> hi g)"
      if x: "ans x = Some (l', a', d)" "start < x" "fmlookup (high st') l' = Some h" "x \<le> h" for x l' a' d h
    proof (cases "x = p")
      case True
      then show ?thesis using x(1) ans n by (auto simp: q)
    next
      case False
      have "\<exists>h. fmlookup (high st) l' = Some h \<and> x \<le> h \<or> x \<in> retired"
      proof (cases "l' = l")
        case True
        then have "x \<le> offered" using x(3,4) False p by (auto simp: high)
        then show ?thesis using cover_okD(2,3) [OF C x(1)] x(2) by (cases "x \<le> mark") auto
      next
        case False
        then show ?thesis using x(3,4) by (auto simp: high)
      qed
      then consider "x \<in> retired" | g where "g \<in> set (queue st l')" "arm g = a'" "lo g \<le> x" "x \<le> hi g"
        using cover_okD(1) [OF C x(1,2)] by blast
      then show ?thesis
      proof cases
        case 2
        show ?thesis
        proof (cases "l' = l \<and> g \<notin> set qs")
          case True
          then have "arm g = a" "lo n \<le> lo g" using replaced 2(1) by auto
          with True 2 below [of g] n have "arm n = a' \<and> lo n \<le> x \<and> x \<le> hi n" by auto
          with True show ?thesis by (auto simp: q)
        next
          case False
          then show ?thesis using 2 by (auto simp: q)
        qed
      qed blast
    qed
    moreover have "x \<in> retired \<or> (\<exists>h. fmlookup (high st') l' = Some h \<and> x \<le> h)"
      if x: "ans x = Some (l', a', d)" "mark < x" "x \<le> max offered p" for x l' a' d
    proof (cases "x = p")
      case True
      then show ?thesis using x(1) ans by (simp add: high)
    next
      case False
      then have "x \<le> offered" using x(3) p by simp
      then have "x \<in> retired \<or> (\<exists>h. fmlookup (high st) l' = Some h \<and> x \<le> h)"
        by (rule cover_okD(3) [OF C x(1,2)])
      moreover have "x \<in> retired \<or> x \<le> p" if "l' = l" "fmlookup (high st) l' = Some h" "x \<le> h" for h
        using fresh that unfolding covered_iff by fastforce
      ultimately show ?thesis using high_ge by blast
    qed
    moreover have "start \<le> mark" "mark \<le> max offered p" using C by (auto simp: cover_ok_def)
    moreover have "x \<in> retired" if "ans x = Some (l', a', d)" "start < x" "x \<le> mark" for x l' a' d
      using cover_okD(2) [OF C that(1,2,3)] .
    ultimately show ?thesis unfolding cover_ok_def by blast
  qed
  moreover have "order_ok mark hist st'"
  proof -
    have lt: "c' < p" if "(l, c') \<in> set hist" for c'
    proof -
      have "c' \<le> mark \<or> (\<exists>h. fmlookup (high st) l = Some h \<and> c' \<le> h)"
        using O that(1) unfolding order_ok_def by blast
      then show ?thesis using fresh n(3,4) unfolding covered_iff by fastforce
    qed
    have "c' \<le> mark \<or> (\<exists>h. fmlookup (high st') l' = Some h \<and> c' \<le> h)"
      if "(l', c') \<in> set hist" for l' c'
      using O that lt unfolding order_ok_def high by (cases "l' = l") force+
    moreover have "c' < hi g" if "(l', c') \<in> set hist" "g \<in> set (queue st' l')" for l' c' g
      using mem [OF that(2)] O that(1) lt n(1) unfolding order_ok_def by blast
    ultimately show ?thesis using O unfolding order_ok_def by blast
  qed
  ultimately show ?thesis using inflight by (simp add: sched_ok_def)
qed

lemma sched_admit_new:
  assumes ok: "sched_ok ans start mark offered retired hist st" and ans: "ans p = Some (l, a, c)"
    and gt: "mark < p" and cons: "answers_ok ans" and p: "p \<le> Suc offered" and fresh: "\<not> covered st l p"
    and none: "take_open st (c \<and> \<not> blind st) l a = (None, st1)"
  shows "sched_ok ans start mark (max offered p) retired hist (snd (admit st l p a c))"
proof -
  let ?n = "\<lparr>lo = p, hi = p, arm = a\<rparr>"
  have Q: "queues_ok ans mark offered st" and I: "inflight_ok st" and L: "latest_ok ans st"
    and C: "cover_ok ans start mark offered retired st"
    using ok by (simp_all add: sched_ok_def)
  have below: "hi g < p" if "g \<in> set (queue st l)" for g
    by (rule fresh_above [OF Q that fresh])
  have closed: "fmlookup (latest st) (l, a) = None"
  proof (rule ccontr)
    assume "fmlookup (latest st) (l, a) \<noteq> None"
    then obtain x where lk: "fmlookup (latest st) (l, a) = Some x" by blast
    note open_l = latest_okD [OF L lk]
    have "c \<and> \<not> blind st" using open_l(1,2) ans by blast
    with take_open_None [OF none] lk open_l(3) show False by auto
  qed
  show ?thesis
  proof (rule sched_push [OF ok ans cons p fresh, where qs = "queue st l" and n = ?n])
    show "queues (snd (admit st l p a c)) = fmupd l (queue st l @ [?n]) (queues st)"
      "high (snd (admit st l p a c)) = fmupd l p (high st)"
      "place_of (snd (admit st l p a c)) = admit_place st l"
      "deferred (snd (admit st l p a c)) = deferred st" "blind (snd (admit st l p a c)) = blind st"
      by (simp_all add: admit_fresh [OF fresh none])
    show "mark < lo ?n" using gt by simp
    show "sorted_wrt (\<lambda>g h. hi g < hi h) (queue st l)" by (rule queues_okD(2) [OF Q])
    show "inflight_ok (snd (admit st l p a c))"
    proof -
      have old: "lo g \<noteq> p" if "g \<in> set (queue st l')" for g l'
      proof
        assume "lo g = p"
        with group_okD(5) [OF queues_okD(3) [OF Q that]] ans have "l' = l" by auto
        with that below [of g] group_okD(1) [OF queues_okD(3) [OF Q that]] \<open>lo g = p\<close> show False by auto
      qed
      have q: "queue (snd (admit st l p a c)) = (queue st)(l := queue st l @ [?n])"
        by (auto simp: admit_fresh [OF fresh none] queue_def fun_eq_iff)
      have "fmlookup (inflight st) p = None"
        using I old unfolding inflight_ok_def by (metis not_None_eq)
      then show ?thesis
        using I old unfolding inflight_ok_def q
        by (auto simp: admit_fresh [OF fresh none])
    qed
    show "k = (l, a) \<and> x = p \<and> \<not> blind st \<and> c \<or> k \<noteq> (l, a) \<and> fmlookup (latest st) k = Some x"
      if "fmlookup (latest (snd (admit st l p a c))) k = Some x" for k x
      using that closed by (auto simp: admit_fresh [OF fresh none] admit_latest_def split: if_splits)
  qed (use ans below in auto)
qed

lemma sched_admit_fold:
  assumes ok: "sched_ok ans start mark offered retired hist st" and ans: "ans p = Some (l, a, c)"
    and cons: "answers_ok ans" and p: "p \<le> Suc offered" and fresh: "\<not> covered st l p"
    and some: "take_open st (c \<and> \<not> blind st) l a = (Some g, st1)"
  shows "sched_ok ans start mark (max offered p) retired hist (snd (admit st l p a c))"
proof -
  let ?n = "\<lparr>lo = lo g, hi = p, arm = a\<rparr>"
  have Q: "queues_ok ans mark offered st" and I: "inflight_ok st" and L: "latest_ok ans st"
    using ok by (simp_all add: sched_ok_def)
  obtain us vs where q: "queue st l = us @ g # vs"
    and q1: "queues st1 = fmupd l (us @ vs) (queues st)"
    using take_open_Some [OF some] by auto
  have cl: "c \<and> \<not> blind st" and lk: "fmlookup (latest st) (l, a) = Some (hi g)" and arm: "arm g = a"
    using take_open_Some [OF some] by auto
  note adm = admit_folds [OF fresh some q q1]
  have gin: "g \<in> set (queue st l)" using q by simp
  note gok = queues_okD(3) [OF Q gin]
  have sorted: "sorted_wrt (\<lambda>g h. hi g < hi h) (us @ g # vs)" using queues_okD(2) [OF Q, of l] q by simp
  then have g_notin: "g \<notin> set (us @ vs)" by (auto simp: sorted_wrt_append)
  have before: "g' = g \<or> hi g' < lo g" if "g' \<in> set (queue st l)" "arm g' = a" for g'
    by (rule open_group_unique [OF Q L lk gin refl that])
  have q': "queue (snd (admit st l p a c)) = (queue st)(l := us @ vs @ [?n])"
    by (auto simp: adm queue_def fun_eq_iff)
  show ?thesis
  proof (rule sched_push [OF ok ans cons p fresh, where qs = "us @ vs" and n = ?n])
    show "queues (snd (admit st l p a c)) = fmupd l ((us @ vs) @ [?n]) (queues st)"
      "high (snd (admit st l p a c)) = fmupd l p (high st)"
      "place_of (snd (admit st l p a c)) = admit_place st l"
      "deferred (snd (admit st l p a c)) = deferred st" "blind (snd (admit st l p a c)) = blind st"
      by (simp_all add: adm)
    show "lo ?n \<le> p" using group_okD(1) [OF gok] fresh_above [OF Q gin fresh] by simp
    show "mark < lo ?n" using group_okD(2) [OF gok] by simp
    show "\<exists>c. ans (lo ?n) = Some (l, a, c)" using group_okD(5) [OF gok] arm by simp
    show c using cl by simp
    show "sorted_wrt (\<lambda>g h. hi g < hi h) (us @ vs)" using sorted by (simp add: sorted_wrt_append)
    show "hi g' < lo ?n" if "g' \<in> set (us @ vs)" "arm g' = a" for g'
      using before [of g'] that g_notin q by auto
    show "g' \<in> set (us @ vs) \<or> arm g' = a \<and> lo ?n \<le> lo g'" if "g' \<in> set (queue st l)" for g'
      using that q arm by auto
    show "inflight_ok (snd (admit st l p a c))"
      using I q unfolding inflight_ok_def q' by (auto simp: adm)
    have "latest (snd (admit st l p a c)) = admit_latest st l p a c" by (simp add: adm)
    then show "k = (l, a) \<and> x = p \<and> \<not> blind st \<and> c \<or> k \<noteq> (l, a) \<and> fmlookup (latest st) k = Some x"
      if "fmlookup (latest (snd (admit st l p a c))) k = Some x" for k x
      using that cl by (auto simp: admit_latest_def split: if_splits)
  qed (use q in auto)
qed

lemma sched_admit:
  assumes ok: "sched_ok ans start mark offered retired hist st" and ans: "ans p = Some (l, a, c)"
    and cons: "answers_ok ans" and p: "mark < p" "p \<le> Suc offered"
  shows "sched_ok ans start mark (max offered p) retired hist (snd (admit st l p a c))"
proof (cases "covered st l p")
  case True
  have "sched_ok ans start mark (max offered p) retired hist st"
  proof (rule sched_offer [OF ok])
    fix x l' a' c'
    assume "ans x = Some (l', a', c')" "offered < x" "x \<le> max offered p"
    moreover from this p have "x = p" by auto
    ultimately show "covered st l' x" using ans True by simp
  qed simp
  with True show ?thesis by (simp add: admit_covered)
next
  case False
  then show ?thesis
    using sched_admit_new [OF ok ans p(1) cons p(2) False] sched_admit_fold [OF ok ans cons p(2) False]
    by (cases "take_open st (c \<and> \<not> blind st) l a") (metis option.exhaust)
qed

text \<open>
  The miss that \<open>admit\<close> answers defensively cannot happen: an open group recorded in
  \<open>latest\<close> is in its lane's queue, so an \<open>on latest\<close> position always finds it.
\<close>

lemma sched_open_found:
  assumes "sched_ok ans start mark offered retired hist st" and "fmlookup (latest st) (l, a) = Some x"
  shows "\<exists>g st'. take_open st True l a = (Some g, st') \<and> hi g = x \<and> arm g = a"
proof -
  have L: "latest_ok ans st" using assms(1) by (simp add: sched_ok_def)
  obtain g where g: "g \<in> set (queue st l)" "hi g = x" "arm g = a" using latest_okD(3) [OF L assms(2)] by blast
  obtain r st' where r: "take_open st True l a = (r, st')" by fastforce
  then show ?thesis
  proof (cases r)
    case None
    with r take_open_None [of st True l a st'] g assms(2) show ?thesis by auto
  next
    case (Some g')
    with r take_open_Some [of st True l a g' st'] assms(2) show ?thesis by auto
  qed
qed

lemma sched_resuming:
  assumes "\<And>l q p a c. fmlookup rs l = Some q \<Longrightarrow> ans p = Some (l, a, c) \<Longrightarrow> start < p \<Longrightarrow> p \<le> q \<Longrightarrow> p \<in> retired"
  shows "sched_ok ans start start start retired [] (resuming start rs bg bl)"
proof -
  have e: "queues (resuming start rs bg bl) = fmempty" "latest (resuming start rs bg bl) = fmempty"
    "inflight (resuming start rs bg bl) = fmempty" "place_of (resuming start rs bg bl) = fmempty"
    "high (resuming start rs bg bl) = rs" "deferred (resuming start rs bg bl) = {}"
    by (simp_all add: resuming_def)
  show ?thesis
    using assms by (auto simp: sched_ok_def queues_ok_def inflight_ok_def latest_ok_def place_ok_def
        cover_ok_def order_ok_def e)
qed

end
