(* ===== verification/Dispatcher.thy ===== *)
theory Dispatcher
  imports Lane_Inv
begin

section \<open>One effect's reader and workers (src/effect.rs)\<close>

text \<open>
  The driver around the lane scheduler: the reader polls the subscription, resolves every
  event of a batch to a lane and admits it, publishes the low-water mark and wakes parked
  lanes; the workers claim a lane, take its head, and finish it, park it or give it back.
  Everything under the state mutex is one step; the threads interleave between steps.

  Parameters, fields of \<open>effect_ctx\<close>: what the compiled unit and heklang answer about an
  event (\<open>event_type_of\<close>, \<open>record_of\<close>, \<open>partition_key\<close>) and the digest \<open>sha\<close>.  The log
  is a function from a position to its event.
\<close>

subsection \<open>Resolving an event to a lane\<close>

datatype delivery = Every | Live | Latest

record arm_unit =
  index :: nat
  arm_delivery :: delivery

record ('ev, 'r) effect_ctx =
  selects :: "'ev \<Rightarrow> bool"
  event_type_of :: "'ev \<Rightarrow> string"
  unit_arms :: "string \<Rightarrow> arm_unit option"
  live_boundary :: nat
  declared_arms :: "nat option"
  record_of :: "nat \<Rightarrow> 'ev \<Rightarrow> 'r option"
  partition_key :: "nat \<Rightarrow> 'r \<Rightarrow> key list option"
  sha :: "bytes \<Rightarrow> bytes"

definition collapsible :: "delivery \<Rightarrow> lane_id \<Rightarrow> bool" where
  "collapsible d lane \<longleftrightarrow> d = Latest \<and> lane \<noteq> unreadable"

definition lane_of :: "('ev, 'r) effect_ctx \<Rightarrow> nat \<Rightarrow> nat \<Rightarrow> nat \<Rightarrow> 'ev \<Rightarrow> lane_id" where
  "lane_of C arms a position event =
     (case record_of C position event of
        None \<Rightarrow> unreadable
      | Some rec \<Rightarrow>
          if \<not> a < arms then unreadable
          else case partition_key C a rec of
            Some keys \<Rightarrow> encode (sha C) keys
          | None \<Rightarrow> unreadable)"

datatype resolution = Passed | Suppressed | Resolved lane_id nat bool

definition resolve :: "('ev, 'r) effect_ctx \<Rightarrow> nat \<Rightarrow> 'ev \<Rightarrow> resolution" where
  "resolve C position event =
     (case unit_arms C (event_type_of C event) of
        None \<Rightarrow> Passed
      | Some u \<Rightarrow>
          if arm_delivery u = Live \<and> position \<le> live_boundary C then Suppressed
          else
            let lane = (case declared_arms C of
                          Some arms \<Rightarrow> lane_of C arms (index u) position event
                        | None \<Rightarrow> unreadable)
            in Resolved lane (index u) (collapsible (arm_delivery u) lane))"

record batch_result =
  armed_lanes :: "lane_id list"
  suppressed :: nat
  collapsed :: nat
  new_lanes :: lane_state

definition admit_one :: "nat \<Rightarrow> resolution \<Rightarrow> batch_result \<Rightarrow> batch_result" where
  "admit_one position r acc =
     (case r of
        Passed \<Rightarrow> acc
      | Suppressed \<Rightarrow> acc\<lparr>suppressed := suppressed acc + 1\<rparr>
      | Resolved lane a c \<Rightarrow>
          let (adm, st) = admit (new_lanes acc) lane position a c in
          acc\<lparr>armed_lanes := armed_lanes acc @ (if armed adm then [lane] else []),
              collapsed := collapsed acc + (if folded adm then 1 else 0),
              new_lanes := st\<rparr>)"

definition admit_batch :: "('ev, 'r) effect_ctx \<Rightarrow> lane_state \<Rightarrow> (nat \<times> 'ev) list \<Rightarrow> nat \<Rightarrow> batch_result" where
  "admit_batch C st batch scanned' =
     (let acc = fold (\<lambda>(position, event). admit_one position (resolve C position event)) batch
                  \<lparr>armed_lanes = [], suppressed = 0, collapsed = 0, new_lanes = st\<rparr>
      in acc\<lparr>new_lanes := set_scanned (new_lanes acc) scanned'\<rparr>)"

text \<open>What a poll delivers: the selected events after the cursor, in log order.\<close>

definition batch_of :: "('ev, 'r) effect_ctx \<Rightarrow> (nat \<Rightarrow> 'ev option) \<Rightarrow> nat \<Rightarrow> nat \<Rightarrow> (nat \<times> 'ev) list" where
  "batch_of C log cursor n =
     List.map_filter (\<lambda>p. case log p of None \<Rightarrow> None | Some e \<Rightarrow> if selects C e then Some (p, e) else None)
       [Suc cursor..<Suc n]"

definition answers_of :: "('ev, 'r) effect_ctx \<Rightarrow> (nat \<Rightarrow> 'ev option) \<Rightarrow> answers" where
  "answers_of C log p =
     (case log p of
        None \<Rightarrow> None
      | Some e \<Rightarrow>
          if selects C e then
            (case resolve C p e of Resolved l a c \<Rightarrow> Some (l, a, c) | _ \<Rightarrow> None)
          else None)"

definition arms_consistent :: "('ev, 'r) effect_ctx \<Rightarrow> bool" where
  "arms_consistent C \<longleftrightarrow>
     (\<forall>t t' u u'. unit_arms C t = Some u \<longrightarrow> unit_arms C t' = Some u' \<longrightarrow> index u = index u' \<longrightarrow>
        arm_delivery u = arm_delivery u')"

definition publish_mark :: "lane_state \<Rightarrow> nat \<Rightarrow> lane_state \<times> nat" where
  "publish_mark st position =
     (let mark = low_water st in
      if mark \<le> position then (st, position)
      else
        let st = forget st mark;
            sweep = rows_to_sweep st mark;
            st = (if sweep then prune_rows st mark else st)
        in (st, mark))"

subsection \<open>The interleaving of the reader and the workers\<close>

datatype worker = Idle | Owning lane_id | Working lane_id work

record sys =
  lanes :: lane_state
  cursor :: nat
  mark :: nat
  workers :: "nat \<Rightarrow> worker"
  retired :: "nat set"
  completions :: "(lane_id \<times> nat) list"

definition boot :: "nat \<Rightarrow> (lane_id, nat) fmap \<Rightarrow> nat set \<Rightarrow> bool \<Rightarrow> nat set \<Rightarrow> sys" where
  "boot resume lane_rows recorded blind' durable =
     \<lparr>lanes = resuming resume lane_rows recorded blind', cursor = resume, mark = resume,
      workers = (\<lambda>_. Idle), retired = durable, completions = []\<rparr>"

inductive dispatch_step :: "('ev, 'r) effect_ctx \<Rightarrow> (nat \<Rightarrow> 'ev option) \<Rightarrow> sys \<Rightarrow> sys \<Rightarrow> bool"
  for C :: "('ev, 'r) effect_ctx" and log :: "nat \<Rightarrow> 'ev option"
where
  poll: "cursor s \<le> n \<Longrightarrow>
    dispatch_step C log s
      (s\<lparr>lanes := new_lanes (admit_batch C (lanes s) (batch_of C log (cursor s) n) n), cursor := n\<rparr>)"
| resubscribe:
    "dispatch_step C log s (s\<lparr>lanes := set_scanned (lanes s) (mark s), cursor := mark s\<rparr>)"
| publish: "publish_mark (lanes s) (mark s) = (st, m) \<Longrightarrow>
    dispatch_step C log s (s\<lparr>lanes := st, mark := m\<rparr>)"
| wake: "promote (lanes s) now = (woken, st) \<Longrightarrow> dispatch_step C log s (s\<lparr>lanes := st\<rparr>)"
| wake_for_skip: "promote_matching (lanes s) wanted = (woken, st) \<Longrightarrow>
    dispatch_step C log s (s\<lparr>lanes := st\<rparr>)"
| take_lane: "workers s i = Idle \<Longrightarrow> claim (lanes s) l = (True, st) \<Longrightarrow>
    dispatch_step C log s (s\<lparr>lanes := st, workers := (workers s)(i := Owning l)\<rparr>)"
| take_head: "workers s i = Owning l \<Longrightarrow> head (lanes s) l = (Some w, st) \<Longrightarrow>
    dispatch_step C log s (s\<lparr>lanes := st, workers := (workers s)(i := Working l w)\<rparr>)"
| finish: "workers s i = Working l w \<Longrightarrow> complete (lanes s) l (w_position w) = (owed, st) \<Longrightarrow>
    dispatch_step C log s
      (s\<lparr>lanes := st, workers := (workers s)(i := Owning l),
         retired := retired s \<union> covers (answers_of C log) l w,
         completions := completions s @ [(l, w_position w)]\<rparr>)"
| record_lane: "(l, p) \<in> set (completions s) \<Longrightarrow>
    dispatch_step C log s (s\<lparr>lanes := record_row (lanes s) l p\<rparr>)"
| park: "workers s i = Working l w \<Longrightarrow>
    dispatch_step C log s
      (s\<lparr>lanes := defer_lane (lanes s) l deadline, workers := (workers s)(i := Idle)\<rparr>)"
| give_back: "workers s i = Owning l \<or> workers s i = Working l w \<Longrightarrow>
    release (lanes s) l = (rearmed, st) \<Longrightarrow>
    dispatch_step C log s (s\<lparr>lanes := st, workers := (workers s)(i := Idle)\<rparr>)"

inductive reachable :: "('ev, 'r) effect_ctx \<Rightarrow> (nat \<Rightarrow> 'ev option) \<Rightarrow> sys \<Rightarrow> sys \<Rightarrow> bool"
  for C :: "('ev, 'r) effect_ctx" and log :: "nat \<Rightarrow> 'ev option" and s0 :: sys
where
  start: "reachable C log s0 s0"
| step: "reachable C log s0 s \<Longrightarrow> dispatch_step C log s s' \<Longrightarrow> reachable C log s0 s'"

end
