(* ===== verification/Dispatcher_Inv.thy ===== *)
theory Dispatcher_Inv
  imports Dispatcher
begin

section \<open>The invariant of the dispatcher\<close>

text \<open>
  The scheduler's invariant lifted to every interleaving of the reader and the workers.
  \<open>keeps\<close> is what an operation by another thread leaves alone: the running lanes and the
  head a worker has taken.  \<open>sys_ok\<close> holds at boot and along every step.
\<close>

subsection \<open>What an operation leaves alone\<close>

definition frozen :: "lane_state \<Rightarrow> lane_id \<Rightarrow> pending \<Rightarrow> bool" where
  "frozen st l g \<longleftrightarrow>
     (\<exists>q. queue st l = g # q) \<and> fmlookup (latest st) (l, arm g) \<noteq> Some (hi g)"

definition keeps :: "lane_state \<Rightarrow> lane_state \<Rightarrow> bool" where
  "keeps st st' \<longleftrightarrow>
     (\<forall>l. fmlookup (place_of st) l = Some Running \<longleftrightarrow> fmlookup (place_of st') l = Some Running) \<and>
     (\<forall>l g. frozen st l g \<longrightarrow> frozen st' l g)"

lemma keeps_refl [simp]: "keeps st st"
  by (simp add: keeps_def)

lemma keeps_trans: "keeps a b \<Longrightarrow> keeps b c \<Longrightarrow> keeps a c"
  by (simp add: keeps_def)

lemma same_work_keeps: "same_work st st' \<Longrightarrow> keeps st st'"
  using same_work_queue [of st st'] by (simp add: keeps_def frozen_def same_work_def)

lemma admit_scanned [simp]: "scanned (snd (admit st l p a c)) = scanned st"
proof (cases "covered st l p")
  case False
  obtain r st' where r: "take_open st (c \<and> \<not> blind st) l a = (r, st')" by fastforce
  show ?thesis
  proof (cases r)
    case None
    with r False show ?thesis by (simp add: admit_fresh)
  next
    case (Some g)
    obtain us vs where "queue st l = us @ g # vs" "queues st' = fmupd l (us @ vs) (queues st)"
      using take_open_Some [OF r [unfolded Some]] by auto
    with r Some False show ?thesis by (simp add: admit_folds)
  qed
qed (simp add: admit_covered)

lemma admit_place_running:
  "fmlookup (admit_place st l) l' = Some Running \<longleftrightarrow> fmlookup (place_of st) l' = Some Running"
  by (auto simp: admit_place_def)

lemma admit_keeps:
  assumes ok: "sched_ok ans start m offered rt hist st"
  shows "keeps st (snd (admit st l p a c))"
proof (cases "covered st l p")
  case True
  then show ?thesis by (simp add: admit_covered)
next
  case False
  have Q: "queues_ok ans m offered st" using ok by (simp add: sched_ok_def)
  have below: "hi g < p" if "g \<in> set (queue st l)" for g
    using group_okD(7) [OF queues_okD(3) [OF Q that]] False unfolding covered_iff by fastforce
  have lat: "fmlookup (admit_latest st l p a c) (l', arm g) \<noteq> Some (hi g)"
    if "frozen st l' g" for l' g
  proof -
    have "g \<in> set (queue st l')" using that by (auto simp: frozen_def)
    then have "l' = l \<longrightarrow> hi g < p" using below by auto
    then show ?thesis using that by (auto simp: frozen_def admit_latest_def)
  qed
  obtain r st' where r: "take_open st (c \<and> \<not> blind st) l a = (r, st')" by fastforce
  show ?thesis
  proof (cases r)
    case None
    let ?st = "snd (admit st l p a c)"
    have st: "latest ?st = admit_latest st l p a c" "place_of ?st = admit_place st l"
      "queue ?st = (queue st)(l := queue st l @ [\<lparr>lo = p, hi = p, arm = a\<rparr>])"
      using r None False by (auto simp: admit_fresh queue_def fun_eq_iff)
    have "frozen ?st l' g" if "frozen st l' g" for l' g
      using that lat [OF that] by (auto simp: frozen_def st)
    then show ?thesis by (simp add: keeps_def st admit_place_running)
  next
    case (Some g0)
    let ?st = "snd (admit st l p a c)"
    obtain us vs where q: "queue st l = us @ g0 # vs" and q': "queues st' = fmupd l (us @ vs) (queues st)"
      using take_open_Some [OF r [unfolded Some]] by auto
    have open0: "fmlookup (latest st) (l, arm g0) = Some (hi g0)"
      using take_open_Some [OF r [unfolded Some]] by auto
    have st: "latest ?st = admit_latest st l p a c" "place_of ?st = admit_place st l"
      "queue ?st = (queue st)(l := us @ vs @ [\<lparr>lo = lo g0, hi = p, arm = a\<rparr>])"
      using r Some False q q' by (auto simp: admit_folds queue_def fun_eq_iff)
    have "frozen ?st l' g" if fr: "frozen st l' g" for l' g
    proof (cases "l' = l")
      case True
      then have "g \<noteq> g0" using fr open0 by (auto simp: frozen_def)
      then have "us \<noteq> []" using fr True q by (auto simp: frozen_def)
      then show ?thesis using fr lat [OF fr] True q by (auto simp: frozen_def st neq_Nil_conv)
    next
      case False
      then show ?thesis using fr lat [OF fr] by (auto simp: frozen_def st)
    qed
    then show ?thesis by (simp add: keeps_def st admit_place_running)
  qed
qed

subsection \<open>A whole batch\<close>

lemma map_filter_append: "List.map_filter f (xs @ ys) = List.map_filter f xs @ List.map_filter f ys"
  by (induction xs) (auto simp: List.map_filter_simps split: option.splits)

lemma batch_of_Suc:
  assumes "cur \<le> n"
  shows "batch_of C log cur (Suc n) = batch_of C log cur n @
    (case log (Suc n) of None \<Rightarrow> [] | Some e \<Rightarrow> if selects C e then [(Suc n, e)] else [])"
proof -
  have upt: "[Suc cur..<Suc (Suc n)] = [Suc cur..<Suc n] @ [Suc n]" using assms by simp
  show ?thesis
    unfolding batch_of_def upt map_filter_append
    by (auto simp: List.map_filter_simps split: option.splits)
qed

lemma batch_of_same: "batch_of C log n n = []"
  by (simp add: batch_of_def List.map_filter_simps)

definition admit_fold :: "('ev, 'r) effect_ctx \<Rightarrow> (nat \<times> 'ev) list \<Rightarrow> lane_state \<Rightarrow> batch_result" where
  "admit_fold C batch st =
     fold (\<lambda>(position, event). admit_one position (resolve C position event)) batch
       \<lparr>armed_lanes = [], suppressed = 0, collapsed = 0, new_lanes = st\<rparr>"

lemma admit_batch_eq:
  "admit_batch C st batch n = (admit_fold C batch st)\<lparr>new_lanes := set_scanned (new_lanes (admit_fold C batch st)) n\<rparr>"
  by (simp add: admit_batch_def admit_fold_def Let_def)

lemma admit_one_lanes:
  "new_lanes (admit_one p r acc) =
     (case r of Resolved l a c \<Rightarrow> snd (admit (new_lanes acc) l p a c) | _ \<Rightarrow> new_lanes acc)"
  by (auto simp: admit_one_def Let_def split: resolution.splits prod.splits)

lemma poll_ok:
  assumes ok: "sched_ok (answers_of C log) start m offered rt hist st"
    and cons: "answers_ok (answers_of C log)" and "cur \<le> n" and "m \<le> cur" and "cur \<le> offered"
  shows "sched_ok (answers_of C log) start m (max offered n) rt hist (new_lanes (admit_fold C (batch_of C log cur n) st)) \<and>
     keeps st (new_lanes (admit_fold C (batch_of C log cur n) st)) \<and>
     scanned (new_lanes (admit_fold C (batch_of C log cur n) st)) = scanned st"
  using \<open>cur \<le> n\<close>
proof (induction rule: dec_induct)
  case base
  have "max offered cur = offered" using assms(5) by simp
  then show ?case using ok by (simp add: batch_of_same admit_fold_def)
next
  case (step n)
  let ?ans = "answers_of C log" and ?acc = "admit_fold C (batch_of C log cur n) st"
  let ?st = "new_lanes ?acc"
  have IH: "sched_ok ?ans start m (max offered n) rt hist ?st" "keeps st ?st" "scanned ?st = scanned st"
    using step.IH by auto
  have mx: "max (max offered n) (Suc n) = max offered (Suc n)" by simp
  have skip: "sched_ok ?ans start m (max offered (Suc n)) rt hist ?st" if "?ans (Suc n) = None"
    by (rule sched_offer [OF IH(1)]) (use that in \<open>auto simp: le_Suc_eq max_def split: if_splits\<close>)
  show ?case
  proof (cases "?ans (Suc n)")
    case None
    then have "new_lanes (admit_fold C (batch_of C log cur (Suc n)) st) = ?st"
      using step.hyps by (auto simp: batch_of_Suc admit_fold_def admit_one_lanes answers_of_def
          split: option.splits resolution.splits if_splits)
    then show ?thesis using IH skip [OF None] by simp
  next
    case (Some lac)
    then obtain l a c where lac: "?ans (Suc n) = Some (l, a, c)" by (cases lac) auto
    then have "new_lanes (admit_fold C (batch_of C log cur (Suc n)) st) = snd (admit ?st l (Suc n) a c)"
      using step.hyps by (auto simp: batch_of_Suc admit_fold_def admit_one_lanes answers_of_def
          split: option.splits resolution.splits if_splits)
    moreover have "sched_ok ?ans start m (max (max offered n) (Suc n)) rt hist (snd (admit ?st l (Suc n) a c))"
      by (rule sched_admit [OF IH(1) lac cons]) (use step.hyps assms(4) in auto)
    moreover have "keeps ?st (snd (admit ?st l (Suc n) a c))" by (rule admit_keeps [OF IH(1)])
    ultimately show ?thesis using IH keeps_trans mx by auto
  qed
qed

subsection \<open>The invariant along every step\<close>

definition owns :: "worker \<Rightarrow> lane_id \<Rightarrow> bool" where
  "owns w l \<longleftrightarrow> w = Owning l \<or> (\<exists>x. w = Working l x)"

lemma owns_simps [code]:
  "owns Idle l = False" "owns (Owning l') l = (l' = l)" "owns (Working l' x) l = (l' = l)"
  by (simp_all add: owns_def)

definition workers_ok :: "lane_state \<Rightarrow> (nat \<Rightarrow> worker) \<Rightarrow> bool" where
  "workers_ok st ws \<longleftrightarrow>
     (\<forall>l. fmlookup (place_of st) l = Some Running \<longleftrightarrow> (\<exists>i. owns (ws i) l)) \<and>
     (\<forall>i j l. owns (ws i) l \<longrightarrow> owns (ws j) l \<longrightarrow> i = j) \<and>
     (\<forall>i l w. ws i = Working l w \<longrightarrow> (\<exists>g. frozen st l g \<and> w = work_of g))"

text \<open>
  \<open>m\<close> is the floor the scheduler's invariant is stated over and \<open>hist\<close> the completions it
  orders.  Two instances are used: the persisted mark with the whole history, kept while no
  published mark overtakes the cursor, and the start position with no history, kept by every
  step.
\<close>

definition sys_ok :: "answers \<Rightarrow> nat \<Rightarrow> nat \<Rightarrow> (lane_id \<times> nat) list \<Rightarrow> sys \<Rightarrow> bool" where
  "sys_ok ans start m hist s \<longleftrightarrow>
     sched_ok ans start m (scanned (lanes s)) (retired s) hist (lanes s) \<and>
     m \<le> cursor s \<and> cursor s \<le> scanned (lanes s) \<and> workers_ok (lanes s) (workers s) \<and>
     m \<le> mark s \<and> mark s \<le> scanned (lanes s) \<and>
     (\<forall>p l a c. ans p = Some (l, a, c) \<longrightarrow> start < p \<longrightarrow> p \<le> mark s \<longrightarrow> p \<in> retired s)"

lemma sys_okD:
  assumes "sys_ok ans start m hist s"
  shows "sched_ok ans start m (scanned (lanes s)) (retired s) hist (lanes s)"
    and "m \<le> cursor s" "cursor s \<le> scanned (lanes s)" "workers_ok (lanes s) (workers s)"
    and "m \<le> mark s" "mark s \<le> scanned (lanes s)"
    and "ans p = Some (l, a, c) \<Longrightarrow> start < p \<Longrightarrow> p \<le> mark s \<Longrightarrow> p \<in> retired s"
  using assms unfolding sys_ok_def by blast+

lemma sys_ok_no_hist: "sys_ok ans start m hist s \<Longrightarrow> sys_ok ans start m [] s"
  unfolding sys_ok_def using sched_no_hist by blast

lemma workers_ok_keeps: "workers_ok st ws \<Longrightarrow> keeps st st' \<Longrightarrow> workers_ok st' ws"
  unfolding workers_ok_def keeps_def by metis

lemma workers_okD:
  assumes "workers_ok st ws"
  shows "owns (ws i) l \<Longrightarrow> fmlookup (place_of st) l = Some Running"
    and "owns (ws i) l \<Longrightarrow> owns (ws j) l \<Longrightarrow> i = j"
    and "ws i = Working l w \<Longrightarrow> \<exists>g. frozen st l g \<and> w = work_of g"
    and "fmlookup (place_of st) l = Some Running \<Longrightarrow> \<exists>i. owns (ws i) l"
  using assms unfolding workers_ok_def by blast+

text \<open>The owner of a lane may change the lane's state; every other lane is left alone.\<close>

lemma workers_ok_owner:
  assumes W: "workers_ok st ws"
    and old: "\<And>l'. owns (ws i) l' \<Longrightarrow> l' = l" "\<And>j. j \<noteq> i \<Longrightarrow> \<not> owns (ws j) l"
    and run: "fmlookup (place_of st') l = Some Running \<longleftrightarrow> owns w l" and own: "\<And>l'. owns w l' \<Longrightarrow> l' = l"
    and other: "\<And>l'. l' \<noteq> l \<Longrightarrow> fmlookup (place_of st') l' = Some Running \<longleftrightarrow> fmlookup (place_of st) l' = Some Running"
    and work: "\<And>x. w = Working l x \<Longrightarrow> \<exists>g. frozen st' l g \<and> x = work_of g"
    and frz: "\<And>l' g. l' \<noteq> l \<Longrightarrow> frozen st l' g \<Longrightarrow> frozen st' l' g"
  shows "workers_ok st' (ws(i := w))"
proof -
  have "fmlookup (place_of st') l' = Some Running \<longleftrightarrow> (\<exists>j. owns ((ws(i := w)) j) l')" for l'
  proof (cases "l' = l")
    case True
    then show ?thesis using run old(2) by (metis fun_upd_apply)
  next
    case False
    then have "(\<exists>j. owns ((ws(i := w)) j) l') \<longleftrightarrow> (\<exists>j. owns (ws j) l')"
      using old(1) own by (metis fun_upd_apply)
    then show ?thesis using other [OF False] W unfolding workers_ok_def by simp
  qed
  moreover have "j = k" if "owns ((ws(i := w)) j) l'" "owns ((ws(i := w)) k) l'" for j k l'
  proof (cases "l' = l")
    case True
    then have "j = i" "k = i" using that old(2) by (metis fun_upd_other)+
    then show ?thesis by simp
  next
    case False
    then have "j \<noteq> i" "k \<noteq> i" using that own by (metis fun_upd_same)+
    then show ?thesis using that workers_okD(2) [OF W, of j l' k] by simp
  qed
  moreover have "\<exists>g. frozen st' l' g \<and> x = work_of g" if "(ws(i := w)) j = Working l' x" for j l' x
  proof (cases "j = i")
    case True
    then have "w = Working l' x" using that by simp
    moreover from this own have "l' = l" by (simp add: owns_def)
    ultimately show ?thesis using work by blast
  next
    case False
    then have wj: "ws j = Working l' x" using that by simp
    then have "l' \<noteq> l" using old(2) [OF False] by (auto simp: owns_def)
    then show ?thesis using workers_okD(3) [OF W wj] frz by blast
  qed
  ultimately show ?thesis unfolding workers_ok_def by blast
qed

lemma sys_ok_boot:
  assumes "\<And>l q p a c. fmlookup lane_rows l = Some q \<Longrightarrow> ans p = Some (l, a, c) \<Longrightarrow> resume < p \<Longrightarrow> p \<le> q \<Longrightarrow> p \<in> durable"
  shows "sys_ok ans resume resume [] (boot resume lane_rows recorded bl durable)"
proof -
  have "scanned (resuming resume lane_rows recorded bl) = resume"
    "place_of (resuming resume lane_rows recorded bl) = fmempty" by (simp_all add: resuming_def)
  then show ?thesis
    using sched_resuming [of lane_rows ans resume durable recorded bl] assms
    by (auto simp: sys_ok_def boot_def workers_ok_def owns_def)
qed

lemma frozen_complete_other:
  assumes q: "queue st l = g # q" and p: "hi g = p" and "l' \<noteq> l" and "frozen st l' g'"
  shows "frozen (snd (complete st l p)) l' g'"
proof -
  obtain m where m: "latest (snd (complete st l p)) = m"
    and sub: "\<And>k x. fmlookup m k = Some x \<Longrightarrow> fmlookup (latest st) k = Some x"
    using complete_shape [OF q p] by (metis (no_types, lifting) lane_state.select_convs(2) lane_state.surjective lane_state.update_convs)
  then show ?thesis
    using assms(3,4) by (auto simp: frozen_def queue_complete [OF q p] m)
qed

lemma place_complete:
  assumes "queue st l = g # q" and "hi g = p"
  shows "place_of (snd (complete st l p)) = place_of st" "scanned (snd (complete st l p)) = scanned st"
    "deferred (snd (complete st l p)) = deferred st" "high (snd (complete st l p)) = high st"
    "inflight (snd (complete st l p)) = fmdrop (lo g) (inflight st)"
  by (simp_all add: complete_head [OF assms] Let_def)

lemma latest_complete:
  assumes "queue st l = g # q" and "hi g = p"
  shows "latest (snd (complete st l p)) = (if fmlookup (latest st) (l, arm g) = Some (hi g)
                      then fmdrop (l, arm g) (latest st) else latest st)"
  by (simp add: complete_head [OF assms] Let_def)

lemma sys_ok_finish:
  assumes ok: "sys_ok ans start m hist s" and w: "workers s i = Working l w"
    and c: "complete (lanes s) l (w_position w) = (owed, st)"
  shows "sys_ok ans start m (hist @ [(l, w_position w)])
    (s\<lparr>lanes := st, workers := (workers s)(i := Owning l), retired := retired s \<union> covers ans l w,
       completions := completions s @ [(l, w_position w)]\<rparr>)"
proof -
  note S = sys_okD [OF ok]
  obtain g where fr: "frozen (lanes s) l g" and wg: "w = work_of g" using workers_okD(3) [OF S(4) w] by blast
  then obtain q where q: "queue (lanes s) l = g # q" by (auto simp: frozen_def)
  have p: "hi g = w_position w" by (simp add: wg work_of_def)
  have own: "owns (workers s i) l" using w by (simp add: owns_def)
  note run = workers_okD(1) [OF S(4) own]
  have st: "st = snd (complete (lanes s) l (w_position w))" using c by simp
  have "sched_ok ans start m (scanned (lanes s)) (retired s \<union> covers ans l w)
      (hist @ [(l, w_position w)]) st"
    using sched_complete [OF S(1) q p run] by (simp add: st wg)
  moreover have "workers_ok st ((workers s)(i := Owning l))"
  proof (rule workers_ok_owner [OF S(4), of i l])
    show "\<And>l'. owns (workers s i) l' \<Longrightarrow> l' = l" using w by (simp add: owns_def)
    show "\<And>j. j \<noteq> i \<Longrightarrow> \<not> owns (workers s j) l" using workers_okD(2) [OF S(4)] own by blast
    show "\<And>l' g. l' \<noteq> l \<Longrightarrow> frozen (lanes s) l' g \<Longrightarrow> frozen st l' g"
      unfolding st by (rule frozen_complete_other [OF q p])
  qed (use run in \<open>simp_all add: st place_complete [OF q p] owns_def\<close>)
  ultimately show ?thesis using S(2,3,5-7) by (auto simp: sys_ok_def st place_complete [OF q p])
qed

lemma sys_ok_head:
  assumes ok: "sys_ok ans start m hist s" and i: "workers s i = Owning l"
    and h: "head (lanes s) l = (Some w, st)"
  shows "sys_ok ans start m hist (s\<lparr>lanes := st, workers := (workers s)(i := Working l w)\<rparr>)"
proof -
  note S = sys_okD [OF ok]
  have st: "st = snd (head (lanes s) l)" using h by simp
  obtain g q where q: "queue (lanes s) l = g # q"
    using h by (cases "queue (lanes s) l") (auto simp: head_def queue_def split: option.splits list.splits)
  note hw = head_work [OF q]
  have wg: "w = work_of g" using h hw(1) by (simp add: work_of_def)
  have scan: "scanned st = scanned (lanes s)"
    unfolding st by (auto simp: head_def split: option.splits list.splits)
  have own: "owns (workers s i) l" using i by (simp add: owns_def)
  have lat: "fmlookup (latest st) k = Some x \<Longrightarrow> fmlookup (latest (lanes s)) k = Some x" for k x
    using hw(5) [of k] unfolding st by fastforce
  have fr: "frozen (lanes s) l' g' \<Longrightarrow> frozen st l' g'" for l' g'
    using lat hw(2) unfolding frozen_def st by metis
  have "workers_ok st ((workers s)(i := Working l w))"
  proof (rule workers_ok_owner [OF S(4), of i l])
    show "\<And>l'. owns (workers s i) l' \<Longrightarrow> l' = l" using i by (simp add: owns_def)
    show "\<And>j. j \<noteq> i \<Longrightarrow> \<not> owns (workers s j) l" using workers_okD(2) [OF S(4)] own by blast
    show "\<exists>g. frozen st l g \<and> x = work_of g" if "Working l w = Working l x" for x
      using that hw(2,4) wg q unfolding frozen_def st by auto
  qed (use workers_okD(1) [OF S(4) own] hw(3) fr in \<open>simp_all add: st owns_def\<close>)
  then show ?thesis
    using sched_head [OF S(1), of l] S(2,3,5-7) scan by (simp add: sys_ok_def st)
qed

subsection \<open>The remaining steps\<close>

lemma keeps_frame: "queues st' = queues st \<Longrightarrow> latest st' = latest st \<Longrightarrow> place_of st' = place_of st \<Longrightarrow> keeps st st'"
  by (simp add: keeps_def frozen_def queue_def)

lemma sys_ok_lanes:
  assumes ok: "sys_ok ans start m hist s" and "keeps (lanes s) st" and "scanned st = scanned (lanes s)"
    and "sched_ok ans start m (scanned (lanes s)) (retired s) hist st"
  shows "sys_ok ans start m hist (s\<lparr>lanes := st\<rparr>)"
  using sys_okD [OF ok] assms workers_ok_keeps [OF sys_okD(4) [OF ok] assms(2)]
  unfolding sys_ok_def by simp

lemma sys_ok_poll:
  assumes ok: "sys_ok (answers_of C log) start m hist s" and cons: "answers_ok (answers_of C log)"
    and n: "cursor s \<le> n"
  shows "sys_ok (answers_of C log) start m hist
    (s\<lparr>lanes := new_lanes (admit_batch C (lanes s) (batch_of C log (cursor s) n) n), cursor := n\<rparr>)"
proof -
  note S = sys_okD [OF ok]
  let ?ans = "answers_of C log" and ?st = "new_lanes (admit_fold C (batch_of C log (cursor s) n) (lanes s))"
  have P: "sched_ok ?ans start m (max (scanned (lanes s)) n) (retired s) hist ?st" "keeps (lanes s) ?st"
    "scanned ?st = scanned (lanes s)"
    using poll_ok [OF S(1) cons n S(2,3)] by simp_all
  have "keeps ?st (set_scanned ?st n)" by (rule keeps_frame) (simp_all add: set_scanned_def)
  with P(2) have "workers_ok (set_scanned ?st n) (workers s)"
    using workers_ok_keeps [OF S(4)] keeps_trans by blast
  moreover have "scanned (set_scanned ?st n) = max (scanned (lanes s)) n" by (simp add: set_scanned_def P(3))
  ultimately show ?thesis
    using sched_set_scanned [OF P(1), of n] S(2,5-7) n by (auto simp: sys_ok_def admit_batch_eq)
qed

lemma sys_ok_resubscribe:
  assumes ok: "sys_ok ans start m hist s"
  shows "sys_ok ans start m hist (s\<lparr>lanes := set_scanned (lanes s) (mark s), cursor := mark s\<rparr>)"
proof -
  note S = sys_okD [OF ok]
  have "set_scanned (lanes s) (mark s) = lanes s" using S(6) by (simp add: set_scanned_def max_def)
  with S show ?thesis by (simp add: sys_ok_def)
qed

lemma publish_mark_cases:
  assumes "publish_mark st pos = (st', m)"
  obtains "m = pos" "st' = st" "low_water st \<le> pos"
  | "pos < low_water st" "m = low_water st" "st' = forget st (low_water st)"
  | "pos < low_water st" "m = low_water st" "st' = prune_rows (forget st (low_water st)) (low_water st)"
  using assms by (auto simp: publish_mark_def Let_def split: if_splits)

lemma keeps_forget: "keeps st (forget st n)" "keeps st (prune_rows (forget st n) n)"
  by (rule keeps_frame; simp add: forget_def prune_rows_def)+

lemma forget_scanned [simp]: "scanned (forget st n) = scanned st" "scanned (prune_rows st n) = scanned st"
  by (simp_all add: forget_def prune_rows_def)

text \<open>Both instances of the invariant across a publication.\<close>

lemma sys_ok_publish:
  assumes ok: "sys_ok ans start m hist s" and p: "publish_mark (lanes s) (mark s) = (st, n)"
    and floor: "m' = m \<and> hist = [] \<or> m' = n \<and> m = mark s \<and> n \<le> cursor s"
  shows "sys_ok ans start m' hist (s\<lparr>lanes := st, mark := n\<rparr>)"
proof -
  note S = sys_okD [OF ok]
  have lw: "low_water (lanes s) \<le> scanned (lanes s)" by (rule low_water_le_scanned)
  have ret: "x \<in> retired s" if "ans x = Some (l, a, c)" "start < x" "x \<le> low_water (lanes s)" for x l a c
    by (rule low_water_retired [OF S(1) order_refl that])
  let ?f = "forget (lanes s) (low_water (lanes s))"
  have moved: "sys_ok ans start m' hist (s\<lparr>lanes := st, mark := n\<rparr>)"
    if n: "n = low_water (lanes s)" "mark s < low_water (lanes s)" and st: "st = ?f \<or> st = prune_rows ?f (low_water (lanes s))"
  proof -
    have "sched_ok ans start m' (scanned (lanes s)) (retired s) hist ?f"
      using floor
    proof
      assume "m' = m \<and> hist = []"
      with sched_forget_keep [of ans start m "scanned (lanes s)" "retired s" "lanes s" "low_water (lanes s)"] S(1)
      show ?thesis by simp
    next
      assume "m' = n \<and> m = mark s \<and> n \<le> cursor s"
      with sched_forget [OF S(1) order_refl] n S(5) show ?thesis by simp
    qed
    then have "sched_ok ans start m' (scanned (lanes s)) (retired s) hist st"
      using st sched_prune_rows by blast
    moreover have "scanned st = scanned (lanes s)" using st by auto
    moreover have "workers_ok st (workers s)" using st keeps_forget workers_ok_keeps [OF S(4)] by blast
    ultimately show ?thesis using S(2,3,5,6) n lw floor ret by (auto simp: sys_ok_def)
  qed
  from p show ?thesis
  proof (cases rule: publish_mark_cases)
    case 1
    then have "s\<lparr>lanes := st, mark := n\<rparr> = s" by simp
    moreover have "m' = m" using floor 1 by auto
    ultimately show ?thesis using ok by simp
  qed (use moved in auto)
qed

lemma sys_ok_wake:
  assumes ok: "sys_ok ans start m hist s" and "same_work (lanes s) st" and "place_ok st"
  shows "sys_ok ans start m hist (s\<lparr>lanes := st\<rparr>)"
proof (rule sys_ok_lanes [OF ok same_work_keeps [OF assms(2)]])
  show "scanned st = scanned (lanes s)" using assms(2) by (simp add: same_work_def)
qed (rule sched_same_work [OF sys_okD(1) [OF ok] assms(2,3)])

lemma sys_ok_record:
  assumes ok: "sys_ok ans start m hist s"
  shows "sys_ok ans start m hist (s\<lparr>lanes := record_row (lanes s) l p\<rparr>)"
  by (rule sys_ok_lanes [OF ok keeps_frame _ sched_record_row [OF sys_okD(1) [OF ok]]])
    (simp_all add: record_row_def Let_def)

lemma sys_ok_take_lane:
  assumes ok: "sys_ok ans start m hist s" and i: "workers s i = Idle"
    and c: "claim (lanes s) l = (True, st)"
  shows "sys_ok ans start m hist (s\<lparr>lanes := st, workers := (workers s)(i := Owning l)\<rparr>)"
proof -
  note S = sys_okD [OF ok]
  have st: "st = snd (claim (lanes s) l)" using c by simp
  have cl: "fmlookup (place_of (lanes s)) l = Some Queued" "st = (lanes s)\<lparr>place_of := fmupd l Running (place_of (lanes s))\<rparr>"
    using c claim_place by blast+
  have "\<not> owns (workers s j) l" for j using workers_okD(1) [OF S(4), of j l] cl(1) by auto
  then have "workers_ok st ((workers s)(i := Owning l))"
    by (intro workers_ok_owner [OF S(4), of i l])
      (use i cl(1) in \<open>auto simp: cl(2) owns_def frozen_def\<close>)
  then show ?thesis
    using sched_claim [OF S(1), of l] S(2,3,5-7) by (simp add: sys_ok_def st [symmetric]) (auto simp: cl(2))
qed

lemma sys_ok_leave:
  assumes ok: "sys_ok ans start m hist s" and own: "owns (workers s i) l"
    and st: "queues st = queues (lanes s)" "latest st = latest (lanes s)" "scanned st = scanned (lanes s)"
    and run: "fmlookup (place_of st) l \<noteq> Some Running"
      "\<And>l'. l' \<noteq> l \<Longrightarrow> fmlookup (place_of st) l' = fmlookup (place_of (lanes s)) l'"
    and sched: "sched_ok ans start m (scanned (lanes s)) (retired s) hist st"
  shows "sys_ok ans start m hist (s\<lparr>lanes := st, workers := (workers s)(i := Idle)\<rparr>)"
proof -
  note S = sys_okD [OF ok]
  have "workers_ok st ((workers s)(i := Idle))"
  proof (rule workers_ok_owner [OF S(4), of i l])
    show "\<And>l'. owns (workers s i) l' \<Longrightarrow> l' = l" using own by (auto simp: owns_def)
    show "\<And>j. j \<noteq> i \<Longrightarrow> \<not> owns (workers s j) l" using workers_okD(2) [OF S(4)] own by blast
  qed (use run st in \<open>auto simp: owns_def frozen_def queue_def\<close>)
  then show ?thesis using S(2,3,5-7) st(3) sched by (simp add: sys_ok_def)
qed

lemma sys_ok_park:
  assumes ok: "sys_ok ans start m hist s" and w: "workers s i = Working l w"
  shows "sys_ok ans start m hist
    (s\<lparr>lanes := defer_lane (lanes s) l d, workers := (workers s)(i := Idle)\<rparr>)"
proof (rule sys_ok_leave [OF ok])
  note S = sys_okD [OF ok]
  have "queue (lanes s) l \<noteq> []" using workers_okD(3) [OF S(4) w] by (auto simp: frozen_def)
  then show "sched_ok ans start m (scanned (lanes s)) (retired s) hist (defer_lane (lanes s) l d)"
    by (rule sched_defer [OF S(1)])
  show "owns (workers s i) l" using w by (simp add: owns_def)
qed (auto simp: defer_lane_def)

lemma sys_ok_give_back:
  assumes ok: "sys_ok ans start m hist s" and w: "workers s i = Owning l \<or> workers s i = Working l w"
    and r: "release (lanes s) l = (rearmed, st)"
  shows "sys_ok ans start m hist (s\<lparr>lanes := st, workers := (workers s)(i := Idle)\<rparr>)"
proof (rule sys_ok_leave [OF ok])
  have st: "st = snd (release (lanes s) l)" using r by simp
  show "sched_ok ans start m (scanned (lanes s)) (retired s) hist st"
    unfolding st by (rule sched_release [OF sys_okD(1) [OF ok]])
  show "owns (workers s i) l" using w by (auto simp: owns_def)
qed (use r in \<open>auto simp: release_def Let_def split: if_splits\<close>)

end
