(* ===== verification/Dispatch_Run.thy ===== *)
theory Dispatch_Run
  imports Dispatcher_Inv
begin

section \<open>Runs of the dispatcher\<close>

text \<open>
  The invariant along whole runs.  \<open>reachable\<close> is every run; \<open>steady\<close> is a run in which no
  published mark overtakes the reader's cursor, which holds of every run that never
  re-subscribes and of a re-subscribing run until the first mark it publishes ahead of its own
  redelivery.
\<close>

inductive steady :: "('ev, 'r) effect_ctx \<Rightarrow> (nat \<Rightarrow> 'ev option) \<Rightarrow> sys \<Rightarrow> sys \<Rightarrow> bool"
  for C :: "('ev, 'r) effect_ctx" and log :: "nat \<Rightarrow> 'ev option" and s0 :: sys
where
  begin_run: "steady C log s0 s0"
| run_step: "steady C log s0 s \<Longrightarrow> dispatch_step C log s s' \<Longrightarrow> mark s' \<le> cursor s' \<Longrightarrow> steady C log s0 s'"

definition superseded :: "answers \<Rightarrow> nat \<Rightarrow> bool" where
  "superseded ans p \<longleftrightarrow> (\<exists>l a c p'. ans p = Some (l, a, c) \<and> p < p' \<and> ans p' = Some (l, a, True))"

text \<open>What a boot relies on: the lane rows claim nothing the earlier processes did not settle.\<close>

definition boot_ok :: "answers \<Rightarrow> nat \<Rightarrow> (lane_id, nat) fmap \<Rightarrow> nat set \<Rightarrow> bool" where
  "boot_ok ans resume lane_rows durable \<longleftrightarrow>
     (\<forall>l q p a c. fmlookup lane_rows l = Some q \<longrightarrow> ans p = Some (l, a, c) \<longrightarrow> resume < p \<longrightarrow> p \<le> q \<longrightarrow>
        p \<in> durable)"

lemma boot_ok_empty: "boot_ok ans resume fmempty durable"
  by (simp add: boot_ok_def)

lemma answers_of_ok:
  assumes "arms_consistent C"
  shows "answers_ok (answers_of C log)"
proof -
  have ans: "\<exists>u t. unit_arms C t = Some u \<and> index u = a \<and> c = collapsible (arm_delivery u) l"
    if "answers_of C log p = Some (l, a, c)" for p l a c
    using that by (auto simp: answers_of_def resolve_def Let_def split: option.splits if_splits resolution.splits)
  show ?thesis unfolding answers_ok_def
  proof (intro allI impI)
    fix p q l a c d
    assume "answers_of C log p = Some (l, a, c)" "answers_of C log q = Some (l, a, d)"
    from ans [OF this(1)] ans [OF this(2)] assms show "c = d"
      unfolding arms_consistent_def by metis
  qed
qed

subsection \<open>One step\<close>

lemma sys_ok_step:
  assumes "dispatch_step C log s s'" and "sys_ok (answers_of C log) start m [] s"
    and cons: "arms_consistent C"
  shows "sys_ok (answers_of C log) start m [] s'"
  using assms(1,2)
proof cases
  case (poll n)
  then show ?thesis using sys_ok_poll [OF assms(2) answers_of_ok [OF cons]] by simp
next
  case resubscribe
  then show ?thesis using sys_ok_resubscribe [OF assms(2)] by simp
next
  case (publish st n)
  then show ?thesis using sys_ok_publish [OF assms(2) publish(2), of m] by simp
next
  case (wake now woken st)
  then show ?thesis
    using sys_ok_wake [OF assms(2)] promote_ok [OF sched_place [OF sys_okD(1) [OF assms(2)]], of now] by simp
next
  case (wake_for_skip wanted woken st)
  then show ?thesis
    using sys_ok_wake [OF assms(2)] promote_matching_ok [OF sched_place [OF sys_okD(1) [OF assms(2)]], of wanted]
    by simp
next
  case (take_lane i l st)
  then show ?thesis using sys_ok_take_lane [OF assms(2)] by simp
next
  case (take_head i l w st)
  then show ?thesis using sys_ok_head [OF assms(2)] by simp
next
  case (finish i l w owed st)
  then show ?thesis using sys_ok_no_hist [OF sys_ok_finish [OF assms(2) finish(2,3)]] by simp
next
  case (record_lane l p)
  then show ?thesis using sys_ok_record [OF assms(2)] by simp
next
  case (park i l w d)
  then show ?thesis using sys_ok_park [OF assms(2)] by simp
next
  case (give_back i l w r st)
  then show ?thesis using sys_ok_give_back [OF assms(2)] by simp
qed

lemma sys_ok_steady_step:
  assumes "dispatch_step C log s s'" and ok: "sys_ok (answers_of C log) start (mark s) (completions s) s"
    and cons: "arms_consistent C" and behind: "mark s' \<le> cursor s'"
  shows "sys_ok (answers_of C log) start (mark s') (completions s') s'"
  using assms(1,2)
proof cases
  case (poll n)
  then show ?thesis using sys_ok_poll [OF ok answers_of_ok [OF cons]] by simp
next
  case resubscribe
  then show ?thesis using sys_ok_resubscribe [OF ok] by simp
next
  case (publish st n)
  then show ?thesis using sys_ok_publish [OF ok publish(2), of n] behind by simp
next
  case (wake now woken st)
  then show ?thesis
    using sys_ok_wake [OF ok] promote_ok [OF sched_place [OF sys_okD(1) [OF ok]], of now] by simp
next
  case (wake_for_skip wanted woken st)
  then show ?thesis
    using sys_ok_wake [OF ok] promote_matching_ok [OF sched_place [OF sys_okD(1) [OF ok]], of wanted]
    by simp
next
  case (take_lane i l st)
  then show ?thesis using sys_ok_take_lane [OF ok] by simp
next
  case (take_head i l w st)
  then show ?thesis using sys_ok_head [OF ok] by simp
next
  case (finish i l w owed st)
  then show ?thesis using sys_ok_finish [OF ok finish(2,3)] by simp
next
  case (record_lane l p)
  then show ?thesis using sys_ok_record [OF ok] by simp
next
  case (park i l w d)
  then show ?thesis using sys_ok_park [OF ok] by simp
next
  case (give_back i l w r st)
  then show ?thesis using sys_ok_give_back [OF ok] by simp
qed

lemma reachable_sys_ok:
  assumes "reachable C log (boot resume lane_rows recorded bl durable) s"
    and "arms_consistent C" and "boot_ok (answers_of C log) resume lane_rows durable"
  shows "sys_ok (answers_of C log) resume resume [] s"
  using assms(1)
proof induction
  case start
  show ?case by (rule sys_ok_boot) (use assms(3) in \<open>auto simp: boot_ok_def\<close>)
next
  case (step s s')
  then show ?case using sys_ok_step assms(2) by blast
qed

lemma steady_sys_ok:
  assumes "steady C log (boot resume lane_rows recorded bl durable) s"
    and "arms_consistent C" and "boot_ok (answers_of C log) resume lane_rows durable"
  shows "sys_ok (answers_of C log) resume (mark s) (completions s) s"
  using assms(1)
proof induction
  case begin_run
  have "mark (boot resume lane_rows recorded bl durable) = resume"
    "completions (boot resume lane_rows recorded bl durable) = []" by (simp_all add: boot_def)
  then show ?case using sys_ok_boot [of lane_rows "answers_of C log" resume durable recorded bl] assms(3)
    by (auto simp: boot_ok_def)
next
  case (run_step s s')
  then show ?case using sys_ok_steady_step assms(2) by blast
qed

lemma steady_reachable: "steady C log s0 s \<Longrightarrow> reachable C log s0 s"
  by (induction rule: steady.induct) (blast intro: reachable.intros)+

lemma reachable_trans: "reachable C log s1 s2 \<Longrightarrow> reachable C log s0 s1 \<Longrightarrow> reachable C log s0 s2"
  by (induction rule: reachable.induct) (blast intro: reachable.intros)+

end
