(* ===== verification/Dispatch_Exec.thy ===== *)
theory Dispatch_Exec
  imports Dispatch_Run
begin

section \<open>Executing a schedule\<close>

text \<open>
  The step relation as a function of a chosen move, so that a schedule can be run on a concrete
  log.  \<open>replay_run\<close> answers the state a schedule ends in, with the flag \<open>steady\<close> asks about, and
  \<open>None\<close> for a schedule with a move that is not enabled.  The sample effect has an \<open>on\<close> arm, an
  \<open>on latest\<close> arm and an \<open>on live\<close> arm; its events carry the arm and the key.
\<close>

datatype move =
    Poll nat
  | Resubscribe
  | Publish
  | Wake nat
  | Take_Lane nat lane_id
  | Take_Head nat
  | Finish nat
  | Record_Lane nat
  | Park nat nat
  | Give_Back nat

definition exec :: "('ev, 'r) effect_ctx \<Rightarrow> (nat \<Rightarrow> 'ev option) \<Rightarrow> move \<Rightarrow> sys \<Rightarrow> sys option" where
  "exec C log mv s =
     (case mv of
        Poll n \<Rightarrow>
          if cursor s \<le> n then
            Some (s\<lparr>lanes := new_lanes (admit_batch C (lanes s) (batch_of C log (cursor s) n) n), cursor := n\<rparr>)
          else None
      | Resubscribe \<Rightarrow> Some (s\<lparr>lanes := set_scanned (lanes s) (mark s), cursor := mark s\<rparr>)
      | Publish \<Rightarrow>
          (case publish_mark (lanes s) (mark s) of (st, m) \<Rightarrow> Some (s\<lparr>lanes := st, mark := m\<rparr>))
      | Wake now \<Rightarrow> (case promote (lanes s) now of (woken, st) \<Rightarrow> Some (s\<lparr>lanes := st\<rparr>))
      | Take_Lane i l \<Rightarrow>
          (case claim (lanes s) l of (got, st) \<Rightarrow>
             if got \<and> workers s i = Idle
             then Some (s\<lparr>lanes := st, workers := (workers s)(i := Owning l)\<rparr>) else None)
      | Take_Head i \<Rightarrow>
          (case workers s i of
             Owning l \<Rightarrow>
               (case head (lanes s) l of
                  (Some w, st) \<Rightarrow> Some (s\<lparr>lanes := st, workers := (workers s)(i := Working l w)\<rparr>)
                | (None, st) \<Rightarrow> None)
           | _ \<Rightarrow> None)
      | Finish i \<Rightarrow>
          (case workers s i of
             Working l w \<Rightarrow>
               (case complete (lanes s) l (w_position w) of (owed, st) \<Rightarrow>
                  Some (s\<lparr>lanes := st, workers := (workers s)(i := Owning l),
                          retired := retired s \<union> covers (answers_of C log) l w,
                          completions := completions s @ [(l, w_position w)]\<rparr>))
           | _ \<Rightarrow> None)
      | Record_Lane n \<Rightarrow>
          if n < length (completions s)
          then (case completions s ! n of (l, p) \<Rightarrow> Some (s\<lparr>lanes := record_row (lanes s) l p\<rparr>))
          else None
      | Park i d \<Rightarrow>
          (case workers s i of
             Working l w \<Rightarrow> Some (s\<lparr>lanes := defer_lane (lanes s) l d, workers := (workers s)(i := Idle)\<rparr>)
           | _ \<Rightarrow> None)
      | Give_Back i \<Rightarrow>
          (case workers s i of
             Idle \<Rightarrow> None
           | Owning l \<Rightarrow>
               (case release (lanes s) l of (r, st) \<Rightarrow> Some (s\<lparr>lanes := st, workers := (workers s)(i := Idle)\<rparr>))
           | Working l w \<Rightarrow>
               (case release (lanes s) l of (r, st) \<Rightarrow> Some (s\<lparr>lanes := st, workers := (workers s)(i := Idle)\<rparr>))))"

fun replay_run :: "('ev, 'r) effect_ctx \<Rightarrow> (nat \<Rightarrow> 'ev option) \<Rightarrow> move list \<Rightarrow> sys \<Rightarrow> (sys \<times> bool) option" where
  "replay_run C log [] s = Some (s, True)"
| "replay_run C log (mv # mvs) s =
     (case exec C log mv s of
        None \<Rightarrow> None
      | Some s' \<Rightarrow> map_option (apsnd (\<lambda>b. mark s' \<le> cursor s' \<and> b)) (replay_run C log mvs s'))"

lemma exec_step:
  assumes "exec C log mv s = Some s'"
  shows "dispatch_step C log s s'"
proof (cases mv)
  case (Record_Lane n)
  obtain l p where lp: "completions s ! n = (l, p)" by fastforce
  with Record_Lane assms have "(l, p) \<in> set (completions s)"
    by (auto simp: exec_def split: if_splits) (metis nth_mem)
  with Record_Lane assms lp show ?thesis
    by (auto simp: exec_def split: if_splits intro: dispatch_step.record_lane)
next
  case (Take_Lane i l)
  with assms obtain st where "claim (lanes s) l = (True, st)" "workers s i = Idle"
    "s' = s\<lparr>lanes := st, workers := (workers s)(i := Owning l)\<rparr>"
    by (cases "claim (lanes s) l") (simp add: exec_def split: if_splits)
  then show ?thesis using dispatch_step.take_lane by blast
next
  case (Take_Head i)
  with assms obtain l w st where "workers s i = Owning l" "head (lanes s) l = (Some w, st)"
    "s' = s\<lparr>lanes := st, workers := (workers s)(i := Working l w)\<rparr>"
    by (simp add: exec_def split: worker.splits prod.splits option.splits)
  then show ?thesis using dispatch_step.take_head by blast
next
  case (Finish i)
  with assms obtain l w owed st where "workers s i = Working l w"
    "complete (lanes s) l (w_position w) = (owed, st)"
    "s' = s\<lparr>lanes := st, workers := (workers s)(i := Owning l),
       retired := retired s \<union> covers (answers_of C log) l w,
       completions := completions s @ [(l, w_position w)]\<rparr>"
    by (simp add: exec_def split: worker.splits prod.splits)
  then show ?thesis using dispatch_step.finish by blast
next
  case (Park i d)
  with assms obtain l w where "workers s i = Working l w"
    "s' = s\<lparr>lanes := defer_lane (lanes s) l d, workers := (workers s)(i := Idle)\<rparr>"
    by (simp add: exec_def split: worker.splits)
  then show ?thesis using dispatch_step.park by blast
next
  case (Give_Back i)
  with assms obtain l w r st where "workers s i = Owning l \<or> workers s i = Working l w"
    "release (lanes s) l = (r, st)" "s' = s\<lparr>lanes := st, workers := (workers s)(i := Idle)\<rparr>"
    by (fastforce simp: exec_def split: worker.splits prod.splits)
  then show ?thesis using dispatch_step.give_back by blast
next
  case (Poll n)
  then show ?thesis using assms dispatch_step.poll by (simp add: exec_def split: if_splits) blast
next
  case Resubscribe
  then show ?thesis using assms dispatch_step.resubscribe by (simp add: exec_def) blast
next
  case Publish
  with assms obtain st m where "publish_mark (lanes s) (mark s) = (st, m)" "s' = s\<lparr>lanes := st, mark := m\<rparr>"
    by (simp add: exec_def split: prod.splits)
  then show ?thesis using dispatch_step.publish by blast
next
  case (Wake now)
  with assms obtain st woken where "promote (lanes s) now = (woken, st)" "s' = s\<lparr>lanes := st\<rparr>"
    by (simp add: exec_def split: prod.splits)
  then show ?thesis using dispatch_step.wake by blast
qed

lemma replay_run_Cons:
  assumes "replay_run C log (mv # mvs) s = Some (s'', b)"
  obtains s' c where "exec C log mv s = Some s'" "replay_run C log mvs s' = Some (s'', c)"
    "b \<longleftrightarrow> mark s' \<le> cursor s' \<and> c"
  using assms by (auto split: option.splits)

lemma replay_reachable:
  assumes "reachable C log s0 s" and "replay_run C log mvs s = Some (s', b)"
  shows "reachable C log s0 s'"
  using assms
proof (induction mvs arbitrary: s b)
  case Nil
  then show ?case by simp
next
  case (Cons mv mvs)
  from Cons.prems(2) obtain s1 c where "exec C log mv s = Some s1" "replay_run C log mvs s1 = Some (s', c)"
    by (rule replay_run_Cons)
  then show ?case using Cons.IH reachable.step [OF Cons.prems(1) exec_step] by blast
qed

lemma replay_steady:
  assumes "steady C log s0 s" and "replay_run C log mvs s = Some (s', True)"
  shows "steady C log s0 s'"
  using assms
proof (induction mvs arbitrary: s)
  case Nil
  then show ?case by simp
next
  case (Cons mv mvs)
  from Cons.prems(2) obtain s1 c where "exec C log mv s = Some s1" "replay_run C log mvs s1 = Some (s', c)"
    "True \<longleftrightarrow> mark s1 \<le> cursor s1 \<and> c"
    by (rule replay_run_Cons)
  then have "mark s1 \<le> cursor s1" "c" by simp_all
  with \<open>exec C log mv s = Some s1\<close> \<open>replay_run C log mvs s1 = Some (s', c)\<close> show ?case
    using Cons.IH [OF steady.run_step [OF Cons.prems(1) exec_step]] by simp
qed

lemmas replay_from_boot = replay_reachable [OF reachable.start]
lemmas steady_from_boot = replay_steady [OF steady.begin_run]

subsection \<open>A sample effect\<close>

definition sample_arm :: "string \<Rightarrow> arm_unit option" where
  "sample_arm t =
     (if t = ''A'' then Some \<lparr>index = 0, arm_delivery = Every\<rparr>
      else if t = ''B'' then Some \<lparr>index = 1, arm_delivery = Latest\<rparr>
      else if t = ''C'' then Some \<lparr>index = 2, arm_delivery = Live\<rparr>
      else None)"

definition sample :: "(string \<times> int, int) effect_ctx" where
  "sample = \<lparr>selects = (\<lambda>_. True), event_type_of = fst, unit_arms = sample_arm, live_boundary = 0,
     declared_arms = Some 3, record_of = (\<lambda>_ e. Some (snd e)), partition_key = (\<lambda>_ k. Some [KInt k]),
     sha = id\<rparr>"

definition sample_log :: "(string \<times> int) list \<Rightarrow> nat \<Rightarrow> (string \<times> int) option" where
  "sample_log es p = (if p = 0 then None else if p \<le> length es then Some (es ! (p - 1)) else None)"

definition sample_boot :: sys where
  "sample_boot = boot 0 fmempty {} False {}"

lemma sample_consistent: "arms_consistent sample"
  by (auto simp: arms_consistent_def sample_def sample_arm_def split: if_splits)

definition sample_run :: "(string \<times> int) list \<Rightarrow> move list \<Rightarrow> sys \<times> bool" where
  "sample_run es mvs = (case replay_run sample (sample_log es) mvs sample_boot of
     None \<Rightarrow> (sample_boot, True) | Some r \<Rightarrow> r)"

lemma sample_reachable: "reachable sample (sample_log es) (boot 0 fmempty {} False {}) (fst (sample_run es mvs))"
  using replay_from_boot [of sample "sample_log es" mvs sample_boot]
  by (auto simp: sample_run_def sample_boot_def intro: reachable.start split: option.splits)

lemma sample_steady:
  "snd (sample_run es mvs) \<Longrightarrow> steady sample (sample_log es) (boot 0 fmempty {} False {}) (fst (sample_run es mvs))"
  using steady_from_boot [of sample "sample_log es" mvs sample_boot]
  by (auto simp: sample_run_def sample_boot_def intro: steady.begin_run split: option.splits)

end
