(* ===== verification/Lane_Wake.thy ===== *)
theory Lane_Wake
  imports Lane_Inv
begin

section \<open>Waking parked lanes\<close>

text \<open>
  What \<open>promote\<close> and \<open>promote_matching\<close> answer, in closed form: the lanes they hand back, the
  places they leave and the entries that remain parked.
\<close>

lemma fold_wake_one:
  assumes "distinct due" and "fold wake_one due (w, st) = (w', st')"
  shows "w' = w @ map snd (filter (\<lambda>(d, l). fmlookup (place_of st) l = Some (Deferred d)) due) \<and>
    deferred st' = deferred st - set due \<and>
    (\<forall>l. fmlookup (place_of st') l =
      (if \<exists>d. (d, l) \<in> set due \<and> fmlookup (place_of st) l = Some (Deferred d) then Some Queued
       else fmlookup (place_of st) l))"
  using assms
proof (induction due arbitrary: w st)
  case Nil
  then show ?case by simp
next
  case (Cons e due)
  obtain d l where e: "e = (d, l)" by fastforce
  have out: "(d, l) \<notin> set due" "distinct due" using Cons.prems e by auto
  show ?case
  proof (cases "fmlookup (place_of st) l = Some (Deferred d)")
    case True
    let ?st = "st\<lparr>deferred := deferred st - {(d, l)}, place_of := fmupd l Queued (place_of st)\<rparr>"
    have "wake_one (d, l) (w, st) = (w @ [l], ?st)" using True by (simp add: wake_one_def)
    then have "fold wake_one due (w @ [l], ?st) = (w', st')"
      using Cons.prems(2) by (simp add: e)
    note IH = Cons.IH [OF out(2) this]
    have flt: "filter (\<lambda>(x, y). fmlookup (place_of ?st) y = Some (Deferred x)) due =
        filter (\<lambda>(x, y). fmlookup (place_of st) y = Some (Deferred x)) due"
      using True out(1) by (intro filter_cong) auto
    have "w' = w @ map snd (filter (\<lambda>(d, l). fmlookup (place_of st) l = Some (Deferred d)) (e # due))"
      using IH True unfolding flt e by simp
    moreover have "deferred st' = deferred st - set (e # due)" using IH e by auto
    moreover have "fmlookup (place_of st') l' =
      (if \<exists>d. (d, l') \<in> set (e # due) \<and> fmlookup (place_of st) l' = Some (Deferred d) then Some Queued
       else fmlookup (place_of st) l')" for l'
      using IH True e by (cases "l' = l") auto
    ultimately show ?thesis by blast
  next
    case False
    have "wake_one (d, l) (w, st) = (w, st\<lparr>deferred := deferred st - {(d, l)}\<rparr>)"
      using False by (simp add: wake_one_def)
    then have "fold wake_one due (w, st\<lparr>deferred := deferred st - {(d, l)}\<rparr>) = (w', st')"
      using Cons.prems(2) by (simp add: e)
    note IH = Cons.IH [OF out(2) this]
    have "w' = w @ map snd (filter (\<lambda>(d, l). fmlookup (place_of st) l = Some (Deferred d)) (e # due))"
      using IH False unfolding e by simp
    moreover have "deferred st' = deferred st - set (e # due)" using IH e by auto
    moreover have "fmlookup (place_of st') l' =
      (if \<exists>d. (d, l') \<in> set (e # due) \<and> fmlookup (place_of st) l' = Some (Deferred d) then Some Queued
       else fmlookup (place_of st) l')" for l'
      using IH False e by (cases "l' = l") auto
    ultimately show ?thesis by blast
  qed
qed

lemma takeWhile_due:
  fixes xs :: "(nat \<times> 'a::linorder) list"
  shows "sorted xs \<Longrightarrow> set (takeWhile (\<lambda>(d, _). d \<le> now) xs) = {e \<in> set xs. fst e \<le> now}"
proof (induction xs)
  case (Cons e xs)
  then show ?case by (cases e) (force simp: less_eq_prod_def)
qed simp

lemma promote_due:
  assumes "finite (deferred st)"
  shows "fst (promote st now) =
      map snd (filter (\<lambda>(d, l). fmlookup (place_of st) l = Some (Deferred d))
        (takeWhile (\<lambda>(d, _). d \<le> now) (sorted_list_of_set (deferred st))))"
    and "deferred (snd (promote st now)) = {e \<in> deferred st. now < fst e}"
    and "fmlookup (place_of (snd (promote st now))) l =
      (if \<exists>d \<le> now. (d, l) \<in> deferred st \<and> fmlookup (place_of st) l = Some (Deferred d) then Some Queued
       else fmlookup (place_of st) l)"
proof -
  let ?due = "takeWhile (\<lambda>(d, _). d \<le> now) (sorted_list_of_set (deferred st))"
  have dist: "distinct ?due" by (simp add: distinct_takeWhile)
  have due: "set ?due = {e \<in> deferred st. fst e \<le> now}" using assms by (simp add: takeWhile_due)
  have "fold wake_one ?due ([], st) = (fst (promote st now), snd (promote st now))"
    by (simp add: promote_def)
  note F = fold_wake_one [OF dist this]
  show "fst (promote st now) =
      map snd (filter (\<lambda>(d, l). fmlookup (place_of st) l = Some (Deferred d)) ?due)"
    using F by simp
  have "deferred (snd (promote st now)) = deferred st - {e \<in> deferred st. fst e \<le> now}"
    using F unfolding due by blast
  also have "\<dots> = {e \<in> deferred st. now < fst e}" by (simp add: set_eq_iff not_le) blast
  finally show "deferred (snd (promote st now)) = {e \<in> deferred st. now < fst e}" .
  have "(\<exists>d. (d, l) \<in> set ?due \<and> fmlookup (place_of st) l = Some (Deferred d)) \<longleftrightarrow>
      (\<exists>d \<le> now. (d, l) \<in> deferred st \<and> fmlookup (place_of st) l = Some (Deferred d))"
    using due by (metis (mono_tags, lifting) fst_conv mem_Collect_eq)
  then show "fmlookup (place_of (snd (promote st now))) l =
      (if \<exists>d \<le> now. (d, l) \<in> deferred st \<and> fmlookup (place_of st) l = Some (Deferred d) then Some Queued
       else fmlookup (place_of st) l)"
    using conjunct2 [OF conjunct2 [OF F], rule_format, of l] by (simp only:)
qed

text \<open>A due lane is handed back exactly once.\<close>

lemma promote_distinct:
  assumes "finite (deferred st)"
  shows "distinct (fst (promote st now))"
proof -
  let ?due = "takeWhile (\<lambda>(d, _). d \<le> now) (sorted_list_of_set (deferred st))"
  have "inj_on snd (set (filter (\<lambda>(d, l). fmlookup (place_of st) l = Some (Deferred d)) ?due))"
    by (auto simp: inj_on_def)
  then show ?thesis
    unfolding promote_due(1) [OF assms] by (simp add: distinct_map distinct_takeWhile)
qed

lemma promote_set:
  assumes "finite (deferred st)"
  shows "set (fst (promote st now)) =
    {l. \<exists>d \<le> now. (d, l) \<in> deferred st \<and> fmlookup (place_of st) l = Some (Deferred d)}"
proof -
  have due: "set (takeWhile (\<lambda>(d, _). d \<le> now) (sorted_list_of_set (deferred st))) =
      {e \<in> deferred st. fst e \<le> now}" using assms by (simp add: takeWhile_due)
  show ?thesis unfolding promote_due(1) [OF assms] by (auto simp: due image_iff)
qed

end
