(* ===== verification/Dispatch_Progress.thy ===== *)
theory Dispatch_Progress
  imports Dispatch_Run Lane_Wake
begin

section \<open>Progress of the dispatcher\<close>

text \<open>
  Whatever is queued can still be finished: from every reachable state, and for every admitted
  position, some continuation of the run retires it.  The lemmas drive one lane: free a worker,
  wake the lane, own it, and finish its groups from the head.
\<close>

definition waiting :: "answers \<Rightarrow> sys \<Rightarrow> lane_id \<Rightarrow> nat \<Rightarrow> bool" where
  "waiting ans s l p \<longleftrightarrow>
     (\<exists>g \<in> set (queue (lanes s) l). (\<exists>c. ans p = Some (l, arm g, c)) \<and> lo g \<le> p \<and> p \<le> hi g)"

lemma sys_ok_waiting:
  assumes ok: "sys_ok ans start m hist s" and "m = start"
    and ans: "ans p = Some (l, a, c)" and "start < p" "p \<le> scanned (lanes s)"
  shows "p \<in> retired s \<or> waiting ans s l p"
proof -
  note S = sys_okD [OF ok]
  have C: "cover_ok ans start m (scanned (lanes s)) (retired s) (lanes s)" using S(1) by (simp add: sched_ok_def)
  from cover_okD(3) [OF C ans] assms(2,4,5) show ?thesis
    using cover_okD(1) [OF C ans assms(4)] ans unfolding waiting_def by blast
qed

lemma head_Cons:
  assumes "queue st l = g # q"
  shows "head st l = (Some (work_of g), snd (head st l))"
  using queue_lookup [OF assms] by (simp add: head_def work_of_def)

lemma drain_head:
  assumes ok: "sys_ok (answers_of C log) start m [] s" and i: "workers s i = Owning l"
    and q: "queue (lanes s) l = g # q"
  obtains s' where "reachable C log s s'" "workers s' i = Owning l" "queue (lanes s') l = q"
    "retired s' = retired s \<union> covers (answers_of C log) l (work_of g)"
proof -
  note h = head_Cons [OF q]
  let ?s1 = "s\<lparr>lanes := snd (head (lanes s) l), workers := (workers s)(i := Working l (work_of g))\<rparr>"
  have st1: "dispatch_step C log s ?s1" by (rule dispatch_step.take_head [OF i h])
  have q1: "queue (snd (head (lanes s) l)) l = g # q" using head_work(2) [OF q] q by simp
  have w1: "w_position (work_of g) = hi g" by (simp add: work_of_def)
  let ?c = "complete (snd (head (lanes s) l)) l (hi g)"
  let ?s2 = "?s1\<lparr>lanes := snd ?c, workers := (workers ?s1)(i := Owning l),
      retired := retired ?s1 \<union> covers (answers_of C log) l (work_of g),
      completions := completions ?s1 @ [(l, w_position (work_of g))]\<rparr>"
  have st2: "dispatch_step C log ?s1 ?s2"
    by (rule dispatch_step.finish [where owed = "fst ?c"]) (simp_all add: w1)
  have "reachable C log s ?s2" using st1 st2 by (blast intro: reachable.intros)
  then show ?thesis
    by (rule that) (simp_all add: queue_complete [OF q1 refl])
qed

lemma drain:
  assumes cons: "arms_consistent C" and "sys_ok (answers_of C log) start start [] s"
    and "workers s i = Owning l" and "waiting (answers_of C log) s l p"
  shows "\<exists>s'. reachable C log s s' \<and> p \<in> retired s'"
  using assms(2-4)
proof (induction "length (queue (lanes s) l)" arbitrary: s)
  case 0
  then show ?case by (simp add: waiting_def)
next
  case (Suc n)
  then obtain g q where q: "queue (lanes s) l = g # q" by (cases "queue (lanes s) l") auto
  obtain s' where s': "reachable C log s s'" "workers s' i = Owning l" "queue (lanes s') l = q"
    "retired s' = retired s \<union> covers (answers_of C log) l (work_of g)"
    using drain_head [OF Suc.prems(1,2) q] .
  have gok: "group_ok (answers_of C log) start (scanned (lanes s)) (lanes s) l g"
    using sys_okD(1) [OF Suc.prems(1)] queues_okD(3) [of _ _ _ "lanes s" g l] q by (auto simp: sched_ok_def)
  show ?case
  proof (cases "p \<in> retired s'")
    case True
    then show ?thesis using s'(1) by blast
  next
    case False
    then have "waiting (answers_of C log) s' l p"
      using Suc.prems(3) q s'(3,4) covers_group [OF gok, of p] unfolding waiting_def by auto
    moreover have "n = length (queue (lanes s') l)" using Suc.hyps(2) q s'(3) by simp
    moreover have "sys_ok (answers_of C log) start start [] s'"
      using s'(1) Suc.prems(1) by induction (use sys_ok_step cons in blast)+
    ultimately obtain s'' where "reachable C log s' s''" "p \<in> retired s''"
      using Suc.hyps(1) s'(2) by blast
    then show ?thesis using reachable_trans s'(1) by blast
  qed
qed

text \<open>Any owner can give its lane back; the queues stay as they are.\<close>

lemma free_owner:
  assumes ok: "sys_ok (answers_of C log) start m [] s" and own: "owns (workers s i) l"
  obtains s' where "dispatch_step C log s s'" "workers s' = (workers s)(i := Idle)"
    "queues (lanes s') = queues (lanes s)"
    "\<And>l'. l' \<noteq> l \<Longrightarrow> fmlookup (place_of (lanes s')) l' = fmlookup (place_of (lanes s)) l'"
    "queue (lanes s) l \<noteq> [] \<Longrightarrow> fmlookup (place_of (lanes s')) l = Some Queued"
proof -
  let ?r = "release (lanes s) l"
  have "dispatch_step C log s (s\<lparr>lanes := snd ?r, workers := (workers s)(i := Idle)\<rparr>)"
    using own unfolding owns_def
    by (auto intro: dispatch_step.give_back [where rearmed = "fst ?r" and l = l])
  then show ?thesis
    by (rule that) (auto simp: release_def Let_def queue_def split: option.splits)
qed

lemma own_queued:
  assumes ok: "sys_ok (answers_of C log) start start [] s" and cons: "arms_consistent C"
    and pl: "fmlookup (place_of (lanes s)) l = Some Queued" and w: "waiting (answers_of C log) s l p"
  shows "\<exists>s'. reachable C log s s' \<and> p \<in> retired s'"
proof -
  have "\<exists>s1. reachable C log s s1 \<and> workers s1 0 = Idle \<and> fmlookup (place_of (lanes s1)) l = Some Queued \<and>
      queues (lanes s1) = queues (lanes s)"
  proof (cases "workers s 0 = Idle")
    case True
    then show ?thesis using pl reachable.start by blast
  next
    case False
    then obtain l' where own: "owns (workers s 0) l'" by (cases "workers s 0") (auto simp: owns_def)
    then have "l \<noteq> l'" using workers_okD(1) [OF sys_okD(4) [OF ok]] pl by auto
    obtain s1 where s1: "dispatch_step C log s s1" "workers s1 = (workers s)(0 := Idle)"
      "queues (lanes s1) = queues (lanes s)"
      "\<And>m. m \<noteq> l' \<Longrightarrow> fmlookup (place_of (lanes s1)) m = fmlookup (place_of (lanes s)) m"
      using free_owner [OF ok own] by metis
    then show ?thesis using reachable.step [OF reachable.start s1(1)] pl \<open>l \<noteq> l'\<close> by auto
  qed
  then obtain s1 where s1: "reachable C log s s1" "workers s1 0 = Idle"
    "fmlookup (place_of (lanes s1)) l = Some Queued" "queues (lanes s1) = queues (lanes s)" by blast
  let ?c = "claim (lanes s1) l"
  have c: "claim (lanes s1) l = (True, snd ?c)" using s1(3) by (simp add: claim_def)
  let ?s2 = "s1\<lparr>lanes := snd ?c, workers := (workers s1)(0 := Owning l)\<rparr>"
  have s2: "reachable C log s ?s2"
    by (rule reachable.step [OF s1(1) dispatch_step.take_lane [OF s1(2) c]])
  have ok2: "sys_ok (answers_of C log) start start [] ?s2"
    using s2 ok by induction (use sys_ok_step cons in blast)+
  have "queue (lanes ?s2) l = queue (lanes s) l" using s1(3,4) by (simp add: claim_def queue_def)
  then have "waiting (answers_of C log) ?s2 l p" using w by (simp add: waiting_def)
  then obtain s' where "reachable C log ?s2 s'" "p \<in> retired s'" using drain [OF cons ok2, of 0 l p] by auto
  then show ?thesis using reachable_trans s2 by blast
qed

lemma sys_ok_reach:
  assumes "reachable C log s s'" and "sys_ok (answers_of C log) start m [] s" and "arms_consistent C"
  shows "sys_ok (answers_of C log) start m [] s'"
  using assms(1,2) by induction (use sys_ok_step assms(3) in blast)+

lemma waiting_retires:
  assumes ok: "sys_ok (answers_of C log) start start [] s" and cons: "arms_consistent C"
    and w: "waiting (answers_of C log) s l p"
  shows "\<exists>s'. reachable C log s s' \<and> p \<in> retired s'"
proof -
  have P: "place_ok (lanes s)" by (rule sched_place [OF sys_okD(1) [OF ok]])
  have ne: "queue (lanes s) l \<noteq> []" using w by (auto simp: waiting_def)
  obtain pl where pl: "fmlookup (place_of (lanes s)) l = Some pl" using place_okD(2) [OF P ne] by blast
  have "\<exists>s1. dispatch_step C log s s1 \<and> queues (lanes s1) = queues (lanes s) \<and>
      fmlookup (place_of (lanes s1)) l = Some Queued" if "pl \<noteq> Queued"
  proof (cases pl)
    case Running
    then obtain i where "owns (workers s i) l" using workers_okD(4) [OF sys_okD(4) [OF ok]] pl by blast
    from free_owner [OF ok this] ne show ?thesis by metis
  next
    case (Deferred d)
    let ?p = "promote (lanes s) d"
    have "dispatch_step C log s (s\<lparr>lanes := snd ?p\<rparr>)"
      by (rule dispatch_step.wake [where now = d and woken = "fst ?p"]) simp
    moreover have "queues (snd ?p) = queues (lanes s)"
      using promote_ok [OF P, of d] by (simp add: same_work_def)
    moreover have "fmlookup (place_of (snd ?p)) l = Some Queued"
      using promote_due(3) [OF place_okD(1) [OF P], of d l] place_okD(4) [OF P] pl Deferred by auto
    ultimately show ?thesis by (metis sys.select_convs(1) sys.surjective sys.update_convs(1))
  qed (use that in simp)
  then consider "pl = Queued" | s1 where "dispatch_step C log s s1" "queues (lanes s1) = queues (lanes s)"
    "fmlookup (place_of (lanes s1)) l = Some Queued" by blast
  then show ?thesis
  proof cases
    case 1
    then show ?thesis using own_queued [OF ok cons _ w] pl by blast
  next
    case 2
    have r: "reachable C log s s1" by (rule reachable.step [OF reachable.start 2(1)])
    have "waiting (answers_of C log) s1 l p" using w 2(2) by (simp add: waiting_def queue_def)
    then show ?thesis
      using own_queued [OF sys_ok_reach [OF r ok cons] cons 2(3)] reachable_trans r by blast
  qed
qed

end
