(* ===== verification/Dispatch_Rows.thy ===== *)
theory Dispatch_Rows
  imports Dispatch_Run
begin

section \<open>What the durable rows and the recorded invocations promise\<close>

text \<open>
  Two further invariants of a run.  \<open>rows_sound\<close>: a lane row (or a completion a row may still
  be written for) claims only positions that are retired, or superseded by a later position of
  their own lane and arm.  \<open>unbegun\<close>: the group open to supersession never ends at a position an
  earlier process had begun.
\<close>

definition rows_sound :: "answers \<Rightarrow> nat \<Rightarrow> sys \<Rightarrow> bool" where
  "rows_sound ans start s \<longleftrightarrow>
     (\<forall>l q p a c. fmlookup (rows (lanes s)) l = Some q \<or> (l, q) \<in> set (completions s) \<longrightarrow>
        ans p = Some (l, a, c) \<longrightarrow> start < p \<longrightarrow> p \<le> q \<longrightarrow> p \<in> retired s \<or> superseded ans p)"

definition unbegun :: "lane_state \<Rightarrow> bool" where
  "unbegun st \<longleftrightarrow> (\<forall>k p. fmlookup (latest st) k = Some p \<longrightarrow> p \<notin> begun st)"

lemma rows_soundD:
  assumes "rows_sound ans start s" and "fmlookup (rows (lanes s)) l = Some q \<or> (l, q) \<in> set (completions s)"
    and "ans p = Some (l, a, c)" "start < p" "p \<le> q"
  shows "p \<in> retired s \<or> superseded ans p"
  using assms unfolding rows_sound_def by blast

lemma rows_sound_frame:
  assumes "rows_sound ans start s" and "retired s \<subseteq> retired s'" and "completions s' = completions s"
    and "\<And>l q. fmlookup (rows (lanes s')) l = Some q \<Longrightarrow> fmlookup (rows (lanes s)) l = Some q"
  shows "rows_sound ans start s'"
  using assms unfolding rows_sound_def by (metis subsetD)

lemma admit_fields:
  "rows (snd (admit st l p a c)) = rows st \<and> begun (snd (admit st l p a c)) = begun st \<and>
   (\<forall>k x. fmlookup (latest (snd (admit st l p a c))) k = Some x \<longrightarrow>
      fmlookup (latest st) k = Some x \<or> x = p \<and> p \<notin> begun st)"
proof (cases "covered st l p")
  case True
  then show ?thesis by (simp add: admit_covered)
next
  case False
  obtain r st' where r: "take_open st (c \<and> \<not> blind st) l a = (r, st')" by fastforce
  show ?thesis
  proof (cases r)
    case None
    with r False show ?thesis by (simp add: admit_fresh admit_latest_def)
  next
    case (Some g)
    obtain us vs where "queue st l = us @ g # vs" "queues st' = fmupd l (us @ vs) (queues st)"
      using take_open_Some [OF r [unfolded Some]] by auto
    with r Some False show ?thesis by (simp add: admit_folds admit_latest_def)
  qed
qed

lemma admit_fold_fields:
  "rows (new_lanes (admit_fold C batch st)) = rows st \<and>
   (unbegun st \<longrightarrow> unbegun (new_lanes (admit_fold C batch st)))"
proof (induction batch rule: rev_induct)
  case Nil
  then show ?case by (simp add: admit_fold_def)
next
  case (snoc e batch)
  obtain p ev where e: "e = (p, ev)" by fastforce
  let ?st = "new_lanes (admit_fold C batch st)"
  have step: "new_lanes (admit_fold C (batch @ [e]) st) =
      (case resolve C p ev of Resolved l a c \<Rightarrow> snd (admit ?st l p a c) | _ \<Rightarrow> ?st)"
    by (simp add: admit_fold_def e admit_one_lanes split: resolution.splits)
  show ?case
  proof (cases "resolve C p ev")
    case (Resolved l a c)
    have "unbegun ?st \<longrightarrow> unbegun (snd (admit ?st l p a c))"
      using admit_fields [of ?st l p a c] unfolding unbegun_def by metis
    with snoc Resolved admit_fields [of ?st l p a c] show ?thesis unfolding step by simp
  qed (use snoc in \<open>simp_all add: step\<close>)
qed

lemma publish_fields:
  assumes "publish_mark st pos = (st', m)"
  shows "(\<forall>l q. fmlookup (rows st') l = Some q \<longrightarrow> fmlookup (rows st) l = Some q) \<and>
    latest st' = latest st \<and> begun st' \<subseteq> begun st"
  using assms by (rule publish_mark_cases) (auto simp: forget_def prune_rows_def split: if_splits)

lemma fold_wake_fields:
  "rows (snd (fold wake_one es (w, st))) = rows st \<and> begun (snd (fold wake_one es (w, st))) = begun st \<and>
   latest (snd (fold wake_one es (w, st))) = latest st"
proof (induction es arbitrary: w st)
  case (Cons e es)
  obtain w1 st1 where w1: "wake_one e (w, st) = (w1, st1)" by fastforce
  then have "rows st1 = rows st \<and> begun st1 = begun st \<and> latest st1 = latest st"
    by (auto simp: wake_one_def Let_def split: prod.splits if_splits)
  then show ?case using Cons.IH [of w1 st1] w1 by simp
qed simp

lemma fold_skip_fields:
  "rows (snd (fold wake_skipped es (w, st))) = rows st \<and> begun (snd (fold wake_skipped es (w, st))) = begun st \<and>
   latest (snd (fold wake_skipped es (w, st))) = latest st"
proof (induction es arbitrary: w st)
  case (Cons e es)
  obtain w1 st1 where w1: "wake_skipped e (w, st) = (w1, st1)" by fastforce
  then have "rows st1 = rows st \<and> begun st1 = begun st \<and> latest st1 = latest st"
    by (auto simp: wake_skipped_def Let_def split: prod.splits if_splits list.splits)
  then show ?case using Cons.IH [of w1 st1] w1 by simp
qed simp

lemma promote_fields:
  "rows (snd (promote st now)) = rows st" "begun (snd (promote st now)) = begun st"
  "latest (snd (promote st now)) = latest st"
  "rows (snd (promote_matching st wanted)) = rows st" "begun (snd (promote_matching st wanted)) = begun st"
  "latest (snd (promote_matching st wanted)) = latest st"
  by (simp_all add: promote_def promote_matching_def Let_def fold_wake_fields fold_skip_fields)

lemma head_complete_fields:
  "rows (snd (head st l)) = rows st" "begun (snd (head st l)) = begun st"
  "fmlookup (latest (snd (head st l))) k = Some x \<Longrightarrow> fmlookup (latest st) k = Some x"
  "rows (snd (complete st l p)) = rows st" "begun (snd (complete st l p)) = begun st"
  "fmlookup (latest (snd (complete st l p))) k = Some x \<Longrightarrow> fmlookup (latest st) k = Some x"
  by (auto simp: head_def complete_def Let_def split: option.splits list.splits if_splits)

lemma release_claim_fields:
  "rows (snd (release st l)) = rows st" "begun (snd (release st l)) = begun st" "latest (snd (release st l)) = latest st"
  "rows (snd (claim st l)) = rows st" "begun (snd (claim st l)) = begun st" "latest (snd (claim st l)) = latest st"
  "rows (defer_lane st l d) = rows st" "begun (defer_lane st l d) = begun st" "latest (defer_lane st l d) = latest st"
  by (simp_all add: release_def claim_def defer_lane_def Let_def)

lemma row_claims_settled:
  assumes ok: "sys_ok ans start m hist s" and w: "workers s i = Working l w"
    and p: "ans p = Some (l, a, c)" "start < p" "p \<le> w_position w"
  shows "p \<in> retired s \<union> covers ans l w \<or> superseded ans p"
proof -
  note S = sys_okD [OF ok]
  have Q: "queues_ok ans m (scanned (lanes s)) (lanes s)"
    and C: "cover_ok ans start m (scanned (lanes s)) (retired s) (lanes s)" using S(1) by (simp_all add: sched_ok_def)
  obtain g q where g: "queue (lanes s) l = g # q" and wg: "w = work_of g"
    using workers_okD(3) [OF S(4) w] by (auto simp: frozen_def)
  have pos: "w_position w = hi g" by (simp add: wg work_of_def)
  have gin: "g \<in> set (queue (lanes s) l)" using g by simp
  note gok = queues_okD(3) [OF Q gin]
  obtain h where "fmlookup (high (lanes s)) l = Some h" "hi g \<le> h" using group_okD(7) [OF gok] by blast
  then consider "p \<in> retired s"
    | g' where "g' \<in> set (queue (lanes s) l)" "arm g' = a" "lo g' \<le> p" "p \<le> hi g'"
    using cover_okD(1) [OF C p(1,2)] p(3) pos by force
  then show ?thesis
  proof cases
    case 2
    show ?thesis
    proof (cases "g' = g")
      case True
      then show ?thesis using 2 p(1) wg by (auto simp: covers_group [OF gok])
    next
      case False
      then have "hi g < hi g'" using 2(1) g queues_okD(2) [OF Q, of l] by auto
      then have "p < hi g'" using p(3) pos by simp
      moreover have "ans (hi g') = Some (l, arm g', True)"
        using group_okD(8) [OF queues_okD(3) [OF Q 2(1)]] 2(3) calculation by simp
      ultimately show ?thesis using p(1) 2(2) unfolding superseded_def by blast
    qed
  qed blast
qed

lemma rows_sound_step:
  assumes "dispatch_step C log s s'" and ok: "sys_ok (answers_of C log) start m [] s"
    and sound: "rows_sound (answers_of C log) start s"
  shows "rows_sound (answers_of C log) start s'"
  using assms(1)
proof cases
  case (poll n)
  show ?thesis by (rule rows_sound_frame [OF sound])
      (simp_all add: poll admit_batch_eq set_scanned_def conjunct1 [OF admit_fold_fields])
next
  case resubscribe
  show ?thesis by (rule rows_sound_frame [OF sound]) (auto simp: resubscribe set_scanned_def)
next
  case (publish st n)
  show ?thesis by (rule rows_sound_frame [OF sound]) (use publish_fields [OF publish(2)] in \<open>auto simp: publish\<close>)
next
  case (wake now woken st)
  show ?thesis by (rule rows_sound_frame [OF sound]) (use promote_fields(1) [of "lanes s" now] wake in simp_all)
next
  case (wake_for_skip wanted woken st)
  show ?thesis by (rule rows_sound_frame [OF sound]) (use promote_fields(4) [of "lanes s" wanted] wake_for_skip in simp_all)
next
  case (take_lane i l st)
  show ?thesis by (rule rows_sound_frame [OF sound])
      (use release_claim_fields(4) [of "lanes s" l] take_lane in auto)
next
  case (take_head i l w st)
  show ?thesis by (rule rows_sound_frame [OF sound])
      (use head_complete_fields(1) [of "lanes s" l] take_head in auto)
next
  case (finish i l w owed st)
  have "rows st = rows (lanes s)" using head_complete_fields(4) [of "lanes s" l "w_position w"] finish(3) by simp
  with row_claims_settled [OF ok finish(2)] rows_soundD [OF sound] show ?thesis
    unfolding rows_sound_def finish(1) by (simp, blast)
next
  case (record_lane l p)
  show ?thesis unfolding rows_sound_def
  proof (intro allI impI)
    fix l' q x a c
    assume src: "fmlookup (rows (lanes s')) l' = Some q \<or> (l', q) \<in> set (completions s')"
      and x: "answers_of C log x = Some (l', a, c)" "start < x" "x \<le> q"
    have "\<exists>q' \<ge> x. fmlookup (rows (lanes s)) l' = Some q' \<or> (l', q') \<in> set (completions s)"
      using src x(2,3) record_lane
      by (auto simp: record_row_def Let_def le_max_iff_disj split: if_splits option.splits)
    then show "x \<in> retired s' \<or> superseded (answers_of C log) x"
      using rows_soundD [OF sound _ x(1,2)] record_lane(1) by auto
  qed
next
  case (park i l w d)
  show ?thesis by (rule rows_sound_frame [OF sound]) (use park in \<open>auto simp: release_claim_fields\<close>)
next
  case (give_back i l w r st)
  show ?thesis by (rule rows_sound_frame [OF sound])
      (use release_claim_fields(1) [of "lanes s" l] give_back in auto)
qed

lemma unbegun_frame:
  assumes "unbegun st" and "begun st' \<subseteq> begun st"
    and "\<And>k x. fmlookup (latest st') k = Some x \<Longrightarrow> fmlookup (latest st) k = Some x"
  shows "unbegun st'"
  using assms unfolding unbegun_def by blast

lemma unbegun_step:
  assumes "dispatch_step C log s s'" and un: "unbegun (lanes s)"
  shows "unbegun (lanes s')"
  using assms(1)
proof cases
  case (poll n)
  have "unbegun (new_lanes (admit_fold C (batch_of C log (cursor s) n) (lanes s)))"
    using admit_fold_fields un by blast
  then show ?thesis by (simp add: poll admit_batch_eq unbegun_def set_scanned_def)
next
  case resubscribe
  then show ?thesis using un by (simp add: unbegun_def set_scanned_def)
next
  case (publish st n)
  show ?thesis by (rule unbegun_frame [OF un]) (use publish_fields [OF publish(2)] in \<open>auto simp: publish\<close>)
next
  case (wake now woken st)
  show ?thesis by (rule unbegun_frame [OF un]) (use promote_fields(2,3) [of "lanes s" now] wake in simp_all)
next
  case (wake_for_skip wanted woken st)
  show ?thesis by (rule unbegun_frame [OF un]) (use promote_fields(5,6) [of "lanes s" wanted] wake_for_skip in simp_all)
next
  case (take_lane i l st)
  show ?thesis by (rule unbegun_frame [OF un])
      (use release_claim_fields(5,6) [of "lanes s" l] take_lane in auto)
next
  case (take_head i l w st)
  show ?thesis by (rule unbegun_frame [OF un])
      (use head_complete_fields(2,3) [of "lanes s" l] take_head in auto)
next
  case (finish i l w owed st)
  show ?thesis by (rule unbegun_frame [OF un])
      (use head_complete_fields(5,6) [of "lanes s" l "w_position w"] finish in auto)
next
  case (record_lane l p)
  then show ?thesis using un by (simp add: unbegun_def record_row_def Let_def)
next
  case (park i l w d)
  then show ?thesis using un by (simp add: unbegun_def release_claim_fields)
next
  case (give_back i l w r st)
  show ?thesis by (rule unbegun_frame [OF un])
      (use release_claim_fields(2,3) [of "lanes s" l] give_back in auto)
qed

lemma reachable_rows_sound:
  assumes "reachable C log (boot resume lane_rows recorded bl durable) s"
    and cons: "arms_consistent C" and bok: "boot_ok (answers_of C log) resume lane_rows durable"
  shows "rows_sound (answers_of C log) resume s \<and> unbegun (lanes s)"
  using assms(1)
proof induction
  case start
  show ?case using bok
    by (auto simp: rows_sound_def unbegun_def boot_def resuming_def boot_ok_def)
next
  case (step s s')
  then show ?case
    using rows_sound_step [OF step.hyps(2) reachable_sys_ok [OF step.hyps(1) cons bok]] unbegun_step by blast
qed

end
