(* ===== verification/Dispatch_Safety.thy ===== *)
theory Dispatch_Safety
  imports Dispatch_Exec Dispatch_Progress Dispatch_Rows
begin

section \<open>What the dispatcher guarantees\<close>

text \<open>
  The properties of src/lanes.rs and the driver of src/effect.rs, over every interleaving of the
  reader and the workers, each with a witness on a schedule of the sample effect.
\<close>

lemma inflight_pos:
  assumes "sched_ok ans start m offered rt hist st" and "fmlookup (inflight st) x = Some l"
  shows "0 < x"
proof -
  have I: "inflight_ok st" and Q: "queues_ok ans m offered st" using assms(1) by (simp_all add: sched_ok_def)
  obtain g where "g \<in> set (queue st l)" "lo g = x"
    using assms(2) I unfolding inflight_ok_def by metis
  then show ?thesis using group_okD(4) [OF queues_okD(3) [OF Q]] by blast
qed

text \<open>A finished position is in no group any more.\<close>

lemma finished_not_inflight:
  assumes ok: "sched_ok ans start m offered rt hist st" and g: "queue st l = g # q" and pos: "hi g = p"
    and run: "fmlookup (place_of st) l = Some Running"
  shows "fmlookup (inflight (snd (complete st l p))) p \<noteq> Some l'"
proof
  let ?st = "snd (complete st l p)"
  assume x: "fmlookup (inflight ?st) p = Some l'"
  have Q: "queues_ok ans m offered st" using ok by (simp add: sched_ok_def)
  have gin: "g \<in> set (queue st l)" using g by simp
  note gok = queues_okD(3) [OF Q gin]
  have sched: "sched_ok ans start m offered (rt \<union> covers ans l (work_of g)) (hist @ [(l, p)]) ?st"
    by (rule sched_complete [OF ok g pos run])
  then have I: "inflight_ok ?st" and Q': "queues_ok ans m offered ?st" by (simp_all add: sched_ok_def)
  obtain g' where g': "g' \<in> set (queue ?st l')" "lo g' = p" using x I unfolding inflight_ok_def by metis
  have "\<exists>c. ans p = Some (l', arm g', c)" using group_okD(5) [OF queues_okD(3) [OF Q' g'(1)]] g'(2) by simp
  then have ml: "l' = l" "arm g' = arm g" using group_okD(6) [OF gok] pos by auto
  then have g'q: "g' \<in> set q" using g'(1) queue_complete [OF g pos] by simp
  have "sorted_wrt (\<lambda>g h. hi g < hi h) (g # q)" using queues_okD(2) [OF Q, of l] g by simp
  then have "hi g < hi g'" "g \<noteq> g'" using g'q by auto
  moreover have "g' \<in> set (queue st l)" using g g'q by simp
  ultimately show False
    using queues_okD(4) [OF Q gin, of g'] group_okD(1) [OF gok] ml(2) g'(2) pos by auto
qed

text \<open>
  C1: the persisted mark and the low-water mark are safe.  In every reachable state, every
  position the effect answers that lies above the resume point and at or below the mark (or the
  low-water mark the next publication would persist) has been retired: a finished invocation ran
  it or folded it.
\<close>

theorem low_water_safe:
  assumes "reachable C log (boot resume lane_rows recorded bl durable) s"
    and "arms_consistent C" and "boot_ok (answers_of C log) resume lane_rows durable"
    and "answers_of C log p = Some (l, a, c)" and "resume < p"
    and "p \<le> max (mark s) (low_water (lanes s))"
  shows "p \<in> retired s"
proof -
  note S = sys_okD [OF reachable_sys_ok [OF assms(1-3)]]
  show ?thesis
    using S(7) [OF assms(4,5)] low_water_retired [OF S(1) order_refl assms(4,5)] assms(6)
    by (auto simp: max_def split: if_splits)
qed

text \<open>
  C2: nothing admitted is lost.  Every answered position up to the scanned cursor is either
  retired or in a group of its lane's queue, and that lane is then runnable, parked with a
  deadline the reader will wake, or running with a worker that owns it.
\<close>

theorem nothing_lost:
  assumes "reachable C log (boot resume lane_rows recorded bl durable) s"
    and "arms_consistent C" and "boot_ok (answers_of C log) resume lane_rows durable"
    and "answers_of C log p = Some (l, a, c)" and "resume < p" and "p \<le> scanned (lanes s)"
  shows "p \<in> retired s \<or>
    (\<exists>g \<in> set (queue (lanes s) l). arm g = a \<and> lo g \<le> p \<and> p \<le> hi g) \<and>
    (fmlookup (place_of (lanes s)) l = Some Queued \<or>
     (\<exists>d. fmlookup (place_of (lanes s)) l = Some (Deferred d) \<and> (d, l) \<in> deferred (lanes s)) \<or>
     fmlookup (place_of (lanes s)) l = Some Running \<and> (\<exists>i. owns (workers s i) l))"
proof -
  note ok = reachable_sys_ok [OF assms(1-3)]
  note P = sched_place [OF sys_okD(1) [OF ok]]
  from sys_ok_waiting [OF ok refl assms(4-6)] show ?thesis
  proof
    assume "waiting (answers_of C log) s l p"
    then obtain g where g: "g \<in> set (queue (lanes s) l)" "arm g = a" "lo g \<le> p" "p \<le> hi g"
      using assms(4) by (auto simp: waiting_def)
    then obtain pl where pl: "fmlookup (place_of (lanes s)) l = Some pl"
      using place_okD(2) [OF P, of l] by (cases "queue (lanes s) l") auto
    show ?thesis
      using g pl place_okD(4) [OF P] workers_okD(4) [OF sys_okD(4) [OF ok], of l] by (cases pl) auto
  qed blast
qed

text \<open>
  C3: the dispatcher cannot wedge itself.  From every reachable state and for every answered
  position it has scanned, some continuation of the run retires the position, whatever lanes are
  parked and whichever worker holds which lane.
\<close>

theorem never_wedged:
  assumes "reachable C log (boot resume lane_rows recorded bl durable) s"
    and "arms_consistent C" and "boot_ok (answers_of C log) resume lane_rows durable"
    and "answers_of C log p = Some (l, a, c)" and "resume < p" and "p \<le> scanned (lanes s)"
  shows "\<exists>s'. reachable C log s s' \<and> p \<in> retired s'"
  using sys_ok_waiting [OF reachable_sys_ok [OF assms(1-3)] refl assms(4-6)]
    waiting_retires [OF reachable_sys_ok [OF assms(1-3)] assms(2)] reachable.start by blast

text \<open>
  C4: a lane has at most one worker, and the work that worker holds is frozen: the position and
  the folded range it took are still the head group of the lane, so a later event cannot change
  what the running invocation stands for.
\<close>

theorem one_worker_frozen_head:
  assumes "reachable C log (boot resume lane_rows recorded bl durable) s"
    and "arms_consistent C" and "boot_ok (answers_of C log) resume lane_rows durable"
    and "owns (workers s i) l"
  shows "(\<forall>j. owns (workers s j) l \<longrightarrow> j = i) \<and> fmlookup (place_of (lanes s)) l = Some Running \<and>
    (\<forall>w. workers s i = Working l w \<longrightarrow>
       (\<exists>g q. queue (lanes s) l = g # q \<and> w = \<lparr>w_position = hi g,
          collapsed_from = (if lo g < hi g then Some (lo g) else None)\<rparr>))"
proof -
  note W = sys_okD(4) [OF reachable_sys_ok [OF assms(1-3)]]
  show ?thesis
    using workers_okD(1) [OF W assms(4)] workers_okD(2) [OF W assms(4)] workers_okD(3) [OF W, of i l]
    by (fastforce simp: frozen_def work_of_def)
qed

text \<open>
  C5: in a steady run every lane finishes its positions in strictly ascending log order; in
  particular no position of a lane is finished twice.
\<close>

theorem lane_completes_in_order:
  assumes "steady C log (boot resume lane_rows recorded bl durable) s"
    and "arms_consistent C" and "boot_ok (answers_of C log) resume lane_rows durable"
  shows "sorted_wrt (<) (map snd (filter (\<lambda>e. fst e = l) (completions s)))"
  using sys_okD(1) [OF steady_sys_ok [OF assms]] by (simp add: sched_ok_def order_ok_def)

text \<open>
  C6: crash and restart.  Whatever a process persisted before it stopped (the mark and the lane
  rows) is a sound start for the next one: the rows claim only positions that are retired, or that
  a later position of the same lane and arm supersedes.
\<close>

theorem restart_is_sound:
  assumes "reachable C log (boot resume lane_rows recorded bl durable) s"
    and "arms_consistent C" and "boot_ok (answers_of C log) resume lane_rows durable"
  shows "boot_ok (answers_of C log) (mark s) (rows (lanes s))
    (retired s \<union> {p. superseded (answers_of C log) p})"
proof -
  have "resume \<le> mark s" using sys_okD(5) [OF reachable_sys_ok [OF assms]] .
  moreover have "rows_sound (answers_of C log) resume s" using reachable_rows_sound [OF assms] by blast
  ultimately show ?thesis
    unfolding boot_ok_def using rows_soundD [of "answers_of C log" resume s] by fastforce
qed

text \<open>
  A completion owes a durable lane row exactly when the mark stays behind it, that is, when the
  low-water mark after the completion is still below the finished position.
\<close>

theorem row_owed_iff_mark_behind:
  assumes "reachable C log (boot resume lane_rows recorded bl durable) s"
    and "arms_consistent C" and "boot_ok (answers_of C log) resume lane_rows durable"
    and "workers s i = Working l w" and "complete (lanes s) l (w_position w) = (owed, st)"
  shows "owed \<longleftrightarrow> low_water st < w_position w"
proof -
  note ok = reachable_sys_ok [OF assms(1-3)]
  note S = sys_okD [OF ok]
  obtain g q where g: "queue (lanes s) l = g # q" and wg: "w = work_of g"
    using workers_okD(3) [OF S(4) assms(4)] by (auto simp: frozen_def)
  have pos: "hi g = w_position w" by (simp add: wg work_of_def)
  have run: "fmlookup (place_of (lanes s)) l = Some Running"
    using workers_okD(1) [OF S(4), of i l] assms(4) by (simp add: owns_def)
  have st: "st = snd (complete (lanes s) l (w_position w))" using assms(5) by simp
  have sched: "sched_ok (answers_of C log) resume resume (scanned (lanes s))
      (retired s \<union> covers (answers_of C log) l (work_of g)) ([] @ [(l, w_position w)]) st"
    unfolding st by (rule sched_complete [OF S(1) g pos run])
  have Q: "queues_ok (answers_of C log) resume (scanned (lanes s)) (lanes s)"
    using S(1) by (simp add: sched_ok_def)
  have gok: "group_ok (answers_of C log) resume (scanned (lanes s)) (lanes s) l g"
    using queues_okD(3) [OF Q, of g l] g by simp
  have scan: "w_position w \<le> scanned st"
    using group_okD(3) [OF gok] place_complete(2) [OF g pos] by (simp add: st pos)
  have first: "owed = (case fm_first (inflight st) of None \<Rightarrow> False | Some (oldest, _) \<Rightarrow> oldest < w_position w)"
    using assms(5) unfolding complete_head [OF g pos] Let_def by auto
  note ne = finished_not_inflight [OF S(1) g pos run]
  show ?thesis
  proof (cases "fm_first (inflight st)")
    case None
    then show ?thesis using scan first by (simp add: low_water_def)
  next
    case (Some e)
    obtain k m where e: "e = (k, m)" by fastforce
    have lk: "fmlookup (inflight st) k = Some m" using Some e by (auto simp: fm_first_Some_iff)
    have "k \<noteq> w_position w" using ne [of m] lk unfolding st by auto
    moreover have "0 < k" using inflight_pos [OF sched lk] .
    ultimately show ?thesis using scan first Some e by (auto simp: low_water_def)
  qed
qed

text \<open>
  What a fold may take over.  When the admission of a position folds, the group it takes over
  is in the lane's queue, belongs to the same arm, ends at a position no earlier process had begun
  and is not the work of any worker; it leaves the queue, and one group reaching from its oldest
  position to the new one takes its place at the back.
\<close>

theorem fold_takes_open_group:
  assumes "reachable C log (boot resume lane_rows recorded bl durable) s"
    and "arms_consistent C" and "boot_ok (answers_of C log) resume lane_rows durable"
    and "admit (lanes s) l p a c = (r, st)" and "folded r"
  shows "\<exists>us g vs. queue (lanes s) l = us @ g # vs \<and> arm g = a \<and> hi g \<notin> begun (lanes s) \<and>
    (\<forall>i w. workers s i = Working l w \<longrightarrow> w_position w \<noteq> hi g) \<and>
    queue st l = us @ vs @ [\<lparr>lo = lo g, hi = p, arm = a\<rparr>]"
proof -
  note S = sys_okD [OF reachable_sys_ok [OF assms(1-3)]]
  have un: "unbegun (lanes s)" using reachable_rows_sound [OF assms(1-3)] by blast
  have Q: "queues_ok (answers_of C log) resume (scanned (lanes s)) (lanes s)" using S(1) by (simp add: sched_ok_def)
  obtain g0 st' where t: "take_open (lanes s) (c \<and> \<not> blind (lanes s)) l a = (g0, st')" by fastforce
  have fresh: "\<not> covered (lanes s) l p" using assms(4,5) admit_covered by force
  have "g0 \<noteq> None" using assms(4,5) t fresh admit_fresh [OF fresh] by fastforce
  then obtain g where g: "take_open (lanes s) (c \<and> \<not> blind (lanes s)) l a = (Some g, st')" using t by auto
  then obtain us vs where q: "queue (lanes s) l = us @ g # vs" "queues st' = fmupd l (us @ vs) (queues (lanes s))"
    and lt: "fmlookup (latest (lanes s)) (l, a) = Some (hi g)" "arm g = a"
    using take_open_Some [OF g] by auto
  have "queue st l = us @ vs @ [\<lparr>lo = lo g, hi = p, arm = a\<rparr>]"
    using assms(4) unfolding admit_folds [OF fresh g q] by (auto simp: queue_def)
  moreover have "hi g \<notin> begun (lanes s)" using un lt(1) unfolding unbegun_def by blast
  moreover have "w_position w \<noteq> hi g" if busy: "workers s i = Working l w" for i w
  proof
    assume same: "w_position w = hi g"
    obtain g' where g': "frozen (lanes s) l g'" "w = work_of g'" using workers_okD(3) [OF S(4) busy] by blast
    then have "hi g' = hi g" using same by (simp add: work_of_def)
    moreover have "g' \<in> set (queue (lanes s) l)" "g \<in> set (queue (lanes s) l)"
      using g'(1) q(1) unfolding frozen_def by (metis list.set_intros(1), simp)
    ultimately have "g' = g" using sorted_wrt_hi_inj [OF queues_okD(2) [OF Q, of l]] by blast
    then show False using g'(1) lt by (simp add: frozen_def)
  qed
  ultimately show ?thesis using q(1) lt(2) by blast
qed

text \<open>
  C7: waking is exact.  In every reachable state, \<open>promote\<close> hands back each lane whose current
  deadline has passed, exactly once, and no other; those lanes become runnable, every other lane
  stays where it is, and the entries that remain are those still in the future.
\<close>

theorem promote_wakes_exactly_due:
  assumes "reachable C log (boot resume lane_rows recorded bl durable) s"
    and "arms_consistent C" and "boot_ok (answers_of C log) resume lane_rows durable"
    and "promote (lanes s) now = (woken, st)"
  shows "distinct woken \<and>
    set woken = {l. \<exists>d \<le> now. fmlookup (place_of (lanes s)) l = Some (Deferred d)} \<and>
    (\<forall>l. fmlookup (place_of st) l =
      (if l \<in> set woken then Some Queued else fmlookup (place_of (lanes s)) l)) \<and>
    deferred st = {e \<in> deferred (lanes s). now < fst e}"
proof -
  note P = sched_place [OF sys_okD(1) [OF reachable_sys_ok [OF assms(1-3)]]]
  note fin = place_okD(1) [OF P]
  have w: "woken = fst (promote (lanes s) now)" "st = snd (promote (lanes s) now)" using assms(4) by simp_all
  have set: "set woken = {l. \<exists>d \<le> now. fmlookup (place_of (lanes s)) l = Some (Deferred d)}"
    unfolding w promote_set [OF fin] using place_okD(4) [OF P] by blast
  have "fmlookup (place_of st) l = (if l \<in> set woken then Some Queued else fmlookup (place_of (lanes s)) l)" for l
    unfolding w(2) promote_due(3) [OF fin] set using place_okD(4) [OF P] by auto
  then show ?thesis
    using set promote_distinct [OF fin, of now] promote_due(2) [OF fin, of now] unfolding w by blast
qed

subsection \<open>Witnesses\<close>

definition shop :: "(string \<times> int) list" where
  "shop = [(''A'', 7), (''B'', 8), (''A'', 8), (''B'', 8), (''C'', 9)]"

definition half_done :: "move list" where
  "half_done = [Poll 5, Take_Lane 0 ''i:8'', Take_Head 0, Finish 0, Record_Lane 0, Take_Head 0,
     Take_Lane 1 ''i:7'', Take_Head 1, Finish 1, Give_Back 1, Publish, Take_Lane 2 ''i:9'', Take_Head 2, Park 2 30]"

lemmas at_half = sample_reachable [of shop half_done] sample_consistent boot_ok_empty

theorem low_water_safe_witness: "(1::nat) \<in> retired (fst (sample_run shop half_done))"
  by (rule low_water_safe [OF at_half, where l = "''i:7''" and a = 0 and c = False]; code_simp)

theorem nothing_lost_witness:
  "(2::nat) \<in> retired (fst (sample_run shop half_done)) \<or>
    (\<exists>g \<in> set (queue (lanes (fst (sample_run shop half_done))) ''i:8''). arm g = 1 \<and> lo g \<le> 2 \<and> 2 \<le> hi g) \<and>
    (fmlookup (place_of (lanes (fst (sample_run shop half_done)))) ''i:8'' = Some Queued \<or>
     (\<exists>d. fmlookup (place_of (lanes (fst (sample_run shop half_done)))) ''i:8'' = Some (Deferred d) \<and>
        (d, ''i:8'') \<in> deferred (lanes (fst (sample_run shop half_done)))) \<or>
     fmlookup (place_of (lanes (fst (sample_run shop half_done)))) ''i:8'' = Some Running \<and>
       (\<exists>i. owns (workers (fst (sample_run shop half_done)) i) ''i:8''))"
  by (rule nothing_lost [OF at_half, where c = True]; code_simp)

theorem never_wedged_witness:
  "\<exists>s'. reachable sample (sample_log shop) (fst (sample_run shop half_done)) s' \<and> (5::nat) \<in> retired s'"
  by (rule never_wedged [OF at_half, where l = "''i:9''" and a = 2 and c = False]; code_simp)

theorem one_worker_witness:
  "fmlookup (place_of (lanes (fst (sample_run shop half_done)))) ''i:8'' = Some Running \<and>
   (\<exists>g q. queue (lanes (fst (sample_run shop half_done))) ''i:8'' = g # q \<and> hi g = 4)"
proof -
  have "owns (workers (fst (sample_run shop half_done)) 0) ''i:8''" by code_simp
  moreover have "workers (fst (sample_run shop half_done)) 0 =
      Working ''i:8'' \<lparr>w_position = 4, collapsed_from = Some 2\<rparr>" by code_simp
  ultimately show ?thesis using one_worker_frozen_head [OF at_half, of 0 "''i:8''"] by fastforce
qed

theorem lane_completes_in_order_witness:
  "sorted_wrt (<) (map snd (filter (\<lambda>e. fst e = ''i:8'') (completions (fst (sample_run shop half_done)))))"
  by (rule lane_completes_in_order [OF sample_steady sample_consistent boot_ok_empty]; code_simp)

theorem restart_is_sound_witness:
  "boot_ok (answers_of sample (sample_log shop)) (mark (fst (sample_run shop half_done)))
     (rows (lanes (fst (sample_run shop half_done))))
     (retired (fst (sample_run shop half_done)) \<union> {p. superseded (answers_of sample (sample_log shop)) p})"
  by (rule restart_is_sound [OF at_half])

theorem row_owed_witness:
  "fst (complete (lanes (fst (sample_run shop half_done))) ''i:8'' 4) \<longleftrightarrow>
     low_water (snd (complete (lanes (fst (sample_run shop half_done))) ''i:8'' 4)) < 4"
proof -
  have "workers (fst (sample_run shop half_done)) 0 = Working ''i:8'' \<lparr>w_position = 4, collapsed_from = Some 2\<rparr>"
    by code_simp
  from row_owed_iff_mark_behind [OF at_half this prod.collapse [symmetric]] show ?thesis by simp
qed

theorem fold_takes_open_group_witness:
  "\<exists>us g vs. queue (lanes (fst (sample_run shop [Poll 3]))) ''i:8'' = us @ g # vs \<and> arm g = 1 \<and>
    hi g \<notin> begun (lanes (fst (sample_run shop [Poll 3]))) \<and>
    queue (snd (admit (lanes (fst (sample_run shop [Poll 3]))) ''i:8'' 4 1 True)) ''i:8'' =
      us @ vs @ [\<lparr>lo = lo g, hi = 4, arm = 1\<rparr>]"
proof -
  have "folded (fst (admit (lanes (fst (sample_run shop [Poll 3]))) ''i:8'' 4 1 True))" by code_simp
  from fold_takes_open_group [OF sample_reachable sample_consistent boot_ok_empty prod.collapse [symmetric] this]
  show ?thesis by blast
qed

theorem promote_wakes_witness:
  "set (fst (promote (lanes (fst (sample_run shop half_done))) 40)) =
    {l. \<exists>d \<le> 40. fmlookup (place_of (lanes (fst (sample_run shop half_done)))) l = Some (Deferred d)} \<and>
   fst (promote (lanes (fst (sample_run shop half_done))) 40) = [''i:9'']"
proof
  show "set (fst (promote (lanes (fst (sample_run shop half_done))) 40)) =
    {l. \<exists>d \<le> 40. fmlookup (place_of (lanes (fst (sample_run shop half_done)))) l = Some (Deferred d)}"
    using promote_wakes_exactly_due [OF at_half prod.collapse [symmetric], of 40] by blast
  show "fst (promote (lanes (fst (sample_run shop half_done))) 40) = [''i:9'']" by code_simp
qed

subsection \<open>Two schedules the comments rule out\<close>

definition redelivery :: "move list" where
  "redelivery = [Poll 4, Take_Lane 0 ''i:2'', Take_Head 0, Finish 0, Give_Back 0,
     Resubscribe, Poll 1, Take_Lane 0 ''i:1'', Take_Head 0, Finish 0, Give_Back 0, Publish,
     Poll 3, Take_Lane 0 ''i:2'', Take_Head 0, Finish 0]"

definition redelivered :: "(string \<times> int) list" where
  "redelivered = [(''A'', 1), (''B'', 2), (''B'', 2), (''B'', 2)]"

text \<open>
  A re-subscribe can re-run finished work out of order.  \<open>forget\<close> assumes nothing at or below
  the mark is offered again, but after a re-subscribe the reader's cursor restarts at the old mark
  while the mark itself can move past the cursor; the positions between them are then admitted a
  second time.  Here lane \<open>i:2\<close> finishes position 4, which folded 2 and 3, and later runs position
  3, although the mark had passed it.
\<close>

theorem resubscribe_reruns_retired:
  "\<exists>s. reachable sample (sample_log redelivered) (boot 0 fmempty {} False {}) s \<and> mark s = 4 \<and>
     filter (\<lambda>e. fst e = ''i:2'') (completions s) = [(''i:2'', 4), (''i:2'', 3)]"
proof (intro exI conjI)
  let ?s = "fst (sample_run redelivered redelivery)"
  show "reachable sample (sample_log redelivered) (boot 0 fmempty {} False {}) ?s" by (rule sample_reachable)
  show "mark ?s = 4" by code_simp
  show "filter (\<lambda>e. fst e = ''i:2'') (completions ?s) = [(''i:2'', 4), (''i:2'', 3)]" by code_simp
qed

definition two_arms :: "(string \<times> int) list" where
  "two_arms = [(''A'', 1), (''B'', 2), (''A'', 2), (''B'', 2)]"

definition row_run :: "move list" where
  "row_run = [Poll 4, Take_Lane 0 ''i:2'', Take_Head 0, Finish 0, Record_Lane 0]"

text \<open>
  A lane row can claim a position nothing has run.  Two arms share lane \<open>i:2\<close>: position 2 is
  folded into the queued group that runs at 4, position 3 of the other arm finishes first, and the
  row it owes reads 3.  After a restart position 2 is dropped as covered, and the mark passes it
  while no finished invocation covers it.
\<close>

theorem row_claims_unrun_position:
  "\<exists>s s'. reachable sample (sample_log two_arms) (boot 0 fmempty {} False {}) s \<and>
     reachable sample (sample_log two_arms) (boot (mark s) (rows (lanes s)) {} False (retired s)) s' \<and>
     answers_of sample (sample_log two_arms) 2 = Some (''i:2'', 1, True) \<and> mark s' = 3 \<and> 2 \<notin> retired s'"
proof (intro exI conjI)
  let ?s = "fst (sample_run two_arms row_run)"
  let ?b = "boot (mark ?s) (rows (lanes ?s)) {} False (retired ?s)"
  let ?s' = "fst (the (replay_run sample (sample_log two_arms)
      [Poll 3, Take_Lane 0 ''i:1'', Take_Head 0, Finish 0, Publish] ?b))"
  show "reachable sample (sample_log two_arms) (boot 0 fmempty {} False {}) ?s" by (rule sample_reachable)
  have "replay_run sample (sample_log two_arms)
      [Poll 3, Take_Lane 0 ''i:1'', Take_Head 0, Finish 0, Publish] ?b \<noteq> None" by code_simp
  then show "reachable sample (sample_log two_arms) ?b ?s'" using replay_from_boot by fastforce
  show "answers_of sample (sample_log two_arms) 2 = Some (''i:2'', 1, True)" by code_simp
  show "mark ?s' = 3" by code_simp
  show "2 \<notin> retired ?s'" by code_simp
qed

end
