(* ===== verification/Table.thy ===== *)
theory Table
  imports Prelude
begin

section \<open>Tables of rows with a primary key\<close>

text \<open>
  The SQL statements of src/opdb.rs on a table: a list of rows in \<open>rowid\<close> order, whose primary
  key is a function of the row.  \<open>INSERT OR IGNORE\<close>, \<open>UPDATE .. WHERE\<close>, \<open>DELETE .. WHERE\<close>
  and the bounded \<open>DELETE .. WHERE rowid IN (SELECT .. LIMIT n)\<close> each have one definition; a
  \<open>LIMIT\<close> below zero is no limit, and a bounded delete takes the rows in scan order.
\<close>

definition find_row :: "('r \<Rightarrow> 'k) \<Rightarrow> 'k \<Rightarrow> 'r list \<Rightarrow> 'r option" where
  "find_row key k rs = find (\<lambda>r. key r = k) rs"

definition insert_ignore :: "('r \<Rightarrow> 'k) \<Rightarrow> 'r \<Rightarrow> 'r list \<Rightarrow> 'r list" where
  "insert_ignore key r rs = (if find_row key (key r) rs = None then rs @ [r] else rs)"

definition update_where :: "('r \<Rightarrow> bool) \<Rightarrow> ('r \<Rightarrow> 'r) \<Rightarrow> 'r list \<Rightarrow> 'r list" where
  "update_where P f rs = map (\<lambda>r. if P r then f r else r) rs"

definition delete_where :: "('r \<Rightarrow> bool) \<Rightarrow> 'r list \<Rightarrow> 'r list" where
  "delete_where P rs = filter (\<lambda>r. \<not> P r) rs"

definition count_where :: "('r \<Rightarrow> bool) \<Rightarrow> 'r list \<Rightarrow> nat" where
  "count_where P rs = length (filter P rs)"

definition limited :: "int \<Rightarrow> 'r list \<Rightarrow> 'r list" where
  "limited n rs = (if n < 0 then rs else take (nat n) rs)"

definition delete_limited :: "('r \<Rightarrow> 'k) \<Rightarrow> ('r \<Rightarrow> bool) \<Rightarrow> int \<Rightarrow> 'r list \<Rightarrow> 'r list \<times> 'r list" where
  "delete_limited key P n rs =
     (let gone = limited n (filter P rs)
      in (gone, filter (\<lambda>r. key r \<notin> key ` set gone) rs))"

definition keyed :: "('r \<Rightarrow> 'k) \<Rightarrow> 'r list \<Rightarrow> bool" where
  "keyed key rs \<longleftrightarrow> distinct (map key rs)"

named_theorems table "facts on rows, statements and primary keys"

subsection \<open>Looking up\<close>

lemma find_row_Nil [table]: "find_row key k [] = None"
  by (simp add: find_row_def)

lemma find_row_Cons [table]: "find_row key k (r # rs) = (if key r = k then Some r else find_row key k rs)"
  by (simp add: find_row_def)

lemma find_row_SomeD: "find_row key k rs = Some r \<Longrightarrow> r \<in> set rs \<and> key r = k"
  by (auto simp: find_row_def find_Some_iff)

lemma find_row_None_iff: "find_row key k rs = None \<longleftrightarrow> k \<notin> key ` set rs"
  by (auto simp: find_row_def find_None_iff)

lemma find_row_keyed: "keyed key rs \<Longrightarrow> r \<in> set rs \<Longrightarrow> find_row key (key r) rs = Some r"
proof (induction rs)
  case (Cons x rs)
  then show ?case by (auto simp: keyed_def table image_iff)
qed simp

lemma keyed_unique: "keyed key rs \<Longrightarrow> r \<in> set rs \<Longrightarrow> r' \<in> set rs \<Longrightarrow> key r = key r' \<Longrightarrow> r = r'"
  by (metis find_row_keyed option.inject)

lemma find_row_append [table]:
  "find_row key k (rs @ rs') = (case find_row key k rs of None \<Rightarrow> find_row key k rs' | Some r \<Rightarrow> Some r)"
  by (induction rs) (auto simp: table)

subsection \<open>Statements\<close>

lemma find_row_insert [table]:
  "find_row key k (insert_ignore key r rs) =
     (case find_row key k rs of None \<Rightarrow> if key r = k then Some r else None | Some r' \<Rightarrow> Some r')"
  by (auto simp: insert_ignore_def table split: option.splits)

lemma keyed_insert [intro]: "keyed key rs \<Longrightarrow> keyed key (insert_ignore key r rs)"
  by (auto simp: insert_ignore_def keyed_def find_row_None_iff)

lemma keyed_append: "keyed key (rs @ [r]) \<longleftrightarrow> keyed key rs \<and> find_row key (key r) rs = None"
  by (auto simp: keyed_def find_row_None_iff)

lemma set_insert_ignore: "set (insert_ignore key r rs) \<subseteq> insert r (set rs)"
  by (auto simp: insert_ignore_def)

lemma find_row_update [table]:
  assumes "\<And>r. P r \<Longrightarrow> key (f r) = key r"
  shows "find_row key k (update_where P f rs) = map_option (\<lambda>r. if P r then f r else r) (find_row key k rs)"
  using assms by (induction rs) (auto simp: update_where_def find_row_def)

lemma keyed_update:
  assumes "keyed key rs" and "\<And>r. P r \<Longrightarrow> key (f r) = key r"
  shows "keyed key (update_where P f rs)"
proof -
  have "map key (update_where P f rs) = map key rs"
    using assms(2) by (simp add: update_where_def)
  with assms(1) show ?thesis by (simp add: keyed_def)
qed

lemma keyed_filter: "keyed key rs \<Longrightarrow> keyed key (filter Q rs)"
  unfolding keyed_def by (rule distinct_map_filter)

lemma keyed_delete [intro]: "keyed key rs \<Longrightarrow> keyed key (delete_where P rs)"
  unfolding delete_where_def by (rule keyed_filter)

lemma find_row_filter:
  assumes "keyed key rs"
  shows "find_row key k (filter Q rs) =
    (case find_row key k rs of None \<Rightarrow> None | Some r \<Rightarrow> if Q r then Some r else None)"
proof (cases "find_row key k rs")
  case None
  then have "find_row key k (filter Q rs) = None" by (auto simp: find_row_None_iff)
  with None show ?thesis by simp
next
  case (Some r)
  note r = find_row_SomeD [OF Some]
  show ?thesis
  proof (cases "Q r")
    case True
    then have "r \<in> set (filter Q rs)" using r by simp
    from find_row_keyed [OF keyed_filter [OF assms] this] show ?thesis using Some True r by simp
  next
    case False
    have "find_row key k (filter Q rs) = None"
      using keyed_unique [OF assms, of r] r False by (auto simp: find_row_None_iff)
    then show ?thesis using Some False by simp
  qed
qed

lemma find_row_delete [table]:
  assumes "keyed key rs"
  shows "find_row key k (delete_where P rs) =
    (case find_row key k rs of None \<Rightarrow> None | Some r \<Rightarrow> if P r then None else Some r)"
  unfolding delete_where_def find_row_filter [OF assms] by (auto split: option.splits)

lemma count_delete: "length (delete_where P rs) + count_where P rs = length rs"
  unfolding delete_where_def count_where_def
  by (metis add.commute sum_length_filter_compl)

lemma set_limited: "set (limited n rs) \<subseteq> set rs"
  by (auto simp: limited_def dest: in_set_takeD)

lemma length_limited: "0 \<le> n \<Longrightarrow> length (limited n rs) = min (nat n) (length rs)"
  by (simp add: limited_def min.commute)

lemma delete_limited_gone:
  "r \<in> set (fst (delete_limited key P n rs)) \<Longrightarrow> r \<in> set rs \<and> P r"
  using set_limited by (fastforce simp: delete_limited_def Let_def)

lemma keyed_delete_limited: "keyed key rs \<Longrightarrow> keyed key (snd (delete_limited key P n rs))"
  by (simp add: delete_limited_def Let_def keyed_filter)

lemma find_row_delete_limited:
  assumes "keyed key rs" and "find_row key k rs = Some r" and "\<not> P r"
  shows "find_row key k (snd (delete_limited key P n rs)) = Some r"
proof -
  note r = find_row_SomeD [OF assms(2)]
  have "key r \<notin> key ` set (limited n (filter P rs))"
  proof
    assume "key r \<in> key ` set (limited n (filter P rs))"
    then obtain g where g: "g \<in> set rs" "P g" "key g = key r"
      using set_limited [of n "filter P rs"] by auto
    then have "g = r" using keyed_unique [OF assms(1)] r by blast
    with g assms(3) show False by simp
  qed
  then show ?thesis
    using assms(2) r by (simp add: delete_limited_def Let_def find_row_filter [OF assms(1)])
qed

lemma delete_limited_count:
  assumes "keyed key rs"
  shows "length (fst (delete_limited key P n rs)) + length (snd (delete_limited key P n rs)) = length rs"
proof -
  let ?gone = "limited n (filter P rs)"
  have sub: "set ?gone \<subseteq> set rs" using set_limited [of n "filter P rs"] by auto
  have dist: "distinct rs" using assms by (simp add: keyed_def distinct_map)
  have "distinct ?gone" using dist by (simp add: limited_def)
  have eq: "filter (\<lambda>r. key r \<in> key ` set ?gone) rs = filter (\<lambda>r. r \<in> set ?gone) rs"
  proof (rule filter_cong [OF refl])
    fix r
    assume "r \<in> set rs"
    then show "(key r \<in> key ` set ?gone) = (r \<in> set ?gone)"
      using keyed_unique [OF assms, of r] sub by auto
  qed
  have "length (filter (\<lambda>r. r \<in> set ?gone) rs) = card (set ?gone)"
  proof -
    have "set (filter (\<lambda>r. r \<in> set ?gone) rs) = set ?gone" using sub by auto
    then show ?thesis using distinct_card [OF distinct_filter [OF dist]] by metis
  qed
  then have "length (filter (\<lambda>r. key r \<in> key ` set ?gone) rs) = length ?gone"
    using distinct_card [OF \<open>distinct ?gone\<close>] eq by simp
  moreover have "length (filter (\<lambda>r. key r \<in> key ` set ?gone) rs) +
      length (filter (\<lambda>r. \<not> key r \<in> key ` set ?gone) rs) = length rs"
    by (rule sum_length_filter_compl)
  ultimately show ?thesis by (simp add: delete_limited_def Let_def)
qed

subsection \<open>Compare and set\<close>

text \<open>
  An \<open>UPDATE\<close> keyed on the primary key and on a value the writer read: it hits the one row that
  still holds that value, or none.
\<close>

lemma cas_only:
  assumes "keyed key rs" and "find_row key k rs = Some r" and "x \<in> set rs"
  shows "key x = k \<longleftrightarrow> x = r"
  using keyed_unique [OF assms(1), of x r] find_row_SomeD [OF assms(2)] assms(3) by auto

lemma cas_miss:
  assumes "keyed key rs" and "find_row key k rs = Some r" and "tag r \<noteq> w"
  shows "count_where (\<lambda>x. key x = k \<and> tag x = w) rs = 0"
    and "update_where (\<lambda>x. key x = k \<and> tag x = w) f rs = rs"
proof -
  have none: "\<not> (key x = k \<and> tag x = w)" if "x \<in> set rs" for x
    using cas_only [OF assms(1,2) that] assms(3) by auto
  show "count_where (\<lambda>x. key x = k \<and> tag x = w) rs = 0"
    using none by (simp add: count_where_def filter_empty_conv)
  show "update_where (\<lambda>x. key x = k \<and> tag x = w) f rs = rs"
    unfolding update_where_def by (rule map_idI) (use none in auto)
qed

lemma cas_hit:
  assumes "keyed key rs" and "find_row key k rs = Some r" and "tag r = w" and "key (f r) = k"
  shows "0 < count_where (\<lambda>x. key x = k \<and> tag x = w) rs"
    and "update_where (\<lambda>x. key x = k \<and> tag x = w) f rs = map (\<lambda>x. if x = r then f r else x) rs"
    and "find_row key k (update_where (\<lambda>x. key x = k \<and> tag x = w) f rs) = Some (f r)"
    and "keyed key (update_where (\<lambda>x. key x = k \<and> tag x = w) f rs)"
proof -
  note r = find_row_SomeD [OF assms(2)]
  have "r \<in> set (filter (\<lambda>x. key x = k \<and> tag x = w) rs)" using r assms(3) by simp
  then show "0 < count_where (\<lambda>x. key x = k \<and> tag x = w) rs"
    unfolding count_where_def by (rule length_pos_if_in_set)
  have hit: "(key x = k \<and> tag x = w) = (x = r)" if "x \<in> set rs" for x
    using cas_only [OF assms(1,2) that] assms(3) by auto
  show up: "update_where (\<lambda>x. key x = k \<and> tag x = w) f rs = map (\<lambda>x. if x = r then f r else x) rs"
    unfolding update_where_def by (rule map_cong [OF refl]) (use hit in auto)
  have same: "map key (map (\<lambda>x. if x = r then f r else x) rs) = map key rs"
    using r assms(4) by auto
  then show kd: "keyed key (update_where (\<lambda>x. key x = k \<and> tag x = w) f rs)"
    using assms(1) unfolding up keyed_def by metis
  have "f r \<in> set (update_where (\<lambda>x. key x = k \<and> tag x = w) f rs)" unfolding up using r by auto
  from find_row_keyed [OF kd this]
  show "find_row key k (update_where (\<lambda>x. key x = k \<and> tag x = w) f rs) = Some (f r)"
    using assms(4) by simp
qed

lemma cas_undo:
  assumes "keyed key rs" and "find_row key k rs = Some r" and "tag r = w" and "key (f r) = k"
    and "tag (f r) = w'" and "g (f r) = r"
  shows "update_where (\<lambda>x. key x = k \<and> tag x = w') g (update_where (\<lambda>x. key x = k \<and> tag x = w) f rs) = rs"
proof -
  note H = cas_hit [where key = key and f = f and tag = tag, OF assms(1-4)]
  have kr: "key r = k" using find_row_SomeD [OF assms(2)] by simp
  have "update_where (\<lambda>x. key x = k \<and> tag x = w') g (update_where (\<lambda>x. key x = k \<and> tag x = w) f rs) =
      map (\<lambda>y. if y = f r then g (f r) else y) (map (\<lambda>x. if x = r then f r else x) rs)"
    using cas_hit(2) [where key = key and f = g and tag = tag, OF H(4,3) assms(5)] kr assms(6) H(2) by simp
  also have "\<dots> = rs"
    unfolding map_map
  proof (rule map_idI)
    fix x
    assume x: "x \<in> set rs"
    have "x = f r \<Longrightarrow> x = r" using cas_only [OF assms(1,2) x] assms(4) by simp
    then show "((\<lambda>y. if y = f r then g (f r) else y) \<circ> (\<lambda>x. if x = r then f r else x)) x = x"
      using assms(6) by auto
  qed
  finally show ?thesis .
qed

end
