(* ===== verification/Opdb.thy ===== *)
theory Opdb
  imports Table
begin

section \<open>The operational database: effects (src/opdb.rs)\<close>

text \<open>
  The tables an effect's progress lives in, and every statement the runtime issues on them.  A
  position is stored signed: \<open>as_i64\<close> on the way in, \<open>as_u64\<close> on the way out, as the casts of
  the code do.  SQLite itself, its transactions and its I/O errors are the environment: a method
  is one atomic function on the tables, and answers an error where a constraint refuses the
  statement.
\<close>

record invocation =
  inv_effect :: string
  inv_position :: int
  inv_hash :: string
  inv_status :: string
  inv_created :: string
  inv_completed :: "string option"
  inv_skipped :: "string option"
  inv_collapsed :: "int option"

record journal_row =
  j_effect :: string
  j_position :: int
  j_call :: string
  j_disambiguator :: int
  j_kind :: string
  j_result :: string
  j_created :: string

record activation =
  live_boundary_at :: int
  lane_scheme :: string

record decl_row =
  d_kind :: string
  d_name :: string
  d_hash :: string
  d_signature_hash :: "string option"
  d_form :: string
  d_signature :: "string option"
  d_module :: "string option"
  d_first_seen :: string
  d_last_seen :: string
  d_current :: bool

record opdb =
  invocations :: "invocation list"
  journal :: "journal_row list"
  cursors :: "(string, int) fmap"
  effect_lane :: "(string \<times> string, int) fmap"
  quarantines :: "(string, int \<times> string) fmap"
  activations :: "(string, activation) fmap"
  declarations :: "decl_row list"

definition empty_opdb :: opdb where
  "empty_opdb = \<lparr>invocations = [], journal = [], cursors = fmempty, effect_lane = fmempty,
     quarantines = fmempty, activations = fmempty, declarations = []\<rparr>"

definition inv_key :: "invocation \<Rightarrow> string \<times> int" where
  "inv_key r = (inv_effect r, inv_position r)"

definition j_key :: "journal_row \<Rightarrow> (string \<times> int) \<times> string \<times> int" where
  "j_key r = ((j_effect r, j_position r), j_call r, j_disambiguator r)"

definition d_key :: "decl_row \<Rightarrow> string \<times> string \<times> string" where
  "d_key r = (d_kind r, d_name r, d_hash r)"

datatype db_error = Constraint string | Missing string

subsection \<open>Invocations\<close>

datatype invocation_state = Run | AlreadyTerminal

definition clamp_i64 :: "nat \<Rightarrow> int" where
  "clamp_i64 value = (if int value < 2 ^ 63 then int value else 2 ^ 63 - 1)"

lemma clamp_i64_code [code]:
  "clamp_i64 value = (let i = int value in if i < 9223372036854775808 then i else 9223372036854775807)"
  by (simp add: clamp_i64_def Let_def)

definition begin_invocation :: "opdb \<Rightarrow> string \<Rightarrow> nat \<Rightarrow> string \<Rightarrow> string \<Rightarrow> (db_error + invocation_state) \<times> opdb" where
  "begin_invocation db effect position script_hash now =
     (let row = \<lparr>inv_effect = effect, inv_position = as_i64 position, inv_hash = script_hash,
                 inv_status = ''running'', inv_created = now, inv_completed = None,
                 inv_skipped = None, inv_collapsed = None\<rparr>;
          db = db\<lparr>invocations := insert_ignore inv_key row (invocations db)\<rparr>
      in (case find_row inv_key (effect, as_i64 position) (invocations db) of
            None \<Rightarrow> (Inl (Missing ''reading effect invocation status''), db)
          | Some r \<Rightarrow> (Inr (if inv_status r = ''terminal'' then AlreadyTerminal else Run), db)))"

definition complete_invocation :: "opdb \<Rightarrow> string \<Rightarrow> nat \<Rightarrow> string \<Rightarrow> nat option \<Rightarrow> opdb" where
  "complete_invocation db effect position now from =
     db\<lparr>invocations := update_where (\<lambda>r. inv_key r = (effect, as_i64 position))
        (\<lambda>r. r\<lparr>inv_status := ''terminal'', inv_completed := Some now,
              inv_collapsed := map_option as_i64 from\<rparr>) (invocations db)\<rparr>"

definition skip_invocation :: "opdb \<Rightarrow> string \<Rightarrow> nat \<Rightarrow> string \<Rightarrow> nat option \<Rightarrow> opdb" where
  "skip_invocation db effect position now from =
     db\<lparr>invocations := update_where (\<lambda>r. inv_key r = (effect, as_i64 position))
        (\<lambda>r. r\<lparr>inv_status := ''terminal'', inv_completed := Some now, inv_skipped := Some now,
              inv_collapsed := map_option as_i64 from\<rparr>) (invocations db)\<rparr>"

definition invocation_skipped :: "opdb \<Rightarrow> string \<Rightarrow> nat \<Rightarrow> bool" where
  "invocation_skipped db effect position =
     (case find_row inv_key (effect, as_i64 position) (invocations db) of
        None \<Rightarrow> False
      | Some r \<Rightarrow> inv_skipped r \<noteq> None)"

subsection \<open>The journal\<close>

definition journal_get :: "opdb \<Rightarrow> string \<Rightarrow> nat \<Rightarrow> string \<Rightarrow> nat \<Rightarrow> string option" where
  "journal_get db effect position call_hash disambiguator =
     map_option j_result
       (find_row j_key ((effect, as_i64 position), call_hash, as_i64 disambiguator) (journal db))"

text \<open>The insert has no conflict clause: a second row for a key, or a row without its invocation,
  is refused.\<close>

definition journal_put ::
  "opdb \<Rightarrow> string \<Rightarrow> nat \<Rightarrow> string \<Rightarrow> nat \<Rightarrow> string \<Rightarrow> string \<Rightarrow> string \<Rightarrow> db_error + opdb" where
  "journal_put db effect position call_hash disambiguator kind result now =
     (let row = \<lparr>j_effect = effect, j_position = as_i64 position, j_call = call_hash,
                 j_disambiguator = as_i64 disambiguator, j_kind = kind, j_result = result, j_created = now\<rparr>
      in if find_row j_key (j_key row) (journal db) \<noteq> None then Inl (Constraint ''unique'')
         else if find_row inv_key (effect, as_i64 position) (invocations db) = None
              then Inl (Constraint ''foreign key'')
         else Inr (db\<lparr>journal := journal db @ [row]\<rparr>))"

definition journal_keys :: "opdb \<Rightarrow> string \<Rightarrow> nat \<Rightarrow> (string \<times> nat) list" where
  "journal_keys db effect position =
     map (\<lambda>r. (j_call r, as_u64 (j_disambiguator r)))
       (filter (\<lambda>r. j_effect r = effect \<and> j_position r = as_i64 position) (journal db))"

text \<open>Deleting an invocation takes its journal rows with it: the foreign key cascades.\<close>

definition cascade :: "opdb \<Rightarrow> invocation list \<Rightarrow> opdb" where
  "cascade db gone =
     (let dead = inv_key ` set gone in
      db\<lparr>invocations := filter (\<lambda>r. inv_key r \<notin> dead) (invocations db),
         journal := filter (\<lambda>j. (j_effect j, j_position j) \<notin> dead) (journal db)\<rparr>)"

subsection \<open>Quarantines\<close>

definition quarantine_effect :: "opdb \<Rightarrow> string \<Rightarrow> nat \<Rightarrow> string \<Rightarrow> opdb" where
  "quarantine_effect db effect position reason =
     db\<lparr>quarantines := fmupd effect (as_i64 position, reason) (quarantines db)\<rparr>"

definition effect_quarantine :: "opdb \<Rightarrow> string \<Rightarrow> (nat \<times> string) option" where
  "effect_quarantine db effect =
     map_option (\<lambda>(position, reason). (as_u64 position, reason)) (fmlookup (quarantines db) effect)"

subsection \<open>Reading the recorded invocations\<close>

record terminal_invocation =
  t_position :: nat
  t_hash :: string
  t_collapsed :: "nat option"

definition terminal_invocations :: "opdb \<Rightarrow> string \<Rightarrow> terminal_invocation list" where
  "terminal_invocations db effect =
     map (\<lambda>r. \<lparr>t_position = as_u64 (inv_position r), t_hash = inv_hash r,
               t_collapsed = map_option as_u64 (inv_collapsed r)\<rparr>)
       (sort_key inv_position
         (filter (\<lambda>r. inv_effect r = effect \<and> inv_status r = ''terminal'') (invocations db)))"

definition recent_where :: "string \<Rightarrow> string \<Rightarrow> nat \<Rightarrow> invocation \<Rightarrow> bool" where
  "recent_where effect script_hash high r \<longleftrightarrow>
     inv_effect r = effect \<and> inv_hash r = script_hash \<and> inv_status r = ''terminal'' \<and>
     inv_position r \<le> as_i64 high"

definition recent_terminal_invocations :: "opdb \<Rightarrow> string \<Rightarrow> string \<Rightarrow> nat \<Rightarrow> nat \<Rightarrow> nat list" where
  "recent_terminal_invocations db effect script_hash high limit =
     map as_u64 (limited (clamp_i64 limit)
       (rev (sort (map inv_position (filter (recent_where effect script_hash high) (invocations db))))))"

definition count_terminal_invocations :: "opdb \<Rightarrow> string \<Rightarrow> string \<Rightarrow> nat \<Rightarrow> nat" where
  "count_terminal_invocations db effect script_hash high =
     count_where (recent_where effect script_hash high) (invocations db)"

definition invocations_above :: "opdb \<Rightarrow> string \<Rightarrow> nat \<Rightarrow> nat \<Rightarrow> nat list" where
  "invocations_above db effect after limit =
     map as_u64 (limited (as_i64 limit)
       (sort (map inv_position
          (filter (\<lambda>r. inv_effect r = effect \<and> inv_position r > as_i64 after) (invocations db)))))"

subsection \<open>The cursor and the lanes\<close>

definition effect_resume_after :: "opdb \<Rightarrow> string \<Rightarrow> nat" where
  "effect_resume_after db effect =
     as_u64 (case fmlookup (cursors db) effect of None \<Rightarrow> 0 | Some watermark \<Rightarrow> watermark)"

definition set_effect_watermark :: "opdb \<Rightarrow> string \<Rightarrow> nat \<Rightarrow> opdb" where
  "set_effect_watermark db effect watermark =
     db\<lparr>cursors := fmupd effect (as_i64 watermark) (cursors db)\<rparr>"

definition effect_lanes :: "opdb \<Rightarrow> string \<Rightarrow> string \<Rightarrow> nat option" where
  "effect_lanes db effect lane = map_option as_u64 (fmlookup (effect_lane db) (effect, lane))"

definition record_effect_lane :: "opdb \<Rightarrow> string \<Rightarrow> string \<Rightarrow> nat \<Rightarrow> opdb" where
  "record_effect_lane db effect lane position =
     db\<lparr>effect_lane := fmupd (effect, lane)
        (case fmlookup (effect_lane db) (effect, lane) of
           None \<Rightarrow> as_i64 position
         | Some held \<Rightarrow> max held (as_i64 position)) (effect_lane db)\<rparr>"

definition lane_at :: "opdb \<Rightarrow> (int \<Rightarrow> bool) \<Rightarrow> string \<times> string \<Rightarrow> bool" where
  "lane_at db P k \<longleftrightarrow> (case fmlookup (effect_lane db) k of None \<Rightarrow> False | Some p \<Rightarrow> P p)"

definition count_lanes :: "opdb \<Rightarrow> (string \<times> string \<Rightarrow> bool) \<Rightarrow> nat" where
  "count_lanes db Q = card (Set.filter Q (fset (fmdom (effect_lane db))))"

definition sweep_effect_lanes :: "opdb \<Rightarrow> string \<Rightarrow> nat \<Rightarrow> nat \<times> opdb" where
  "sweep_effect_lanes db effect watermark =
     (let gone = (\<lambda>k. fst k = effect \<and> lane_at db (\<lambda>p. p \<le> as_i64 watermark) k)
      in (count_lanes db gone, db\<lparr>effect_lane := fmfilter (\<lambda>k. \<not> gone k) (effect_lane db)\<rparr>))"

definition effect_lanes_outstanding :: "opdb \<Rightarrow> string \<Rightarrow> nat" where
  "effect_lanes_outstanding db effect =
     (let bound = (case fmlookup (cursors db) effect of None \<Rightarrow> 0 | Some watermark \<Rightarrow> watermark)
      in count_lanes db (\<lambda>k. fst k = effect \<and> lane_at db (\<lambda>p. p > bound) k))"

subsection \<open>Activation\<close>

definition effect_activation :: "opdb \<Rightarrow> string \<Rightarrow> (nat \<times> string) option" where
  "effect_activation db effect =
     map_option (\<lambda>a. (as_u64 (live_boundary_at a), lane_scheme a)) (fmlookup (activations db) effect)"

definition activate_effect :: "opdb \<Rightarrow> string \<Rightarrow> nat \<Rightarrow> string \<Rightarrow> (db_error + nat \<times> string) \<times> opdb" where
  "activate_effect db effect head scheme =
     (let db = (if fmlookup (activations db) effect = None
                then db\<lparr>activations := fmupd effect \<lparr>live_boundary_at = as_i64 head, lane_scheme = scheme\<rparr> (activations db)\<rparr>
                else db)
      in (ok_or (effect_activation db effect) (Missing ''no activation row after insert''), db))"

definition set_effect_lane_scheme :: "opdb \<Rightarrow> string \<Rightarrow> string \<Rightarrow> opdb" where
  "set_effect_lane_scheme db effect scheme =
     db\<lparr>activations := (case fmlookup (activations db) effect of
          None \<Rightarrow> activations db
        | Some a \<Rightarrow> fmupd effect (a\<lparr>lane_scheme := scheme\<rparr>) (activations db))\<rparr>"

subsection \<open>Rewinding\<close>

record rewind_counts =
  rc_invocations :: nat
  rc_lanes :: nat
  rc_quarantine :: bool

definition rewind_effect :: "opdb \<Rightarrow> string \<Rightarrow> nat \<Rightarrow> bool \<Rightarrow> rewind_counts \<times> opdb" where
  "rewind_effect db effect to include_live =
     (let gone = (\<lambda>r. inv_effect r = effect \<and> inv_position r > as_i64 to);
          invs = count_where gone (invocations db);
          db1 = cascade db (filter gone (invocations db));
          lane_rows = count_lanes db1 (\<lambda>k. fst k = effect);
          db2 = db1\<lparr>effect_lane := fmfilter (\<lambda>k. fst k \<noteq> effect) (effect_lane db1)\<rparr>;
          held = (case fmlookup (quarantines db2) effect of None \<Rightarrow> False | Some (p, _) \<Rightarrow> p > as_i64 to);
          db3 = (if held then db2\<lparr>quarantines := fmdrop effect (quarantines db2)\<rparr> else db2);
          db4 = db3\<lparr>cursors := fmupd effect (as_i64 to) (cursors db3)\<rparr>;
          db5 = (if include_live then
                   db4\<lparr>activations := (case fmlookup (activations db4) effect of
                        None \<Rightarrow> activations db4
                      | Some a \<Rightarrow> if live_boundary_at a > as_i64 to
                                  then fmupd effect (a\<lparr>live_boundary_at := as_i64 to\<rparr>) (activations db4)
                                  else activations db4)\<rparr>
                 else db4)
      in (\<lparr>rc_invocations = invs, rc_lanes = lane_rows, rc_quarantine = held\<rparr>, db5))"

definition rewind_preview :: "opdb \<Rightarrow> string \<Rightarrow> nat \<Rightarrow> rewind_counts" where
  "rewind_preview db effect to =
     \<lparr>rc_invocations = count_where (\<lambda>r. inv_effect r = effect \<and> inv_position r > as_i64 to) (invocations db),
      rc_lanes = count_lanes db (\<lambda>k. fst k = effect),
      rc_quarantine = (case fmlookup (quarantines db) effect of None \<Rightarrow> False | Some (p, _) \<Rightarrow> p > as_i64 to)\<rparr>"

subsection \<open>Declarations\<close>

definition running_with_hash_mismatch :: "opdb \<Rightarrow> string \<Rightarrow> string \<Rightarrow> nat list" where
  "running_with_hash_mismatch db effect current_hash =
     map as_u64 (sort (map inv_position
       (filter (\<lambda>r. inv_effect r = effect \<and> inv_status r = ''running'' \<and> inv_hash r \<noteq> current_hash \<and>
                    find_row d_key (''effect'', effect, inv_hash r) (declarations db) \<noteq> None)
          (invocations db))))"

definition record_declaration :: "string \<Rightarrow> decl_row \<Rightarrow> decl_row list \<Rightarrow> decl_row list" where
  "record_declaration now row ds =
     (if find_row d_key (d_key row) ds = None
      then ds @ [row\<lparr>d_first_seen := now, d_last_seen := now, d_current := True\<rparr>]
      else update_where (\<lambda>d. d_key d = d_key row)
             (\<lambda>d. d\<lparr>d_last_seen := now, d_current := True, d_module := d_module row\<rparr>) ds)"

definition set_current_declarations :: "opdb \<Rightarrow> decl_row list \<Rightarrow> string \<Rightarrow> opdb" where
  "set_current_declarations db loaded now =
     db\<lparr>declarations := fold (record_declaration now) loaded
        (update_where d_current (\<lambda>d. d\<lparr>d_current := False\<rparr>) (declarations db))\<rparr>"

definition current_declarations :: "opdb \<Rightarrow> decl_row list" where
  "current_declarations db =
     sort_key (\<lambda>d. (d_kind d, d_name d)) (filter d_current (declarations db))"

definition all_declarations :: "opdb \<Rightarrow> decl_row list" where
  "all_declarations db = sort_key (\<lambda>d. (d_kind d, d_name d, d_first_seen d)) (declarations db)"

definition declaration_by_hash :: "opdb \<Rightarrow> string \<Rightarrow> string \<Rightarrow> string \<Rightarrow> decl_row option" where
  "declaration_by_hash db kind name hash = find_row d_key (kind, name, hash) (declarations db)"

subsection \<open>The retention sweep\<close>

definition reclaimable :: "opdb \<Rightarrow> string \<Rightarrow> invocation \<Rightarrow> bool" where
  "reclaimable db cutoff r \<longleftrightarrow>
     inv_status r = ''terminal'' \<and>
     (case inv_completed r of None \<Rightarrow> False | Some t \<Rightarrow> t < cutoff) \<and>
     (case fmlookup (cursors db) (inv_effect r) of None \<Rightarrow> False | Some watermark \<Rightarrow> inv_position r \<le> watermark)"

definition sweep_effect_journal :: "opdb \<Rightarrow> string \<Rightarrow> nat \<Rightarrow> nat \<times> opdb" where
  "sweep_effect_journal db cutoff limit =
     (let gone = limited (as_i64 limit) (filter (reclaimable db cutoff) (invocations db))
      in (length gone, cascade db gone))"

end
