(* ===== verification/Opdb_Inv.thy ===== *)
theory Opdb_Inv
  imports Opdb
begin

section \<open>The invariant of the operational database\<close>

text \<open>
  Every statement the runtime issues, as a constructor of \<open>db_op\<close>, and what all of them keep:
  the primary keys are unique, a journal row has its invocation, and an invocation has a
  completion time exactly when it is terminal.
\<close>

definition inv_wf :: "invocation \<Rightarrow> bool" where
  "inv_wf r \<longleftrightarrow> inv_status r \<in> {''running'', ''terminal''} \<and>
     (inv_status r = ''terminal'' \<longleftrightarrow> inv_completed r \<noteq> None) \<and> (inv_skipped r \<noteq> None \<longrightarrow> inv_completed r \<noteq> None)"

definition db_ok :: "opdb \<Rightarrow> bool" where
  "db_ok db \<longleftrightarrow>
     keyed inv_key (invocations db) \<and> keyed j_key (journal db) \<and> keyed d_key (declarations db) \<and>
     (\<forall>j \<in> set (journal db). find_row inv_key (j_effect j, j_position j) (invocations db) \<noteq> None) \<and>
     (\<forall>r \<in> set (invocations db). inv_wf r)"

lemma db_okD:
  assumes "db_ok db"
  shows "keyed inv_key (invocations db)" "keyed j_key (journal db)" "keyed d_key (declarations db)"
    and "j \<in> set (journal db) \<Longrightarrow> find_row inv_key (j_effect j, j_position j) (invocations db) \<noteq> None"
    and "r \<in> set (invocations db) \<Longrightarrow> inv_wf r"
  using assms unfolding db_ok_def by blast+

datatype db_op =
    Begin string nat string string
  | Complete string nat string "nat option"
  | Skip string nat string "nat option"
  | Put string nat string nat string string string
  | Quarantine string nat string
  | Watermark string nat
  | Lane_Row string string nat
  | Sweep_Lanes string nat
  | Activate string nat string
  | Scheme string string
  | Declare "decl_row list" string
  | Sweep string nat
  | Rewind string nat bool

fun apply_op :: "db_op \<Rightarrow> opdb \<Rightarrow> opdb" where
  "apply_op (Begin e p h now) db = snd (begin_invocation db e p h now)"
| "apply_op (Complete e p now from) db = complete_invocation db e p now from"
| "apply_op (Skip e p now from) db = skip_invocation db e p now from"
| "apply_op (Put e p c d kind res now) db =
     (case journal_put db e p c d kind res now of Inl _ \<Rightarrow> db | Inr db' \<Rightarrow> db')"
| "apply_op (Quarantine e p reason) db = quarantine_effect db e p reason"
| "apply_op (Watermark e n) db = set_effect_watermark db e n"
| "apply_op (Lane_Row e l p) db = record_effect_lane db e l p"
| "apply_op (Sweep_Lanes e n) db = snd (sweep_effect_lanes db e n)"
| "apply_op (Activate e n scheme) db = snd (activate_effect db e n scheme)"
| "apply_op (Scheme e scheme) db = set_effect_lane_scheme db e scheme"
| "apply_op (Declare ds now) db = set_current_declarations db ds now"
| "apply_op (Sweep cutoff limit) db = snd (sweep_effect_journal db cutoff limit)"
| "apply_op (Rewind e n live) db = snd (rewind_effect db e n live)"

subsection \<open>What each statement does to an invocation\<close>

lemma inv_key_simps [simp]:
  "inv_key (r\<lparr>inv_status := s\<rparr>) = inv_key r" "inv_key (r\<lparr>inv_completed := c\<rparr>) = inv_key r"
  "inv_key (r\<lparr>inv_skipped := c\<rparr>) = inv_key r" "inv_key (r\<lparr>inv_collapsed := f\<rparr>) = inv_key r"
  by (simp_all add: inv_key_def)

lemma d_key_simps [simp]:
  "d_key (r\<lparr>d_first_seen := s\<rparr>) = d_key r" "d_key (r\<lparr>d_last_seen := s\<rparr>) = d_key r"
  "d_key (r\<lparr>d_current := b\<rparr>) = d_key r" "d_key (r\<lparr>d_module := m\<rparr>) = d_key r"
  by (simp_all add: d_key_def)

lemma begin_db:
  "snd (begin_invocation db e p h now) = db\<lparr>invocations := insert_ignore inv_key
     \<lparr>inv_effect = e, inv_position = as_i64 p, inv_hash = h, inv_status = ''running'', inv_created = now,
      inv_completed = None, inv_skipped = None, inv_collapsed = None\<rparr> (invocations db)\<rparr>"
  by (simp add: begin_invocation_def Let_def split: option.splits)

lemma begin_state:
  "fst (begin_invocation db e p h now) =
    Inr (case find_row inv_key (e, as_i64 p) (invocations db) of
           None \<Rightarrow> Run
         | Some r \<Rightarrow> if inv_status r = ''terminal'' then AlreadyTerminal else Run)"
proof -
  let ?row = "\<lparr>inv_effect = e, inv_position = as_i64 p, inv_hash = h, inv_status = ''running'', inv_created = now,
      inv_completed = None, inv_skipped = None, inv_collapsed = None\<rparr>"
  have k: "inv_key ?row = (e, as_i64 p)" by (simp add: inv_key_def)
  have "find_row inv_key (e, as_i64 p) (insert_ignore inv_key ?row (invocations db)) =
    (case find_row inv_key (e, as_i64 p) (invocations db) of None \<Rightarrow> Some ?row | Some r \<Rightarrow> Some r)"
    by (simp add: find_row_insert k)
  then show ?thesis by (auto simp: begin_invocation_def Let_def split: option.splits)
qed

lemma find_complete:
  "find_row inv_key k (invocations (complete_invocation db e p now from)) =
    map_option (\<lambda>r. if inv_key r = (e, as_i64 p)
        then r\<lparr>inv_status := ''terminal'', inv_completed := Some now, inv_collapsed := map_option as_i64 from\<rparr>
        else r) (find_row inv_key k (invocations db))"
  "find_row inv_key k (invocations (skip_invocation db e p now from)) =
    map_option (\<lambda>r. if inv_key r = (e, as_i64 p)
        then r\<lparr>inv_status := ''terminal'', inv_completed := Some now, inv_skipped := Some now,
               inv_collapsed := map_option as_i64 from\<rparr>
        else r) (find_row inv_key k (invocations db))"
  by (simp_all add: complete_invocation_def skip_invocation_def find_row_update)

lemma find_journal_filter:
  assumes "keyed j_key (journal db)"
  shows "find_row j_key k (filter Q (journal db)) =
    (case find_row j_key k (journal db) of None \<Rightarrow> None | Some r \<Rightarrow> if Q r then Some r else None)"
  by (rule find_row_filter [OF assms])

lemma find_cascade:
  assumes "keyed inv_key (invocations db)" and "set gone \<subseteq> set (invocations db)"
  shows "find_row inv_key k (invocations (cascade db gone)) =
    (case find_row inv_key k (invocations db) of None \<Rightarrow> None
     | Some r \<Rightarrow> if r \<in> set gone then None else Some r)"
proof (cases "find_row inv_key k (invocations db)")
  case None
  then show ?thesis by (simp add: cascade_def Let_def find_row_filter [OF assms(1)])
next
  case (Some r)
  have "inv_key r \<in> inv_key ` set gone \<longleftrightarrow> r \<in> set gone"
    using keyed_unique [OF assms(1), of r] find_row_SomeD [OF Some] assms(2) by auto
  with Some show ?thesis by (auto simp: cascade_def Let_def find_row_filter [OF assms(1)])
qed

subsection \<open>Preservation\<close>

lemma db_ok_frame:
  assumes "db_ok db" and "invocations db' = invocations db" "journal db' = journal db" "declarations db' = declarations db"
  shows "db_ok db'"
  using assms by (simp add: db_ok_def)

lemma db_ok_update:
  assumes ok: "db_ok db" and "\<And>r. P r \<Longrightarrow> inv_key (f r) = inv_key r" and "\<And>r. P r \<Longrightarrow> inv_wf r \<Longrightarrow> inv_wf (f r)"
  shows "db_ok (db\<lparr>invocations := update_where P f (invocations db)\<rparr>)"
  using db_okD [OF ok] assms(2,3) unfolding db_ok_def
  by (auto simp: find_row_update keyed_update) (auto simp: update_where_def)

lemma db_ok_cascade:
  assumes ok: "db_ok db"
  shows "db_ok (cascade db gone)"
proof -
  let ?db = "cascade db gone"
  note D = db_okD [OF ok]
  have "find_row inv_key (j_effect j, j_position j) (invocations ?db) \<noteq> None" if j: "j \<in> set (journal ?db)" for j
  proof -
    have jin: "j \<in> set (journal db)" and dead: "(j_effect j, j_position j) \<notin> inv_key ` set gone"
      using j by (auto simp: cascade_def Let_def)
    obtain r where r: "find_row inv_key (j_effect j, j_position j) (invocations db) = Some r"
      using D(4) [OF jin] by blast
    with find_row_SomeD [OF r] dead show ?thesis
      by (simp add: cascade_def Let_def find_row_filter [OF D(1)])
  qed
  moreover have "keyed inv_key (invocations ?db)" "keyed j_key (journal ?db)" "keyed d_key (declarations ?db)"
    "\<forall>r \<in> set (invocations ?db). inv_wf r"
    using D by (auto simp: cascade_def Let_def intro: keyed_filter)
  ultimately show ?thesis unfolding db_ok_def by blast
qed

lemma find_record_declaration:
  "find_row d_key k (record_declaration now row ds) =
     (case find_row d_key k ds of
        None \<Rightarrow> if d_key row = k then Some (row\<lparr>d_first_seen := now, d_last_seen := now, d_current := True\<rparr>) else None
      | Some d \<Rightarrow> if d_key row = k then Some (d\<lparr>d_last_seen := now, d_current := True, d_module := d_module row\<rparr>) else Some d)"
proof (cases "find_row d_key (d_key row) ds")
  case None
  then show ?thesis
    by (auto simp: record_declaration_def find_row_append find_row_Cons find_row_Nil split: option.splits)
next
  case (Some d)
  then show ?thesis
    by (auto simp: record_declaration_def find_row_update split: option.splits dest: find_row_SomeD)
qed

lemma keyed_record_declaration:
  assumes "keyed d_key ds"
  shows "keyed d_key (record_declaration now row ds)"
  using assms by (auto simp: record_declaration_def keyed_append intro: keyed_update)

lemma keyed_fold_declarations: "keyed d_key ds \<Longrightarrow> keyed d_key (fold (record_declaration now) loaded ds)"
  by (induction loaded arbitrary: ds) (auto simp: keyed_record_declaration)

lemma journal_put_Inr:
  assumes "journal_put db e p c d kind res now = Inr db'"
  shows "db' = db\<lparr>journal := journal db @ [\<lparr>j_effect = e, j_position = as_i64 p, j_call = c,
      j_disambiguator = as_i64 d, j_kind = kind, j_result = res, j_created = now\<rparr>]\<rparr>"
    and "find_row j_key ((e, as_i64 p), c, as_i64 d) (journal db) = None"
    and "find_row inv_key (e, as_i64 p) (invocations db) \<noteq> None"
  using assms by (auto simp: journal_put_def Let_def j_key_def split: if_splits)

lemma rewind_db:
  "invocations (snd (rewind_effect db e n live)) =
     invocations (cascade db (filter (\<lambda>r. inv_effect r = e \<and> inv_position r > as_i64 n) (invocations db)))"
  "journal (snd (rewind_effect db e n live)) =
     journal (cascade db (filter (\<lambda>r. inv_effect r = e \<and> inv_position r > as_i64 n) (invocations db)))"
  "declarations (snd (rewind_effect db e n live)) = declarations db"
  "cursors (snd (rewind_effect db e n live)) = fmupd e (as_i64 n) (cursors db)"
  by (auto simp: rewind_effect_def Let_def cascade_def)

lemma db_ok_apply:
  assumes ok: "db_ok db"
  shows "db_ok (apply_op op db)"
proof (cases op)
  case (Begin e p h now)
  let ?row = "\<lparr>inv_effect = e, inv_position = as_i64 p, inv_hash = h, inv_status = ''running'', inv_created = now,
      inv_completed = None, inv_skipped = None, inv_collapsed = None\<rparr>"
  have "inv_wf ?row" by (simp add: inv_wf_def)
  then show ?thesis
    using db_okD [OF ok] set_insert_ignore [of inv_key ?row "invocations db"] unfolding Begin db_ok_def
    by (auto simp: begin_db find_row_insert split: option.splits) (metis option.distinct(1))+
next
  case (Complete e p now frm)
  show ?thesis unfolding Complete apply_op.simps complete_invocation_def
    by (rule db_ok_update [OF ok]) (auto simp: inv_wf_def)
next
  case (Skip e p now frm)
  show ?thesis unfolding Skip apply_op.simps skip_invocation_def
    by (rule db_ok_update [OF ok]) (auto simp: inv_wf_def)
next
  case (Put e p c d kind res now)
  show ?thesis
  proof (cases "journal_put db e p c d kind res now")
    case (Inr db')
    note J = journal_put_Inr [OF Inr]
    show ?thesis using db_okD [OF ok] J unfolding Put db_ok_def
      by (auto simp: Inr keyed_append j_key_def)
  qed (use ok Put in simp)
next
  case (Sweep cutoff limit)
  then show ?thesis by (simp add: sweep_effect_journal_def Let_def db_ok_cascade [OF ok])
next
  case (Rewind e n live)
  show ?thesis unfolding Rewind apply_op.simps
    by (rule db_ok_frame [OF db_ok_cascade [OF ok]]) (auto simp: rewind_db, simp add: cascade_def Let_def)
next
  case (Declare ds now)
  then show ?thesis using db_okD [OF ok]
    by (auto simp: db_ok_def set_current_declarations_def intro!: keyed_fold_declarations keyed_update)
qed (auto intro!: db_ok_frame [OF ok] simp: quarantine_effect_def set_effect_watermark_def
    record_effect_lane_def sweep_effect_lanes_def activate_effect_def set_effect_lane_scheme_def Let_def)

lemma db_ok_run: "db_ok db \<Longrightarrow> db_ok (fold apply_op ops db)"
  by (induction ops arbitrary: db) (auto simp: db_ok_apply)

lemma db_ok_empty: "db_ok empty_opdb"
  by (simp add: db_ok_def empty_opdb_def keyed_def)

end
