(* ===== verification/Opdb_Ledger.thy ===== *)
theory Opdb_Ledger
  imports Opdb_Inv
begin

section \<open>What the operational database guarantees\<close>

text \<open>
  The properties of the effect tables over any sequence of statements: the invocation ledger and
  its journal, the retention sweep, a rewind, the activation and the declarations.
\<close>

text \<open>
  C9: every sequence of statements, from the empty database on, keeps the primary keys unique,
  every journal row attached to its invocation, and every invocation either running and not
  completed, or terminal with a completion time.
\<close>

theorem opdb_run_ok: "db_ok (fold apply_op ops empty_opdb)"
  by (rule db_ok_run [OF db_ok_empty])

subsection \<open>A position above the mark\<close>

text \<open>The statements that could take a position away: a rewind, and a mark that passes it.\<close>

fun harmless :: "string \<Rightarrow> nat \<Rightarrow> db_op \<Rightarrow> bool" where
  "harmless e p (Watermark e' n) = (e' = e \<longrightarrow> n < p)"
| "harmless e p (Rewind e' n live) = (e' \<noteq> e)"
| "harmless e p _ = True"

definition ledger_at :: "opdb \<Rightarrow> string \<Rightarrow> nat \<Rightarrow> bool \<Rightarrow> (string \<Rightarrow> nat \<Rightarrow> string option) \<Rightarrow> bool" where
  "ledger_at db e p finished recorded \<longleftrightarrow>
     (\<forall>w. fmlookup (cursors db) e = Some w \<longrightarrow> w < as_i64 p) \<and>
     (\<exists>r. find_row inv_key (e, as_i64 p) (invocations db) = Some r \<and> (finished \<longrightarrow> inv_status r = ''terminal'')) \<and>
     (\<forall>c d v. recorded c d = Some v \<longrightarrow> journal_get db e p c d = Some v)"

lemma ledger_atD:
  assumes "ledger_at db e p fin rec"
  shows "fmlookup (cursors db) e = Some w \<Longrightarrow> w < as_i64 p"
    and "\<exists>r. find_row inv_key (e, as_i64 p) (invocations db) = Some r \<and> (fin \<longrightarrow> inv_status r = ''terminal'')"
    and "rec c d = Some v \<Longrightarrow> journal_get db e p c d = Some v"
  using assms unfolding ledger_at_def by blast+

lemma ledger_at_frame:
  assumes "ledger_at db e p fin rec" and "invocations db' = invocations db" "journal db' = journal db"
    and "cursors db' = cursors db"
  shows "ledger_at db' e p fin rec"
  using assms by (simp add: ledger_at_def journal_get_def)

text \<open>Deleting other invocations leaves a position's row and journal alone.\<close>

lemma ledger_at_cascade:
  assumes ok: "db_ok db" and at: "ledger_at db e p fin rec"
    and gone: "set gone \<subseteq> set (invocations db)" "\<And>r. r \<in> set gone \<Longrightarrow> inv_key r \<noteq> (e, as_i64 p)"
  shows "ledger_at (cascade db gone) e p fin rec"
proof -
  note A = ledger_atD [OF at]
  obtain r where r: "find_row inv_key (e, as_i64 p) (invocations db) = Some r" "fin \<longrightarrow> inv_status r = ''terminal''"
    using A(2) by blast
  have "r \<notin> set gone" using gone(2) find_row_SomeD [OF r(1)] by blast
  then have "find_row inv_key (e, as_i64 p) (invocations (cascade db gone)) = Some r"
    using find_cascade [OF db_okD(1) [OF ok] gone(1)] r(1) by simp
  moreover have "journal_get (cascade db gone) e p c d = Some v" if known: "rec c d = Some v" for c d v
  proof -
    obtain j where j: "find_row j_key ((e, as_i64 p), c, as_i64 d) (journal db) = Some j" "j_result j = v"
      using A(3) [OF known] by (auto simp: journal_get_def)
    have "(j_effect j, j_position j) = (e, as_i64 p)" using find_row_SomeD [OF j(1)] by (simp add: j_key_def)
    moreover have "(e, as_i64 p) \<notin> inv_key ` set gone" using gone(2) by (metis imageE)
    ultimately have keep: "(j_effect j, j_position j) \<notin> inv_key ` set gone" by simp
    have "find_row j_key ((e, as_i64 p), c, as_i64 d) (journal (cascade db gone)) = Some j"
      using j(1) keep find_row_filter [OF db_okD(2) [OF ok]] by (simp add: cascade_def Let_def)
    then show ?thesis using j(2) by (simp add: journal_get_def)
  qed
  moreover have "cursors (cascade db gone) = cursors db" by (simp add: cascade_def Let_def)
  ultimately show ?thesis using A(1) r(2) unfolding ledger_at_def by auto
qed

lemma ledger_at_update:
  assumes at: "ledger_at db e p fin rec"
    and f: "\<And>r. P r \<Longrightarrow> inv_key (f r) = inv_key r" "\<And>r. P r \<Longrightarrow> inv_status (f r) = ''terminal''"
  shows "ledger_at (db\<lparr>invocations := update_where P f (invocations db)\<rparr>) e p fin rec"
proof -
  note A = ledger_atD [OF at]
  obtain r where r: "find_row inv_key (e, as_i64 p) (invocations db) = Some r" "fin \<longrightarrow> inv_status r = ''terminal''"
    using A(2) by blast
  have "find_row inv_key (e, as_i64 p) (update_where P f (invocations db)) = Some (if P r then f r else r)"
    using r(1) f(1) by (simp add: find_row_update)
  then show ?thesis using A(1,3) r(2) f(2) unfolding ledger_at_def journal_get_def by simp
qed

lemma ledger_at_step:
  assumes ok: "db_ok db" and at: "ledger_at db e p fin rec" and harm: "harmless e p op" and p: "p < 2 ^ 63"
  shows "ledger_at (apply_op op db) e p fin rec"
proof (cases op)
  case (Begin e' p' h now)
  then show ?thesis using at
    by (auto simp: ledger_at_def begin_db find_row_insert journal_get_def)
next
  case (Complete e' p' now frm)
  show ?thesis unfolding Complete apply_op.simps complete_invocation_def
    by (rule ledger_at_update [OF at]) simp_all
next
  case (Skip e' p' now frm)
  show ?thesis unfolding Skip apply_op.simps skip_invocation_def
    by (rule ledger_at_update [OF at]) simp_all
next
  case (Put e' p' c d kind res now)
  show ?thesis
  proof (cases "journal_put db e' p' c d kind res now")
    case (Inr db')
    note J = journal_put_Inr [OF Inr]
    have "journal_get db' e p x y = Some v" if "journal_get db e p x y = Some v" for x y v
      using that by (auto simp: J(1) journal_get_def find_row_append)
    moreover have "invocations db' = invocations db" "cursors db' = cursors db" by (simp_all add: J(1))
    ultimately show ?thesis using at unfolding Put apply_op.simps Inr sum.case ledger_at_def by simp
  qed (use at Put in simp)
next
  case (Watermark e' n)
  have "as_i64 n < as_i64 p" if "e' = e" using harm p that by (simp add: Watermark as_i64_less_iff)
  then show ?thesis using at by (auto simp: Watermark ledger_at_def set_effect_watermark_def journal_get_def)
next
  case (Sweep cutoff limit)
  let ?gone = "limited (as_i64 limit) (filter (reclaimable db cutoff) (invocations db))"
  have sub: "set ?gone \<subseteq> set (invocations db)" using set_limited [of "as_i64 limit" "filter (reclaimable db cutoff) (invocations db)"]
    by auto
  have "inv_key r \<noteq> (e, as_i64 p)" if r: "r \<in> set ?gone" for r
  proof
    assume k: "inv_key r = (e, as_i64 p)"
    have "reclaimable db cutoff r"
      using r set_limited [of "as_i64 limit" "filter (reclaimable db cutoff) (invocations db)"] by auto
    then obtain w where "fmlookup (cursors db) e = Some w" "as_i64 p \<le> w"
      using k by (auto simp: reclaimable_def inv_key_def split: option.splits)
    then show False using ledger_atD(1) [OF at] by fastforce
  qed
  from ledger_at_cascade [OF ok at sub this] show ?thesis
    by (simp add: Sweep sweep_effect_journal_def Let_def)
next
  case (Rewind e' n live)
  let ?gone = "filter (\<lambda>r. inv_effect r = e' \<and> inv_position r > as_i64 n) (invocations db)"
  have ne: "e' \<noteq> e" using harm by (simp add: Rewind)
  have "ledger_at (cascade db ?gone) e p fin rec"
    by (rule ledger_at_cascade [OF ok at]) (use ne in \<open>auto simp: inv_key_def\<close>)
  moreover have "cursors (cascade db ?gone) = cursors db" by (simp add: cascade_def Let_def)
  ultimately show ?thesis using ne unfolding Rewind apply_op.simps ledger_at_def journal_get_def rewind_db
    by simp
qed (auto intro!: ledger_at_frame [OF at] simp: quarantine_effect_def
    record_effect_lane_def sweep_effect_lanes_def activate_effect_def set_effect_lane_scheme_def
    set_current_declarations_def Let_def)

lemma ledger_at_run:
  assumes "db_ok db" "ledger_at db e p fin rec" "list_all (harmless e p) ops" "p < 2 ^ 63"
  shows "ledger_at (fold apply_op ops db) e p fin rec"
  using assms
proof (induction ops arbitrary: db)
  case (Cons op ops)
  then show ?case using ledger_at_step db_ok_apply by simp
qed simp


subsection \<open>Rewinding\<close>

lemma count_lanes_cascade: "count_lanes (cascade db gone) Q = count_lanes db Q"
  by (simp add: count_lanes_def cascade_def Let_def)

text \<open>
  A rewind discards exactly what its preview counts.  The cursor reads the target; a position
  above it begins afresh with an empty journal, and a position at or below it, and every other
  effect, keeps its invocation and its journal.
\<close>

theorem rewind_discards_exactly:
  assumes "db_ok db" and "n < 2 ^ 63" and "p < 2 ^ 63"
  shows "fst (rewind_effect db e n live) = rewind_preview db e n \<and>
    effect_resume_after (snd (rewind_effect db e n live)) e = n \<and>
    (if e' = e \<and> n < p
     then fst (begin_invocation (snd (rewind_effect db e n live)) e' p h now) = Inr Run \<and>
          journal_keys (snd (rewind_effect db e n live)) e' p = []
     else find_row inv_key (e', as_i64 p) (invocations (snd (rewind_effect db e n live))) =
            find_row inv_key (e', as_i64 p) (invocations db) \<and>
          journal_keys (snd (rewind_effect db e n live)) e' p = journal_keys db e' p)"
proof -
  let ?gone = "filter (\<lambda>r. inv_effect r = e \<and> inv_position r > as_i64 n) (invocations db)"
  have sub: "set ?gone \<subseteq> set (invocations db)" by auto
  note F = find_cascade [OF db_okD(1) [OF assms(1)] sub]
  have "fst (rewind_effect db e n live) = rewind_preview db e n"
    by (simp add: rewind_effect_def rewind_preview_def Let_def count_lanes_cascade) (simp add: cascade_def Let_def)
  moreover have "effect_resume_after (snd (rewind_effect db e n live)) e = n"
    using assms(2) by (simp add: effect_resume_after_def rewind_db as_u64_as_i64)
  moreover have "fst (begin_invocation (snd (rewind_effect db e n live)) e p h now) = Inr Run \<and>
      journal_keys (snd (rewind_effect db e n live)) e p = []" if np: "n < p"
  proof -
    have gt: "as_i64 n < as_i64 p" using np assms(2,3) by (simp add: as_i64_less_iff)
    have none: "find_row inv_key (e, as_i64 p) (invocations (cascade db ?gone)) = None"
      using F gt by (auto simp: inv_key_def split: option.splits dest!: find_row_SomeD)
    have "\<not> (j_effect j = e \<and> j_position j = as_i64 p)" if "j \<in> set (journal (cascade db ?gone))" for j
      using db_okD(4) [OF db_ok_cascade [OF assms(1)] that] none by auto
    then have "journal_keys (snd (rewind_effect db e n live)) e p = []"
      by (auto simp: journal_keys_def rewind_db filter_empty_conv)
    then show ?thesis using none by (simp add: begin_state rewind_db)
  qed
  moreover have "find_row inv_key (e', as_i64 p) (invocations (snd (rewind_effect db e n live))) =
            find_row inv_key (e', as_i64 p) (invocations db) \<and>
          journal_keys (snd (rewind_effect db e n live)) e' p = journal_keys db e' p" if other: "\<not> (e' = e \<and> n < p)"
  proof -
    have le: "\<not> (e' = e \<and> as_i64 n < as_i64 p)" using other assms(2,3) by (simp add: as_i64_less_iff)
    have "find_row inv_key (e', as_i64 p) (invocations (cascade db ?gone)) =
        find_row inv_key (e', as_i64 p) (invocations db)"
      using F le by (auto simp: inv_key_def split: option.splits dest!: find_row_SomeD)
    moreover have "filter (\<lambda>r. j_effect r = e' \<and> j_position r = as_i64 p) (journal (cascade db ?gone)) =
        filter (\<lambda>r. j_effect r = e' \<and> j_position r = as_i64 p) (journal db)"
      using le by (auto simp: cascade_def Let_def inv_key_def intro!: filter_cong)
    ultimately show ?thesis by (simp add: journal_keys_def rewind_db)
  qed
  ultimately show ?thesis by auto
qed

end
