(* ===== verification/Opdb_Read.thy ===== *)
theory Opdb_Read
  imports Opdb_Ledger
begin

section \<open>Sweeps, lanes, activations and declarations\<close>

text \<open>
  The remaining guarantees of the effect tables: what the retention sweep reclaims and when its
  loop may stop, the lanes left above the mark, the live boundary that never moves by itself, the
  listing of recent invocations, and the inventory of declarations.
\<close>

subsection \<open>The retention sweep\<close>

lemma sweep_db:
  "sweep_effect_journal db cutoff limit =
    (length (limited (as_i64 limit) (filter (reclaimable db cutoff) (invocations db))),
     cascade db (limited (as_i64 limit) (filter (reclaimable db cutoff) (invocations db))))"
  by (simp add: sweep_effect_journal_def Let_def)

lemma reclaimable_cursor: "cursors db' = cursors db \<Longrightarrow> reclaimable db' cutoff r = reclaimable db cutoff r"
  by (simp add: reclaimable_def)

text \<open>
  One call of the sweep.  It deletes only invocations that completed before the cutoff and lie at
  or below their effect's mark, reports how many, never more than the limit, and reports fewer than
  the limit exactly when none is left, which is what ends the sweeper's loop.
\<close>

lemma sweep_reclaims:
  assumes "db_ok db" and "limit < 2 ^ 63" and "sweep_effect_journal db cutoff limit = (n, db')"
  shows "n \<le> limit \<and> length (invocations db') + n = length (invocations db) \<and>
    (\<forall>r \<in> set (invocations db). r \<notin> set (invocations db') \<longrightarrow> reclaimable db cutoff r) \<and>
    (n < limit \<longrightarrow> filter (reclaimable db' cutoff) (invocations db') = [])"
proof -
  let ?gone = "limited (as_i64 limit) (filter (reclaimable db cutoff) (invocations db))"
  note K = db_okD(1) [OF assms(1)]
  have sw: "n = length ?gone" "db' = cascade db ?gone" using assms(3) by (simp_all add: sweep_db)
  have lim: "length ?gone = min limit (length (filter (reclaimable db cutoff) (invocations db)))"
    using length_limited [of "as_i64 limit" "filter (reclaimable db cutoff) (invocations db)"] assms(2)
    by (simp add: as_i64_small)
  have inv: "invocations db' = snd (delete_limited inv_key (reclaimable db cutoff) (as_i64 limit) (invocations db))"
    by (simp add: sw cascade_def Let_def delete_limited_def)
  have gone: "fst (delete_limited inv_key (reclaimable db cutoff) (as_i64 limit) (invocations db)) = ?gone"
    by (simp add: delete_limited_def Let_def)
  have "reclaimable db cutoff r" if "r \<in> set (invocations db)" "r \<notin> set (invocations db')" for r
  proof (rule ccontr)
    assume "\<not> reclaimable db cutoff r"
    from find_row_delete_limited [OF K find_row_keyed [OF K that(1)], where P = "reclaimable db cutoff", OF this] that(2) inv
    show False using find_row_SomeD by fastforce
  qed
  moreover have "filter (reclaimable db' cutoff) (invocations db') = []" if "n < limit"
  proof -
    have short: "length (filter (reclaimable db cutoff) (invocations db)) < limit" using that sw(1) lim by simp
    then have all: "?gone = filter (reclaimable db cutoff) (invocations db)"
      using assms(2) by (simp add: limited_def as_i64_small)
    have "cursors db' = cursors db" by (simp add: sw cascade_def Let_def)
    then have same: "reclaimable db' cutoff r = reclaimable db cutoff r" for r by (rule reclaimable_cursor)
    have left: "r \<in> set (invocations db) \<and> inv_key r \<notin> inv_key ` set ?gone" if "r \<in> set (invocations db')" for r
      using that unfolding sw cascade_def Let_def by simp
    have "\<not> reclaimable db cutoff r" if "r \<in> set (invocations db')" for r
      using left [OF that] unfolding all by auto
    then show ?thesis by (simp add: filter_empty_conv same)
  qed
  moreover have "n \<le> limit" using sw(1) lim by simp
  moreover have "length (invocations db') + n = length (invocations db)"
    using delete_limited_count [OF K, of "reclaimable db cutoff" "as_i64 limit"] inv gone sw(1) by simp
  ultimately show ?thesis by blast
qed

subsection \<open>Lanes\<close>

definition stored_ok :: "opdb \<Rightarrow> bool" where
  "stored_ok db \<longleftrightarrow>
     (\<forall>k p. fmlookup (effect_lane db) k = Some p \<longrightarrow> 0 \<le> p \<and> p < 2 ^ 63) \<and>
     (\<forall>e w. fmlookup (cursors db) e = Some w \<longrightarrow> 0 \<le> w \<and> w < 2 ^ 63)"

lemma as_u64_stored: "0 \<le> i \<Longrightarrow> i < 2 ^ 63 \<Longrightarrow> as_u64 i = nat i"
  by (simp add: as_u64_def)

text \<open>
  The lane rows.  Recording never lowers a row, a sweep bounded at the mark removes exactly the
  rows the mark has reached, and the count that guards a change of partition key is zero exactly
  when no lane of the effect is recorded above its resume point.
\<close>

theorem lane_rows_against_mark:
  assumes "stored_ok db" and "p < 2 ^ 63" and "w < 2 ^ 63"
  shows "effect_lanes (record_effect_lane db e l p) e l =
      Some (case effect_lanes db e l of None \<Rightarrow> p | Some q \<Rightarrow> max q p) \<and>
    effect_lanes (snd (sweep_effect_lanes db e w)) e l =
      (case effect_lanes db e l of None \<Rightarrow> None | Some q \<Rightarrow> if q \<le> w then None else Some q) \<and>
    (effect_lanes_outstanding db e = 0 \<longleftrightarrow>
      (\<forall>m q. effect_lanes db e m = Some q \<longrightarrow> q \<le> effect_resume_after db e))"
proof -
  have st: "0 \<le> q \<and> q < 2 ^ 63" if "fmlookup (effect_lane db) k = Some q" for k q
    using assms(1) that unfolding stored_ok_def by blast
  have "effect_lanes (record_effect_lane db e l p) e l =
      Some (case effect_lanes db e l of None \<Rightarrow> p | Some q \<Rightarrow> max q p)"
  proof (cases "fmlookup (effect_lane db) (e, l)")
    case (Some q)
    with st [OF Some] assms(2) show ?thesis
      by (simp add: effect_lanes_def record_effect_lane_def as_i64_small as_u64_stored max_def nat_le_iff)
  qed (use assms(2) in \<open>simp add: effect_lanes_def record_effect_lane_def as_i64_small as_u64_stored\<close>)
  moreover have "effect_lanes (snd (sweep_effect_lanes db e w)) e l =
      (case effect_lanes db e l of None \<Rightarrow> None | Some q \<Rightarrow> if q \<le> w then None else Some q)"
  proof (cases "fmlookup (effect_lane db) (e, l)")
    case (Some q)
    with st [OF Some] assms(3) show ?thesis
      by (auto simp: effect_lanes_def sweep_effect_lanes_def Let_def lane_at_def as_i64_small as_u64_stored)
  qed (simp add: effect_lanes_def sweep_effect_lanes_def Let_def lane_at_def)
  moreover have "effect_lanes_outstanding db e = 0 \<longleftrightarrow>
      (\<forall>m q. effect_lanes db e m = Some q \<longrightarrow> q \<le> effect_resume_after db e)"
  proof -
    define bound where "bound = (case fmlookup (cursors db) e of None \<Rightarrow> 0 | Some w \<Rightarrow> w)"
    have b: "0 \<le> bound" "bound < 2 ^ 63" "effect_resume_after db e = nat bound"
      using assms(1) by (auto simp: bound_def stored_ok_def effect_resume_after_def as_u64_stored split: option.splits)
    have "effect_lanes_outstanding db e = 0 \<longleftrightarrow>
        (\<forall>k \<in> fset (fmdom (effect_lane db)). \<not> (fst k = e \<and> lane_at db (\<lambda>p. p > bound) k))"
      by (auto simp: effect_lanes_outstanding_def count_lanes_def bound_def Let_def)
    also have "\<dots> \<longleftrightarrow> (\<forall>m q. fmlookup (effect_lane db) (e, m) = Some q \<longrightarrow> q \<le> bound)"
      by (auto simp: lane_at_def fmlookup_dom_iff not_less split: option.splits) (metis fmdomI fst_conv)
    also have "\<dots> \<longleftrightarrow> (\<forall>m q. effect_lanes db e m = Some q \<longrightarrow> q \<le> effect_resume_after db e)"
    proof -
      have "as_u64 q \<le> nat bound \<longleftrightarrow> q \<le> bound" if "fmlookup (effect_lane db) (e, m) = Some q" for m q
        using st [OF that] b(1) by (simp add: as_u64_stored nat_le_eq_zle)
      then have "(\<forall>q. fmlookup (effect_lane db) (e, m) = Some q \<longrightarrow> q \<le> bound) \<longleftrightarrow>
          (\<forall>q. effect_lanes db e m = Some q \<longrightarrow> q \<le> effect_resume_after db e)" for m
        by (cases "fmlookup (effect_lane db) (e, m)") (simp_all add: effect_lanes_def b(3))
      then show ?thesis by simp
    qed
    finally show ?thesis .
  qed
  ultimately show ?thesis by blast
qed

subsection \<open>The live boundary\<close>

fun keeps_boundary :: "string \<Rightarrow> db_op \<Rightarrow> bool" where
  "keeps_boundary e (Rewind e' n live) = (\<not> (e' = e \<and> live))"
| "keeps_boundary e _ = True"

definition boundary :: "opdb \<Rightarrow> string \<Rightarrow> int option" where
  "boundary db e = map_option live_boundary_at (fmlookup (activations db) e)"

lemma boundary_step:
  assumes "boundary db e = Some b" and "keeps_boundary e op"
  shows "boundary (apply_op op db) e = Some b"
proof (cases op)
  case (Put e' p c d kind res now)
  then show ?thesis using assms(1)
    by (auto simp: boundary_def dest: journal_put_Inr(1) split: sum.splits)
next
  case (Rewind e' n live)
  then show ?thesis using assms
    by (auto simp: boundary_def rewind_effect_def Let_def cascade_def split: option.splits)
qed (use assms(1) in \<open>auto simp: boundary_def begin_db complete_invocation_def skip_invocation_def
    quarantine_effect_def set_effect_watermark_def record_effect_lane_def sweep_effect_lanes_def
    activate_effect_def set_effect_lane_scheme_def set_current_declarations_def sweep_db cascade_def Let_def
    split: option.splits\<close>)

lemma boundary_run: "boundary db e = Some b \<Longrightarrow> list_all (keeps_boundary e) ops \<Longrightarrow>
    boundary (fold apply_op ops db) e = Some b"
  by (induction ops arbitrary: db) (auto simp: boundary_step)

text \<open>
  The live boundary is resolved once.  The first activation of an effect answers the head it was
  given; every later activation, whatever head it is given and whatever ran in between short of a
  rewind that asks for it, answers that same boundary.
\<close>

theorem live_boundary_resolved_once:
  assumes "effect_activation db e = None" and "first < 2 ^ 63" and "list_all (keeps_boundary e) ops"
  shows "fst (activate_effect db e first scheme) = Inr (first, scheme) \<and>
    (\<exists>s. fst (activate_effect (fold apply_op ops (snd (activate_effect db e first scheme))) e later scheme') =
      Inr (first, s))"
proof -
  have none: "fmlookup (activations db) e = None" using assms(1) by (simp add: effect_activation_def)
  then have "fst (activate_effect db e first scheme) = Inr (first, scheme)"
    using assms(2) by (simp add: activate_effect_def effect_activation_def as_u64_as_i64)
  moreover have "boundary (snd (activate_effect db e first scheme)) e = Some (as_i64 first)"
    using none by (simp add: activate_effect_def boundary_def Let_def)
  then have "boundary (fold apply_op ops (snd (activate_effect db e first scheme))) e = Some (as_i64 first)"
    by (rule boundary_run [OF _ assms(3)])
  then have "\<exists>s. fst (activate_effect (fold apply_op ops (snd (activate_effect db e first scheme))) e later scheme') =
      Inr (first, s)"
    using assms(2) by (auto simp: boundary_def activate_effect_def effect_activation_def as_u64_as_i64)
  ultimately show ?thesis by blast
qed

subsection \<open>The recent invocations\<close>

definition stored_positions :: "opdb \<Rightarrow> bool" where
  "stored_positions db \<longleftrightarrow> (\<forall>r \<in> set (invocations db). 0 \<le> inv_position r \<and> inv_position r < 2 ^ 63)"

text \<open>
  The listing a plan replays.  It holds the newest terminal invocations of the given version at
  or below the bound, strictly descending, as many as the limit allows of the number the unbounded
  count reports, and any such invocation it leaves out is older than every one it lists.
\<close>

theorem recent_are_newest:
  assumes "db_ok db" and "stored_positions db" and "limit < 2 ^ 63" and "high < 2 ^ 63"
  shows "length (recent_terminal_invocations db e h high limit) =
      min limit (count_terminal_invocations db e h high) \<and>
    sorted_wrt (>) (recent_terminal_invocations db e h high limit) \<and>
    (\<forall>r \<in> set (invocations db). recent_where e h high r \<longrightarrow>
       nat (inv_position r) \<in> set (recent_terminal_invocations db e h high limit) \<or>
       (\<forall>p \<in> set (recent_terminal_invocations db e h high limit). nat (inv_position r) < p))"
proof -
  let ?rs = "filter (recent_where e h high) (invocations db)"
  let ?ps = "map inv_position ?rs"
  have lim: "clamp_i64 limit = int limit" using assms(3) by (simp add: clamp_i64_def)
  have rec: "recent_terminal_invocations db e h high limit = map as_u64 (take limit (rev (sort ?ps)))"
    by (simp add: recent_terminal_invocations_def lim limited_def)
  have "distinct (map inv_key ?rs)"
    using keyed_filter [OF db_okD(1) [OF assms(1)]] by (simp add: keyed_def)
  moreover have "map inv_key ?rs = map (Pair e) ?ps"
    by (simp add: inv_key_def recent_where_def)
  ultimately have "distinct (map (Pair e) ?ps)" by metis
  then have "distinct ?ps" unfolding distinct_map by blast
  then have "sorted_wrt (<) (sort ?ps)" by (simp add: strict_sorted_iff)
  then have desc: "sorted_wrt (>) (rev (sort ?ps))" by (simp add: sorted_wrt_rev)
  have rng: "0 \<le> x \<and> x < 2 ^ 63" if "x \<in> set (rev (sort ?ps))" for x
    using that assms(2) by (auto simp: stored_positions_def)
  have mono: "as_u64 y < as_u64 x" if "x \<in> set (rev (sort ?ps))" "y \<in> set (rev (sort ?ps))" "y < x" for x y
    using rng [OF that(1)] rng [OF that(2)] that(3) by (simp add: as_u64_stored)
  have split: "rev (sort ?ps) = take limit (rev (sort ?ps)) @ drop limit (rev (sort ?ps))" by simp
  have "sorted_wrt (>) (map as_u64 (take limit (rev (sort ?ps))))"
    unfolding sorted_wrt_map
    by (rule sorted_wrt_mono_rel [OF _ sorted_wrt_take [OF desc]]) (use mono in_set_takeD in \<open>meson\<close>)
  moreover have "nat (inv_position r) \<in> set (map as_u64 (take limit (rev (sort ?ps)))) \<or>
      (\<forall>p \<in> set (map as_u64 (take limit (rev (sort ?ps)))). nat (inv_position r) < p)"
    if r: "r \<in> set (invocations db)" "recent_where e h high r" for r
  proof -
    have all: "inv_position r \<in> set (rev (sort ?ps))" using r by auto
    have u: "as_u64 (inv_position r) = nat (inv_position r)"
      using rng [OF all] by (simp add: as_u64_stored)
    show ?thesis
    proof (cases "inv_position r \<in> set (take limit (rev (sort ?ps)))")
      case True
      then show ?thesis using u by (metis image_eqI list.set_map)
    next
      case False
      then have "inv_position r \<in> set (drop limit (rev (sort ?ps)))" using all split by (metis Un_iff set_append)
      then have "\<forall>x \<in> set (take limit (rev (sort ?ps))). inv_position r < x"
        using desc split by (metis sorted_wrt_append)
      then have "\<forall>x \<in> set (take limit (rev (sort ?ps))). nat (inv_position r) < as_u64 x"
        using mono [OF in_set_takeD all] u by metis
      then show ?thesis by simp
    qed
  qed
  moreover have "length (map as_u64 (take limit (rev (sort ?ps)))) = min limit (count_terminal_invocations db e h high)"
    by (simp add: count_terminal_invocations_def count_where_def min.commute)
  ultimately show ?thesis unfolding rec by blast
qed

subsection \<open>The inventory of declarations\<close>

lemma fold_declarations:
  "(find_row d_key k (fold (record_declaration now) loaded ds) \<noteq> None \<longleftrightarrow>
     find_row d_key k ds \<noteq> None \<or> k \<in> d_key ` set loaded) \<and>
   (\<forall>d. find_row d_key k (fold (record_declaration now) loaded ds) = Some d \<longrightarrow>
     (d_current d \<longleftrightarrow> k \<in> d_key ` set loaded \<or> (\<exists>o'. find_row d_key k ds = Some o' \<and> d_current o')) \<and>
     (\<forall>o'. find_row d_key k ds = Some o' \<longrightarrow> d_first_seen d = d_first_seen o' \<and> d_form d = d_form o'))"
proof (induction loaded arbitrary: ds)
  case (Cons row loaded)
  note IH = Cons.IH [of "record_declaration now row ds"]
  show ?case
  proof (cases "find_row d_key k ds")
    case None
    then show ?thesis using IH by (auto simp: find_record_declaration)
  next
    case (Some o')
    then show ?thesis using IH by (auto simp: find_record_declaration)
  qed
qed auto

text \<open>
  Recording what a boot loaded.  Afterwards the current declarations are exactly the loaded
  ones, no recorded version is ever lost, a version seen before keeps its form and the time it was
  first seen, and only versions never seen before add rows.
\<close>

theorem declarations_after_boot:
  assumes "db_ok db"
  shows "d_key ` set (current_declarations (set_current_declarations db loaded now)) = d_key ` set loaded \<and>
    d_key ` set (declarations (set_current_declarations db loaded now)) =
      d_key ` set (declarations db) \<union> d_key ` set loaded \<and>
    (\<forall>d. declaration_by_hash db k n h = Some d \<longrightarrow>
      (\<exists>d'. declaration_by_hash (set_current_declarations db loaded now) k n h = Some d' \<and>
         d_first_seen d' = d_first_seen d \<and> d_form d' = d_form d))"
proof -
  let ?old = "update_where d_current (\<lambda>d. d\<lparr>d_current := False\<rparr>) (declarations db)"
  let ?new = "fold (record_declaration now) loaded ?old"
  have decl: "declarations (set_current_declarations db loaded now) = ?new"
    by (simp add: set_current_declarations_def)
  have keyed: "keyed d_key ?new"
    by (intro keyed_fold_declarations keyed_update db_okD(3) [OF assms]) simp
  have old: "find_row d_key x ?old =
      map_option (\<lambda>d. if d_current d then d\<lparr>d_current := False\<rparr> else d) (find_row d_key x (declarations db))" for x
    by (rule find_row_update) simp
  note F = fold_declarations [of _ now loaded ?old]
  have mem: "x \<in> d_key ` set ds \<longleftrightarrow> find_row d_key x ds \<noteq> None" for x ds
    by (simp add: find_row_None_iff)
  have all: "d_key ` set ?new = d_key ` set (declarations db) \<union> d_key ` set loaded"
  proof -
    have "x \<in> d_key ` set ?new \<longleftrightarrow> x \<in> d_key ` set (declarations db) \<union> d_key ` set loaded" for x
      using F [of x] old [of x] mem [of x ?new] mem [of x "declarations db"] by simp
    then show ?thesis by blast
  qed
  have cur: "d_current d \<longleftrightarrow> d_key d \<in> d_key ` set loaded" if "d \<in> set ?new" for d
  proof -
    have "\<not> d_current o'" if "find_row d_key x ?old = Some o'" for x o'
    proof -
      obtain d0 where "o' = (if d_current d0 then d0\<lparr>d_current := False\<rparr> else d0)"
        using \<open>find_row d_key x ?old = Some o'\<close> unfolding old by (auto simp: map_option_eq_Some)
      then show ?thesis by (cases "d_current d0") simp_all
    qed
    then show ?thesis
      using conjunct2 [OF F [of "d_key d"], rule_format, OF find_row_keyed [OF keyed that]] by blast
  qed
  have "d_key ` set (current_declarations (set_current_declarations db loaded now)) = d_key ` set loaded"
  proof -
    have "set (current_declarations (set_current_declarations db loaded now)) = {d \<in> set ?new. d_current d}"
      by (auto simp: current_declarations_def decl)
    moreover have "x \<in> d_key ` {d \<in> set ?new. d_current d} \<longleftrightarrow> x \<in> d_key ` set loaded" for x
    proof
      assume x: "x \<in> d_key ` set loaded"
      then have "x \<in> d_key ` set ?new" unfolding all by simp
      then obtain d where d: "d \<in> set ?new" "x = d_key d" by (rule imageE)
      have "d_current d" using cur [OF d(1)] x d(2) by simp
      then have "d \<in> {d \<in> set ?new. d_current d}" using d(1) by simp
      then show "x \<in> d_key ` {d \<in> set ?new. d_current d}" unfolding d(2) by (rule imageI)
    next
      assume "x \<in> d_key ` {d \<in> set ?new. d_current d}"
      then obtain d where "d \<in> set ?new" "d_current d" "x = d_key d" by auto
      then show "x \<in> d_key ` set loaded" using cur by simp
    qed
    then have "d_key ` {d \<in> set ?new. d_current d} = d_key ` set loaded" by (rule set_eqI)
    ultimately show ?thesis by (simp only:)
  qed
  moreover have "\<exists>d'. find_row d_key (k, n, h) ?new = Some d' \<and> d_first_seen d' = d_first_seen d \<and> d_form d' = d_form d"
    if "find_row d_key (k, n, h) (declarations db) = Some d" for d
  proof -
    have o': "find_row d_key (k, n, h) ?old = Some (if d_current d then d\<lparr>d_current := False\<rparr> else d)"
      using that by (simp add: old)
    then obtain d' where d': "find_row d_key (k, n, h) ?new = Some d'" using F [of "(k, n, h)"] by blast
    with F [of "(k, n, h)"] o' have "d_first_seen d' = d_first_seen (if d_current d then d\<lparr>d_current := False\<rparr> else d) \<and>
        d_form d' = d_form (if d_current d then d\<lparr>d_current := False\<rparr> else d)" by blast
    then show ?thesis using d' by (cases "d_current d") simp_all
  qed
  ultimately show ?thesis unfolding declaration_by_hash_def decl all by blast
qed

end
