(* ===== verification/Opdb_Keys.thy ===== *)
theory Opdb_Keys
  imports Table
begin

section \<open>The subject keys (src/opdb.rs)\<close>

text \<open>
  The \<open>subject_key\<close> table and every statement on it: a row is a root, wrapped under a master key,
  or a child, wrapped under a key derived from its parent's secret.  The wrapped bytes are opaque
  here; what the lemmas are about is which row a write may touch.
\<close>

record parent_ref =
  p_subject :: string
  p_value :: string
  p_fingerprint :: string

datatype wrapping = Master string | Parent parent_ref | Neither

record subject_key =
  wrapped :: bytes
  wrapping_of :: wrapping

record key_row =
  k_subject :: string
  k_value :: string
  k_wrapped :: bytes
  k_master :: "string option"
  k_parent_subject :: "string option"
  k_parent_value :: "string option"
  k_fingerprint :: "string option"

type_synonym key_table = "key_row list"

definition k_key :: "key_row \<Rightarrow> string \<times> string" where
  "k_key r = (k_subject r, k_value r)"

text \<open>The three \<open>CHECK\<close> constraints of the table.\<close>

definition check_ok :: "key_row \<Rightarrow> bool" where
  "check_ok r \<longleftrightarrow>
     (k_master r = None) \<noteq> (k_parent_subject r = None) \<and>
     (k_parent_subject r = None) = (k_parent_value r = None) \<and>
     (k_parent_subject r = None) = (k_fingerprint r = None)"

fun columns :: "wrapping \<Rightarrow> string option \<times> string option \<times> string option \<times> string option" where
  "columns (Master i) = (Some i, None, None, None)"
| "columns (Parent p) = (None, Some (p_subject p), Some (p_value p), Some (p_fingerprint p))"
| "columns Neither = (None, None, None, None)"

definition row_wrapping :: "key_row \<Rightarrow> wrapping" where
  "row_wrapping r =
     (case (k_master r, k_parent_subject r, k_parent_value r, k_fingerprint r) of
        (Some i, _, _, _) \<Rightarrow> Master i
      | (None, Some s, Some v, Some f) \<Rightarrow> Parent \<lparr>p_subject = s, p_value = v, p_fingerprint = f\<rparr>
      | (None, _, _, _) \<Rightarrow> Neither)"

definition get_subject_key :: "key_table \<Rightarrow> string \<Rightarrow> string \<Rightarrow> subject_key option" where
  "get_subject_key t subject v =
     map_option (\<lambda>r. \<lparr>wrapped = k_wrapped r, wrapping_of = row_wrapping r\<rparr>) (find_row k_key (subject, v) t)"

definition key_row_of :: "string \<Rightarrow> string \<Rightarrow> subject_key \<Rightarrow> key_row" where
  "key_row_of subject v key =
     (case columns (wrapping_of key) of
        (m, ps, pv, fp) \<Rightarrow>
          \<lparr>k_subject = subject, k_value = v, k_wrapped = wrapped key, k_master = m,
           k_parent_subject = ps, k_parent_value = pv, k_fingerprint = fp\<rparr>)"

text \<open>
  \<open>INSERT OR IGNORE\<close> skips a row that violates the primary key or a \<open>CHECK\<close> alike.
\<close>

definition get_or_insert_subject_key ::
  "key_table \<Rightarrow> string \<Rightarrow> string \<Rightarrow> subject_key \<Rightarrow> subject_key option \<Rightarrow> subject_key option \<times> key_table" where
  "get_or_insert_subject_key t subject v candidate replacing =
     (let t = (case replacing of
                 None \<Rightarrow> t
               | Some stale \<Rightarrow> delete_where (\<lambda>r. k_key r = (subject, v) \<and> k_wrapped r = wrapped stale) t);
          row = key_row_of subject v candidate;
          t = (if check_ok row then insert_ignore k_key row t else t)
      in (get_subject_key t subject v, t))"

definition delete_subject_key :: "key_table \<Rightarrow> string \<Rightarrow> string \<Rightarrow> bool \<times> key_table" where
  "delete_subject_key t subject v =
     (count_where (\<lambda>r. k_key r = (subject, v)) t = 1, delete_where (\<lambda>r. k_key r = (subject, v)) t)"

text \<open>
  The recursive query: one round adds the children of every row found so far.  It stops when a
  round adds none, which is at the latest after as many rounds as there are rows.
\<close>

definition child_of :: "key_row \<Rightarrow> string \<times> string \<Rightarrow> bool" where
  "child_of r k \<longleftrightarrow> k_parent_subject r = Some (fst k) \<and> k_parent_value r = Some (snd k)"

definition children_of :: "key_table \<Rightarrow> (string \<times> string) set \<Rightarrow> (string \<times> string) set" where
  "children_of t ks = k_key ` set (filter (\<lambda>r. \<exists>k \<in> ks. child_of r k) t)"

fun beneath :: "key_table \<Rightarrow> nat \<Rightarrow> (string \<times> string) set \<Rightarrow> (string \<times> string) set" where
  "beneath t 0 ks = ks"
| "beneath t (Suc n) ks = beneath t n (ks \<union> children_of t ks)"

definition descendant_key_count :: "key_table \<Rightarrow> string \<Rightarrow> string \<Rightarrow> nat" where
  "descendant_key_count t subject v = card (beneath t (length t) (children_of t {(subject, v)}))"

definition orphan :: "key_table \<Rightarrow> key_row \<Rightarrow> bool" where
  "orphan t r \<longleftrightarrow> k_parent_subject r \<noteq> None \<and> \<not> (\<exists>p \<in> set t. child_of r (k_key p))"

definition sweep_orphan_subject_keys :: "key_table \<Rightarrow> nat \<Rightarrow> nat \<times> key_table" where
  "sweep_orphan_subject_keys t limit =
     (let (gone, kept) = delete_limited k_key (orphan t) (as_i64 limit) t in (length gone, kept))"

definition distinct_master_key_ids :: "key_table \<Rightarrow> string list" where
  "distinct_master_key_ids t = remdups (List.map_filter k_master t)"

definition all_subject_keys :: "key_table \<Rightarrow> (string \<times> string \<times> bytes \<times> string) list" where
  "all_subject_keys t =
     List.map_filter (\<lambda>r. map_option (\<lambda>m. (k_subject r, k_value r, k_wrapped r, m)) (k_master r)) t"

type_synonym rewrap_update = "string \<times> string \<times> bytes \<times> string \<times> string"

definition rewrap_one :: "rewrap_update \<Rightarrow> nat \<times> key_table \<Rightarrow> nat \<times> key_table" where
  "rewrap_one u acc =
     (case (u, acc) of ((subject, v, bytes', master, expected), (n, t)) \<Rightarrow>
        let P = (\<lambda>r. k_key r = (subject, v) \<and> k_master r = Some expected)
        in (n + count_where P t, update_where P (\<lambda>r. r\<lparr>k_wrapped := bytes', k_master := Some master\<rparr>) t))"

definition rewrap_subject_keys :: "key_table \<Rightarrow> rewrap_update list \<Rightarrow> nat \<times> key_table" where
  "rewrap_subject_keys t updates = fold rewrap_one updates (0, t)"

definition root_of :: "string list \<Rightarrow> key_row \<Rightarrow> bool" where
  "root_of subjects r \<longleftrightarrow> k_master r \<noteq> None \<and> k_subject r \<in> set subjects"

definition count_roots_of :: "key_table \<Rightarrow> string list \<Rightarrow> nat" where
  "count_roots_of t subjects = (if subjects = [] then 0 else count_where (root_of subjects) t)"

definition roots_of :: "key_table \<Rightarrow> string list \<Rightarrow> (string \<times> string) option \<Rightarrow> nat \<Rightarrow> (string \<times> string) list" where
  "roots_of t subjects after limit =
     (if subjects = [] then []
      else limited (as_i64 limit)
        (sort (map k_key (filter (\<lambda>r. root_of subjects r \<and> (case after of None \<Rightarrow> True | Some k \<Rightarrow> k < k_key r)) t))))"

record adopt_update =
  a_subject :: string
  a_value :: string
  a_wrapped :: bytes
  a_parent :: parent_ref
  a_expected :: bytes

definition adopt_subject_key :: "key_table \<Rightarrow> adopt_update \<Rightarrow> bool \<times> key_table" where
  "adopt_subject_key t u =
     (let P = (\<lambda>r. k_key r = (a_subject u, a_value u) \<and> k_wrapped r = a_expected u)
      in (count_where P t > 0,
          update_where P (\<lambda>r. r\<lparr>k_wrapped := a_wrapped u, k_master := None,
             k_parent_subject := Some (p_subject (a_parent u)), k_parent_value := Some (p_value (a_parent u)),
             k_fingerprint := Some (p_fingerprint (a_parent u))\<rparr>) t))"

definition restore_root :: "key_table \<Rightarrow> string \<Rightarrow> string \<Rightarrow> bytes \<Rightarrow> string \<Rightarrow> bytes \<Rightarrow> bool \<times> key_table" where
  "restore_root t subject v bytes' master expected =
     (let P = (\<lambda>r. k_key r = (subject, v) \<and> k_wrapped r = expected)
      in (count_where P t > 0,
          update_where P (\<lambda>r. r\<lparr>k_wrapped := bytes', k_master := Some master,
             k_parent_subject := None, k_parent_value := None, k_fingerprint := None\<rparr>) t))"

subsection \<open>The table invariant\<close>

definition keys_ok :: "key_table \<Rightarrow> bool" where
  "keys_ok t \<longleftrightarrow> keyed k_key t \<and> (\<forall>r \<in> set t. check_ok r)"

datatype key_op =
    Get_Or_Insert string string subject_key "subject_key option"
  | Erase string string
  | Sweep_Orphans nat
  | Rewrap "rewrap_update list"
  | Adopt adopt_update
  | Restore string string bytes string bytes

fun apply_key_op :: "key_op \<Rightarrow> key_table \<Rightarrow> key_table" where
  "apply_key_op (Get_Or_Insert s v c rep) t = snd (get_or_insert_subject_key t s v c rep)"
| "apply_key_op (Erase s v) t = snd (delete_subject_key t s v)"
| "apply_key_op (Sweep_Orphans n) t = snd (sweep_orphan_subject_keys t n)"
| "apply_key_op (Rewrap us) t = snd (rewrap_subject_keys t us)"
| "apply_key_op (Adopt u) t = snd (adopt_subject_key t u)"
| "apply_key_op (Restore s v b m x) t = snd (restore_root t s v b m x)"

lemma k_key_simps [simp]:
  "k_key (r\<lparr>k_wrapped := b\<rparr>) = k_key r" "k_key (r\<lparr>k_master := m\<rparr>) = k_key r"
  "k_key (r\<lparr>k_parent_subject := x\<rparr>) = k_key r" "k_key (r\<lparr>k_parent_value := x\<rparr>) = k_key r"
  "k_key (r\<lparr>k_fingerprint := x\<rparr>) = k_key r"
  by (simp_all add: k_key_def)

lemma k_key_row_of [simp]: "k_key (key_row_of s v key) = (s, v)"
  by (simp add: key_row_of_def k_key_def split: prod.splits)

lemma keys_okD: "keys_ok t \<Longrightarrow> keyed k_key t" "keys_ok t \<Longrightarrow> r \<in> set t \<Longrightarrow> check_ok r"
  by (simp_all add: keys_ok_def)

lemma keys_ok_update:
  assumes "keys_ok t" and "\<And>r. P r \<Longrightarrow> k_key (f r) = k_key r" and "\<And>r. P r \<Longrightarrow> check_ok r \<Longrightarrow> check_ok (f r)"
  shows "keys_ok (update_where P f t)"
  using assms unfolding keys_ok_def by (auto intro: keyed_update) (auto simp: update_where_def)

lemma keys_ok_delete: "keys_ok t \<Longrightarrow> keys_ok (delete_where P t)"
  by (auto simp: keys_ok_def delete_where_def intro: keyed_filter)

lemma keys_ok_rewrap: "keys_ok t \<Longrightarrow> keys_ok (snd (fold rewrap_one us (n, t)))"
proof (induction us arbitrary: n t)
  case (Cons u us)
  obtain s v b m x where u: "u = (s, v, b, m, x)" by (cases u) auto
  have "keys_ok (snd (rewrap_one u (n, t)))"
    unfolding u rewrap_one_def using Cons.prems
    by (auto simp: Let_def check_ok_def intro!: keys_ok_update)
  with Cons.IH show ?case by (cases "rewrap_one u (n, t)") auto
qed simp

lemma keys_ok_apply:
  assumes ok: "keys_ok t"
  shows "keys_ok (apply_key_op op t)"
proof (cases op)
  case (Get_Or_Insert s v c rep)
  define t' where "t' = (case rep of None \<Rightarrow> t
    | Some stale \<Rightarrow> delete_where (\<lambda>r. k_key r = (s, v) \<and> k_wrapped r = wrapped stale) t)"
  have "keys_ok t'" using ok keys_ok_delete by (simp add: t'_def split: option.splits)
  then have "keys_ok (insert_ignore k_key (key_row_of s v c) t')" if "check_ok (key_row_of s v c)"
    using that set_insert_ignore [of k_key "key_row_of s v c" t'] unfolding keys_ok_def by blast
  then show ?thesis using \<open>keys_ok t'\<close>
    by (simp add: Get_Or_Insert get_or_insert_subject_key_def Let_def t'_def [symmetric])
next
  case (Erase s v)
  then show ?thesis using keys_ok_delete [OF ok] by (simp add: delete_subject_key_def)
next
  case (Sweep_Orphans n)
  then show ?thesis using ok keyed_filter [OF keys_okD(1) [OF ok]]
    by (auto simp: sweep_orphan_subject_keys_def Let_def delete_limited_def keys_ok_def)
next
  case (Rewrap us)
  then show ?thesis using keys_ok_rewrap [OF ok] by (simp add: rewrap_subject_keys_def)
next
  case (Adopt u)
  then show ?thesis
    by (auto simp: adopt_subject_key_def Let_def check_ok_def intro!: keys_ok_update [OF ok])
next
  case (Restore s v b m x)
  then show ?thesis
    by (auto simp: restore_root_def Let_def check_ok_def intro!: keys_ok_update [OF ok])
qed

lemma keys_ok_run: "keys_ok t \<Longrightarrow> keys_ok (fold apply_key_op ops t)"
  by (induction ops arbitrary: t) (auto simp: keys_ok_apply)

lemma keys_ok_Nil: "keys_ok []"
  by (simp add: keys_ok_def keyed_def)

lemma row_wrapping_of: "check_ok r \<Longrightarrow> row_wrapping r \<noteq> Neither"
  by (auto simp: check_ok_def row_wrapping_def split: option.splits)

lemma columns_row_of: "check_ok (key_row_of s v key) \<longleftrightarrow> wrapping_of key \<noteq> Neither"
  by (cases "wrapping_of key") (auto simp: check_ok_def key_row_of_def)

lemma row_wrapping_row_of: "row_wrapping (key_row_of s v key) = wrapping_of key"
  by (cases "wrapping_of key") (auto simp: row_wrapping_def key_row_of_def)

lemma wrapped_row_of [simp]: "k_wrapped (key_row_of s v key) = wrapped key"
  by (simp add: key_row_of_def split: prod.splits)

end
