(* ===== verification/Opdb_Hierarchy.thy ===== *)
theory Opdb_Hierarchy
  imports Opdb_Erasure
begin

section \<open>The key hierarchy\<close>

text \<open>
  The recursive queries over parent pointers.  \<open>below t\<close> is the relation from a row to its
  parent; \<open>descendant_key_count\<close> counts its transitive closure, and \<open>anchored\<close> is what reachability
  from a root means for one key.
\<close>

definition below :: "key_table \<Rightarrow> ((string \<times> string) \<times> (string \<times> string)) set" where
  "below t = {(k_key r, k) | r k. r \<in> set t \<and> child_of r k}"

inductive anchored :: "key_table \<Rightarrow> string \<times> string \<Rightarrow> bool" for t :: key_table where
  root: "r \<in> set t \<Longrightarrow> k_parent_subject r = None \<Longrightarrow> anchored t (k_key r)"
| child: "r \<in> set t \<Longrightarrow> child_of r k \<Longrightarrow> anchored t k \<Longrightarrow> anchored t (k_key r)"

lemma children_of_below: "children_of t ks = {c. \<exists>k \<in> ks. (c, k) \<in> below t}"
  by (auto simp: children_of_def below_def)

lemma children_mono: "ks \<subseteq> ks' \<Longrightarrow> children_of t ks \<subseteq> children_of t ks'"
  by (auto simp: children_of_below)

lemma children_sub: "children_of t ks \<subseteq> k_key ` set t"
  by (auto simp: children_of_def)

lemma beneath_mono: "ks \<subseteq> beneath t n ks"
proof (induction n arbitrary: ks)
  case (Suc n)
  have "ks \<union> children_of t ks \<subseteq> beneath t n (ks \<union> children_of t ks)" by (rule Suc.IH)
  then show ?case by simp
qed simp

lemma beneath_closed: "children_of t ks \<subseteq> ks \<Longrightarrow> beneath t n ks = ks"
  by (induction n) (auto simp: Un_absorb2)

text \<open>A round that adds nothing ends the recursion; every other round adds a row of the table.\<close>

lemma beneath_grows:
  assumes "ks \<subseteq> k_key ` set t" and "card (k_key ` set t) \<le> card ks + n"
  shows "children_of t (beneath t n ks) \<subseteq> beneath t n ks"
  using assms
proof (induction n arbitrary: ks)
  case 0
  then have "ks = k_key ` set t" by (metis add_0_right card_seteq finite_imageI finite_set)
  then show ?case using children_sub [of t ks] by simp
next
  case (Suc n)
  let ?ks = "ks \<union> children_of t ks"
  show ?case
  proof (cases "children_of t ks \<subseteq> ks")
    case True
    then show ?thesis by (simp add: beneath_closed Un_absorb2)
  next
    case False
    have sub: "?ks \<subseteq> k_key ` set t" using Suc.prems(1) children_sub [of t ks] by simp
    have "ks \<subset> ?ks" using False by auto
    then have "card ks < card ?ks" using finite_subset [OF sub] by (simp add: psubset_card_mono)
    then have "card (k_key ` set t) \<le> card ?ks + n" using Suc.prems(2) by simp
    from Suc.IH [OF sub this] show ?thesis by simp
  qed
qed

lemma beneath_trancl:
  assumes "\<And>c. c \<in> ks \<Longrightarrow> (c, k) \<in> (below t)\<^sup>+" and "c \<in> beneath t n ks"
  shows "(c, k) \<in> (below t)\<^sup>+"
  using assms
proof (induction n arbitrary: ks)
  case (Suc n)
  have "(c, k) \<in> (below t)\<^sup>+" if "c \<in> ks \<union> children_of t ks" for c
    using that
  proof
    assume "c \<in> children_of t ks"
    then obtain d where "d \<in> ks" "(c, d) \<in> below t" unfolding children_of_below by blast
    then show ?thesis using Suc.prems(1) by (meson trancl_into_trancl2)
  qed (rule Suc.prems(1))
  then show ?case by (rule Suc.IH) (use Suc.prems(2) in simp_all)
next
  case 0
  show ?case using "0.prems"(1) [of c] "0.prems"(2) unfolding beneath.simps by blast
qed

lemma beneath_all:
  "beneath t (length t) (children_of t {k}) = {c. (c, k) \<in> (below t)\<^sup>+}"
proof (intro equalityI subsetI)
  fix c
  assume "c \<in> beneath t (length t) (children_of t {k})"
  then have "(c, k) \<in> (below t)\<^sup>+"
    by (rule beneath_trancl [rotated]) (auto simp: children_of_below)
  then show "c \<in> {c. (c, k) \<in> (below t)\<^sup>+}" by simp
next
  fix c
  assume "c \<in> {c. (c, k) \<in> (below t)\<^sup>+}"
  then have "(c, k) \<in> (below t)\<^sup>+" by simp
  moreover have "card (k_key ` set t) \<le> length t"
    by (meson card_image_le card_length finite_set order_trans)
  then have closed: "children_of t (beneath t (length t) (children_of t {k})) \<subseteq> beneath t (length t) (children_of t {k})"
    using beneath_grows [OF children_sub, of t "{k}" "length t"] by simp
  ultimately show "c \<in> beneath t (length t) (children_of t {k})"
  proof (induction rule: converse_trancl_induct)
    case (base c)
    then have "c \<in> children_of t {k}" by (auto simp: children_of_below)
    then show ?case using beneath_mono by blast
  next
    case (step c d)
    then show ?case using closed by (auto simp: children_of_below)
  qed
qed

text \<open>
  What an erase reports.  The recursive count is the number of distinct keys from which the
  parent pointers lead, in one step or many, to the erased key, whatever the shape of the table.
\<close>

theorem descendant_count_is_closure:
  "descendant_key_count t s v = card {c. (c, (s, v)) \<in> (below t)\<^sup>+}"
  by (simp add: descendant_key_count_def beneath_all)

subsection \<open>Sweeping orphans\<close>

lemma sweep_orphans_rows:
  assumes "sweep_orphan_subject_keys t n = (m, t')"
  shows "t' = snd (delete_limited k_key (orphan t) (as_i64 n) t)"
    and "m = length (fst (delete_limited k_key (orphan t) (as_i64 n) t))"
  using assms by (auto simp: sweep_orphan_subject_keys_def split: prod.splits)

lemma child_unique: "child_of r k \<Longrightarrow> child_of r k' \<Longrightarrow> k = k'"
  by (auto simp: child_of_def prod_eq_iff)

lemma anchored_row: "anchored t k \<Longrightarrow> \<exists>r \<in> set t. k_key r = k"
  by (auto elim: anchored.cases)

lemma anchored_sweep:
  assumes ok: "keys_ok t" and "anchored t k" and sw: "sweep_orphan_subject_keys t n = (m, t')"
  shows "anchored t' k"
  using assms(2)
proof induction
  case (root r)
  have "\<not> orphan t r" using root(2) by (simp add: orphan_def)
  then have "r \<in> set t'"
    using find_row_delete_limited [OF keys_okD(1) [OF ok] find_row_keyed [OF keys_okD(1) [OF ok] root(1)],
        where P = "orphan t" and n = "as_i64 n"] find_row_SomeD sweep_orphans_rows(1) [OF sw] by fastforce
  then show ?case using root(2) by (rule anchored.root)
next
  case (child r k)
  obtain p where "p \<in> set t" "k_key p = k" using anchored_row [OF child(3)] by blast
  then have "\<not> orphan t r" using child(2) by (auto simp: orphan_def)
  then have "r \<in> set t'"
    using find_row_delete_limited [OF keys_okD(1) [OF ok] find_row_keyed [OF keys_okD(1) [OF ok] child(1)],
        where P = "orphan t" and n = "as_i64 n"] find_row_SomeD sweep_orphans_rows(1) [OF sw] by fastforce
  then show ?case using child.IH child(2) by (blast intro: anchored.child)
qed

text \<open>
  One call of the orphan sweep.  It deletes at most the limit and reports exactly how
  many rows went; a key whose parent pointers lead to a root survives every pass; and a pass that
  reports fewer than its limit has left no row that was orphaned when it began.
\<close>

lemma orphan_sweep_keeps_anchored:
  assumes "keys_ok t" and "n < 2 ^ 63" and "sweep_orphan_subject_keys t n = (m, t')"
  shows "m \<le> n \<and> length t' + m = length t \<and> (\<forall>k. anchored t k \<longrightarrow> anchored t' k) \<and>
    (\<forall>r \<in> set t. m < n \<longrightarrow> orphan t r \<longrightarrow> r \<notin> set t')"
proof -
  note S = sweep_orphans_rows [OF assms(3)]
  let ?gone = "limited (as_i64 n) (filter (orphan t) t)"
  have g: "fst (delete_limited k_key (orphan t) (as_i64 n) t) = ?gone"
    by (simp add: delete_limited_def Let_def)
  have len: "length ?gone = min n (length (filter (orphan t) t))"
    using length_limited [of "as_i64 n" "filter (orphan t) t"] assms(2) by (simp add: as_i64_small)
  have "length t' + m = length t"
    using delete_limited_count [OF keys_okD(1) [OF assms(1)], of "orphan t" "as_i64 n"] S by simp
  moreover have "r \<notin> set t'" if "r \<in> set t" "m < n" "orphan t r" for r
  proof -
    have "?gone = filter (orphan t) t"
      using that(2) S(2) len g assms(2) by (simp add: limited_def as_i64_small)
    then have "r \<in> set ?gone" using that by simp
    then show ?thesis unfolding S(1) delete_limited_def Let_def by auto
  qed
  moreover have "m \<le> n" using S(2) g len by simp
  ultimately show ?thesis using anchored_sweep [OF assms(1) _ assms(3)] by blast
qed

subsection \<open>Paging the roots\<close>

lemma sorted_split:
  fixes xs :: "'a::linorder list"
  assumes "sorted_wrt (<) xs" and "n \<le> length xs" and "0 < n"
  shows "drop n xs = filter (\<lambda>x. last (take n xs) < x) xs"
proof -
  let ?l = "last (take n xs)"
  have ne: "take n xs \<noteq> []" using assms(2,3) by auto
  have sp: "sorted_wrt (<) (take n xs @ drop n xs)" using assms(1) by simp
  have "\<not> ?l < x" if "x \<in> set (take n xs)" for x
  proof -
    have "take n xs = butlast (take n xs) @ [?l]" using ne by simp
    then have "sorted_wrt (<) (butlast (take n xs) @ [?l])" "set (take n xs) = insert ?l (set (butlast (take n xs)))"
      using sp by (metis sorted_wrt_append, metis list.set(1) list.set(2) Un_insert_right set_append sup_bot.right_neutral)
    then show ?thesis using that by (auto simp: sorted_wrt_append)
  qed
  moreover have "?l < x" if "x \<in> set (drop n xs)" for x
  proof -
    have "?l \<in> set (take n xs)" using ne by (rule last_in_set)
    then show ?thesis using sp that unfolding sorted_wrt_append by blast
  qed
  moreover have "filter P xs = filter P (take n xs) @ filter P (drop n xs)" for P
    by (metis append_take_drop_id filter_append)
  ultimately show ?thesis by (simp add: filter_False filter_True)
qed

text \<open>
  The pages of an adoption cover the rows waiting.  A page is sorted and holds no row twice; an
  unbounded page lists as many rows as the count reports; and a full page followed by the page after
  its last row is the page of both sizes, so no row is skipped and none repeated.
\<close>

theorem root_pages_concatenate:
  assumes "keys_ok t" and "subjects \<noteq> []" and "a + b < 2 ^ 63" and "count_roots_of t subjects < 2 ^ 63"
    and "length (roots_of t subjects after a) = a" and "0 < a"
  shows "roots_of t subjects after a @ roots_of t subjects (Some (last (roots_of t subjects after a))) b =
      roots_of t subjects after (a + b) \<and>
    sorted_wrt (<) (roots_of t subjects after a) \<and>
    length (roots_of t subjects None (count_roots_of t subjects)) = count_roots_of t subjects"
proof -
  define sel where "sel = (\<lambda>o'. sort (map k_key (filter (\<lambda>r. root_of subjects r \<and>
      (case o' of None \<Rightarrow> True | Some k \<Rightarrow> k < k_key r)) t)))"
  have page: "roots_of t subjects o' n = take n (sel o')" if "n < 2 ^ 63" for o' n
    using assms(2) that by (simp add: roots_of_def limited_def as_i64_small sel_def)
  have strict: "sorted_wrt (<) (sel o')" for o'
    using keyed_filter [OF keys_okD(1) [OF assms(1)]] by (simp add: sel_def strict_sorted_iff keyed_def)
  let ?l = "last (take a (sel after))"
  have a: "a < 2 ^ 63" "b < 2 ^ 63" "a \<le> length (sel after)"
    using assms(3,5) page [of a after] by simp_all
  have low: "o' < ?l \<or> False" if "after = Some o'" for o'
  proof -
    have "?l \<in> set (sel after)" using a(3) assms(6)
      by (metis gr_implies_not0 in_set_takeD last_in_set length_0_conv le_zero_eq take_eq_Nil)
    then show ?thesis using that by (auto simp: sel_def)
  qed
  have "sel (Some ?l) = filter (\<lambda>x. ?l < x) (sel after)"
  proof -
    have "filter (\<lambda>r. root_of subjects r \<and> ?l < k_key r) t =
        filter (\<lambda>r. ?l < k_key r) (filter (\<lambda>r. root_of subjects r \<and> (case after of None \<Rightarrow> True | Some k \<Rightarrow> k < k_key r)) t)"
    proof (cases after)
      case (Some k0)
      have "k0 < ?l" using low [OF Some] by simp
      then have lt: "?l < y \<Longrightarrow> k0 < y" for y by (rule less_trans)
      show ?thesis using lt unfolding Some option.case filter_filter by (intro filter_cong refl) blast
    qed (simp add: conj_commute)
    then show ?thesis by (simp add: sel_def filter_sort filter_map comp_def)
  qed
  also have "\<dots> = drop a (sel after)" using sorted_split [OF strict a(3) assms(6)] by simp
  finally have "roots_of t subjects (Some ?l) b = take b (drop a (sel after))" using page a(2) by simp
  moreover have "length (roots_of t subjects None (count_roots_of t subjects)) = count_roots_of t subjects"
    using page [OF assms(4), of None] assms(2) by (simp add: sel_def count_roots_of_def count_where_def)
  ultimately show ?thesis
    using page [of a after] page [OF assms(3), of after] a(1) strict by (simp add: take_add sorted_wrt_take)
qed

end
