(* ===== verification/Opdb_Examples.thy ===== *)
theory Opdb_Examples
  imports Opdb_Read Opdb_Hierarchy
begin

section \<open>The operational database on concrete data\<close>

text \<open>
  A small database and key table, and each property of the preceding theories applied to them.
\<close>

definition mail_ops :: "db_op list" where
  "mail_ops = [Begin ''mail'' 3 ''h1'' ''t1'', Put ''mail'' 3 ''call'' 0 ''http'' ''ok'' ''t1'',
     Complete ''mail'' 3 ''t2'' None, Begin ''mail'' 5 ''h1'' ''t3'', Complete ''mail'' 5 ''t3'' (Some 4),
     Begin ''mail'' 7 ''h1'' ''t4'', Watermark ''mail'' 2, Lane_Row ''mail'' ''i:1'' 5,
     Declare [\<lparr>d_kind = ''effect'', d_name = ''mail'', d_hash = ''h1'', d_signature_hash = None, d_form = ''f'',
       d_signature = None, d_module = None, d_first_seen = '''', d_last_seen = '''', d_current = False\<rparr>] ''t0'']"

definition mail_db :: opdb where
  "mail_db = fold apply_op mail_ops empty_opdb"

lemma mail_db_ok: "db_ok mail_db"
  unfolding mail_db_def by (rule db_ok_run [OF db_ok_empty])

definition later_ops :: "db_op list" where
  "later_ops = [Sweep ''t9'' 10, Watermark ''mail'' 2, Begin ''mail'' 9 ''h2'' ''t5'', Rewind ''post'' 0 True]"

lemma mail_cursor: "\<forall>w. fmlookup (cursors mail_db) ''mail'' = Some w \<longrightarrow> w < as_i64 3"
proof -
  have "fmlookup (cursors mail_db) ''mail'' = Some 2" "as_i64 3 = 3" by code_simp+
  then show ?thesis by simp
qed


theorem rewind_witness:
  "fst (rewind_effect mail_db ''mail'' 3 False) = rewind_preview mail_db ''mail'' 3 \<and>
   rc_invocations (rewind_preview mail_db ''mail'' 3) = 2 \<and>
   fst (begin_invocation (snd (rewind_effect mail_db ''mail'' 3 False)) ''mail'' 5 ''h'' ''t'') = Inr Run"
proof -
  have "rc_invocations (rewind_preview mail_db ''mail'' 3) = 2" by code_simp
  then show ?thesis
    using rewind_discards_exactly [OF mail_db_ok, of 3 5 "''mail''" False "''mail''" "''h''" "''t''"] by simp
qed

lemma sweep_reclaims_witness:
  "fst (sweep_effect_journal (set_effect_watermark mail_db ''mail'' 6) ''t9'' 1) \<le> 1 \<and>
   length (invocations (snd (sweep_effect_journal (set_effect_watermark mail_db ''mail'' 6) ''t9'' 1))) = 2"
proof -
  have ok: "db_ok (set_effect_watermark mail_db ''mail'' 6)"
    using db_ok_apply [OF mail_db_ok, of "Watermark ''mail'' 6"] by simp
  have n: "fst (sweep_effect_journal (set_effect_watermark mail_db ''mail'' 6) ''t9'' 1) = 1" by code_simp
  have l: "length (invocations (set_effect_watermark mail_db ''mail'' 6)) = 3" by code_simp
  show ?thesis using sweep_reclaims [OF ok _ prod.collapse [symmetric], of 1 "''t9''"] n l by simp
qed

lemma mail_stored: "stored_ok mail_db" "stored_positions mail_db"
proof -
  have "effect_lane mail_db = fmupd (''mail'', ''i:1'') 5 fmempty" "cursors mail_db = fmupd ''mail'' 2 fmempty"
    by (simp_all add: mail_db_def mail_ops_def empty_opdb_def begin_db complete_invocation_def journal_put_def
        set_effect_watermark_def record_effect_lane_def set_current_declarations_def Let_def as_i64_def
        split: option.splits)
  then show "stored_ok mail_db" by (simp add: stored_ok_def)
  show "stored_positions mail_db" unfolding stored_positions_def by code_simp
qed

theorem lane_rows_witness:
  "effect_lanes (record_effect_lane mail_db ''mail'' ''i:1'' 4) ''mail'' ''i:1'' = Some 5 \<and>
   effect_lanes (snd (sweep_effect_lanes mail_db ''mail'' 5)) ''mail'' ''i:1'' = None"
proof -
  have l: "effect_lanes mail_db ''mail'' ''i:1'' = Some 5" by code_simp
  show ?thesis using lane_rows_against_mark [OF mail_stored(1), of 4 5 "''mail''" "''i:1''"] l by simp
qed

theorem live_boundary_witness:
  "\<exists>s. fst (activate_effect (fold apply_op later_ops (snd (activate_effect mail_db ''mail'' 40 ''v1''))) ''mail'' 90 ''v2'') =
     Inr (40, s)"
proof -
  have "effect_activation mail_db ''mail'' = None" "list_all (keeps_boundary ''mail'') later_ops" by code_simp+
  then show ?thesis using live_boundary_resolved_once [of mail_db "''mail''" 40 later_ops "''v1''" 90 "''v2''"] by simp
qed

theorem recent_witness:
  "recent_terminal_invocations mail_db ''mail'' ''h1'' 9 1 = [5] \<and>
   length (recent_terminal_invocations mail_db ''mail'' ''h1'' 9 1) =
     min 1 (count_terminal_invocations mail_db ''mail'' ''h1'' 9)"
proof
  show "recent_terminal_invocations mail_db ''mail'' ''h1'' 9 1 = [5]" by code_simp
  show "length (recent_terminal_invocations mail_db ''mail'' ''h1'' 9 1) =
     min 1 (count_terminal_invocations mail_db ''mail'' ''h1'' 9)"
    using recent_are_newest [OF mail_db_ok mail_stored(2), of 1 9 "''mail''" "''h1''"] by simp
qed

theorem declarations_witness:
  "d_key ` set (current_declarations (set_current_declarations mail_db [] ''t5'')) = {} \<and>
   d_key ` set (declarations (set_current_declarations mail_db [] ''t5'')) = {(''effect'', ''mail'', ''h1'')}"
proof -
  have "d_key ` set (declarations mail_db) = {(''effect'', ''mail'', ''h1'')}" by code_simp
  then show ?thesis using declarations_after_boot [OF mail_db_ok, of "[]" "''t5''" ] by auto
qed

subsection \<open>Keys\<close>

definition root_key :: subject_key where
  "root_key = \<lparr>wrapped = ''r1'', wrapping_of = Master ''m1''\<rparr>"

definition tenant :: parent_ref where
  "tenant = \<lparr>p_subject = ''Tenant'', p_value = ''t'', p_fingerprint = ''fp''\<rparr>"

definition child_key :: subject_key where
  "child_key = \<lparr>wrapped = ''c1'', wrapping_of = Parent tenant\<rparr>"

definition key_ops :: "key_op list" where
  "key_ops = [Get_Or_Insert ''Tenant'' ''t'' root_key None, Get_Or_Insert ''User'' ''u'' child_key None,
     Get_Or_Insert ''Shop'' ''a'' \<lparr>wrapped = ''s1'', wrapping_of = Master ''m1''\<rparr> None,
     Get_Or_Insert ''Shop'' ''b'' \<lparr>wrapped = ''s2'', wrapping_of = Master ''m1''\<rparr> None]"

definition key_table :: key_table where
  "key_table = fold apply_key_op key_ops []"

lemma key_table_ok: "keys_ok key_table"
  unfolding key_table_def by (rule keys_ok_run [OF keys_ok_Nil])

theorem first_writer_witness:
  "fst (get_or_insert_subject_key key_table ''User'' ''u'' \<lparr>wrapped = ''c2'', wrapping_of = Parent tenant\<rparr> (Some child_key)) =
     Some \<lparr>wrapped = ''c2'', wrapping_of = Parent tenant\<rparr>"
proof -
  have g: "get_subject_key key_table ''User'' ''u'' = Some child_key" by code_simp
  show ?thesis
    using first_writer_wins [OF key_table_ok g, of "\<lparr>wrapped = ''c2'', wrapping_of = Parent tenant\<rparr>"
        "\<lparr>wrapped = ''c3'', wrapping_of = Parent tenant\<rparr>"]
    by (simp add: child_key_def)
qed

theorem erased_witness:
  "get_subject_key (fold apply_key_op [Restore ''User'' ''u'' ''old'' ''m1'' ''c1'', Rewrap [(''User'', ''u'', ''x'', ''m2'', ''m1'')],
     Sweep_Orphans 5] (snd (delete_subject_key key_table ''User'' ''u''))) ''User'' ''u'' = None"
  by (rule erased_stays_erased) simp

theorem adopt_restore_witness:
  "fst (adopt_subject_key key_table \<lparr>a_subject = ''Shop'', a_value = ''a'', a_wrapped = ''n'', a_parent = tenant, a_expected = ''s1''\<rparr>)"
proof -
  have g: "get_subject_key key_table ''Shop'' ''a'' = Some \<lparr>wrapped = ''s1'', wrapping_of = Master ''m1''\<rparr>" by code_simp
  show ?thesis using adopt_then_restore [OF key_table_ok g refl, of "''z''" "''n''" tenant] by simp
qed

lemma orphan_sweep_witness:
  "fst (sweep_orphan_subject_keys (snd (delete_subject_key key_table ''Tenant'' ''t'')) 5) = 1 \<and>
   length (snd (sweep_orphan_subject_keys (snd (delete_subject_key key_table ''Tenant'' ''t'')) 5)) = 2"
proof -
  have ok: "keys_ok (snd (delete_subject_key key_table ''Tenant'' ''t''))"
    using keys_ok_apply [OF key_table_ok, of "Erase ''Tenant'' ''t''"] by simp
  have n: "fst (sweep_orphan_subject_keys (snd (delete_subject_key key_table ''Tenant'' ''t'')) 5) = 1" by code_simp
  have l: "length (snd (delete_subject_key key_table ''Tenant'' ''t'')) = 3" by code_simp
  show ?thesis using orphan_sweep_keeps_anchored [OF ok _ prod.collapse [symmetric], of 5] n l by simp
qed

theorem root_pages_witness:
  "roots_of key_table [''Shop''] None 1 @ roots_of key_table [''Shop''] (Some (last (roots_of key_table [''Shop''] None 1))) 1 =
   roots_of key_table [''Shop''] None 2"
proof -
  have "length (roots_of key_table [''Shop''] None 1) = 1" "count_roots_of key_table [''Shop''] = 2" by code_simp+
  then show ?thesis using root_pages_concatenate [OF key_table_ok, of "[''Shop'']" 1 1 None] by (simp add: one_add_one del: One_nat_def)
qed

end
