(* ===== verification/Opdb_Introspect.thy ===== *)
theory Opdb_Introspect
  imports Opdb_Read Opdb_Hierarchy
begin

section \<open>What the introspection surface reads (src/opdb.rs)\<close>

text \<open>
  The paged listings of invocations, journal rows and subject keys, the joined effect states, and
  the question whether a subject can still be read: a key is reachable when it is a root or when
  every row above it is still there.  Timestamps that SQLite writes by itself are not modelled.
\<close>

definition GLOBAL_SUBJECT :: string where
  "GLOBAL_SUBJECT = ''_hekla_global''"

subsection \<open>Invocations and journals\<close>

record invocation_row =
  ir_position :: nat
  ir_status :: string
  ir_hash :: string
  ir_created :: string
  ir_completed :: "string option"
  ir_skipped :: "string option"

definition row_to_invocation :: "invocation \<Rightarrow> invocation_row" where
  "row_to_invocation r =
     \<lparr>ir_position = as_u64 (inv_position r), ir_status = inv_status r, ir_hash = inv_hash r,
      ir_created = inv_created r, ir_completed = inv_completed r, ir_skipped = inv_skipped r\<rparr>"

definition invocations_page :: "opdb \<Rightarrow> string \<Rightarrow> nat \<Rightarrow> nat \<Rightarrow> invocation_row list" where
  "invocations_page db effect before limit =
     map row_to_invocation (limited (as_i64 limit)
       (rev (sort_key inv_position
         (filter (\<lambda>r. inv_effect r = effect \<and> inv_position r < clamp_i64 before) (invocations db)))))"

record invocation_at =
  ia_effect :: string
  ia_position :: nat
  ia_status :: string

definition invocations_at :: "opdb \<Rightarrow> string list \<Rightarrow> nat list \<Rightarrow> invocation_at list" where
  "invocations_at db effects positions =
     (if effects = [] \<or> positions = [] then []
      else sort_key (\<lambda>a. (ia_position a, ia_effect a))
        (map (\<lambda>r. \<lparr>ia_effect = inv_effect r, ia_position = as_u64 (inv_position r), ia_status = inv_status r\<rparr>)
          (limited (as_i64 (length effects * length positions))
            (filter (\<lambda>r. inv_effect r \<in> set effects \<and> inv_position r \<in> set (map clamp_i64 positions))
              (invocations db)))))"

definition invocation_of :: "opdb \<Rightarrow> string \<Rightarrow> nat \<Rightarrow> invocation_row option" where
  "invocation_of db effect position =
     map_option row_to_invocation (find_row inv_key (effect, as_i64 position) (invocations db))"

record journal_entry =
  je_call :: string
  je_disambiguator :: nat
  je_kind :: string
  je_result :: string
  je_created :: string

text \<open>SQLite skips \<open>OFFSET\<close> rows and then takes \<open>LIMIT\<close>; the clamped offset is never negative.\<close>

definition journal_entries :: "opdb \<Rightarrow> string \<Rightarrow> nat \<Rightarrow> nat \<Rightarrow> nat \<Rightarrow> journal_entry list" where
  "journal_entries db effect position offset limit =
     map (\<lambda>r. \<lparr>je_call = j_call r, je_disambiguator = as_u64 (j_disambiguator r), je_kind = j_kind r,
               je_result = j_result r, je_created = j_created r\<rparr>)
       (limited (as_i64 limit) (drop (nat (clamp_i64 offset))
         (filter (\<lambda>r. j_effect r = effect \<and> j_position r = as_i64 position) (journal db))))"

record effect_state =
  es_watermark :: "nat option"
  es_quarantine :: "(nat \<times> string) option"

definition effect_states :: "opdb \<Rightarrow> string \<Rightarrow> effect_state option" where
  "effect_states db effect =
     (if fmlookup (cursors db) effect = None \<and> fmlookup (quarantines db) effect = None then None
      else Some \<lparr>es_watermark = map_option as_u64 (fmlookup (cursors db) effect),
                 es_quarantine = effect_quarantine db effect\<rparr>)"

subsection \<open>Subject keys\<close>

definition subject_key_counts :: "key_table \<Rightarrow> (string \<times> nat) list" where
  "subject_key_counts t =
     map (\<lambda>s. (s, count_where (\<lambda>r. k_subject r = s) t))
       (sort (remdups (filter (\<lambda>s. s \<noteq> GLOBAL_SUBJECT) (map k_subject t))))"

record subject_info =
  si_subject :: string
  si_value :: string
  si_master :: "string option"
  si_parent :: "(string \<times> string) option"

definition info_of :: "key_row \<Rightarrow> subject_info" where
  "info_of r =
     \<lparr>si_subject = k_subject r, si_value = k_value r, si_master = k_master r,
      si_parent = (case (k_parent_subject r, k_parent_value r) of
                     (Some s, Some v) \<Rightarrow> Some (s, v) | _ \<Rightarrow> None)\<rparr>"

definition listed :: "(string \<times> string) option \<Rightarrow> key_row \<Rightarrow> bool" where
  "listed after r \<longleftrightarrow> k_subject r \<noteq> GLOBAL_SUBJECT \<and>
     (case after of
        None \<Rightarrow> True
      | Some (s, v) \<Rightarrow> k_subject r > s \<or> k_subject r = s \<and> k_value r > v)"

definition subject_keys_page :: "key_table \<Rightarrow> (string \<times> string) option \<Rightarrow> nat \<Rightarrow> subject_info list" where
  "subject_keys_page t after limit =
     map info_of (limited (as_i64 limit) (sort_key k_key (filter (listed after) t)))"

text \<open>
  The recursive query upward, with \<open>UNION\<close>: a round adds the parents of every row found so far and
  keeps each row once, so it ends after at most as many rounds as the table has rows.
\<close>

definition parents_of :: "key_table \<Rightarrow> key_row set \<Rightarrow> key_row set" where
  "parents_of t rs = set (filter (\<lambda>p. \<exists>r \<in> rs. child_of r (k_key p)) t)"

fun above :: "key_table \<Rightarrow> nat \<Rightarrow> key_row set \<Rightarrow> key_row set" where
  "above t 0 rs = rs"
| "above t (Suc n) rs = above t n (rs \<union> parents_of t rs)"

definition subject_key_reachable :: "key_table \<Rightarrow> string \<Rightarrow> string \<Rightarrow> bool" where
  "subject_key_reachable t subject v =
     (if subject = GLOBAL_SUBJECT then False
      else card (Set.filter (\<lambda>r. k_parent_subject r = None)
             (above t (length t) (set (filter (\<lambda>r. k_key r = (subject, v)) t)))) = 1)"

definition subject_key_exists :: "key_table \<Rightarrow> string \<Rightarrow> string \<Rightarrow> bool" where
  "subject_key_exists t field v =
     (if field = GLOBAL_SUBJECT then False else find_row k_key (field, v) t \<noteq> None)"

subsection \<open>Reachability is anchoring\<close>

definition up :: "key_table \<Rightarrow> (key_row \<times> key_row) set" where
  "up t = {(r, p). p \<in> set t \<and> child_of r (k_key p)}"

lemma parents_of_up: "parents_of t rs = {p. \<exists>r \<in> rs. (r, p) \<in> up t}"
  by (auto simp: parents_of_def up_def)

lemma above_mono: "rs \<subseteq> above t n rs"
proof (induction n arbitrary: rs)
  case (Suc n)
  have "rs \<union> parents_of t rs \<subseteq> above t n (rs \<union> parents_of t rs)" by (rule Suc.IH)
  then show ?case by simp
qed simp

lemma above_fixed: "parents_of t rs \<subseteq> rs \<Longrightarrow> above t n rs = rs"
  by (induction n) (auto simp: Un_absorb2)

lemma above_closed:
  assumes "rs \<subseteq> set t" and "card (set t) \<le> card rs + n"
  shows "parents_of t (above t n rs) \<subseteq> above t n rs"
  using assms
proof (induction n arbitrary: rs)
  case 0
  then have "rs = set t" by (metis List.finite_set add_0_right card_seteq)
  then show ?case by (auto simp: parents_of_def)
next
  case (Suc n)
  let ?rs = "rs \<union> parents_of t rs"
  show ?case
  proof (cases "parents_of t rs \<subseteq> rs")
    case True
    then show ?thesis by (simp add: above_fixed Un_absorb2)
  next
    case False
    have sub: "?rs \<subseteq> set t" using Suc.prems(1) by (auto simp: parents_of_def)
    have "rs \<subset> ?rs" using False by auto
    then have "card rs < card ?rs" using finite_subset [OF sub] by (simp add: psubset_card_mono)
    then have "card (set t) \<le> card ?rs + n" using Suc.prems(2) by simp
    from Suc.IH [OF sub this] show ?thesis by simp
  qed
qed

lemma above_reached:
  assumes "\<And>p. p \<in> rs \<Longrightarrow> (r, p) \<in> (up t)\<^sup>*" and "p \<in> above t n rs"
  shows "(r, p) \<in> (up t)\<^sup>*"
  using assms
proof (induction n arbitrary: rs)
  case (Suc n)
  have "(r, p) \<in> (up t)\<^sup>*" if "p \<in> rs \<union> parents_of t rs" for p
    using that Suc.prems(1) by (auto simp: parents_of_up intro: rtrancl_into_rtrancl)
  then show ?case by (rule Suc.IH) (use Suc.prems(2) in simp_all)
next
  case 0
  show ?case using "0.prems"(1) [of p] "0.prems"(2) unfolding above.simps by blast
qed

lemma above_rtrancl:
  assumes "r \<in> set t"
  shows "above t (length t) {r} = {p. (r, p) \<in> (up t)\<^sup>*}"
proof (intro equalityI subsetI)
  fix p
  assume "p \<in> above t (length t) {r}"
  then show "p \<in> {p. (r, p) \<in> (up t)\<^sup>*}" using above_reached [where rs = "{r}"] by blast
next
  fix p
  assume "p \<in> {p. (r, p) \<in> (up t)\<^sup>*}"
  then have "(r, p) \<in> (up t)\<^sup>*" by simp
  moreover have "parents_of t (above t (length t) {r}) \<subseteq> above t (length t) {r}"
    using assms card_length [of t] by (intro above_closed) auto
  ultimately show "p \<in> above t (length t) {r}"
  proof (induction rule: rtrancl_induct)
    case base
    show ?case using above_mono [of "{r}"] by blast
  next
    case (step y z)
    then show ?case by (auto simp: parents_of_up)
  qed
qed

lemma up_unique:
  assumes "keys_ok t" and "(r, p) \<in> up t" and "(r, q) \<in> up t"
  shows "p = q"
proof -
  have "k_key p = k_key q" using assms(2,3) by (auto simp: up_def dest: child_unique)
  then show ?thesis using assms by (auto simp: up_def intro: keyed_unique [OF keys_okD(1) [OF assms(1)]])
qed

lemma root_stays: "k_parent_subject r = None \<Longrightarrow> (r, p) \<in> (up t)\<^sup>* \<Longrightarrow> p = r"
  by (erule converse_rtranclE) (auto simp: up_def child_of_def)

text \<open>A row has one parent, so the way up is a path and meets at most one root.\<close>

lemma path_linear:
  assumes "keys_ok t" and "(r, p) \<in> (up t)\<^sup>*" and "(r, q) \<in> (up t)\<^sup>*"
  shows "(p, q) \<in> (up t)\<^sup>* \<or> (q, p) \<in> (up t)\<^sup>*"
  using assms(2)
proof (induction rule: rtrancl_induct)
  case base
  show ?case using assms(3) by simp
next
  case (step y z)
  from step.IH show ?case
  proof
    assume "(y, q) \<in> (up t)\<^sup>*"
    then show ?thesis
    proof (cases rule: converse_rtranclE)
      case base
      then show ?thesis using step.hyps(2) by blast
    next
      case (step w)
      then have "w = z" using up_unique [OF assms(1)] \<open>(y, z) \<in> up t\<close> by blast
      then show ?thesis using step by blast
    qed
  next
    assume "(q, y) \<in> (up t)\<^sup>*"
    then show ?thesis using step.hyps(2) by (meson rtrancl_into_rtrancl)
  qed
qed

lemma anchored_up:
  assumes "keys_ok t" and "r \<in> set t"
  shows "anchored t (k_key r) \<longleftrightarrow> (\<exists>p. (r, p) \<in> (up t)\<^sup>* \<and> k_parent_subject p = None)"
proof
  assume "anchored t (k_key r)"
  then show "\<exists>p. (r, p) \<in> (up t)\<^sup>* \<and> k_parent_subject p = None"
    using assms(2)
  proof (induction "k_key r" arbitrary: r)
    case (root x)
    then have "x = r" using keyed_unique [OF keys_okD(1) [OF assms(1)]] by metis
    then show ?case using root by blast
  next
    case (child x k)
    then have x: "x = r" using keyed_unique [OF keys_okD(1) [OF assms(1)]] by metis
    obtain q where q: "q \<in> set t" "k = k_key q" using anchored_row [OF child(3)] by auto
    with child(4) obtain p where "(q, p) \<in> (up t)\<^sup>*" "k_parent_subject p = None" by blast
    moreover have "(r, q) \<in> up t" using q child(2) x by (simp add: up_def)
    ultimately show ?case by (meson converse_rtrancl_into_rtrancl)
  qed
next
  assume "\<exists>p. (r, p) \<in> (up t)\<^sup>* \<and> k_parent_subject p = None"
  then obtain p where p: "(r, p) \<in> (up t)\<^sup>*" "k_parent_subject p = None" by blast
  from p(1) assms(2) show "anchored t (k_key r)"
  proof (induction rule: converse_rtrancl_induct)
    case base
    then show ?case using p(2) by (intro anchored.root)
  next
    case (step y z)
    then have "z \<in> set t" "child_of y (k_key z)" by (auto simp: up_def)
    with step show ?case by (intro anchored.child)
  qed
qed

lemma reachable_iff_anchored:
  assumes ok: "keys_ok t"
  shows "subject_key_reachable t s v \<longleftrightarrow> s \<noteq> GLOBAL_SUBJECT \<and> anchored t (s, v)"
proof (cases "find_row k_key (s, v) t")
  case None
  then have none: "r \<in> set t \<Longrightarrow> k_key r \<noteq> (s, v)" for r
    unfolding find_row_None_iff by (metis imageI)
  then have "set (filter (\<lambda>r. k_key r = (s, v)) t) = {}" by auto
  moreover have "above t n {} = {}" for n by (rule above_fixed) (auto simp: parents_of_def)
  ultimately have "\<not> subject_key_reachable t s v" by (simp add: subject_key_reachable_def)
  moreover have "\<not> anchored t (s, v)" using anchored_row [of t "(s, v)"] none by auto
  ultimately show ?thesis by blast
next
  case (Some r)
  then have r: "r \<in> set t" "k_key r = (s, v)" using find_row_SomeD by (metis, metis)
  have "set (filter (\<lambda>x. k_key x = (s, v)) t) = {r}"
    using r keyed_unique [OF keys_okD(1) [OF ok]] by auto
  then have rows: "above t (length t) (set (filter (\<lambda>x. k_key x = (s, v)) t)) = {p. (r, p) \<in> (up t)\<^sup>*}"
    using above_rtrancl [OF r(1)] by simp
  define roots where "roots = {p. (r, p) \<in> (up t)\<^sup>* \<and> k_parent_subject p = None}"
  have one: "p = q" if "p \<in> roots" "q \<in> roots" for p q
    using that path_linear [OF ok, of r p q] root_stays unfolding roots_def by blast
  have "card roots = 1 \<longleftrightarrow> roots \<noteq> {}"
  proof
    assume "roots \<noteq> {}"
    then obtain p where p: "p \<in> roots" by blast
    have "roots = {p}"
    proof (rule equalityI; rule subsetI)
      fix q
      assume "q \<in> roots"
      then show "q \<in> {p}" using one [OF _ p] by (simp only: singleton_iff)
    next
      fix q
      assume "q \<in> {p}"
      then show "q \<in> roots" using p by (simp only: singleton_iff)
    qed
    then show "card roots = 1" by simp
  qed auto
  also have "\<dots> \<longleftrightarrow> anchored t (s, v)"
    using anchored_up [OF ok r(1)] unfolding r(2) roots_def by blast
  finally have card: "card roots = 1 \<longleftrightarrow> anchored t (s, v)" .
  have "Set.filter (\<lambda>r. k_parent_subject r = None) {p. (r, p) \<in> (up t)\<^sup>*} = roots"
    unfolding roots_def by auto
  then have "subject_key_reachable t s v \<longleftrightarrow> s \<noteq> GLOBAL_SUBJECT \<and> card roots = 1"
    unfolding subject_key_reachable_def rows by presburger
  then show ?thesis unfolding card .
qed

lemma below_row: "keys_ok t \<Longrightarrow> r \<in> set t \<Longrightarrow> (k_key r, k) \<in> below t \<longleftrightarrow> child_of r k"
proof
  assume "(k_key r, k) \<in> below t" and ok: "keys_ok t" and r: "r \<in> set t"
  then obtain r' where "r' \<in> set t" "k_key r' = k_key r" "child_of r' k" by (auto simp: below_def)
  then show "child_of r k" using keyed_unique [OF keys_okD(1) [OF ok]] r by metis
qed (use below_def in blast)

lemma anchored_delete:
  assumes ok: "keys_ok t"
  shows "anchored (delete_where (\<lambda>r. k_key r = d) t) k \<longleftrightarrow> anchored t k \<and> (k, d) \<notin> (below t)\<^sup>*"
proof
  have mem: "r \<in> set (delete_where (\<lambda>r. k_key r = d) t) \<longleftrightarrow> r \<in> set t \<and> k_key r \<noteq> d" for r
    by (auto simp: delete_where_def)
  show "anchored t k \<and> (k, d) \<notin> (below t)\<^sup>*" if "anchored (delete_where (\<lambda>r. k_key r = d) t) k"
    using that
  proof induction
    case (root r)
    then have r: "r \<in> set t" "k_key r \<noteq> d" by (simp_all add: mem)
    have "(k_key r, d) \<notin> (below t)\<^sup>*"
    proof
      assume "(k_key r, d) \<in> (below t)\<^sup>*"
      then show False
        by (rule converse_rtranclE) (use r root(2) below_row [OF ok r(1)] in \<open>auto simp: child_of_def\<close>)
    qed
    then show ?case using r(1) root(2) by (blast intro: anchored.root)
  next
    case (child r k)
    then have r: "r \<in> set t" "k_key r \<noteq> d" by (simp_all add: mem)
    have "(k_key r, d) \<notin> (below t)\<^sup>*"
    proof
      assume "(k_key r, d) \<in> (below t)\<^sup>*"
      then obtain c where "(k_key r, c) \<in> below t" "(c, d) \<in> (below t)\<^sup>*"
        using r(2) by (blast elim: converse_rtranclE)
      then show False
        using child.IH child_unique [OF child(2)] below_row [OF ok r(1)] by blast
    qed
    then show ?case using r(1) child by (blast intro: anchored.child)
  qed
  show "anchored (delete_where (\<lambda>r. k_key r = d) t) k" if both: "anchored t k \<and> (k, d) \<notin> (below t)\<^sup>*"
    using both [THEN conjunct1] both [THEN conjunct2]
  proof induction
    case (root r)
    then have "k_key r \<noteq> d" by blast
    then show ?case using root by (auto simp: mem intro: anchored.root)
  next
    case (child r k)
    have "(k_key r, k) \<in> below t" using below_row [OF ok child(1)] child(2) by blast
    then have "(k, d) \<notin> (below t)\<^sup>*" and "k_key r \<noteq> d"
      using child.prems by (blast intro: converse_rtrancl_into_rtrancl)+
    then show ?case using child by (auto simp: mem intro: anchored.child)
  qed
qed


end
