(* ===== verification/Opdb_Migrate.thy ===== *)
theory Opdb_Migrate
  imports Opdb_Keys
begin

section \<open>Opening an older database (src/opdb.rs)\<close>

text \<open>
  \<open>OpDb::migrate\<close> and the one migration with a decision in it, version 10, which files every
  subject key under the name of its declared type instead of the field an annotation named.  The
  operator states the mapping; the migration refuses one that leaves a namespace out or that makes
  two keys meet.  What the other versions' DDL does to the tables is SQLite's and a parameter.
  Trimming is modelled on ASCII white space.
\<close>

subsection \<open>Reading the mapping\<close>

definition is_space :: "char \<Rightarrow> bool" where
  "is_space c \<longleftrightarrow> c = CHR '' '' \<or> (9 \<le> (of_char c :: nat) \<and> (of_char c :: nat) \<le> 13)"

definition trim :: "string \<Rightarrow> string" where
  "trim s = rev (dropWhile is_space (rev (dropWhile is_space s)))"

fun split_on :: "char \<Rightarrow> string \<Rightarrow> string list" where
  "split_on sep [] = [[]]"
| "split_on sep (c # cs) =
     (if c = sep then [] # split_on sep cs
      else case split_on sep cs of p # ps \<Rightarrow> (c # p) # ps | [] \<Rightarrow> [[c]])"

fun split_once :: "char \<Rightarrow> string \<Rightarrow> (string \<times> string) option" where
  "split_once sep [] = None"
| "split_once sep (c # cs) =
     (if c = sep then Some ([], cs) else map_option (\<lambda>(a, b). (c # a, b)) (split_once sep cs))"

datatype v10_error =
    Not_A_Pair string
  | Side_Empty string
  | Two_Names string string string
  | Unaccounted nat "string list" "string list"
  | Merge_Clash "string list" string string
  | Rename_Refused string string

type_synonym v10_subjects = "(string, string) fmap"

definition v10_entry :: "string \<Rightarrow> v10_subjects \<Rightarrow> v10_error + v10_subjects" where
  "v10_entry entry m =
     (case split_once (CHR ''='') entry of
        None \<Rightarrow> Inl (Not_A_Pair entry)
      | Some (old, new) \<Rightarrow>
          (let old = trim old; new = trim new
           in if old = [] \<or> new = [] then Inl (Side_Empty entry)
              else (case fmlookup m old of
                      Some first \<Rightarrow> if first \<noteq> new then Inl (Two_Names old first new) else Inr m
                    | None \<Rightarrow> Inr (fmupd old new m))))"

fun v10_entries :: "string list \<Rightarrow> v10_subjects \<Rightarrow> v10_error + v10_subjects" where
  "v10_entries [] m = Inr m"
| "v10_entries (e # es) m = bind_res (v10_entry e m) (v10_entries es)"

definition v10_parse :: "string \<Rightarrow> v10_error + v10_subjects" where
  "v10_parse raw = v10_entries (filter (\<lambda>one. one \<noteq> []) (map trim (split_on (CHR '','') raw))) fmempty"

subsection \<open>Checking it against the rows\<close>

record old_key_row =
  o_field :: string
  o_value :: string
  o_wrapped :: bytes
  o_master :: string

definition present :: "old_key_row list \<Rightarrow> string list" where
  "present t = sort (remdups (map o_field t))"

definition unaccounted :: "old_key_row list \<Rightarrow> v10_subjects \<Rightarrow> string list" where
  "unaccounted t stated = filter (\<lambda>name. fmlookup stated name = None) (present t)"

definition absent :: "old_key_row list \<Rightarrow> v10_subjects \<Rightarrow> string list" where
  "absent t stated = filter (\<lambda>name. name \<notin> set (present t)) (sorted_list_of_fset (fmdom stated))"

text \<open>The namespaces that go to one name, names and namespaces both in order.\<close>

definition olds_of :: "v10_subjects \<Rightarrow> string \<Rightarrow> string list" where
  "olds_of stated new = map fst (filter (\<lambda>e. snd e = new) (sorted_list_of_fmap stated))"

definition merged :: "v10_subjects \<Rightarrow> (string \<times> string list) list" where
  "merged stated =
     map (\<lambda>new. (new, olds_of stated new)) (sort (remdups (map snd (sorted_list_of_fmap stated))))"

definition clash :: "old_key_row list \<Rightarrow> string list \<Rightarrow> string option" where
  "clash t olds =
     (let vs = map o_value (filter (\<lambda>r. o_field r \<in> set olds) t)
      in find (\<lambda>v. count_list vs v > 1) (sort (remdups vs)))"

fun check_merges :: "old_key_row list \<Rightarrow> (string \<times> string list) list \<Rightarrow> v10_error + unit" where
  "check_merges t [] = Inr ()"
| "check_merges t ((new, olds) # rest) =
     (if length olds > 1 then
        (case clash t olds of
           Some v \<Rightarrow> Inl (Merge_Clash olds new v)
         | None \<Rightarrow> check_merges t rest)
      else check_merges t rest)"

definition v10_renames :: "old_key_row list \<Rightarrow> v10_subjects \<Rightarrow> v10_error + (string \<times> string) list" where
  "v10_renames t stated =
     (if present t = [] then Inr []
      else if unaccounted t stated \<noteq> [] then
        Inl (Unaccounted (length (filter (\<lambda>r. o_field r \<in> set (unaccounted t stated)) t))
               (unaccounted t stated) (absent t stated))
      else bind_res (check_merges t (merged stated))
             (\<lambda>_. Inr (filter (\<lambda>(old, new). old \<noteq> new) (sorted_list_of_fmap stated))))"

subsection \<open>Rebuilding and renaming\<close>

definition rebuild :: "old_key_row list \<Rightarrow> key_table" where
  "rebuild t = map (\<lambda>r. \<lparr>k_subject = o_field r, k_value = o_value r, k_wrapped = o_wrapped r,
     k_master = Some (o_master r), k_parent_subject = None, k_parent_value = None, k_fingerprint = None\<rparr>) t"

text \<open>\<open>UPDATE subject_key SET subject = new WHERE subject = old\<close>: refused when a row it moves would
  meet another row's primary key.\<close>

definition rename_subject :: "string \<Rightarrow> string \<Rightarrow> key_table \<Rightarrow> v10_error + key_table" where
  "rename_subject old new t =
     (let t' = update_where (\<lambda>r. k_subject r = old) (\<lambda>r. r\<lparr>k_subject := new\<rparr>) t
      in if distinct (map k_key t') then Inr t' else Inl (Rename_Refused old new))"

definition staged :: "string \<Rightarrow> string" where
  "staged old = CHR 0x01 # old"

fun hop :: "(string \<times> string) list \<Rightarrow> key_table \<Rightarrow> v10_error + key_table" where
  "hop [] t = Inr t"
| "hop ((a, b) # rest) t = bind_res (rename_subject a b t) (hop rest)"

definition apply_v10_renames :: "(string \<times> string) list \<Rightarrow> key_table \<Rightarrow> v10_error + key_table" where
  "apply_v10_renames renames t =
     (if renames = [] then Inr t
      else bind_res (hop (map (\<lambda>(old, _). (old, staged old)) renames) t)
             (hop (map (\<lambda>(old, new). (staged old, new)) renames)))"

definition migrate_v10 :: "v10_subjects \<Rightarrow> old_key_row list \<Rightarrow> v10_error + key_table" where
  "migrate_v10 stated t =
     bind_res (v10_renames t stated) (\<lambda>renames. apply_v10_renames renames (rebuild t))"

subsection \<open>The version loop\<close>

text \<open>One transaction per version: a step that fails leaves the database at the version before it.\<close>

definition SCHEMA_VERSION :: int where "SCHEMA_VERSION = 11"

datatype 'e migrate_error = Newer int | Step_Failed int 'e | No_Migration int

function migrate_loop :: "(int \<Rightarrow> 'db \<Rightarrow> 'e + 'db) \<Rightarrow> int \<Rightarrow> 'db \<Rightarrow> 'e migrate_error option \<times> int \<times> 'db" where
  "migrate_loop step version db =
     (if version < SCHEMA_VERSION then
        if version < 0 then (Some (No_Migration version), version, db)
        else (case step version db of
                Inl e \<Rightarrow> (Some (Step_Failed version e), version, db)
              | Inr db' \<Rightarrow> migrate_loop step (version + 1) db')
      else (None, version, db))"
  by pat_completeness auto
termination
  by (relation "measure (\<lambda>(_, version, _). nat (SCHEMA_VERSION - version))") auto

declare migrate_loop.simps [simp del]

definition migrate :: "(int \<Rightarrow> 'db \<Rightarrow> 'e + 'db) \<Rightarrow> int \<Rightarrow> 'db \<Rightarrow> 'e migrate_error option \<times> int \<times> 'db" where
  "migrate step version db =
     (if version > SCHEMA_VERSION then (Some (Newer version), version, db) else migrate_loop step version db)"

subsection \<open>Renaming by substitution\<close>

definition resubject :: "(string \<Rightarrow> string) \<Rightarrow> key_row \<Rightarrow> key_row" where
  "resubject f r = r\<lparr>k_subject := f (k_subject r)\<rparr>"

definition shift :: "(string \<times> string) list \<Rightarrow> string \<Rightarrow> string" where
  "shift L s = fold (\<lambda>(a, b) x. if x = a then b else x) L s"

definition plain :: "string \<Rightarrow> bool" where
  "plain s \<longleftrightarrow> (\<forall>old. s \<noteq> staged old)"

lemma shift_simps [simp]: "shift [] s = s" "shift ((a, b) # L) s = shift L (if s = a then b else s)"
  by (simp_all add: shift_def)

lemma shift_append: "shift (L @ M) s = shift M (shift L s)"
  by (simp add: shift_def)

lemma staged_inj [simp]: "staged a = staged b \<longleftrightarrow> a = b"
  by (simp add: staged_def)

lemma plain_staged: "plain s \<Longrightarrow> s \<noteq> staged a" "plain s \<Longrightarrow> staged a \<noteq> s" "\<not> plain (staged a)"
  by (auto simp: plain_def)

lemma resubject_comp: "resubject (shift L) (resubject (shift [x]) r) = resubject (shift (x # L)) r"
  by (cases x) (simp add: resubject_def)

lemma rename_subject_shift:
  "rename_subject a b t =
     (if distinct (map k_key (map (resubject (shift [(a, b)])) t))
      then Inr (map (resubject (shift [(a, b)])) t) else Inl (Rename_Refused a b))"
proof -
  have "update_where (\<lambda>r. k_subject r = a) (\<lambda>r. r\<lparr>k_subject := b\<rparr>) t = map (resubject (shift [(a, b)])) t"
    by (simp add: update_where_def resubject_def)
  then show ?thesis unfolding rename_subject_def Let_def by (simp only:)
qed

lemma hop_shift:
  assumes "\<And>P Q. L = P @ Q \<Longrightarrow> distinct (map k_key (map (resubject (shift P)) t))"
  shows "hop L t = Inr (map (resubject (shift L)) t)"
  using assms
proof (induction L arbitrary: t)
  case Nil
  show ?case by (simp add: resubject_def)
next
  case (Cons x L)
  obtain a b where x: "x = (a, b)" by fastforce
  let ?t = "map (resubject (shift [x])) t"
  have first: "rename_subject a b t = Inr ?t"
    using Cons.prems [of "[x]" L] unfolding rename_subject_shift x by (simp only: if_True append_Cons append_Nil)
  have both: "map (resubject (shift M)) ?t = map (resubject (shift (x # M))) t" for M
    by (simp add: resubject_comp)
  have rest: "distinct (map k_key (map (resubject (shift P)) ?t))" if "L = P @ Q" for P Q
    unfolding both using Cons.prems [of "x # P" Q] that by simp
  have "hop L ?t = Inr (map (resubject (shift L)) ?t)" by (rule Cons.IH) (rule rest)
  then show ?case using both [of L] unfolding x hop.simps first [unfolded x] bind_res.simps by (simp only:)
qed

lemma shift_stage:
  "plain s \<Longrightarrow> \<forall>(old, new) \<in> set rs. plain old \<Longrightarrow>
     shift (map (\<lambda>(old, _). (old, staged old)) rs) s = (if s \<in> fst ` set rs then staged s else s)"
proof (induction rs)
  case (Cons x rs)
  have keep: "shift (map (\<lambda>(old, _). (old, staged old)) rs) (staged s) = staged s"
    using Cons.prems(2) by (induction rs) (auto simp: plain_staged)
  show ?case using Cons keep by (cases x) auto
qed simp

lemma shift_plain: "plain s \<Longrightarrow> shift (map (\<lambda>(old, new). (staged old, new)) rs) s = s"
  by (induction rs) (auto simp: plain_staged)

lemma shift_land:
  "\<forall>(old, new) \<in> set rs. plain new \<Longrightarrow> distinct (map fst rs) \<Longrightarrow>
     shift (map (\<lambda>(old, new). (staged old, new)) rs) (staged s) =
       (case map_of rs s of None \<Rightarrow> staged s | Some new \<Rightarrow> new)"
proof (induction rs)
  case (Cons x rs)
  then show ?case by (cases x) (auto simp: shift_plain)
qed simp

text \<open>The two hops are one simultaneous renaming, whenever the renamed rows have distinct keys.\<close>

definition renamed :: "(string \<times> string) list \<Rightarrow> string \<Rightarrow> string" where
  "renamed rs s = (case map_of rs s of None \<Rightarrow> s | Some new \<Rightarrow> new)"

lemma key_resubject: "k_key (resubject f r) = (f (k_subject r), k_value r)"
  by (simp add: resubject_def k_key_def)

lemma resubject_cong: "f (k_subject r) = g (k_subject r) \<Longrightarrow> resubject f r = resubject g r"
  by (simp add: resubject_def)

lemma distinct_resubject:
  assumes t: "keyed k_key t" "\<forall>r \<in> set t. plain (k_subject r)"
    and final: "distinct (map k_key (map (resubject F) t))"
    and g: "\<And>s. plain s \<Longrightarrow> g s = F s \<or> g s = staged s" and F: "\<And>s. plain s \<Longrightarrow> plain (F s)"
  shows "distinct (map k_key (map (resubject g) t))"
proof -
  have "distinct t" using t(1) unfolding keyed_def distinct_map by blast
  moreover have "r = r'" if r: "r \<in> set t" "r' \<in> set t" "k_key (resubject g r) = k_key (resubject g r')" for r r'
  proof -
    have v: "k_value r = k_value r'" and e: "g (k_subject r) = g (k_subject r')"
      using r(3) by (simp_all add: key_resubject)
    have p: "plain (k_subject r)" "plain (k_subject r')" using r t(2) by auto
    consider "F (k_subject r) = F (k_subject r')" | "k_subject r = k_subject r'"
      using g [OF p(1)] g [OF p(2)] e F [OF p(1)] F [OF p(2)] plain_staged by (metis staged_inj)
    then show ?thesis
    proof cases
      case 1
      then have "(k_key \<circ> resubject F) r = (k_key \<circ> resubject F) r'" using v by (simp add: key_resubject)
      moreover have "inj_on (k_key \<circ> resubject F) (set t)" using final by (simp add: distinct_map)
      ultimately show ?thesis using r(1,2) by (meson inj_onD)
    next
      case 2
      then show ?thesis using v keyed_unique [OF t(1) r(1,2)] by (simp add: k_key_def)
    qed
  qed
  ultimately show ?thesis by (auto simp: distinct_map inj_on_def)
qed

lemma apply_v10_renames_once:
  assumes t: "keyed k_key t" "\<forall>r \<in> set t. plain (k_subject r)"
    and rs: "\<forall>(old, new) \<in> set rs. plain old \<and> plain new" "distinct (map fst rs)"
    and final: "distinct (map k_key (map (resubject (renamed rs)) t))"
  shows "apply_v10_renames rs t = Inr (map (resubject (renamed rs)) t)"
proof (cases "rs = []")
  case True
  have "map (resubject (renamed [])) t = t" by (rule map_idI) (simp add: resubject_def renamed_def)
  then show ?thesis by (simp add: apply_v10_renames_def True)
next
  case False
  let ?L = "map (\<lambda>(old, _). (old, staged old)) rs" and ?M = "map (\<lambda>(old, new). (staged old, new)) rs"
  have plainF: "plain (renamed rs s)" if "plain s" for s
    using that rs(1) by (auto simp: renamed_def split: option.splits dest: map_of_SomeD)
  note distinct = distinct_resubject [OF t final _ plainF]
  have pre: "\<exists>us. P = map f us \<and> (\<exists>vs. rs = us @ vs)" if "map f rs = P @ Q" for f :: "string \<times> string \<Rightarrow> string \<times> string" and P Q
    using that by (metis map_eq_append_conv)
  have key0: "distinct (map k_key (map (resubject (\<lambda>s. s)) t))"
  proof -
    have "map (resubject (\<lambda>s. s)) t = t" by (rule map_idI) (simp add: resubject_def)
    then show ?thesis using t(1) by (simp add: keyed_def)
  qed
  have stage: "shift ?L s = (if s \<in> fst ` set rs then staged s else s)" if "plain s" for s
    using that rs(1) by (intro shift_stage) auto
  have one: "hop ?L t = Inr (map (resubject (shift ?L)) t)"
  proof (rule hop_shift)
    fix P Q
    assume "?L = P @ Q"
    then obtain us vs where u: "P = map (\<lambda>(old, _). (old, staged old)) us" "rs = us @ vs" using pre by blast
    have "shift P s = s \<or> shift P s = staged s" if "plain s" for s
    proof -
      have "\<forall>(old, new) \<in> set us. plain old" using rs(1) u(2) by auto
      from shift_stage [OF that this] show ?thesis by (simp add: u(1))
    qed
    then show "distinct (map k_key (map (resubject (shift P)) t))"
      by (intro distinct_resubject [OF t key0]) auto
  qed
  let ?t = "map (resubject (shift ?L)) t"
  have after: "map (resubject (shift M)) ?t = map (resubject (\<lambda>s. shift M (shift ?L s))) t" for M
    by (simp add: resubject_def)
  have land: "shift (map (\<lambda>(old, new). (staged old, new)) us) (shift ?L s) =
      (if s \<in> fst ` set us then renamed rs s else if s \<in> fst ` set rs then staged s else s)"
    if "rs = us @ vs" and s: "plain s" for us vs s
  proof -
    have "distinct (map fst us)" "\<forall>(old, new) \<in> set us. plain new" using rs that(1) by auto
    note L = shift_land [OF this(2,1), of s]
    show ?thesis
    proof (cases "s \<in> fst ` set us")
      case True
      then obtain new where new: "map_of us s = Some new"
        by (metis map_of_eq_None_iff not_None_eq)
      then have "renamed rs s = new" using that(1) by (simp add: renamed_def)
      then show ?thesis using True L new stage [OF s] that(1) by (auto split: if_splits)
    next
      case False
      then have "map_of us s = None" by (simp add: map_of_eq_None_iff)
      then show ?thesis using False L stage [OF s] shift_plain [OF s, of us] by (cases "s \<in> fst ` set rs") simp_all
    qed
  qed
  have out: "renamed rs s = s" if "s \<notin> fst ` set rs" for s
    using that map_of_eq_None_iff [of rs s] by (simp add: renamed_def)
  have "hop ?M ?t = Inr (map (resubject (shift ?M)) ?t)"
  proof (rule hop_shift)
    fix P Q
    assume "?M = P @ Q"
    then obtain us vs where u: "P = map (\<lambda>(old, new). (staged old, new)) us" "rs = us @ vs" using pre by blast
    have "shift P (shift ?L s) = renamed rs s \<or> shift P (shift ?L s) = staged s" if s: "plain s" for s
      
      using land [OF u(2) s] out [of s] by (cases "s \<in> fst ` set rs") (simp_all add: u(1))
    then show "distinct (map k_key (map (resubject (shift P)) ?t))"
      unfolding after by (intro distinct)
  qed
  moreover have "map (resubject (shift ?M)) ?t = map (resubject (renamed rs)) t"
    unfolding after
  proof (rule map_cong [OF refl], rule resubject_cong)
    fix r
    assume "r \<in> set t"
    then have s: "plain (k_subject r)" using t(2) by simp
    show "shift ?M (shift ?L (k_subject r)) = renamed rs (k_subject r)"
      using land [of rs "[]", OF _ s] out [of "k_subject r"]
      by (cases "k_subject r \<in> fst ` set rs") simp_all
  qed
  ultimately show ?thesis using False by (simp add: apply_v10_renames_def one)
qed

subsection \<open>What the checks guarantee\<close>

definition old_key :: "old_key_row \<Rightarrow> string \<times> string" where
  "old_key r = (o_field r, o_value r)"

definition carried :: "v10_subjects \<Rightarrow> old_key_row \<Rightarrow> key_row" where
  "carried stated r =
     \<lparr>k_subject = (case fmlookup stated (o_field r) of None \<Rightarrow> o_field r | Some new \<Rightarrow> new), k_value = o_value r,
      k_wrapped = o_wrapped r, k_master = Some (o_master r), k_parent_subject = None, k_parent_value = None,
      k_fingerprint = None\<rparr>"

definition values_in :: "string set \<Rightarrow> old_key_row list \<Rightarrow> string list" where
  "values_in S t = map o_value (filter (\<lambda>r. o_field r \<in> S) t)"

lemma clash_iff: "clash t olds = None \<longleftrightarrow> distinct (values_in (set olds) t)"
proof -
  have "(\<forall>v \<in> set vs. \<not> count_list vs v > 1) \<longleftrightarrow> distinct vs" for vs :: "string list"
  proof (induction vs)
    case (Cons x vs)
    have "count_list vs x = 0 \<longleftrightarrow> x \<notin> set vs" by (simp add: count_list_0_iff)
    then show ?case using Cons by auto
  qed simp
  from this [of "values_in (set olds) t"] show ?thesis
    unfolding clash_def Let_def values_in_def [symmetric] find_None_iff set_sort set_remdups by blast
qed

lemma check_merges_iff:
  "check_merges t ms = Inr () \<longleftrightarrow>
     (\<forall>(new, olds) \<in> set ms. length olds > 1 \<longrightarrow> distinct (values_in (set olds) t))"
proof (induction t ms rule: check_merges.induct)
  case (2 t new olds rest)
  show ?case
  proof (cases "clash t olds")
    case None
    then show ?thesis using 2 clash_iff [of t olds] by auto
  next
    case (Some v)
    then have "\<not> distinct (values_in (set olds) t)" using clash_iff [of t olds] by simp
    then show ?thesis using 2 Some by auto
  qed
qed simp

lemma set_olds_of: "set (olds_of m new) = {old. fmlookup m old = Some new}"
  unfolding olds_of_def set_map set_filter sorted_fmap(3) by force

lemma values_one:
  assumes "keyed old_key t"
  shows "distinct (values_in {f} t)"
proof -
  have "distinct (map (\<lambda>r. (f, o_value r)) (filter (\<lambda>r. o_field r \<in> {f}) t))"
  proof -
    have "map (\<lambda>r. (f, o_value r)) (filter (\<lambda>r. o_field r \<in> {f}) t) = map old_key (filter (\<lambda>r. o_field r \<in> {f}) t)"
      by (rule map_cong) (simp_all add: old_key_def)
    then show ?thesis using keyed_filter [OF assms, of "\<lambda>r. o_field r \<in> {f}"] unfolding keyed_def by (simp only:)
  qed
  then have "distinct (map (Pair f) (values_in {f} t))" by (simp add: values_in_def comp_def)
  then show ?thesis unfolding distinct_map by blast
qed

lemma merges_iff:
  assumes "keyed old_key t"
  shows "check_merges t (merged stated) = Inr () \<longleftrightarrow>
    (\<forall>new. distinct (values_in {old. fmlookup stated old = Some new} t))"
proof -
  have small: "distinct (values_in (set olds) t)" if "\<not> length olds > 1" for olds
  proof (cases olds)
    case (Cons f fs)
    then have "set olds = {f}" using that by (cases fs) auto
    then show ?thesis using values_one [OF assms] by simp
  qed (simp add: values_in_def)
  have "check_merges t (merged stated) = Inr () \<longleftrightarrow>
      (\<forall>new \<in> {new. \<exists>old. fmlookup stated old = Some new}. distinct (values_in (set (olds_of stated new)) t))"
    unfolding check_merges_iff merged_def using small by (force simp: sorted_fmap(3))
  also have "\<dots> \<longleftrightarrow> (\<forall>new. distinct (values_in {old. fmlookup stated old = Some new} t))"
  proof -
    have "distinct (values_in {old. fmlookup stated old = Some new} t)"
      if "\<not> (\<exists>old. fmlookup stated old = Some new)" for new
      using that by (simp add: values_in_def)
    then show ?thesis unfolding set_olds_of by blast
  qed
  finally show ?thesis .
qed

lemma distinct_carried:
  assumes "keyed old_key t" and known: "\<forall>r \<in> set t. fmlookup stated (o_field r) \<noteq> None"
  shows "distinct (map k_key (map (carried stated) t)) \<longleftrightarrow>
    (\<forall>new. distinct (values_in {old. fmlookup stated old = Some new} t))"
proof -
  have t: "distinct t" using assms(1) unfolding keyed_def distinct_map by blast
  have key: "k_key (carried stated r) = (the (fmlookup stated (o_field r)), o_value r)" if "r \<in> set t" for r
    using known that by (auto simp: k_key_def carried_def)
  have same: "k_key (carried stated r) = k_key (carried stated r') \<longleftrightarrow>
      fmlookup stated (o_field r) = fmlookup stated (o_field r') \<and> o_value r = o_value r'"
    if "r \<in> set t" "r' \<in> set t" for r r'
    using known that unfolding key [OF that(1)] key [OF that(2)] prod.inject
    by (cases "fmlookup stated (o_field r)"; cases "fmlookup stated (o_field r')") auto
  have "distinct (map k_key (map (carried stated) t)) \<longleftrightarrow>
      (\<forall>r \<in> set t. \<forall>r' \<in> set t. k_key (carried stated r) = k_key (carried stated r') \<longrightarrow> r = r')"
    unfolding map_map using t by (simp add: distinct_map inj_on_def)
  also have "\<dots> \<longleftrightarrow>
      (\<forall>r \<in> set t. \<forall>r' \<in> set t. fmlookup stated (o_field r) = fmlookup stated (o_field r') \<and> o_value r = o_value r' \<longrightarrow> r = r')"
    using same by blast
  also have "\<dots> \<longleftrightarrow> (\<forall>new. inj_on o_value {r \<in> set t. fmlookup stated (o_field r) = Some new})"
  proof (intro iffI allI inj_onI ballI impI)
    fix r r'
    assume inj: "\<forall>new. inj_on o_value {r \<in> set t. fmlookup stated (o_field r) = Some new}"
      and r: "r \<in> set t" "r' \<in> set t"
      and e: "fmlookup stated (o_field r) = fmlookup stated (o_field r') \<and> o_value r = o_value r'"
    then obtain new where "fmlookup stated (o_field r) = Some new" using known by fastforce
    then show "r = r'" using inj_onD [OF inj [THEN spec, of new]] r e by simp
  next
    fix new r r'
    assume "\<forall>r \<in> set t. \<forall>r' \<in> set t.
        fmlookup stated (o_field r) = fmlookup stated (o_field r') \<and> o_value r = o_value r' \<longrightarrow> r = r'"
      "r \<in> {r \<in> set t. fmlookup stated (o_field r) = Some new}"
      "r' \<in> {r \<in> set t. fmlookup stated (o_field r) = Some new}" "o_value r = o_value r'"
    then show "r = r'" by simp
  qed
  also have "\<dots> \<longleftrightarrow> (\<forall>new. distinct (values_in {old. fmlookup stated old = Some new} t))"
    using t by (simp add: values_in_def distinct_map distinct_filter)
  finally show ?thesis .
qed

lemma renamed_carried:
  assumes "\<forall>r \<in> set t. fmlookup stated (o_field r) \<noteq> None"
  shows "map (resubject (renamed (filter (\<lambda>(old, new). old \<noteq> new) (sorted_list_of_fmap stated)))) (rebuild t) =
    map (carried stated) t"
proof -
  let ?rs = "filter (\<lambda>(old, new). old \<noteq> new) (sorted_list_of_fmap stated)"
  have d: "distinct (map fst ?rs)" using sorted_fmap(1) distinct_map_filter by blast
  have "renamed ?rs s = (case fmlookup stated s of None \<Rightarrow> s | Some new \<Rightarrow> new)" for s
  proof (cases "map_of ?rs s")
    case None
    then have "fmlookup stated s = Some new \<Longrightarrow> new = s" for new
      by (auto simp: map_of_eq_None_iff sorted_fmap(3) image_iff split: prod.splits)
    then show ?thesis using None by (auto simp: renamed_def split: option.splits)
  next
    case (Some new)
    then have "(s, new) \<in> set ?rs" by (rule map_of_SomeD)
    then show ?thesis using Some by (auto simp: renamed_def sorted_fmap(3))
  qed
  then show ?thesis by (simp add: rebuild_def resubject_def carried_def)
qed

text \<open>
  C12: the upgrade to version 10 loses no key and merges none.  It goes ahead exactly when the stated
  mapping accounts for every namespace in the database and no two rows meet under one key after it,
  and then every row is carried across, its bytes and master untouched, under the name stated for it:
  a chain or a swap of names included.
\<close>

theorem v10_upgrade_exact:
  assumes keyed: "keyed old_key t" and fields: "\<forall>r \<in> set t. plain (o_field r)"
    and names: "\<forall>old new. fmlookup stated old = Some new \<longrightarrow> plain old \<and> plain new"
  shows "(case migrate_v10 stated t of
      Inr t' \<Rightarrow> (\<forall>r \<in> set t. fmlookup stated (o_field r) \<noteq> None) \<and> keyed k_key (map (carried stated) t) \<and>
        t' = map (carried stated) t
    | Inl _ \<Rightarrow> \<not> ((\<forall>r \<in> set t. fmlookup stated (o_field r) \<noteq> None) \<and> keyed k_key (map (carried stated) t)))"
proof (cases "t = []")
  case True
  then show ?thesis
    by (simp add: migrate_v10_def v10_renames_def present_def apply_v10_renames_def rebuild_def keyed_def)
next
  case False
  then have here: "present t \<noteq> []" by (simp add: present_def set_empty [symmetric] del: set_empty)
  have acc: "unaccounted t stated = [] \<longleftrightarrow> (\<forall>r \<in> set t. fmlookup stated (o_field r) \<noteq> None)"
    by (auto simp: unaccounted_def present_def filter_empty_conv)
  show ?thesis
  proof (cases "unaccounted t stated = []")
    case False
    then have "v10_renames t stated = Inl (Unaccounted (length (filter (\<lambda>r. o_field r \<in> set (unaccounted t stated)) t))
        (unaccounted t stated) (absent t stated))"
      using here unfolding v10_renames_def by (simp only: if_False if_True simp_thms)
    then show ?thesis using False acc by (simp add: migrate_v10_def)
  next
    case True
    let ?rs = "filter (\<lambda>(old, new). old \<noteq> new) (sorted_list_of_fmap stated)"
    have known: "\<forall>r \<in> set t. fmlookup stated (o_field r) \<noteq> None" using True acc by blast
    have ok: "check_merges t (merged stated) = Inr () \<longleftrightarrow> keyed k_key (map (carried stated) t)"
      using merges_iff [OF keyed] distinct_carried [OF keyed known] by (simp add: keyed_def)
    have ren: "v10_renames t stated = bind_res (check_merges t (merged stated)) (\<lambda>_. Inr ?rs)"
      using here True unfolding v10_renames_def by (simp only: if_False simp_thms)
    show ?thesis
    proof (cases "check_merges t (merged stated)")
      case (Inl e)
      then show ?thesis using ok by (simp add: migrate_v10_def ren)
    next
      case (Inr u)
      then have final: "keyed k_key (map (carried stated) t)" using ok by simp
      have "apply_v10_renames ?rs (rebuild t) = Inr (map (resubject (renamed ?rs)) (rebuild t))"
      proof (rule apply_v10_renames_once)
        show "keyed k_key (rebuild t)"
        proof -
          have "map k_key (rebuild t) = map old_key t" by (simp add: rebuild_def k_key_def old_key_def)
          then show ?thesis using keyed by (simp add: keyed_def)
        qed
        show "\<forall>r \<in> set (rebuild t). plain (k_subject r)" using fields by (simp add: rebuild_def)
        show "\<forall>(old, new) \<in> set ?rs. plain old \<and> plain new" using names by (auto simp: sorted_fmap(3))
        show "distinct (map fst ?rs)" using sorted_fmap(1) distinct_map_filter by blast
        show "distinct (map k_key (map (resubject (renamed ?rs)) (rebuild t)))"
          unfolding renamed_carried [OF known] using final by (simp add: keyed_def)
      qed
      then show ?thesis using known final unfolding renamed_carried [OF known]
        by (simp add: migrate_v10_def ren Inr)
    qed
  qed
qed

subsection \<open>Interrupted migrations\<close>

lemma migrate_loop_resumes:
  "migrate_loop step v db = (e, w, db') \<Longrightarrow> 0 \<le> v \<Longrightarrow> v \<le> SCHEMA_VERSION \<Longrightarrow>
    (\<And>u. v \<le> u \<Longrightarrow> u < w \<Longrightarrow> step' u = step u) \<Longrightarrow>
    migrate_loop step' w db' = migrate_loop step' v db \<and> v \<le> w \<and> w \<le> SCHEMA_VERSION \<and>
    (e = None \<longleftrightarrow> w = SCHEMA_VERSION) \<and>
    (\<forall>err. e = Some err \<longrightarrow> (\<exists>c. err = Step_Failed w c \<and> step w db' = Inl c))"
proof (induction step v db rule: migrate_loop.induct)
  case (1 step v db)
  show ?case
  proof (cases "v < SCHEMA_VERSION")
    case False
    then show ?thesis using 1(2,4) by (auto simp: migrate_loop.simps [of step])
  next
    case True
    show ?thesis
    proof (cases "step v db")
      case (Inl c)
      then show ?thesis using 1(2,3) True by (auto simp: migrate_loop.simps [of step])
    next
      case (Inr db1)
      have next': "migrate_loop step (v + 1) db1 = (e, w, db')"
        using 1(2,3) True Inr by (simp add: migrate_loop.simps [of step v])
      have IH: "migrate_loop step' w db' = migrate_loop step' (v + 1) db1 \<and> v + 1 \<le> w \<and> w \<le> SCHEMA_VERSION \<and>
          (e = None \<longleftrightarrow> w = SCHEMA_VERSION) \<and>
          (\<forall>err. e = Some err \<longrightarrow> (\<exists>c. err = Step_Failed w c \<and> step w db' = Inl c))"
        using 1(3) True Inr next' by (intro 1(1)) (auto intro: 1(5))
      moreover have "step' v = step v" using IH by (intro 1(5)) auto
      then have "migrate_loop step' v db = migrate_loop step' (v + 1) db1"
        using True 1(3) Inr by (simp add: migrate_loop.simps [of step' v])
      ultimately show ?thesis by simp
    qed
  qed
qed


end
