(* ===== verification/Keys_Examples.thy ===== *)
theory Keys_Examples
  imports Opdb_Examples Opdb_Introspect Opdb_Migrate
begin

section \<open>Reachability and migration on concrete data\<close>


definition old_keys :: "old_key_row list" where
  "old_keys =
     [\<lparr>o_field = ''a'', o_value = ''1'', o_wrapped = ''w1'', o_master = ''m''\<rparr>,
      \<lparr>o_field = ''b'', o_value = ''1'', o_wrapped = ''w2'', o_master = ''m''\<rparr>,
      \<lparr>o_field = ''b'', o_value = ''2'', o_wrapped = ''w3'', o_master = ''m''\<rparr>]"

definition swapped :: v10_subjects where
  "swapped = fmupd ''a'' ''b'' (fmupd ''b'' ''a'' fmempty)"

lemma parse_swapped: "v10_parse '' a=b, b = a,'' = Inr (fmupd ''b'' ''a'' (fmupd ''a'' ''b'' fmempty))"
  by code_simp

theorem v10_upgrade_witness:
  "migrate_v10 swapped old_keys = Inr (map (carried swapped) old_keys)"
proof -
  have a: "keyed old_key old_keys" by (simp add: old_keys_def keyed_def old_key_def)
  have b: "\<forall>r \<in> set old_keys. plain (o_field r)" by (simp add: old_keys_def plain_def staged_def)
  have c: "\<forall>old new. fmlookup swapped old = Some new \<longrightarrow> plain old \<and> plain new"
    by (auto simp: swapped_def plain_def staged_def split: if_splits)
  have "(\<forall>r \<in> set old_keys. fmlookup swapped (o_field r) \<noteq> None)" by (simp add: old_keys_def swapped_def)
  moreover have "keyed k_key (map (carried swapped) old_keys)"
    by (simp add: old_keys_def swapped_def keyed_def carried_def k_key_def)
  ultimately show ?thesis using v10_upgrade_exact [OF a b c]
    by (cases "migrate_v10 swapped old_keys") simp_all
qed

text \<open>
  The reserved uniqueness secret is a row like any other to the version 10 check: a database that
  holds one is refused until the mapping names it, the refusal lists it first, and a mapping that
  sends it to a declared type moves the secret away from the name it is read under.
\<close>

definition reserved_keys :: "old_key_row list" where
  "reserved_keys =
     [\<lparr>o_field = ''customer_id'', o_value = ''1'', o_wrapped = ''w1'', o_master = ''m''\<rparr>,
      \<lparr>o_field = GLOBAL_SUBJECT, o_value = ''global'', o_wrapped = ''w0'', o_master = ''m''\<rparr>]"

lemma reserved_secret_is_renamed:
  "v10_renames reserved_keys fmempty = Inl (Unaccounted 2 [GLOBAL_SUBJECT, ''customer_id''] []) \<and>
   (case migrate_v10 (fmupd GLOBAL_SUBJECT ''Global'' (fmupd ''customer_id'' ''Customer'' fmempty)) reserved_keys of
      Inr t \<Rightarrow> get_subject_key t GLOBAL_SUBJECT ''global'' = None
    | Inl _ \<Rightarrow> False)"
  by code_simp

definition flaky :: "int \<Rightarrow> nat \<Rightarrow> string + nat" where
  "flaky v db = (if v = 9 then Inl ''unaccounted'' else Inr (db + 1))"

definition steady :: "int \<Rightarrow> nat \<Rightarrow> string + nat" where
  "steady v db = Inr (db + 1)"


end
