(* ===== verification/Effect_Status.thy ===== *)
theory Effect_Status
  imports Lanes
begin

section \<open>What an effect publishes about itself (src/effect.rs)\<close>

text \<open>
  \<open>EffectShared\<close>: the lanes that are failing, the operator's skip requests, and the single-valued
  fields re-derived from the failing lanes after every change of them.  Times are milliseconds since
  the effect started; \<open>now\<close> is what \<open>elapsed_ms\<close> answers.  Counters are \<open>u64\<close>, an attempt count is
  a \<open>u32\<close>, and both saturate as the code writes it.
\<close>

record stuck_lane =
  s_position :: nat
  s_attempt :: nat
  s_error :: string
  s_retry_at :: nat

record effect_shared =
  sh_position :: nat
  shutdown :: bool
  consecutive_failures :: nat
  last_error :: "string option"
  terminal_skips :: nat
  last_terminal_error :: "string option"
  skips :: "nat set"
  retry_at_ms :: nat
  quarantined :: bool
  stuck :: "(lane_id, stuck_lane) fmap"
  wedged_lanes :: nat
  blocked :: "string option"
  pinning :: "(lane_id \<times> nat) option"

definition DRIVER_LANE :: lane_id where
  "DRIVER_LANE = ''!driver''"

definition new_shared :: "nat \<Rightarrow> effect_shared" where
  "new_shared resume =
     \<lparr>sh_position = resume, shutdown = False, consecutive_failures = 0, last_error = None,
      terminal_skips = 0, last_terminal_error = None, skips = {}, retry_at_ms = 0, quarantined = False,
      stuck = fmempty, wedged_lanes = 0, blocked = None, pinning = None\<rparr>"

definition saturating_add :: "nat \<Rightarrow> nat \<Rightarrow> nat \<Rightarrow> nat" where
  "saturating_add bits a b = min (a + b) (2 ^ bits - 1)"

lemma saturating_add_code [code]:
  "saturating_add bits a b = (let c = int a + int b; m = 2 ^ bits - 1 in nat (if c \<le> m then c else m))"
proof -
  have "int (2 ^ bits - 1) = 2 ^ bits - 1" by (simp add: of_nat_diff)
  moreover have "nat (if int a + int b \<le> int m then int a + int b else int m) = min (a + b) m" for m
    by (simp add: min_def flip: of_nat_add)
  ultimately show ?thesis unfolding saturating_add_def Let_def by metis
qed

text \<open>\<open>Iterator::min_by_key\<close> keeps the first of several minima.\<close>

fun min_by_key :: "('a \<Rightarrow> nat) \<Rightarrow> 'a list \<Rightarrow> 'a option" where
  "min_by_key f [] = None"
| "min_by_key f (x # xs) =
     (case min_by_key f xs of None \<Rightarrow> Some x | Some y \<Rightarrow> if f x \<le> f y then Some x else Some y)"

definition worst :: "(lane_id, stuck_lane) fmap \<Rightarrow> (lane_id \<times> stuck_lane) option" where
  "worst m = min_by_key (\<lambda>e. s_position (snd e)) (sorted_list_of_fmap m)"

definition republish :: "effect_shared \<Rightarrow> effect_shared" where
  "republish s =
     (let s = s\<lparr>wedged_lanes := length (filter (\<lambda>e. fst e \<noteq> DRIVER_LANE) (sorted_list_of_fmap (stuck s))),
               pinning := (case worst (stuck s) of
                   None \<Rightarrow> None
                 | Some (lane, w) \<Rightarrow> if lane \<noteq> DRIVER_LANE then Some (lane, s_position w) else None)\<rparr>
      in case worst (stuck s) of
           Some (_, w) \<Rightarrow> s\<lparr>consecutive_failures := s_attempt w, last_error := Some (s_error w),
                            retry_at_ms := s_retry_at w\<rparr>
         | None \<Rightarrow> s\<lparr>consecutive_failures := 0, last_error := None, retry_at_ms := 0\<rparr>)"

definition lane_attempt :: "effect_shared \<Rightarrow> lane_id \<Rightarrow> nat" where
  "lane_attempt s lane = (case fmlookup (stuck s) lane of None \<Rightarrow> 0 | Some w \<Rightarrow> s_attempt w)"

definition record_stuck :: "effect_shared \<Rightarrow> nat \<Rightarrow> lane_id \<Rightarrow> nat \<Rightarrow> nat \<Rightarrow> string \<Rightarrow> nat \<Rightarrow> effect_shared" where
  "record_stuck s now lane position attempt message delay =
     republish (s\<lparr>stuck := fmupd lane
        \<lparr>s_position = position, s_attempt = attempt, s_error = message,
         s_retry_at = saturating_add 64 now delay\<rparr> (stuck s)\<rparr>)"

definition record_lane_failure ::
  "effect_shared \<Rightarrow> nat \<Rightarrow> lane_id \<Rightarrow> nat \<Rightarrow> string \<Rightarrow> nat \<Rightarrow> nat \<times> effect_shared" where
  "record_lane_failure s now lane position message delay =
     (let attempt = saturating_add 32 (lane_attempt s lane) 1
      in (attempt, record_stuck s now lane position attempt message delay))"

definition record_failure :: "effect_shared \<Rightarrow> nat \<Rightarrow> string \<Rightarrow> nat \<Rightarrow> effect_shared" where
  "record_failure s now message delay =
     (let attempt = saturating_add 32 (lane_attempt s DRIVER_LANE) 1
      in record_stuck s now DRIVER_LANE 0 attempt message delay)"

definition clear_lane :: "effect_shared \<Rightarrow> lane_id \<Rightarrow> effect_shared" where
  "clear_lane s lane =
     (if fmlookup (stuck s) lane \<noteq> None then republish (s\<lparr>stuck := fmdrop lane (stuck s)\<rparr>)
      else s)"

definition clear_failures :: "effect_shared \<Rightarrow> effect_shared" where
  "clear_failures s = clear_lane s DRIVER_LANE"

definition request_skip :: "effect_shared \<Rightarrow> nat \<Rightarrow> effect_shared" where
  "request_skip s position = s\<lparr>skips := insert position (skips s)\<rparr>"

definition skip_requested :: "effect_shared \<Rightarrow> nat \<Rightarrow> bool" where
  "skip_requested s position \<longleftrightarrow> position \<in> skips s"

definition forget_skips :: "effect_shared \<Rightarrow> nat \<Rightarrow> effect_shared" where
  "forget_skips s through = s\<lparr>skips := Set.filter (\<lambda>position. position > through) (skips s)\<rparr>"

definition last_error_of :: "effect_shared \<Rightarrow> string option" where
  "last_error_of s = (case blocked s of Some r \<Rightarrow> Some r | None \<Rightarrow> last_error s)"

record stuck_lane_view =
  v_lane :: lane_id
  v_position :: nat
  v_attempt :: nat
  v_error :: string
  v_retry_in :: nat

definition MAX_STUCK_LISTED :: nat where "MAX_STUCK_LISTED = 100"

definition stuck_lanes :: "effect_shared \<Rightarrow> nat \<Rightarrow> stuck_lane_view list \<times> nat" where
  "stuck_lanes s now =
     (let all = filter (\<lambda>e. fst e \<noteq> DRIVER_LANE) (sorted_list_of_fmap (stuck s));
          page = take MAX_STUCK_LISTED (sort_key (\<lambda>e. s_position (snd e)) all)
      in (map (\<lambda>(lane, w). \<lparr>v_lane = lane, v_position = s_position w, v_attempt = s_attempt w,
                 v_error = s_error w, v_retry_in = s_retry_at w - now\<rparr>) page, length all))"

definition retry_in_ms :: "effect_shared \<Rightarrow> nat \<Rightarrow> nat option" where
  "retry_in_ms s now = (if retry_at_ms s = 0 then None else Some (retry_at_ms s - now))"

definition state_word :: "effect_shared \<Rightarrow> nat \<Rightarrow> string" where
  "state_word s log_head =
     (if quarantined s then ''quarantined''
      else if blocked s \<noteq> None then ''blocked''
      else if consecutive_failures s > 0 then ''wedged''
      else if sh_position s < log_head then ''lagging''
      else ''healthy'')"

definition accepts_work :: "effect_shared \<Rightarrow> bool" where
  "accepts_work s \<longleftrightarrow> \<not> shutdown s \<and> \<not> quarantined s \<and> blocked s = None"

definition restore_quarantine :: "effect_shared \<Rightarrow> nat \<Rightarrow> string \<Rightarrow> effect_shared" where
  "restore_quarantine s position reason =
     s\<lparr>quarantined := True, sh_position := position, last_error := Some reason\<rparr>"

definition quarantine_shared :: "effect_shared \<Rightarrow> string \<Rightarrow> effect_shared" where
  "quarantine_shared s violation = s\<lparr>quarantined := True, last_error := Some violation\<rparr>"

definition record_terminal_skip :: "effect_shared \<Rightarrow> string \<Rightarrow> effect_shared" where
  "record_terminal_skip s message =
     s\<lparr>terminal_skips := terminal_skips s + 1, last_terminal_error := Some message\<rparr>"

definition block_effect :: "effect_shared \<Rightarrow> string \<Rightarrow> effect_shared" where
  "block_effect s reason = s\<lparr>blocked := Some reason\<rparr>"

definition stop_effect :: "effect_shared \<Rightarrow> effect_shared" where
  "stop_effect s = s\<lparr>shutdown := True\<rparr>"

subsection \<open>What runs over the failing lanes\<close>

lemma min_by_key_None [simp]: "min_by_key f xs = None \<longleftrightarrow> xs = []"
  by (induction xs) (auto split: option.splits)

lemma min_by_key_Some: "min_by_key f xs = Some x \<Longrightarrow> x \<in> set xs \<and> (\<forall>y \<in> set xs. f x \<le> f y)"
  by (induction xs arbitrary: x) (auto split: option.splits if_splits)

lemma sorted_fmap_Nil [simp]: "sorted_list_of_fmap m = [] \<longleftrightarrow> m = fmempty"
proof
  assume "sorted_list_of_fmap m = []"
  then have "fmlookup m = Map.empty" using sorted_fmap(2) [of m] by simp
  then show "m = fmempty" by (intro fmap_ext) simp
qed (simp add: sorted_list_of_fmap_def sorted_list_of_fset.rep_eq)

lemma worst_None [simp]: "worst m = None \<longleftrightarrow> m = fmempty"
  by (simp add: worst_def)

lemma empty_simps [simp]: "sorted_list_of_fmap fmempty = []" "worst fmempty = None"
  by (simp_all only: sorted_fmap_Nil worst_None)

lemma worst_Some:
  assumes "worst m = Some (l, w)"
  shows "fmlookup m l = Some w" and "fmlookup m l' = Some w' \<Longrightarrow> s_position w \<le> s_position w'"
  using min_by_key_Some [OF assms [unfolded worst_def]] by (auto simp: sorted_fmap(3))

text \<open>The published fields are those of the failing lanes.\<close>

definition derived :: "effect_shared \<Rightarrow> bool" where
  "derived s \<longleftrightarrow>
     wedged_lanes s = length (filter (\<lambda>e. fst e \<noteq> DRIVER_LANE) (sorted_list_of_fmap (stuck s))) \<and>
     (case worst (stuck s) of
        None \<Rightarrow> pinning s = None \<and> consecutive_failures s = 0 \<and> retry_at_ms s = 0
      | Some (l, w) \<Rightarrow> pinning s = (if l = DRIVER_LANE then None else Some (l, s_position w)) \<and>
          consecutive_failures s = s_attempt w \<and> retry_at_ms s = s_retry_at w \<and>
          (\<not> quarantined s \<longrightarrow> last_error s = Some (s_error w)))"

definition lanes_ok :: "(lane_id, stuck_lane) fmap \<Rightarrow> bool" where
  "lanes_ok m \<longleftrightarrow>
     (\<forall>l w. fmlookup m l = Some w \<longrightarrow>
        s_attempt w > 0 \<and> s_retry_at w > 0 \<and> (l = DRIVER_LANE \<longleftrightarrow> s_position w = 0)) \<and>
     (\<forall>l w l' w'. fmlookup m l = Some w \<and> fmlookup m l' = Some w' \<and> s_position w = s_position w' \<longrightarrow> l = l')"

inductive status_reach :: "effect_shared \<Rightarrow> bool" where
  fresh: "status_reach (new_shared resume)"
| fail: "status_reach s \<Longrightarrow> l \<noteq> DRIVER_LANE \<Longrightarrow> p > 0 \<Longrightarrow> d > 0 \<Longrightarrow>
    \<forall>l' w. fmlookup (stuck s) l' = Some w \<and> s_position w = p \<longrightarrow> l' = l \<Longrightarrow>
    status_reach (snd (record_lane_failure s now l p message d))"
| driver: "status_reach s \<Longrightarrow> d > 0 \<Longrightarrow> status_reach (record_failure s now message d)"
| clear: "status_reach s \<Longrightarrow> status_reach (clear_lane s l)"
| skip: "status_reach s \<Longrightarrow> status_reach (request_skip s p)"
| unskip: "status_reach s \<Longrightarrow> status_reach (s\<lparr>skips := S\<rparr>)"
| quarantine: "status_reach s \<Longrightarrow> status_reach (quarantine_shared s reason)"
| terminal: "status_reach s \<Longrightarrow> status_reach (record_terminal_skip s message)"
| block: "status_reach s \<Longrightarrow> status_reach (block_effect s reason)"
| stop: "status_reach s \<Longrightarrow> status_reach (stop_effect s)"
| mark: "status_reach s \<Longrightarrow> status_reach (s\<lparr>sh_position := p\<rparr>)"

lemma derived_republish: "derived (republish s)"
  by (auto simp: derived_def republish_def Let_def split: option.splits)

lemma stuck_republish [simp]: "stuck (republish s) = stuck s"
  by (simp add: republish_def Let_def split: option.splits)

lemma saturating_add_pos: "b > 0 \<Longrightarrow> bits > 0 \<Longrightarrow> saturating_add bits a b > 0"
proof -
  assume "b > 0" "bits > 0"
  then have "(1 :: nat) < 2 ^ bits" using one_less_power [of "2 :: nat" bits] by simp
  then show ?thesis using \<open>b > 0\<close> by (simp add: saturating_add_def min_def)
qed

lemma lanes_ok_upd:
  assumes "lanes_ok m" and "s_attempt w > 0" and "s_retry_at w > 0" and "l = DRIVER_LANE \<longleftrightarrow> s_position w = 0"
    and "\<And>l' w'. fmlookup m l' = Some w' \<Longrightarrow> s_position w' = s_position w \<Longrightarrow> l' = l"
  shows "lanes_ok (fmupd l w m)"
proof -
  have each: "0 < s_attempt v \<and> 0 < s_retry_at v \<and> (k = DRIVER_LANE \<longleftrightarrow> s_position v = 0)"
    if "fmlookup (fmupd l w m) k = Some v" for k v
    using that assms unfolding lanes_ok_def by (cases "k = l") auto
  have one: "k = k'" if "fmlookup (fmupd l w m) k = Some v" "fmlookup (fmupd l w m) k' = Some v'"
    "s_position v = s_position v'" for k v k' v'
  proof (cases "k = l"; cases "k' = l")
    assume "k = l" "k' \<noteq> l"
    then show ?thesis using that assms(5) [of k' v'] by simp
  next
    assume "k \<noteq> l" "k' = l"
    then show ?thesis using that assms(5) [of k v] by simp
  next
    assume "k \<noteq> l" "k' \<noteq> l"
    then have "fmlookup m k = Some v" "fmlookup m k' = Some v'" using that by simp_all
    then show ?thesis using assms(1) that(3) unfolding lanes_ok_def by blast
  qed simp
  show ?thesis unfolding lanes_ok_def using each one by blast
qed

lemma lanes_ok_drop: "lanes_ok m \<Longrightarrow> lanes_ok (fmdrop l m)"
  unfolding lanes_ok_def by (auto split: if_splits)

lemma status_inv: "status_reach s \<Longrightarrow> derived s \<and> lanes_ok (stuck s)"
proof (induction rule: status_reach.induct)
  case (fresh resume)
  show ?case by (simp add: new_shared_def derived_def lanes_ok_def)
next
  case (fail s l p d now message)
  have "lanes_ok (fmupd l \<lparr>s_position = p, s_attempt = saturating_add 32 (lane_attempt s l) 1, s_error = message,
      s_retry_at = saturating_add 64 now d\<rparr> (stuck s))"
    using fail by (intro lanes_ok_upd) (auto simp: saturating_add_pos)
  then show ?case by (simp add: record_lane_failure_def record_stuck_def derived_republish Let_def)
next
  case (driver s d now message)
  have "l' = DRIVER_LANE" if "fmlookup (stuck s) l' = Some w'" "s_position w' = 0" for l' w'
    using that driver.IH unfolding lanes_ok_def by blast
  then have "lanes_ok (fmupd DRIVER_LANE \<lparr>s_position = 0, s_attempt = saturating_add 32 (lane_attempt s DRIVER_LANE) 1,
      s_error = message, s_retry_at = saturating_add 64 now d\<rparr> (stuck s))"
    using driver by (intro lanes_ok_upd) (auto simp: saturating_add_pos)
  then show ?case by (simp add: record_failure_def record_stuck_def derived_republish Let_def)
next
  case (clear s l)
  then show ?case by (simp add: clear_lane_def derived_republish lanes_ok_drop)
qed (auto simp: request_skip_def quarantine_shared_def record_terminal_skip_def block_effect_def stop_effect_def
    derived_def split: option.splits)

text \<open>The head of the listing is the lane the published fields describe.\<close>

lemma hd_sort_key:
  assumes "xs \<noteq> []"
  shows "hd (sort_key f xs) \<in> set xs \<and> (\<forall>y \<in> set xs. f (hd (sort_key f xs)) \<le> f y)"
proof -
  obtain y ys where s: "sort_key f xs = y # ys"
    using assms by (metis length_0_conv length_sort neq_Nil_conv)
  have "sorted (map f (y # ys))" using sorted_sort_key [of f xs] s by simp
  moreover have "set xs = set (y # ys)" using set_sort [of f xs] s by metis
  ultimately show ?thesis unfolding s by simp
qed

lemma stuck_lanes_head:
  assumes ok: "lanes_ok (stuck s)" and w: "worst (stuck s) = Some (l, w)" and l: "l \<noteq> DRIVER_LANE"
  shows "fst (stuck_lanes s now) \<noteq> [] \<and> v_lane (hd (fst (stuck_lanes s now))) = l \<and>
    v_position (hd (fst (stuck_lanes s now))) = s_position w"
proof -
  define all where "all = filter (\<lambda>e. fst e \<noteq> DRIVER_LANE) (sorted_list_of_fmap (stuck s))"
  note W = worst_Some [OF w]
  have mem: "(l, w) \<in> set all" using W(1) l by (simp add: all_def sorted_fmap(3))
  then have ne: "all \<noteq> []" by auto
  obtain l' w' where h: "hd (sort_key (\<lambda>e. s_position (snd e)) all) = (l', w')" by fastforce
  have "(l', w') \<in> set all" and le: "s_position w' \<le> s_position w"
    using hd_sort_key [OF ne, of "\<lambda>e. s_position (snd e)"] mem unfolding h by auto
  then have l': "fmlookup (stuck s) l' = Some w'" by (auto simp: all_def sorted_fmap(3))
  have "s_position w' = s_position w" using W(2) [OF l'] le by simp
  then have "l' = l" using ok l' W(1) unfolding lanes_ok_def by blast
  then have hd: "hd (sort_key (\<lambda>e. s_position (snd e)) all) = (l, w)" using h l' W(1) by simp
  obtain ys where "sort_key (\<lambda>e. s_position (snd e)) all = (l, w) # ys"
    using ne hd by (metis length_0_conv length_sort list.collapse)
  then show ?thesis
    by (simp add: stuck_lanes_def Let_def MAX_STUCK_LISTED_def all_def [symmetric])
qed

text \<open>
  C14: one lane is described.  Whatever lanes fail, recover and are cleared, the effect reads as not
  failing exactly when no lane is recorded as stuck, it counts every stuck lane but the driver's own
  entry, and the lane it names as pinning is the head of the listing: a lane stuck at the lowest
  position of all, whose attempts, deadline and (short of a quarantine) message are the ones shown.
\<close>

theorem status_describes_pinning_lane:
  assumes "status_reach s"
  shows "(consecutive_failures s = 0 \<longleftrightarrow> stuck s = fmempty) \<and>
    (retry_in_ms s now = None \<longleftrightarrow> stuck s = fmempty) \<and>
    wedged_lanes s = snd (stuck_lanes s now) \<and>
    (pinning s = None \<longleftrightarrow> stuck s = fmempty \<or> fmlookup (stuck s) DRIVER_LANE \<noteq> None) \<and>
    (\<forall>l p. pinning s = Some (l, p) \<longrightarrow>
      (\<exists>w. fmlookup (stuck s) l = Some w \<and> s_position w = p \<and> consecutive_failures s = s_attempt w \<and>
         retry_at_ms s = s_retry_at w \<and> (\<not> quarantined s \<longrightarrow> last_error s = Some (s_error w))) \<and>
      (\<forall>l' w'. fmlookup (stuck s) l' = Some w' \<longrightarrow> p \<le> s_position w') \<and>
      fst (stuck_lanes s now) \<noteq> [] \<and> v_lane (hd (fst (stuck_lanes s now))) = l \<and>
      v_position (hd (fst (stuck_lanes s now))) = p)"
proof -
  have D: "derived s" and ok: "lanes_ok (stuck s)" using status_inv [OF assms] by auto
  have total: "wedged_lanes s = snd (stuck_lanes s now)"
    using D by (simp add: derived_def stuck_lanes_def Let_def)
  show ?thesis
  proof (cases "worst (stuck s)")
    case None
    then show ?thesis using D total by (auto simp: derived_def retry_in_ms_def)
  next
    case (Some e)
    then obtain l w where e: "worst (stuck s) = Some (l, w)" by (cases e) auto
    note W = worst_Some [OF e]
    have pos: "s_attempt w > 0" "s_retry_at w > 0" "l = DRIVER_LANE \<longleftrightarrow> s_position w = 0"
      using ok W(1) unfolding lanes_ok_def by blast+
    have "l = DRIVER_LANE" if "fmlookup (stuck s) DRIVER_LANE = Some v" for v
      using W(2) [OF that] ok that pos(3) unfolding lanes_ok_def by fastforce
    then have "fmlookup (stuck s) DRIVER_LANE \<noteq> None \<longleftrightarrow> l = DRIVER_LANE" using W(1) by auto
    moreover have "stuck s \<noteq> fmempty" using W(1) by auto
    ultimately show ?thesis
      using D total pos W e stuck_lanes_head [OF ok e, of now]
      by (auto simp: derived_def retry_in_ms_def split: if_splits)
  qed
qed

lemma quarantine_reason_lost:
  "let s = clear_lane (quarantine_shared (snd (record_lane_failure (new_shared 0) 10 ''i:1'' 5 ''timeout'' 200)) ''broken'') ''i:1''
   in quarantined s \<and> last_error_of s = None"
  by code_simp

theorem status_pinning_witness:
  "\<exists>s. status_reach s \<and> consecutive_failures s = 2 \<and> stuck s \<noteq> fmempty"
proof -
  define s1 where "s1 = snd (record_lane_failure (new_shared 0) 10 ''i:1'' 5 ''timeout'' 200)"
  define s2 where "s2 = snd (record_lane_failure s1 300 ''i:1'' 5 ''timeout'' 400)"
  have d: "''i:1'' \<noteq> DRIVER_LANE" by (simp add: DRIVER_LANE_def)
  have "status_reach s1" unfolding s1_def
    by (rule status_reach.fail [OF status_reach.fresh d]) (simp_all add: new_shared_def)
  moreover have "stuck s1 = fmupd ''i:1'' \<lparr>s_position = 5, s_attempt = 1, s_error = ''timeout'', s_retry_at = 210\<rparr> fmempty"
    by (simp add: s1_def record_lane_failure_def record_stuck_def new_shared_def lane_attempt_def saturating_add_def)
  ultimately have r: "status_reach s2" unfolding s2_def
    by (intro status_reach.fail) (auto simp: d split: if_splits)
  have "consecutive_failures s2 = 2" unfolding s2_def s1_def by code_simp
  then show ?thesis using status_describes_pinning_lane [OF r, of 0] r by (metis zero_neq_numeral)
qed

end
