(* ===== verification/Effect_Retry.thy ===== *)
theory Effect_Retry
  imports Effect_Status
begin

section \<open>How long an effect waits (src/effect.rs)\<close>

text \<open>
  The delays between attempts, in milliseconds: the doubling backoff of a failing lane, what a
  server's \<open>Retry-After\<close> does to it, the ladder of the supervisor, and how long an idle reader
  sleeps.  \<open>Duration\<close>'s saturating multiplication cannot saturate here and is written as one.
\<close>

definition IDLE_POLL :: nat where "IDLE_POLL = 250"
definition BACKOFF_CAP :: nat where "BACKOFF_CAP = 60000"
definition BACKOFF_BASE :: nat where "BACKOFF_BASE = 200"
definition RETRY_AFTER_CAP :: nat where "RETRY_AFTER_CAP = 300000"

definition backoff :: "nat \<Rightarrow> nat" where
  "backoff attempt = min (BACKOFF_BASE * 2 ^ min attempt 10) BACKOFF_CAP"

definition retry_delay :: "nat \<Rightarrow> nat option \<Rightarrow> nat" where
  "retry_delay attempt retry_after =
     (case retry_after of
        Some after \<Rightarrow> max (backoff attempt) (min after RETRY_AFTER_CAP)
      | None \<Rightarrow> backoff attempt)"

definition next_backoff :: "nat \<Rightarrow> bool \<Rightarrow> nat \<times> nat" where
  "next_backoff attempt recovered =
     (let attempt = (if recovered then 0 else attempt)
      in (backoff attempt, saturating_add 32 attempt 1))"

definition idle_for :: "lane_state \<Rightarrow> nat \<Rightarrow> nat" where
  "idle_for st now =
     (case next_deadline st of
        Some due \<Rightarrow> min (max (due - now) 10) IDLE_POLL
      | None \<Rightarrow> IDLE_POLL)"

text \<open>
  \<open>sleep_watching\<close>: ticks of at most 100 ms until the whole wait is over, cut short at the first tick
  that finds the shutdown flag set.  \<open>flag i\<close> is what the \<open>i\<close>-th look at the flag sees; the answer
  is paired with the time slept.
\<close>

function sleep_ticks :: "(nat \<Rightarrow> bool) \<Rightarrow> nat \<Rightarrow> nat \<Rightarrow> nat \<Rightarrow> nat \<Rightarrow> bool \<times> nat" where
  "sleep_ticks flag i whole waited slept =
     (if waited < whole then
        if flag i then (True, slept)
        else sleep_ticks flag (i + 1) whole (waited + 100) (slept + min 100 (whole - waited))
      else (flag i, slept))"
  by pat_completeness auto
termination by (relation "measure (\<lambda>(_, _, whole, waited, _). whole - waited)") auto

declare sleep_ticks.simps [simp del]

definition sleep_watching :: "(nat \<Rightarrow> bool) \<Rightarrow> nat \<Rightarrow> bool \<times> nat" where
  "sleep_watching flag whole = sleep_ticks flag 0 whole 0 0"

text \<open>
  \<open>supervise\<close>, over what each run of the driver comes to: whether it got back on the log, and how it
  ended.  A list of runs that is used up leaves the loop in its next run.
\<close>

datatype drive = Clean bool | Failed bool string bool bool

record supervised =
  sv_attempt :: nat
  sv_shared :: effect_shared
  sv_stopped :: bool
  sv_delays :: "nat list"

text \<open>\<open>Failed recovered message shut halted\<close>: the run reported recovery or not and failed with \<open>message\<close>;
  \<open>shut\<close> and \<open>halted\<close> are the shutdown flag before the wait and what the wait answered.\<close>

fun supervise :: "nat \<Rightarrow> drive list \<Rightarrow> supervised \<Rightarrow> supervised" where
  "supervise now [] s = s"
| "supervise now (Clean recovered # ds) s =
     (let sh = (if recovered then clear_failures (sv_shared s) else sv_shared s)
      in s\<lparr>sv_shared := sh, sv_stopped := True\<rparr>)"
| "supervise now (Failed recovered message shut halted # ds) s =
     (let sh = (if recovered then clear_failures (sv_shared s) else sv_shared s)
      in if shut then s\<lparr>sv_shared := sh, sv_stopped := True\<rparr>
         else
           let (delay, next) = next_backoff (sv_attempt s) recovered;
               s = s\<lparr>sv_shared := record_failure sh now (''driver: '' @ message) delay,
                     sv_delays := sv_delays s @ [delay]\<rparr>
           in if halted then s\<lparr>sv_stopped := True\<rparr>
              else supervise now ds (s\<lparr>sv_attempt := next\<rparr>))"

subsection \<open>Bounds\<close>

lemma backoff_mono: "m \<le> n \<Longrightarrow> backoff m \<le> backoff n"
  unfolding backoff_def by (intro min.mono mult_le_mono order_refl power_increasing) auto

lemma backoff_bounds: "BACKOFF_BASE \<le> backoff n \<and> backoff n \<le> BACKOFF_CAP"
  using backoff_mono [of 0 n] by (simp add: backoff_def BACKOFF_BASE_def BACKOFF_CAP_def)

lemma backoff_doubles:
  assumes "n < 8"
  shows "backoff (Suc n) = 2 * backoff n"
proof -
  have "(2 :: nat) ^ Suc n \<le> 2 ^ 8" using assms by (intro power_increasing) auto
  then show ?thesis using assms by (simp add: backoff_def BACKOFF_BASE_def BACKOFF_CAP_def)
qed

lemma backoff_settles:
  assumes "9 \<le> n"
  shows "backoff n = BACKOFF_CAP"
proof -
  have "(2 :: nat) ^ 9 \<le> 2 ^ min n 10" using assms by (intro power_increasing) auto
  then show ?thesis by (simp add: backoff_def BACKOFF_BASE_def BACKOFF_CAP_def)
qed

text \<open>The ladder of the supervisor: a run of failures with no recovery in it.\<close>

fun failing :: "drive \<Rightarrow> bool" where
  "failing (Failed recovered message shut halted) = (\<not> recovered \<and> \<not> shut \<and> \<not> halted)"
| "failing (Clean _) = False"

lemma saturating_Suc: "n < 2 ^ 32 - 1 \<Longrightarrow> saturating_add 32 n 1 = Suc n"
  by (simp add: saturating_add_def)

lemma supervise_ladder:
  "list_all failing ds \<Longrightarrow> sv_attempt s + length ds < 2 ^ 32 \<Longrightarrow>
    sv_delays (supervise now ds s) = sv_delays s @ map (\<lambda>i. backoff (sv_attempt s + i)) [0..<length ds] \<and>
    sv_attempt (supervise now ds s) = sv_attempt s + length ds \<and>
    sv_stopped (supervise now ds s) = sv_stopped s"
proof (induction ds arbitrary: s)
  case (Cons d ds)
  obtain message where d: "d = Failed False message False False"
    using Cons.prems(1) by (cases d) auto
  have n: "saturating_add 32 (sv_attempt s) 1 = Suc (sv_attempt s)"
    using Cons.prems(2) by (intro saturating_Suc) simp
  have "map (\<lambda>i. backoff (sv_attempt s + i)) [0..<length (d # ds)] =
      backoff (sv_attempt s) # map (\<lambda>i. backoff (Suc (sv_attempt s) + i)) [0..<length ds]"
    by (simp add: upt_conv_Cons map_Suc_upt [symmetric] comp_def del: upt_Suc map_Suc_upt)
  then show ?case
    using Cons.prems Cons.IH by (simp add: d next_backoff_def n [simplified] Let_def)
qed simp

lemma sleep_ticks_bound:
  "sleep_ticks flag i whole waited slept = (b, n) \<Longrightarrow>
    n \<le> slept + (whole - waited) \<and> (\<not> b \<longrightarrow> n = slept + (whole - waited))"
proof (induction flag i whole waited slept rule: sleep_ticks.induct)
  case (1 flag i whole waited slept)
  show ?case
  proof (cases "waited < whole \<and> \<not> flag i")
    case True
    with 1 show ?thesis by (auto simp: sleep_ticks.simps [of _ i] min_def split: if_splits)
  next
    case False
    with 1(2) show ?thesis by (auto simp: sleep_ticks.simps [of _ i] split: if_splits)
  qed
qed

text \<open>
  C15: the waits.  A failing lane waits at least the base and at most the cap, doubling from one
  attempt to the next until the cap, which every attempt from the ninth on waits; a server's
  \<open>Retry-After\<close> can lengthen a wait, up to its own cap, and never shortens one; an idle reader sleeps
  between 10 and 250 ms; and a supervisor whose runs keep failing climbs the same ladder.
\<close>

theorem waits_are_bounded:
  assumes "n + length ds < 2 ^ 32" and "list_all failing ds"
  shows "BACKOFF_BASE \<le> backoff n \<and> backoff n \<le> BACKOFF_CAP \<and>
    (n < 8 \<longrightarrow> backoff (Suc n) = 2 * backoff n) \<and> (9 \<le> n \<longrightarrow> backoff n = BACKOFF_CAP) \<and>
    backoff n \<le> retry_delay n after \<and> retry_delay n after \<le> RETRY_AFTER_CAP \<and>
    (\<forall>a. after = Some a \<and> a \<le> RETRY_AFTER_CAP \<longrightarrow> a \<le> retry_delay n after) \<and>
    10 \<le> idle_for st now \<and> idle_for st now \<le> IDLE_POLL \<and>
    sv_delays (supervise now ds \<lparr>sv_attempt = n, sv_shared = sh, sv_stopped = False, sv_delays = []\<rparr>) =
      map (\<lambda>i. backoff (n + i)) [0..<length ds]"
proof -
  have "backoff n \<le> retry_delay n after \<and> retry_delay n after \<le> RETRY_AFTER_CAP \<and>
      (\<forall>a. after = Some a \<and> a \<le> RETRY_AFTER_CAP \<longrightarrow> a \<le> retry_delay n after)"
    using backoff_bounds [of n] by (auto simp: retry_delay_def BACKOFF_CAP_def RETRY_AFTER_CAP_def split: option.splits)
  moreover have "10 \<le> idle_for st now \<and> idle_for st now \<le> IDLE_POLL"
    by (auto simp: idle_for_def IDLE_POLL_def split: option.splits)
  moreover have "sv_delays (supervise now ds \<lparr>sv_attempt = n, sv_shared = sh, sv_stopped = False, sv_delays = []\<rparr>) =
      map (\<lambda>i. backoff (n + i)) [0..<length ds]"
    using supervise_ladder [OF assms(2), of "\<lparr>sv_attempt = n, sv_shared = sh, sv_stopped = False, sv_delays = []\<rparr>" now]
      assms(1) by simp
  ultimately show ?thesis using backoff_bounds backoff_doubles backoff_settles by blast
qed

theorem waits_witness:
  "sv_delays (supervise 0 [Failed False ''io'' False False, Failed False ''io'' False False]
     \<lparr>sv_attempt = 0, sv_shared = new_shared 0, sv_stopped = False, sv_delays = []\<rparr>) = [200, 400]"
proof -
  have "list_all failing [Failed False ''io'' False False, Failed False ''io'' False False]" by simp
  from waits_are_bounded [OF _ this, of 0] show ?thesis
    by (simp add: backoff_def BACKOFF_BASE_def BACKOFF_CAP_def upt_conv_Cons)
qed

end
