(* ===== verification/Effect_Attempt.thy ===== *)
theory Effect_Attempt
  imports Effect_Retry Opdb_Ledger
begin

section \<open>One attempt at one position, and a worker's run over a lane (src/effect.rs)\<close>

text \<open>
  \<open>attempt\<close>, \<open>attempt_caught\<close> and \<open>run_lane\<close> over the operational database, the published state and
  the lane scheduler.  What an attempt meets on the way is its \<open>attempt_env\<close>: what each database
  call comes to (done, lost, or done with its answer lost), what the heklang interpreter and the verify
  replay answer, and the clock.  The interpreter touches these tables through the invocation's journal
  only, so it answers with the rows it recorded; the log read behind \<open>trigger_context\<close> and the
  decoding of an envelope are parameters too.
\<close>

datatype fault = Fine | Lost | Unheard

datatype hek = Hek_Done | Hek_Ignored | Hek_Failed string | Hek_Skipped string

record interp =
  ip_outcome :: "string + hek"
  ip_retry_after :: "nat option"
  ip_transport :: "string option"

type_synonym recorded_call = "string \<times> nat \<times> string \<times> string"
type_synonym payload = "string option"

record attempt_env =
  ae_now :: nat
  ae_time :: string
  ae_begin :: fault
  ae_write :: fault
  ae_quarantine :: fault
  ae_row :: fault
  ae_error :: string
  ae_trigger :: "string + string \<times> string"
  ae_interpret :: "opdb \<Rightarrow> (payload + interp) \<times> recorded_call list"
  ae_verify :: bool
  ae_replay :: "opdb \<Rightarrow> payload + string option"
  ae_stopping :: bool

record effect_ctx =
  ec_name :: string
  ec_hash :: string

datatype step = Done | Defer nat | Stop

record invocation_failure =
  if_message :: string
  if_terminal :: bool
  if_retry_after :: "nat option"

subsection \<open>Reading the trigger and running the handler\<close>

text \<open>\<open>next\<close> is the store's read of one event after a position; \<open>decode\<close> the envelope of its data.\<close>

definition trigger_context ::
  "(nat \<Rightarrow> (string + nat \<times> bytes) option) \<Rightarrow> (bytes \<Rightarrow> string + string \<times> string) \<Rightarrow> nat \<Rightarrow> string + string \<times> string" where
  "trigger_context next decode position =
     (case next (position - 1) of
        None \<Rightarrow> Inl (''no event at position '' @ nat_str position)
      | Some (Inl err) \<Rightarrow> Inl (''reading the triggering event: '' @ err)
      | Some (Inr (at, data)) \<Rightarrow>
          if at \<noteq> position then Inl (''no event at position '' @ nat_str position)
          else (case decode data of
                  Inl err \<Rightarrow> Inl (''decoding the triggering event: '' @ err)
                | Inr ids \<Rightarrow> Inr ids))"

definition try_invocation :: "attempt_env \<Rightarrow> opdb \<Rightarrow> (payload + invocation_failure option) \<times> recorded_call list" where
  "try_invocation env db =
     (case ae_trigger env of
        Inl why \<Rightarrow> (Inr (Some \<lparr>if_message = why, if_terminal = False, if_retry_after = None\<rparr>), [])
      | Inr _ \<Rightarrow>
         (case ae_interpret env db of
            (Inl panic, calls) \<Rightarrow> (Inl panic, calls)
          | (Inr out, calls) \<Rightarrow>
              (Inr (case ip_outcome out of
                 Inr Hek_Done \<Rightarrow> None
               | Inr Hek_Ignored \<Rightarrow> None
               | Inr (Hek_Failed message) \<Rightarrow>
                   Some \<lparr>if_message = message, if_terminal = True, if_retry_after = ip_retry_after out\<rparr>
               | Inr (Hek_Skipped message) \<Rightarrow>
                   Some \<lparr>if_message = message, if_terminal = True, if_retry_after = ip_retry_after out\<rparr>
               | Inl err \<Rightarrow>
                   Some \<lparr>if_message = (case ip_transport out of
                             Some reason \<Rightarrow> err @ '' ('' @ reason @ '')''
                           | None \<Rightarrow> err),
                         if_terminal = False, if_retry_after = ip_retry_after out\<rparr>), calls)))"

definition put_calls :: "string \<Rightarrow> nat \<Rightarrow> string \<Rightarrow> recorded_call list \<Rightarrow> opdb \<Rightarrow> opdb" where
  "put_calls effect position now calls db =
     fold (\<lambda>(call, ordinal, kind, result). apply_op (Put effect position call ordinal kind result now)) calls db"

subsection \<open>Failing\<close>

definition db_write :: "fault \<Rightarrow> string \<Rightarrow> (opdb \<Rightarrow> opdb) \<Rightarrow> opdb \<Rightarrow> (string + unit) \<times> opdb" where
  "db_write f err write db =
     (case f of Fine \<Rightarrow> (Inr (), write db) | Lost \<Rightarrow> (Inl err, db) | Unheard \<Rightarrow> (Inl err, write db))"

definition defer_step :: "effect_shared \<Rightarrow> nat \<Rightarrow> lane_id \<Rightarrow> nat \<Rightarrow> nat \<Rightarrow> string \<Rightarrow> nat option \<Rightarrow> step \<times> effect_shared" where
  "defer_step sh now lane position tried message retry_after =
     (let delay = retry_delay tried retry_after;
          (_, sh) = record_lane_failure sh now lane position message delay
      in (Defer delay, sh))"

definition honor_skip ::
  "effect_shared \<Rightarrow> lane_id \<Rightarrow> nat \<Rightarrow> (opdb \<Rightarrow> (string + unit) \<times> opdb) \<Rightarrow> opdb \<Rightarrow> (string + unit) \<times> effect_shared \<times> opdb" where
  "honor_skip sh lane position finish db =
     (case finish db of
        (Inl err, db) \<Rightarrow> (Inl err, sh, db)
      | (Inr _, db) \<Rightarrow> (Inr (), clear_lane (sh\<lparr>skips := skips sh - {position}\<rparr>) lane, db))"

subsection \<open>The attempt\<close>

type_synonym attempted = "(payload + step) \<times> effect_shared \<times> opdb"

definition deferred_step :: "step \<times> effect_shared \<Rightarrow> opdb \<Rightarrow> attempted" where
  "deferred_step r db = (Inr (fst r), snd r, db)"

definition finish_live :: "effect_ctx \<Rightarrow> attempt_env \<Rightarrow> lane_id \<Rightarrow> work \<Rightarrow> nat \<Rightarrow> effect_shared \<Rightarrow> opdb \<Rightarrow> attempted" where
  "finish_live ctx env lane w tried sh db =
     (case db_write (ae_write env) (ae_error env)
             (\<lambda>db. complete_invocation db (ec_name ctx) (w_position w) (ae_time env) (collapsed_from w)) db of
        (Inl err, db) \<Rightarrow> deferred_step (defer_step sh (ae_now env) lane (w_position w) tried err None) db
      | (Inr _, db) \<Rightarrow>
         (let sh = clear_lane sh lane in
          if ae_verify env then
            (case ae_replay env db of
               Inl panic \<Rightarrow> (Inl panic, sh, db)
             | Inr None \<Rightarrow> (Inr Done, sh, db)
             | Inr (Some violation) \<Rightarrow>
                 (let (_, db) = db_write (ae_quarantine env) (ae_error env)
                          (\<lambda>db. quarantine_effect db (ec_name ctx) (w_position w) violation) db
                  in (Inr Stop, quarantine_shared sh violation, db)))
          else (Inr Done, sh, db)))"

definition finish_terminal ::
  "effect_ctx \<Rightarrow> attempt_env \<Rightarrow> lane_id \<Rightarrow> work \<Rightarrow> nat \<Rightarrow> string \<Rightarrow> effect_shared \<Rightarrow> opdb \<Rightarrow> attempted" where
  "finish_terminal ctx env lane w tried message sh db =
     (case db_write (ae_write env) (ae_error env)
             (\<lambda>db. complete_invocation db (ec_name ctx) (w_position w) (ae_time env) (collapsed_from w)) db of
        (Inl err, db) \<Rightarrow> deferred_step (defer_step sh (ae_now env) lane (w_position w) tried err None) db
      | (Inr _, db) \<Rightarrow> (Inr Done, clear_lane (record_terminal_skip sh message) lane, db))"

definition run_handler :: "effect_ctx \<Rightarrow> attempt_env \<Rightarrow> lane_id \<Rightarrow> work \<Rightarrow> nat \<Rightarrow> effect_shared \<Rightarrow> opdb \<Rightarrow> attempted" where
  "run_handler ctx env lane w tried sh db =
     (case try_invocation env db of
        (outcome, calls) \<Rightarrow>
         (let db = put_calls (ec_name ctx) (w_position w) (ae_time env) calls db
          in case outcome of
               Inl panic \<Rightarrow> (Inl panic, sh, db)
             | Inr None \<Rightarrow> finish_live ctx env lane w tried sh db
             | Inr (Some failure) \<Rightarrow>
                 if if_terminal failure then finish_terminal ctx env lane w tried (if_message failure) sh db
                 else deferred_step (defer_step sh (ae_now env) lane (w_position w) tried (if_message failure)
                        (if_retry_after failure)) db))"

definition attempt :: "effect_ctx \<Rightarrow> attempt_env \<Rightarrow> lane_id \<Rightarrow> work \<Rightarrow> effect_shared \<Rightarrow> opdb \<Rightarrow> attempted" where
  "attempt ctx env lane w sh db =
     (let tried = lane_attempt sh lane;
          reserve = (\<lambda>db. begin_invocation db (ec_name ctx) (w_position w) (ec_hash ctx) (ae_time env));
          (begun, db) = (case ae_begin env of
             Fine \<Rightarrow> (case reserve db of (Inl _, db) \<Rightarrow> (Inl (ae_error env), db) | (Inr s, db) \<Rightarrow> (Inr s, db))
           | Lost \<Rightarrow> (Inl (ae_error env), db)
           | Unheard \<Rightarrow> (Inl (ae_error env), snd (reserve db)))
      in case begun of
           Inl err \<Rightarrow> deferred_step (defer_step sh (ae_now env) lane (w_position w) tried err None) db
         | Inr AlreadyTerminal \<Rightarrow> (Inr Done, clear_lane sh lane, db)
         | Inr Run \<Rightarrow>
             if tried > 0 \<and> skip_requested sh (w_position w) then
               (case honor_skip sh lane (w_position w)
                       (db_write (ae_write env) (ae_error env)
                         (\<lambda>db. skip_invocation db (ec_name ctx) (w_position w) (ae_time env) (collapsed_from w))) db of
                  (Inr _, sh, db) \<Rightarrow> (Inr Done, sh, db)
                | (Inl err, sh, db) \<Rightarrow> deferred_step (defer_step sh (ae_now env) lane (w_position w) tried err None) db)
             else run_handler ctx env lane w tried sh db)"

definition panic_message :: "payload \<Rightarrow> string" where
  "panic_message said =
     (case said of
        Some text \<Rightarrow> ''the handler panicked: '' @ text
      | None \<Rightarrow> ''the handler panicked'')"

definition attempt_caught :: "effect_ctx \<Rightarrow> attempt_env \<Rightarrow> lane_id \<Rightarrow> work \<Rightarrow> effect_shared \<Rightarrow> opdb \<Rightarrow> step \<times> effect_shared \<times> opdb" where
  "attempt_caught ctx env lane w sh db =
     (case attempt ctx env lane w sh db of
        (Inr step, sh, db) \<Rightarrow> (step, sh, db)
      | (Inl panic, sh, db) \<Rightarrow>
          (let tried = lane_attempt sh lane;
               (step, sh) = defer_step sh (ae_now env) lane (w_position w) tried (panic_message panic) None
           in (step, sh, db)))"

subsection \<open>The run over a lane\<close>

definition runnable :: "attempt_env \<Rightarrow> effect_shared \<Rightarrow> bool" where
  "runnable env sh \<longleftrightarrow> \<not> ae_stopping env \<and> accepts_work sh"

definition record_lane_row ::
  "effect_ctx \<Rightarrow> attempt_env \<Rightarrow> lane_id \<Rightarrow> nat \<Rightarrow> lane_state \<Rightarrow> opdb \<Rightarrow> lane_state \<times> opdb" where
  "record_lane_row ctx env lane position ls db =
     (case db_write (ae_row env) (ae_error env) (\<lambda>db. record_effect_lane db (ec_name ctx) lane position) db of
        (Inr _, db) \<Rightarrow> (record_row ls lane position, db)
      | (Inl _, db) \<Rightarrow> (ls, db))"

text \<open>The body of the loop, run on the environment of its \<open>i\<close>-th turn.  The answer tells the positions
  retired, whether the lane was parked, and the turn it ended on.\<close>

record lane_run =
  lr_lanes :: lane_state
  lr_shared :: effect_shared
  lr_db :: opdb
  lr_retired :: "nat list"

lemma head_queue:
  assumes "head st lane = (Some w, st')"
  shows "queue st' = queue st \<and> (\<exists>g q. queue st lane = g # q \<and> hi g = w_position w)"
proof -
  obtain g q where g: "fmlookup (queues st) lane = Some (g # q)"
    using assms by (auto simp: head_def split: option.splits list.splits)
  have "st' = (if fmlookup (latest st) (lane, arm g) = Some (hi g)
      then st\<lparr>latest := fmdrop (lane, arm g) (latest st)\<rparr> else st)" and "hi g = w_position w"
    using assms by (auto simp: head_def g)
  then show ?thesis by (simp add: queue_def g)
qed

lemma queue_record_row [simp]: "queue (record_row st l p) = queue st"
  by (simp add: record_row_def Let_def)

lemma queue_shrinks:
  assumes "head st lane = (Some w, ls)" and "complete ls lane (w_position w) = (owed, ls')"
    and "(if owed then record_lane_row ctx env lane (w_position w) ls' db else (ls', db)) = (ls'', db')"
  shows "length (queue ls'' lane) < length (queue st lane)"
proof -
  from head_queue [OF assms(1)] obtain g q
    where g: "queue st lane = g # q" "queue ls = queue st" "hi g = w_position w" by blast
  then have "queue ls lane = g # q" by simp
  from queue_complete [OF this g(3)] have "queue ls' lane = q" using assms(2) by (metis fun_upd_same snd_conv)
  moreover have "queue ls'' = queue ls'" using assms(3)
    by (auto simp: record_lane_row_def db_write_def split: if_splits fault.splits)
  ultimately show ?thesis using g(1) by simp
qed

function lane_loop ::
  "effect_ctx \<Rightarrow> (nat \<Rightarrow> attempt_env) \<Rightarrow> lane_id \<Rightarrow> nat \<Rightarrow> lane_run \<Rightarrow> bool \<times> nat \<times> lane_run" where
  "lane_loop ctx env lane i s =
     (if \<not> runnable (env i) (lr_shared s) then (False, i, s)
      else case head (lr_lanes s) lane of
        (None, ls) \<Rightarrow> (False, i, s\<lparr>lr_lanes := ls\<rparr>)
      | (Some w, ls) \<Rightarrow>
         (case attempt_caught ctx (env i) lane w (lr_shared s) (lr_db s) of
            (Done, sh, db) \<Rightarrow>
              (case complete ls lane (w_position w) of
                 (owed, ls) \<Rightarrow>
                  (case (if owed then record_lane_row ctx (env i) lane (w_position w) ls db else (ls, db)) of
                     (ls, db) \<Rightarrow>
                      lane_loop ctx env lane (i + 1)
                        \<lparr>lr_lanes = ls, lr_shared = sh, lr_db = db, lr_retired = lr_retired s @ [w_position w]\<rparr>))
          | (Defer delay, sh, db) \<Rightarrow>
              (True, i, s\<lparr>lr_lanes := defer_lane ls lane (ae_now (env i) + delay), lr_shared := sh, lr_db := db\<rparr>)
          | (Stop, sh, db) \<Rightarrow> (False, i, s\<lparr>lr_lanes := ls, lr_shared := sh, lr_db := db\<rparr>)))"
  by pat_completeness auto

termination
proof (relation "measure (\<lambda>(ctx, env, lane, i, s). length (queue (lr_lanes s) lane))", goal_cases)
  case (2 ctx env lane i s ho ls w step rest sh db owed ls' ls'' db')
  from queue_shrinks [OF 2(2) [unfolded 2(3), symmetric] 2(7) [symmetric] 2(8) [symmetric]]
  show ?case by simp
qed simp

declare lane_loop.simps [simp del]

text \<open>\<open>run_lane\<close>: the answer tells whether the lane was offered to the pool again.\<close>

definition run_lane :: "effect_ctx \<Rightarrow> (nat \<Rightarrow> attempt_env) \<Rightarrow> lane_id \<Rightarrow> lane_run \<Rightarrow> bool \<times> lane_run" where
  "run_lane ctx env lane s =
     (case claim (lr_lanes s) lane of
        (False, ls) \<Rightarrow> (False, s\<lparr>lr_lanes := ls\<rparr>)
      | (True, ls) \<Rightarrow>
         (case lane_loop ctx env lane 0 (s\<lparr>lr_lanes := ls\<rparr>) of
            (parked, i, s) \<Rightarrow>
              if parked then (False, s)
              else (case release (lr_lanes s) lane of
                      (rearmed, ls) \<Rightarrow> (rearmed \<and> runnable (env (i + 1)) (lr_shared s), s\<lparr>lr_lanes := ls\<rparr>))))"

end
