(* ===== verification/Effect_Sound.thy ===== *)
theory Effect_Sound
  imports Effect_Attempt
begin

section \<open>What an attempt and a worker's run guarantee\<close>

text \<open>
  The soundness of \<open>attempt\<close> and \<open>run_lane\<close>: whatever the handler does, whatever the database calls
  come to and wherever a panic strikes, a position is retired only once the ledger says it is
  terminal, and a failure leaves its lane recorded and its position queued.
\<close>

definition finished :: "opdb \<Rightarrow> string \<Rightarrow> nat \<Rightarrow> bool" where
  "finished db e p \<longleftrightarrow>
     (case find_row inv_key (e, as_i64 p) (invocations db) of None \<Rightarrow> False | Some r \<Rightarrow> inv_status r = ''terminal'')"

definition reserved :: "opdb \<Rightarrow> string \<Rightarrow> nat \<Rightarrow> bool" where
  "reserved db e p \<longleftrightarrow> find_row inv_key (e, as_i64 p) (invocations db) \<noteq> None"

subsection \<open>The statements of one position\<close>

fun own_op :: "string \<Rightarrow> nat \<Rightarrow> db_op \<Rightarrow> bool" where
  "own_op e p (Begin e' p' _ _) \<longleftrightarrow> e' = e \<and> p' = p"
| "own_op e p (Complete e' p' _ _) \<longleftrightarrow> e' = e \<and> p' = p"
| "own_op e p (Skip e' p' _ _) \<longleftrightarrow> e' = e \<and> p' = p"
| "own_op e p (Put e' p' _ _ _ _ _) \<longleftrightarrow> e' = e \<and> p' = p"
| "own_op e p (Quarantine e' p' _) \<longleftrightarrow> e' = e \<and> p' = p"
| "own_op e p _ \<longleftrightarrow> False"

definition own_run :: "string \<Rightarrow> nat \<Rightarrow> opdb \<Rightarrow> opdb \<Rightarrow> bool" where
  "own_run e p db db' \<longleftrightarrow> (\<exists>ops. list_all (own_op e p) ops \<and> db' = fold apply_op ops db)"

lemma own_run_refl [intro, simp]: "own_run e p db db"
  unfolding own_run_def by (rule exI [of _ "[]"]) simp

lemma own_run_step: "own_op e p op \<Longrightarrow> own_run e p db (apply_op op db)"
  unfolding own_run_def by (rule exI [of _ "[op]"]) simp

lemma own_run_trans [trans]: "own_run e p db db' \<Longrightarrow> own_run e p db' db'' \<Longrightarrow> own_run e p db db''"
  unfolding own_run_def by (metis fold_append comp_apply list_all_append)

lemma own_run_put: "own_run e p db (put_calls e p now calls db)"
proof (induction calls arbitrary: db)
  case (Cons c calls)
  obtain call ordinal kind result where c: "c = (call, ordinal, kind, result)" by (cases c) auto
  have "own_run e p db (apply_op (Put e p call ordinal kind result now) db)" by (rule own_run_step) simp
  also have "own_run e p \<dots> (put_calls e p now calls (apply_op (Put e p call ordinal kind result now) db))"
    by (rule Cons.IH)
  finally show ?case by (simp add: put_calls_def c)
qed (simp add: put_calls_def)

lemma own_harmless: "own_op e p op \<Longrightarrow> harmless e' p' op"
  by (cases op) auto

lemma own_run_induct:
  assumes "own_run e p db db'" and "P db" and "\<And>db op. P db \<Longrightarrow> own_op e p op \<Longrightarrow> P (apply_op op db)"
  shows "P db'"
proof -
  obtain ops where ops: "list_all (own_op e p) ops" "db' = fold apply_op ops db"
    using assms(1) unfolding own_run_def by blast
  from ops(1) assms(2) show ?thesis unfolding ops(2)
    by (induction ops arbitrary: db) (auto simp: assms(3))
qed

text \<open>Seen through a key, a statement of a position makes a fresh row, marks a row terminal, or does
  nothing.\<close>

lemma find_own:
  assumes "own_op e p op"
  obtains (insert) r where "inv_key r = (e, as_i64 p)"
      "invocations (apply_op op db) = insert_ignore inv_key r (invocations db)"
  | (update) f where "\<And>r. inv_key (f r) = inv_key r" "\<And>r. inv_status (f r) = ''terminal''"
      "invocations (apply_op op db) = update_where (\<lambda>r. inv_key r = (e, as_i64 p)) f (invocations db)"
  | (same) "invocations (apply_op op db) = invocations db"
proof (cases op)
  case (Begin e' p' h now)
  then show ?thesis using assms by (intro insert) (auto simp: begin_db inv_key_def)
next
  case (Complete e' p' now c)
  show ?thesis by (rule update [of "\<lambda>r. r\<lparr>inv_status := ''terminal'', inv_completed := Some now,
      inv_collapsed := map_option as_i64 c\<rparr>"]) (use assms Complete in \<open>auto simp: complete_invocation_def\<close>)
next
  case (Skip e' p' now c)
  show ?thesis by (rule update [of "\<lambda>r. r\<lparr>inv_status := ''terminal'', inv_completed := Some now,
      inv_skipped := Some now, inv_collapsed := map_option as_i64 c\<rparr>"])
    (use assms Skip in \<open>auto simp: skip_invocation_def\<close>)
next
  case (Put e' p' c d kind res now)
  show ?thesis by (rule same) (auto simp: Put dest: journal_put_Inr(1) split: sum.split)
next
  case (Quarantine e' p' reason)
  then show ?thesis by (intro same) (simp add: quarantine_effect_def)
qed (use assms in simp_all)

lemma own_invocations:
  assumes "own_op e p op"
  shows "(reserved db e' p' \<longrightarrow> reserved (apply_op op db) e' p') \<and>
    (finished db e' p' \<longrightarrow> finished (apply_op op db) e' p')"
  using assms
proof (cases rule: find_own [where db = db])
  case (insert r)
  then show ?thesis by (auto simp: reserved_def finished_def find_row_insert split: option.splits)
next
  case (update f)
  then show ?thesis by (auto simp: reserved_def finished_def find_row_update split: option.splits)
next
  case same
  then show ?thesis by (simp add: reserved_def finished_def)
qed

lemma own_run_keeps:
  assumes "own_run e p db db'"
  shows "reserved db e' p' \<Longrightarrow> reserved db' e' p'" and "finished db e' p' \<Longrightarrow> finished db' e' p'"
    and "db_ok db \<Longrightarrow> db_ok db'"
  by (rule own_run_induct [OF assms]; simp add: own_invocations db_ok_apply)+

subsection \<open>An attempt\<close>

lemma db_write_Inr: "db_write f err wr db = (Inr u, db') \<Longrightarrow> db' = wr db"
  by (simp add: db_write_def split: fault.splits)

lemma db_write_cases: "db_write f err wr db = (r, db') \<Longrightarrow> db' = db \<or> db' = wr db"
  by (auto simp: db_write_def split: fault.splits)

lemma own_write:
  assumes "own_op e p op"
  shows "db_write f err (apply_op op) db = (r, db') \<Longrightarrow> own_run e p db db'"
  using db_write_cases [of f err "apply_op op" db r db'] own_run_step [OF assms] by auto

lemma finished_complete:
  "reserved db e p \<Longrightarrow> finished (apply_op (Complete e p now c) db) e p"
  "reserved db e p \<Longrightarrow> finished (apply_op (Skip e p now c) db) e p"
  by (auto simp: reserved_def finished_def complete_invocation_def skip_invocation_def find_row_update
      dest: find_row_SomeD)

lemma begin_reserves: "reserved (apply_op (Begin e p h now) db) e p"
  by (auto simp: reserved_def begin_db find_row_insert inv_key_def split: option.splits)

lemma stuck_clear [simp]: "fmlookup (stuck (clear_lane s l)) l = None"
  by (simp add: clear_lane_def)

definition failure_recorded :: "effect_shared \<Rightarrow> lane_id \<Rightarrow> nat \<Rightarrow> nat \<Rightarrow> bool" where
  "failure_recorded sh lane p tried \<longleftrightarrow>
     (\<exists>v. fmlookup (stuck sh) lane = Some v \<and> s_position v = p \<and> s_attempt v = saturating_add 32 tried 1)"

lemma defer_recorded:
  assumes "defer_step sh now lane p (lane_attempt sh lane) message after = (st, sh')"
  shows "\<exists>d. st = Defer d \<and> BACKOFF_BASE \<le> d \<and> d \<le> RETRY_AFTER_CAP"
    and "failure_recorded sh' lane p (lane_attempt sh lane)"
proof -
  have "BACKOFF_BASE \<le> retry_delay n after \<and> retry_delay n after \<le> RETRY_AFTER_CAP" for n
    using backoff_bounds [of n] by (auto simp: retry_delay_def BACKOFF_CAP_def RETRY_AFTER_CAP_def split: option.splits)
  then show "\<exists>d. st = Defer d \<and> BACKOFF_BASE \<le> d \<and> d \<le> RETRY_AFTER_CAP"
    using assms by (auto simp: defer_step_def Let_def split: prod.splits)
  show "failure_recorded sh' lane p (lane_attempt sh lane)"
    using assms by (auto simp: defer_step_def Let_def record_lane_failure_def record_stuck_def failure_recorded_def)
qed

text \<open>What one attempt leaves behind, panics included.\<close>

definition step_sound :: "string \<Rightarrow> nat \<Rightarrow> lane_id \<Rightarrow> nat \<Rightarrow> step \<Rightarrow> effect_shared \<Rightarrow> opdb \<Rightarrow> bool" where
  "step_sound e p lane tried st sh db \<longleftrightarrow>
     (case st of
        Done \<Rightarrow> finished db e p \<and> fmlookup (stuck sh) lane = None
      | Defer d \<Rightarrow> BACKOFF_BASE \<le> d \<and> d \<le> RETRY_AFTER_CAP \<and>
          (failure_recorded sh lane p tried \<or> failure_recorded sh lane p 0 \<and> finished db e p)
      | Stop \<Rightarrow> finished db e p \<and> quarantined sh)"

definition attempt_sound :: "string \<Rightarrow> nat \<Rightarrow> lane_id \<Rightarrow> effect_shared \<Rightarrow> opdb \<Rightarrow> attempted \<Rightarrow> bool" where
  "attempt_sound e p lane sh db r \<longleftrightarrow>
     (case r of (res, sh', db') \<Rightarrow>
        own_run e p db db' \<and>
        (case res of
           Inr st \<Rightarrow> step_sound e p lane (lane_attempt sh lane) st sh' db'
         | Inl _ \<Rightarrow> sh' = sh \<or> fmlookup (stuck sh') lane = None \<and> finished db' e p))"

lemma deferred_sound:
  assumes "own_run e p db0 db"
  shows "attempt_sound e p lane sh db0
    (deferred_step (defer_step sh now lane p (lane_attempt sh lane) message after) db)"
proof -
  obtain st sh' where d: "defer_step sh now lane p (lane_attempt sh lane) message after = (st, sh')" by fastforce
  from defer_recorded [OF d] assms show ?thesis
    by (auto simp: attempt_sound_def deferred_step_def d step_sound_def)
qed

lemma finish_live_sound:
  assumes "own_run (ec_name ctx) (w_position w) db0 db" and res: "reserved db (ec_name ctx) (w_position w)"
  shows "attempt_sound (ec_name ctx) (w_position w) lane sh db0 (finish_live ctx env lane w (lane_attempt sh lane) sh db)"
proof -
  let ?e = "ec_name ctx" and ?p = "w_position w"
  let ?wr = "apply_op (Complete ?e ?p (ae_time env) (collapsed_from w))"
  obtain r db1 where wr: "db_write (ae_write env) (ae_error env) ?wr db = (r, db1)" by fastforce
  have own1: "own_run ?e ?p db0 db1"
    using own_run_trans [OF assms(1) own_write [OF _ wr]] by simp
  have eq: "(\<lambda>db. complete_invocation db ?e ?p (ae_time env) (collapsed_from w)) = ?wr" by (rule ext) simp
  show ?thesis
  proof (cases r)
    case (Inl err)
    then show ?thesis using deferred_sound [OF own1] unfolding finish_live_def eq wr by simp
  next
    case (Inr u)
    have fin1: "finished db1 ?e ?p" using db_write_Inr [OF wr [unfolded Inr]] finished_complete(1) [OF res] by simp
    have plain_done: "attempt_sound ?e ?p lane sh db0 (Inr Done, clear_lane sh lane, db1)"
      using own1 fin1 by (simp add: attempt_sound_def step_sound_def)
    show ?thesis
    proof (cases "ae_verify env")
      case False
      then show ?thesis unfolding finish_live_def eq wr Inr using plain_done by simp
    next
      case True
      show ?thesis
      proof (cases "ae_replay env db1")
        case (Inl panic)
        then show ?thesis unfolding finish_live_def eq wr Inr
          using True own1 fin1 by (simp add: attempt_sound_def)
      next
        case (Inr v)
        show ?thesis
        proof (cases v)
          case None
          then show ?thesis unfolding finish_live_def eq wr \<open>r = Inr u\<close> using True Inr plain_done by simp
        next
          case (Some violation)
          obtain r2 db2 where q: "db_write (ae_quarantine env) (ae_error env) (apply_op (Quarantine ?e ?p violation)) db1 = (r2, db2)"
            by fastforce
          have own2: "own_run ?e ?p db1 db2" by (rule own_write [OF _ q]) simp
          then have "finished db2 ?e ?p" using fin1 own_run_keeps(2) by blast
          moreover have "own_run ?e ?p db0 db2" by (rule own_run_trans [OF own1 own2])
          moreover have "(\<lambda>db. quarantine_effect db ?e ?p violation) = apply_op (Quarantine ?e ?p violation)" by (rule ext) simp
          ultimately show ?thesis unfolding finish_live_def eq wr \<open>r = Inr u\<close>
            using True Inr Some q by (simp add: attempt_sound_def step_sound_def quarantine_shared_def)
        qed
      qed
    qed
  qed
qed

lemma finish_terminal_sound:
  assumes "own_run (ec_name ctx) (w_position w) db0 db" and res: "reserved db (ec_name ctx) (w_position w)"
  shows "attempt_sound (ec_name ctx) (w_position w) lane sh db0
    (finish_terminal ctx env lane w (lane_attempt sh lane) message sh db)"
proof -
  let ?e = "ec_name ctx" and ?p = "w_position w"
  let ?wr = "apply_op (Complete ?e ?p (ae_time env) (collapsed_from w))"
  obtain r db1 where wr: "db_write (ae_write env) (ae_error env) ?wr db = (r, db1)" by fastforce
  have own1: "own_run ?e ?p db0 db1"
    using own_run_trans [OF assms(1) own_write [OF _ wr]] by simp
  have eq: "(\<lambda>db. complete_invocation db ?e ?p (ae_time env) (collapsed_from w)) = ?wr" by (rule ext) simp
  show ?thesis
  proof (cases r)
    case (Inl err)
    then show ?thesis using deferred_sound [OF own1] unfolding finish_terminal_def eq wr by simp
  next
    case (Inr u)
    have "finished db1 ?e ?p" using db_write_Inr [OF wr [unfolded Inr]] finished_complete(1) [OF res] by simp
    then show ?thesis unfolding finish_terminal_def eq wr Inr
      using own1 by (simp add: attempt_sound_def step_sound_def)
  qed
qed

lemma run_handler_sound:
  assumes "own_run (ec_name ctx) (w_position w) db0 db" and res: "reserved db (ec_name ctx) (w_position w)"
  shows "attempt_sound (ec_name ctx) (w_position w) lane sh db0 (run_handler ctx env lane w (lane_attempt sh lane) sh db)"
proof -
  obtain outcome calls where t: "try_invocation env db = (outcome, calls)" by fastforce
  let ?db = "put_calls (ec_name ctx) (w_position w) (ae_time env) calls db"
  have own: "own_run (ec_name ctx) (w_position w) db0 ?db" by (rule own_run_trans [OF assms(1) own_run_put])
  have res': "reserved ?db (ec_name ctx) (w_position w)" by (rule own_run_keeps(1) [OF own_run_put res])
  show ?thesis
  proof (cases outcome)
    case (Inl panic)
    then show ?thesis using own by (simp add: run_handler_def t attempt_sound_def)
  next
    case (Inr failure)
    then show ?thesis
      using finish_live_sound [OF own res'] finish_terminal_sound [OF own res'] deferred_sound [OF own]
      by (cases failure) (simp_all add: run_handler_def t Let_def)
  qed
qed

lemma begin_reads: "begin_invocation db e p h now =
    (Inr (case find_row inv_key (e, as_i64 p) (invocations db) of
        None \<Rightarrow> Run | Some r \<Rightarrow> if inv_status r = ''terminal'' then AlreadyTerminal else Run),
     apply_op (Begin e p h now) db)"
  using begin_state [of db e p h now] unfolding apply_op.simps by (metis prod.collapse)

lemma attempt_is_sound:
  "attempt_sound (ec_name ctx) (w_position w) lane sh db (attempt ctx env lane w sh db)"
proof -
  let ?e = "ec_name ctx" and ?p = "w_position w"
  let ?db = "apply_op (Begin ?e ?p (ec_hash ctx) (ae_time env)) db"
  have own: "own_run ?e ?p db ?db" by (rule own_run_step) simp
  have res: "reserved ?db ?e ?p" by (rule begin_reserves)
  show ?thesis
  proof (cases "ae_begin env")
    case Lost
    then show ?thesis using deferred_sound [OF own_run_refl] by (simp add: attempt_def Let_def)
  next
    case Unheard
    then show ?thesis using deferred_sound [OF own] by (simp add: attempt_def Let_def begin_reads del: apply_op.simps)
  next
    case Fine
    show ?thesis
    proof (cases "finished db ?e ?p")
      case True
      then have "finished ?db ?e ?p" by (rule own_run_keeps(2) [OF own])
      moreover have "attempt ctx env lane w sh db = (Inr Done, clear_lane sh lane, ?db)"
        using Fine True by (simp add: attempt_def Let_def begin_reads finished_def del: apply_op.simps split: option.splits)
      ultimately show ?thesis using own by (simp add: attempt_sound_def step_sound_def)
    next
      case False
      then have begun: "begin_invocation db ?e ?p (ec_hash ctx) (ae_time env) = (Inr Run, ?db)"
        by (auto simp: begin_reads finished_def simp del: apply_op.simps split: option.splits)
      show ?thesis
      proof (cases "lane_attempt sh lane > 0 \<and> skip_requested sh ?p")
        case False
        then show ?thesis using run_handler_sound [OF own res] by (auto simp: attempt_def Let_def Fine begun simp del: apply_op.simps)
      next
        case True
        let ?wr = "apply_op (Skip ?e ?p (ae_time env) (collapsed_from w))"
        obtain r db1 where wr: "db_write (ae_write env) (ae_error env) ?wr ?db = (r, db1)" by fastforce
        have own1: "own_run ?e ?p db db1" using own_run_trans [OF own own_write [OF _ wr]] by simp
        have eq: "(\<lambda>db. skip_invocation db ?e ?p (ae_time env) (collapsed_from w)) = ?wr" by (rule ext) simp
        show ?thesis
        proof (cases r)
          case (Inl err)
          then show ?thesis using deferred_sound [OF own1] True
            by (simp add: attempt_def Let_def Fine begun honor_skip_def eq wr del: apply_op.simps)
        next
          case (Inr u)
          have "finished db1 ?e ?p" using db_write_Inr [OF wr [unfolded Inr]] finished_complete(2) [OF res] by simp
          then show ?thesis using Inr True own1
            by (simp add: attempt_def Let_def Fine begun honor_skip_def eq wr attempt_sound_def step_sound_def del: apply_op.simps)
        qed
      qed
    qed
  qed
qed

lemma caught_is_sound:
  assumes "attempt_caught ctx env lane w sh db = (st, sh', db')"
  shows "own_run (ec_name ctx) (w_position w) db db' \<and>
    step_sound (ec_name ctx) (w_position w) lane (lane_attempt sh lane) st sh' db'"
proof -
  obtain res sh1 db1 where a: "attempt ctx env lane w sh db = (res, sh1, db1)" by (metis prod.collapse)
  note S = attempt_is_sound [of ctx w lane sh db env, unfolded a attempt_sound_def, simplified]
  show ?thesis
  proof (cases res)
    case (Inr st1)
    then show ?thesis using S assms by (simp add: attempt_caught_def a)
  next
    case (Inl panic)
    obtain st2 sh2 where d: "defer_step sh1 (ae_now env) lane (w_position w) (lane_attempt sh1 lane) (panic_message panic) None = (st2, sh2)"
      by fastforce
    have out: "st = st2" "sh' = sh2" "db' = db1" using assms by (simp_all add: attempt_caught_def a Inl d Let_def)
    have "lane_attempt sh1 lane = 0" if "fmlookup (stuck sh1) lane = None" using that by (simp add: lane_attempt_def)
    then show ?thesis using S defer_recorded [OF d] unfolding out Inl step_sound_def by auto
  qed
qed

text \<open>
  C16: an attempt.  Whatever the handler does, whatever becomes of the database calls and wherever a
  panic strikes, an attempt changes the ledger of no other position and never takes back a
  completion.  It answers \<open>Done\<close> only when the position is durably terminal and its lane is healthy
  again, \<open>Stop\<close> only with the completion durable and the effect quarantined, and otherwise parks the
  lane for a bounded time with the failure counted against it; and a position that is already
  terminal never reaches its handler.
\<close>

theorem attempt_retires_only_terminal:
  assumes "attempt_caught ctx env lane w sh db = (st, sh', db')"
  shows "step_sound (ec_name ctx) (w_position w) lane (lane_attempt sh lane) st sh' db' \<and>
    own_run (ec_name ctx) (w_position w) db db' \<and>
    (finished db e p \<longrightarrow> finished db' e p) \<and>
    (finished db (ec_name ctx) (w_position w) \<longrightarrow>
       attempt_caught ctx (env\<lparr>ae_interpret := handler\<rparr>) lane w sh db = (st, sh', db'))"
proof -
  have "attempt ctx (env\<lparr>ae_interpret := handler\<rparr>) lane w sh db = attempt ctx env lane w sh db"
    if "finished db (ec_name ctx) (w_position w)"
    using that by (cases "ae_begin env")
      (simp_all add: attempt_def Let_def begin_reads finished_def del: apply_op.simps split: option.splits)
  moreover have "attempt_caught ctx (env\<lparr>ae_interpret := handler\<rparr>) lane w sh db = attempt_caught ctx env lane w sh db"
    if "attempt ctx (env\<lparr>ae_interpret := handler\<rparr>) lane w sh db = attempt ctx env lane w sh db"
  proof -
    obtain res sh1 db1 where "attempt ctx env lane w sh db = (res, sh1, db1)" by (metis prod.collapse)
    then show ?thesis using that by (cases res) (simp_all add: attempt_caught_def)
  qed
  ultimately have "finished db (ec_name ctx) (w_position w) \<longrightarrow>
      attempt_caught ctx (env\<lparr>ae_interpret := handler\<rparr>) lane w sh db = (st, sh', db')"
    using assms by simp
  moreover note S = caught_is_sound [OF assms]
  moreover have "finished db e p \<longrightarrow> finished db' e p" using own_run_keeps(2) [OF conjunct1 [OF S]] by blast
  ultimately show ?thesis by blast
qed

subsection \<open>A run over a lane\<close>

lemma place_after_complete [simp]: "place_of (snd (complete st l p)) = place_of st"
  by (auto simp: complete_def Let_def split: option.splits list.splits)

lemma place_after_record_row [simp]: "place_of (record_row st l p) = place_of st"
  by (simp add: record_row_def Let_def)

lemma record_lane_row_frame:
  assumes "record_lane_row ctx env l p ls db = (ls', db')"
  shows "queue ls' = queue ls" and "place_of ls' = place_of ls" and "invocations db' = invocations db"
  using assms by (auto simp: record_lane_row_def db_write_def record_effect_lane_def split: fault.splits)

text \<open>One turn that retires its position, and what it leaves of the lane.\<close>

lemma lane_turn:
  assumes "head (lr_lanes s) lane = (Some w, ls)" and "complete ls lane (w_position w) = (owed, ls')"
    and "(if owed then record_lane_row ctx env lane (w_position w) ls' db else (ls', db)) = (ls'', db')"
  shows "\<exists>g q. queue (lr_lanes s) lane = g # q \<and> hi g = w_position w \<and> queue ls'' = (queue (lr_lanes s))(lane := q) \<and>
    invocations db' = invocations db"
proof -
  from head_queue [OF assms(1)] obtain g q
    where g: "queue (lr_lanes s) lane = g # q" "queue ls = queue (lr_lanes s)" "hi g = w_position w" by blast
  then have "queue ls lane = g # q" by simp
  from queue_complete [OF this g(3)] have "queue ls' = (queue (lr_lanes s))(lane := q)" using assms(2) g(2) by simp
  moreover have "queue ls'' = queue ls' \<and> invocations db' = invocations db"
    using assms(3) record_lane_row_frame [of ctx env lane "w_position w" ls' db ls'' db'] by (cases owed) auto
  ultimately show ?thesis using g by auto
qed

definition run_ok :: "effect_ctx \<Rightarrow> lane_id \<Rightarrow> lane_run \<Rightarrow> lane_run \<Rightarrow> bool \<Rightarrow> bool" where
  "run_ok ctx lane s t parked \<longleftrightarrow>
     (\<exists>gone. queue (lr_lanes s) lane = gone @ queue (lr_lanes t) lane \<and>
        lr_retired t = lr_retired s @ map hi gone \<and>
        (\<forall>g \<in> set gone. finished (lr_db t) (ec_name ctx) (hi g))) \<and>
     (\<forall>l. l \<noteq> lane \<longrightarrow> queue (lr_lanes t) l = queue (lr_lanes s) l) \<and>
     (\<forall>p. finished (lr_db s) (ec_name ctx) p \<longrightarrow> finished (lr_db t) (ec_name ctx) p) \<and>
     (parked \<longrightarrow> queue (lr_lanes t) lane \<noteq> [] \<and>
        (\<exists>d. fmlookup (place_of (lr_lanes t)) lane = Some (Deferred d)) \<and>
        (\<exists>v. fmlookup (stuck (lr_shared t)) lane = Some v \<and> s_position v = hi (hd (queue (lr_lanes t) lane))))"

lemmas run_okD =
  run_ok_def [THEN iffD1, THEN conjunct1]
  run_ok_def [THEN iffD1, THEN conjunct2, THEN conjunct1]
  run_ok_def [THEN iffD1, THEN conjunct2, THEN conjunct2, THEN conjunct2, THEN mp]

lemma run_ok_stop:
  assumes "queue ls = queue (lr_lanes s)" and "\<And>p. finished (lr_db s) (ec_name ctx) p \<Longrightarrow> finished db (ec_name ctx) p"
  shows "run_ok ctx lane s (s\<lparr>lr_lanes := ls, lr_shared := sh, lr_db := db\<rparr>) False"
  using assms by (simp add: run_ok_def)

lemma run_ok_step:
  assumes "queue (lr_lanes s) lane = g # q" and "queue (lr_lanes s') = (queue (lr_lanes s))(lane := q)"
    and "lr_retired s' = lr_retired s @ [hi g]" and fin: "finished (lr_db s') (ec_name ctx) (hi g)"
    and keep: "\<And>p. finished (lr_db s) (ec_name ctx) p \<Longrightarrow> finished (lr_db s') (ec_name ctx) p"
    and ok: "run_ok ctx lane s' t parked"
  shows "run_ok ctx lane s t parked"
proof -
  obtain gone where gone: "queue (lr_lanes s') lane = gone @ queue (lr_lanes t) lane"
      "lr_retired t = lr_retired s' @ map hi gone" "\<forall>g \<in> set gone. finished (lr_db t) (ec_name ctx) (hi g)"
    using ok unfolding run_ok_def by blast
  have "finished (lr_db t) (ec_name ctx) (hi g)" using ok fin unfolding run_ok_def by blast
  then have "queue (lr_lanes s) lane = (g # gone) @ queue (lr_lanes t) lane \<and>
      lr_retired t = lr_retired s @ map hi (g # gone) \<and> (\<forall>g \<in> set (g # gone). finished (lr_db t) (ec_name ctx) (hi g))"
    using gone assms(1,2,3) by simp
  moreover have "\<forall>l. l \<noteq> lane \<longrightarrow> queue (lr_lanes t) l = queue (lr_lanes s) l"
    using ok assms(2) unfolding run_ok_def by (metis fun_upd_other)
  ultimately show ?thesis using ok keep unfolding run_ok_def by blast
qed

lemma finished_invocations: "invocations db' = invocations db \<Longrightarrow> finished db' e p = finished db e p"
  by (simp add: finished_def)

lemma lane_loop_ok: "lane_loop ctx env lane i s = (parked, j, t) \<Longrightarrow> run_ok ctx lane s t parked"
proof (induction ctx env lane i s rule: lane_loop.induct)
  case (1 ctx env lane i s)
  show ?case
  proof (cases "runnable (env i) (lr_shared s)")
    case False
    then have "t = s\<lparr>lr_lanes := lr_lanes s, lr_shared := lr_shared s, lr_db := lr_db s\<rparr>" "\<not> parked"
      using 1(2) by (simp_all add: lane_loop.simps [of ctx env lane i])
    then show ?thesis using run_ok_stop [of "lr_lanes s" s ctx "lr_db s" lane "lr_shared s"] by simp
  next
    case True
    obtain w0 ls where h: "head (lr_lanes s) lane = (w0, ls)" by fastforce
    show ?thesis
    proof (cases w0)
      case None
      then have "t = s\<lparr>lr_lanes := ls, lr_shared := lr_shared s, lr_db := lr_db s\<rparr>" "\<not> parked"
        using 1(2) True by (auto simp: lane_loop.simps [of ctx env lane i] h)
      moreover have "queue ls = queue (lr_lanes s)"
        using h None by (auto simp: head_def split: option.splits list.splits)
      ultimately show ?thesis using run_ok_stop [of ls s ctx "lr_db s" lane "lr_shared s"] by simp
    next
      case (Some w)
      note h = h [unfolded Some]
      from head_queue [OF h] obtain g q
        where g: "queue (lr_lanes s) lane = g # q" "queue ls = queue (lr_lanes s)" "hi g = w_position w" by blast
      obtain st sh db where a: "attempt_caught ctx (env i) lane w (lr_shared s) (lr_db s) = (st, sh, db)"
        by (metis prod.collapse)
      note S = caught_is_sound [OF a]
      have keep: "finished (lr_db s) (ec_name ctx) p \<Longrightarrow> finished db (ec_name ctx) p" for p
        using S own_run_keeps(2) by blast
      show ?thesis
      proof (cases st)
        case Stop
        then have "t = s\<lparr>lr_lanes := ls, lr_shared := sh, lr_db := db\<rparr>" "\<not> parked"
          using 1(2) True by (simp_all add: lane_loop.simps [of ctx env lane i] h a)
        then show ?thesis using run_ok_stop [of ls s ctx db, OF g(2) keep] by simp
      next
        case (Defer d)
        then have t: "t = s\<lparr>lr_lanes := defer_lane ls lane (ae_now (env i) + d), lr_shared := sh, lr_db := db\<rparr>" "parked"
          using 1(2) True by (auto simp: lane_loop.simps [of ctx env lane i] h a)
        have "\<exists>v. fmlookup (stuck sh) lane = Some v \<and> s_position v = hi g"
          using S g(3) by (auto simp: Defer step_sound_def failure_recorded_def)
        then show ?thesis using g keep by (simp add: run_ok_def t defer_lane_def)
      next
        case Done
        obtain owed ls' where c: "complete ls lane (w_position w) = (owed, ls')" by fastforce
        obtain ls'' db' where r: "(if owed then record_lane_row ctx (env i) lane (w_position w) ls' db else (ls', db)) = (ls'', db')"
          by fastforce
        let ?s = "\<lparr>lr_lanes = ls'', lr_shared = sh, lr_db = db', lr_retired = lr_retired s @ [w_position w]\<rparr>"
        have rec: "lane_loop ctx env lane (i + 1) ?s = (parked, j, t)"
          using 1(2) True by (simp add: lane_loop.simps [of ctx env lane i] h a Done c r)
        have IH: "run_ok ctx lane ?s t parked"
          using 1(1) [OF _ h [symmetric] refl a [symmetric] Done refl c [symmetric] r [symmetric] rec] True by simp
        obtain g' q' where turn: "queue (lr_lanes s) lane = g' # q'" "hi g' = w_position w"
            "queue ls'' = (queue (lr_lanes s))(lane := q')" "invocations db' = invocations db"
          using lane_turn [OF h c r] by blast
        show ?thesis
        proof (rule run_ok_step [OF turn(1) _ _ _ _ IH])
          show "finished (lr_db ?s) (ec_name ctx) (hi g')"
            using S finished_invocations [OF turn(4)] by (simp add: Done step_sound_def turn(2))
          show "finished (lr_db s) (ec_name ctx) p \<Longrightarrow> finished (lr_db ?s) (ec_name ctx) p" for p
            using keep finished_invocations [OF turn(4)] by simp
        qed (simp_all add: turn)
      qed
    qed
  qed
qed


end
