(* ===== verification/Effect_Journal.thy ===== *)
theory Effect_Journal
  imports Effect_Sound
begin

section \<open>The journal of an invocation (src/heklang_host.rs)\<close>

text \<open>
  \<open>Journal::recorded\<close> and \<open>Journal::record\<close>, and a handler as the heklang interpreter drives it: a
  tree of impure calls, each with its key and ordinal, whose answer chooses the rest.  The interpreter
  is not part of this repository; what is relied on is the order it documents: it asks for the
  recorded result, performs the call only when there is none, and records the result before it goes
  on.  What performing a call comes to, a process that dies before or after it included, is the world.
\<close>

datatype script = Finish interp | Panic payload | Ask string nat "string \<Rightarrow> script"

datatype answer = Answered string string | Unanswered string | Died_Before | Died_After

datatype ended = Ended interp | Panicked payload | Host_Error string | Died

record journal_ctx =
  jc_effect :: string
  jc_position :: nat
  jc_now :: string
  jc_hash :: "string \<Rightarrow> string"
  jc_decode :: "string \<Rightarrow> string option"

type_synonym call_key = "string \<times> nat"

datatype call_event = Performed call_key | Recorded call_key

text \<open>The answer is decoded on the way out; a row that does not decode is an error, not a miss.\<close>

definition recorded :: "journal_ctx \<Rightarrow> opdb \<Rightarrow> string \<Rightarrow> nat \<Rightarrow> string + string option" where
  "recorded j db call ordinal =
     (case journal_get db (jc_effect j) (jc_position j) (jc_hash j call) ordinal of
        None \<Rightarrow> Inr None
      | Some raw \<Rightarrow>
          (case jc_decode j raw of
             None \<Rightarrow> Inl ''the recorded result does not read back''
           | Some v \<Rightarrow> Inr (Some v)))"

definition record_call :: "journal_ctx \<Rightarrow> opdb \<Rightarrow> string \<Rightarrow> nat \<Rightarrow> string \<Rightarrow> string \<Rightarrow> db_error + opdb" where
  "record_call j db call ordinal kind v =
     journal_put db (jc_effect j) (jc_position j) (jc_hash j call) ordinal kind v (jc_now j)"

primrec run_script ::
  "journal_ctx \<Rightarrow> (call_key \<Rightarrow> answer) \<Rightarrow> script \<Rightarrow> opdb \<Rightarrow> ended \<times> call_event list \<times> opdb" where
  "run_script j world (Finish out) db = (Ended out, [], db)"
| "run_script j world (Panic p) db = (Panicked p, [], db)"
| "run_script j world (Ask call ordinal k) db =
     (let key = (jc_hash j call, ordinal) in
      case recorded j db call ordinal of
        Inl err \<Rightarrow> (Host_Error err, [], db)
      | Inr (Some v) \<Rightarrow> run_script j world (k v) db
      | Inr None \<Rightarrow>
         (case world key of
            Died_Before \<Rightarrow> (Died, [], db)
          | Died_After \<Rightarrow> (Died, [Performed key], db)
          | Unanswered err \<Rightarrow> (Host_Error err, [Performed key], db)
          | Answered kind v \<Rightarrow>
             (case record_call j db call ordinal kind v of
                Inl _ \<Rightarrow> (Host_Error ''recording a call'', [Performed key], db)
              | Inr db' \<Rightarrow>
                 (case jc_decode j v of
                    None \<Rightarrow> (Host_Error ''the recorded result does not read back'', [Performed key, Recorded key], db')
                  | Some v' \<Rightarrow>
                     (case run_script j world (k v') db' of
                        (e, trace, db'') \<Rightarrow> (e, [Performed key, Recorded key] @ trace, db''))))))"

text \<open>An invocation over its whole life: one run of the script per attempt, each in a world of its own.\<close>

fun attempts :: "journal_ctx \<Rightarrow> script \<Rightarrow> (call_key \<Rightarrow> answer) list \<Rightarrow> opdb \<Rightarrow> ended list \<times> call_event list \<times> opdb" where
  "attempts j script [] db = ([], [], db)"
| "attempts j script (w # ws) db =
     (case run_script j w script db of
        (e, trace, db') \<Rightarrow>
         (case attempts j script ws db' of (es, trace', db'') \<Rightarrow> (e # es, trace @ trace', db'')))"

subsection \<open>Recorded calls are never performed again\<close>

definition journaled :: "journal_ctx \<Rightarrow> opdb \<Rightarrow> call_key \<Rightarrow> string option" where
  "journaled j db key = journal_get db (jc_effect j) (jc_position j) (fst key) (snd key)"

definition learn :: "(call_key \<Rightarrow> bool) \<Rightarrow> call_key \<Rightarrow> call_key \<Rightarrow> bool" where
  "learn known key k \<longleftrightarrow> k = key \<or> known k"

text \<open>A trace that may follow a database: a performed call has no row yet, a recorded one gets one.\<close>

inductive may_follow :: "(call_key \<Rightarrow> bool) \<Rightarrow> call_event list \<Rightarrow> bool" where
  nothing: "may_follow known []"
| performs: "\<not> known key \<Longrightarrow> may_follow known trace \<Longrightarrow> may_follow known (Performed key # trace)"
| records: "\<not> known key \<Longrightarrow> may_follow (learn known key) trace \<Longrightarrow> may_follow known (Recorded key # trace)"

inductive_cases may_followE: "may_follow known (Performed key # trace)" "may_follow known (Recorded key # trace)"
inductive_simps may_follow_simps [simp]: "may_follow known []" "may_follow known (Performed key # trace)"
  "may_follow known (Recorded key # trace)"

definition known_after :: "(call_key \<Rightarrow> bool) \<Rightarrow> call_event list \<Rightarrow> call_key \<Rightarrow> bool" where
  "known_after known trace key \<longleftrightarrow> known key \<or> Recorded key \<in> set trace"

lemma may_follow_append:
  "may_follow known (xs @ ys) \<longleftrightarrow> may_follow known xs \<and> may_follow (known_after known xs) ys"
proof (induction xs arbitrary: known)
  case Nil
  then show ?case by (simp add: known_after_def [abs_def])
next
  case (Cons x xs)
  have "known_after (learn known key) xs = known_after known (Recorded key # xs)" for key
    by (auto simp: known_after_def learn_def fun_eq_iff)
  moreover have "known_after known (Performed key # xs) = known_after known xs" for key
    by (auto simp: known_after_def fun_eq_iff)
  ultimately show ?case using Cons.IH by (cases x) auto
qed

text \<open>What such a trace says of one call: nothing of it after its result is recorded.\<close>

lemma may_follow_known:
  "may_follow known trace \<Longrightarrow> known key \<Longrightarrow> Performed key \<notin> set trace \<and> Recorded key \<notin> set trace"
  by (induction rule: may_follow.induct) (auto simp: learn_def)

lemma may_follow_once:
  assumes "may_follow known trace" and "i < j" and "j < length trace" and "trace ! i = Recorded key"
  shows "trace ! j \<noteq> Performed key \<and> trace ! j \<noteq> Recorded key"
proof -
  have "trace = take (Suc i) trace @ drop (Suc i) trace" by simp
  then have "may_follow (known_after known (take (Suc i) trace)) (drop (Suc i) trace)"
    using assms(1) may_follow_append by metis
  moreover have "known_after known (take (Suc i) trace) key"
    using assms by (force simp: known_after_def in_set_conv_nth)
  ultimately have "Performed key \<notin> set (drop (Suc i) trace) \<and> Recorded key \<notin> set (drop (Suc i) trace)"
    by (rule may_follow_known)
  moreover have "trace ! j \<in> set (drop (Suc i) trace)"
    using assms(2,3) by (auto simp: in_set_conv_nth intro!: exI [of _ "j - Suc i"])
  ultimately show ?thesis by metis
qed

lemma journaled_put:
  assumes "record_call j db call ordinal kind v = Inr db'" and "snd key < 2 ^ 64" and "ordinal < 2 ^ 64"
  shows "journaled j db' key = (if key = (jc_hash j call, ordinal) then Some v else journaled j db key)"
proof -
  note J = journal_put_Inr [OF assms(1) [unfolded record_call_def]]
  have "as_i64 (snd key) = as_i64 ordinal \<longleftrightarrow> snd key = ordinal"
    by (rule as_i64_inj [OF assms(2,3)])
  with J(2) show ?thesis
    by (cases key) (auto simp: journaled_def J(1) journal_get_def find_row_append find_row_Cons find_row_Nil j_key_def split: option.splits)
qed

primrec ordinals_ok :: "script \<Rightarrow> bool" where
  "ordinals_ok (Finish out) = True"
| "ordinals_ok (Panic p) = True"
| "ordinals_ok (Ask call ordinal k) = (ordinal < 2 ^ 32 \<and> (\<forall>v. ordinals_ok (k v)))"

text \<open>Only the keys a script may ask for, whose ordinals fit, are tracked.\<close>

definition knows :: "journal_ctx \<Rightarrow> opdb \<Rightarrow> call_key \<Rightarrow> bool" where
  "knows j db key \<longleftrightarrow> snd key < 2 ^ 64 \<and> journaled j db key \<noteq> None"

lemma knows_put:
  assumes "record_call j db call ordinal kind v = Inr db'" and "ordinal < 2 ^ 64"
  shows "knows j db' = learn (knows j db) (jc_hash j call, ordinal)"
  using journaled_put [OF assms(1) _ assms(2)] assms(2) by (auto simp: knows_def learn_def fun_eq_iff)

lemma run_script_follows:
  "ordinals_ok script \<Longrightarrow> run_script j world script db = (e, trace, db') \<Longrightarrow>
    may_follow (knows j db) trace \<and> knows j db' = known_after (knows j db) trace \<and>
    (\<forall>key v. snd key < 2 ^ 64 \<and> journaled j db key = Some v \<longrightarrow> journaled j db' key = Some v) \<and>
    own_run (jc_effect j) (jc_position j) db db'"
proof (induction script arbitrary: db e trace db')
  case (Ask call ordinal k)
  let ?key = "(jc_hash j call, ordinal)"
  have o32: "ordinal < 2 ^ 64" using Ask.prems(1) by simp
  have nil: "knows j db = known_after (knows j db) []" "knows j db = known_after (knows j db) [Performed key]" for key
    by (auto simp: known_after_def fun_eq_iff)
  show ?case
  proof (cases "journaled j db ?key")
    case (Some raw)
    then have rec: "recorded j db call ordinal = (case jc_decode j raw of
        None \<Rightarrow> Inl ''the recorded result does not read back'' | Some v \<Rightarrow> Inr (Some v))"
      by (simp add: recorded_def journaled_def)
    show ?thesis
    proof (cases "jc_decode j raw")
      case None
      then show ?thesis using Ask.prems(2) rec nil(1) by auto
    next
      case (Some v)
      then have "run_script j world (k v) db = (e, trace, db')" using Ask.prems(2) rec by simp
      then show ?thesis using Ask.prems(1) by (intro Ask.IH) auto
    qed
  next
    case None
    then have rec: "recorded j db call ordinal = Inr None" by (simp add: recorded_def journaled_def)
    have fresh: "\<not> knows j db ?key" using None by (simp add: knows_def)
    show ?thesis
    proof (cases "world ?key")
      case (Answered kind v)
      show ?thesis
      proof (cases "record_call j db call ordinal kind v")
        case (Inl err)
        then show ?thesis using Ask.prems(2) rec Answered fresh nil(2) by auto
      next
        case (Inr db1)
        have own: "own_run (jc_effect j) (jc_position j) db db1"
        proof -
          have "db1 = apply_op (Put (jc_effect j) (jc_position j) (jc_hash j call) ordinal kind v (jc_now j)) db"
            using Inr by (simp add: record_call_def)
          moreover have "own_op (jc_effect j) (jc_position j)
              (Put (jc_effect j) (jc_position j) (jc_hash j call) ordinal kind v (jc_now j))" by simp
          ultimately show ?thesis by (simp only: own_run_step)
        qed
        note put = journaled_put [OF Inr _ o32] and kn = knows_put [OF Inr o32]
        have keep: "journaled j db1 key = Some u" if "snd key < 2 ^ 64" "journaled j db key = Some u" for key u
          using put [OF that(1)] that(2) None by auto
        show ?thesis
        proof (cases "jc_decode j v")
          case dec: None
          have out: "trace = [Performed ?key, Recorded ?key]" "db' = db1"
            using Ask.prems(2) rec Answered Inr dec by (auto simp: Let_def)
          have "learn (knows j db) ?key = known_after (knows j db) trace"
            by (auto simp: out known_after_def learn_def fun_eq_iff)
          then show ?thesis using fresh keep own kn by (simp add: out)
        next
          case dec: (Some v')
          obtain e1 t1 db2 where r: "run_script j world (k v') db1 = (e1, t1, db2)" by (metis prod.collapse)
          have out: "trace = [Performed ?key, Recorded ?key] @ t1" "db' = db2"
            using Ask.prems(2) rec Answered Inr dec r by (auto simp: Let_def)
          have IH: "may_follow (knows j db1) t1 \<and> knows j db2 = known_after (knows j db1) t1 \<and>
              (\<forall>key v. snd key < 2 ^ 64 \<and> journaled j db1 key = Some v \<longrightarrow> journaled j db2 key = Some v) \<and>
              own_run (jc_effect j) (jc_position j) db1 db2"
            using Ask.prems(1) by (intro Ask.IH [OF _ _ r]) auto
          have "known_after (learn (knows j db) ?key) t1 = known_after (knows j db) trace"
            by (auto simp: out known_after_def learn_def fun_eq_iff)
          then show ?thesis using IH fresh keep own_run_trans [OF own] kn by (simp add: out)
        qed
      qed
    qed (use Ask.prems(2) rec fresh nil in auto)
  qed
qed (auto simp: known_after_def fun_eq_iff)

lemma attempts_follow:
  "ordinals_ok script \<Longrightarrow> attempts j script ws db = (es, trace, db') \<Longrightarrow>
    may_follow (knows j db) trace \<and> knows j db' = known_after (knows j db) trace \<and>
    (\<forall>key v. snd key < 2 ^ 64 \<and> journaled j db key = Some v \<longrightarrow> journaled j db' key = Some v)"
proof (induction ws arbitrary: db es trace db')
  case (Cons w ws)
  obtain e t db1 where r: "run_script j w script db = (e, t, db1)" by (metis prod.collapse)
  obtain es2 t2 db2 where a: "attempts j script ws db1 = (es2, t2, db2)" by (metis prod.collapse)
  have out: "trace = t @ t2" "db' = db2" using Cons.prems(2) r a by auto
  note S = run_script_follows [OF Cons.prems(1) r] and IH = Cons.IH [OF Cons.prems(1) a]
  have "known_after (known_after (knows j db) t) t2 = known_after (knows j db) (t @ t2)"
    by (auto simp: known_after_def fun_eq_iff)
  then show ?case using S IH by (simp add: out may_follow_append)
qed (auto simp: known_after_def fun_eq_iff)

text \<open>
  C18: side effects happen once.  Over all attempts at one position, however many processes die before
  or after a call, however often the handler fails, and whatever it goes on to ask for, a call whose
  result has been recorded is never performed and never recorded again, its recorded result never
  changes, and a call is performed a second time only if no result of it was ever recorded before.
\<close>

theorem recorded_calls_happen_once:
  assumes "ordinals_ok script" and "attempts j script ws db = (es, trace, db')"
  shows "(i < k \<and> k < length trace \<and> trace ! i = Recorded key \<longrightarrow>
      trace ! k \<noteq> Performed key \<and> trace ! k \<noteq> Recorded key) \<and>
    (snd key < 2 ^ 64 \<and> journaled j db key = Some v \<longrightarrow>
      Performed key \<notin> set trace \<and> Recorded key \<notin> set trace \<and> journaled j db' key = Some v) \<and>
    (snd key < 2 ^ 64 \<and> Recorded key \<in> set trace \<longrightarrow> journaled j db' key \<noteq> None)"
proof -
  note F = attempts_follow [OF assms]
  have "trace ! k \<noteq> Performed key \<and> trace ! k \<noteq> Recorded key"
    if "i < k \<and> k < length trace \<and> trace ! i = Recorded key"
    using that may_follow_once [of "knows j db" trace i k key] F by blast
  moreover have "Performed key \<notin> set trace \<and> Recorded key \<notin> set trace \<and> journaled j db' key = Some v"
    if "snd key < 2 ^ 64 \<and> journaled j db key = Some v"
  proof -
    have "knows j db key" using that by (simp add: knows_def)
    then show ?thesis using may_follow_known [of "knows j db" trace key] F that by blast
  qed
  moreover have "journaled j db' key \<noteq> None" if "snd key < 2 ^ 64 \<and> Recorded key \<in> set trace"
  proof -
    have "knows j db' key" using F that by (simp add: known_after_def)
    then show ?thesis by (simp add: knows_def)
  qed
  ultimately show ?thesis by blast
qed

end
