(* ===== verification/Effect_Sweep.thy ===== *)
theory Effect_Sweep
  imports Opdb_Read Opdb_Hierarchy
begin

section \<open>The retention sweeper (src/effect.rs)\<close>

text \<open>
  The sweeps over the operational database: journals past their retention in chunks until a chunk
  comes back short, and orphaned keys in passes until a pass deletes nothing, at most
  \<open>ORPHAN_PASSES\<close> of them.  Pauses between chunks are left out, and the sweeper is alone between two
  chunks: what it is said to leave is what nobody else has added.
\<close>

definition SWEEP_CHUNK :: nat where "SWEEP_CHUNK = 1000"
definition ORPHAN_PASSES :: nat where "ORPHAN_PASSES = 32"

lemma cascade_shrinks:
  assumes "sweep_effect_journal db cutoff n = (m, db')" and "m > 0"
  shows "length (invocations db') < length (invocations db)"
proof -
  let ?gone = "limited (as_i64 n) (filter (reclaimable db cutoff) (invocations db))"
  have m: "m = length ?gone" "db' = cascade db ?gone" using assms(1) by (simp_all add: sweep_db)
  then obtain r where r: "r \<in> set ?gone" using assms(2) by (cases ?gone) auto
  then have "r \<in> set (invocations db)" by (auto simp: limited_def split: if_splits dest: in_set_takeD)
  moreover have "inv_key r \<in> inv_key ` set ?gone" using r by simp
  ultimately have "length (filter (\<lambda>r. inv_key r \<notin> inv_key ` set ?gone) (invocations db)) < length (invocations db)"
    by (intro length_filter_less [of r]) simp_all
  then show ?thesis by (simp add: m cascade_def Let_def)
qed

function sweep_journal :: "string \<Rightarrow> opdb \<Rightarrow> opdb" where
  "sweep_journal cutoff db =
     (case sweep_effect_journal db cutoff SWEEP_CHUNK of
        (n, db') \<Rightarrow> if n = SWEEP_CHUNK then sweep_journal cutoff db' else db')"
  by pat_completeness auto
termination
proof (relation "measure (\<lambda>(cutoff, db). length (invocations db))", goal_cases)
  case (2 cutoff db n db')
  have "n > 0" using 2(2) by (simp add: SWEEP_CHUNK_def)
  then show ?case using cascade_shrinks [OF 2(1) [symmetric]] by simp
qed simp

declare sweep_journal.simps [simp del]

lemma orphans_shrink:
  assumes "sweep_orphan_subject_keys t n = (m, t')" and "m > 0"
  shows "length t' < length t"
proof -
  note S = sweep_orphans_rows [OF assms(1)]
  let ?gone = "limited (as_i64 n) (filter (orphan t) t)"
  have "m = length ?gone" using S(2) by (simp add: delete_limited_def Let_def)
  then obtain r where r: "r \<in> set ?gone" using assms(2) by (cases ?gone) auto
  then have "r \<in> set t" by (auto simp: limited_def split: if_splits dest: in_set_takeD)
  moreover have "k_key r \<in> k_key ` set ?gone" using r by simp
  ultimately have "length (filter (\<lambda>r. k_key r \<notin> k_key ` set ?gone) t) < length t"
    by (intro length_filter_less [of r]) simp_all
  then show ?thesis using S(1) by (simp add: delete_limited_def Let_def)
qed

function sweep_chunks :: "key_table \<Rightarrow> nat \<times> key_table" where
  "sweep_chunks t =
     (case sweep_orphan_subject_keys t SWEEP_CHUNK of
        (deleted, t') \<Rightarrow>
          if deleted < SWEEP_CHUNK then (deleted, t')
          else (case sweep_chunks t' of (swept, t'') \<Rightarrow> (deleted + swept, t'')))"
  by pat_completeness auto
termination
proof (relation "measure length", goal_cases)
  case (2 t deleted t')
  have "deleted > 0" using 2(2) by (simp add: SWEEP_CHUNK_def)
  then show ?case using orphans_shrink [OF 2(1) [symmetric]] by simp
qed simp

declare sweep_chunks.simps [simp del]

fun orphan_passes :: "nat \<Rightarrow> key_table \<Rightarrow> key_table" where
  "orphan_passes 0 t = t"
| "orphan_passes (Suc n) t =
     (case sweep_chunks t of (swept, t') \<Rightarrow> if swept = 0 then t' else orphan_passes n t')"

definition sweep_orphan_keys :: "key_table \<Rightarrow> key_table" where
  "sweep_orphan_keys t = orphan_passes ORPHAN_PASSES t"

definition run_sweep :: "string \<Rightarrow> opdb \<Rightarrow> key_table \<Rightarrow> opdb \<times> key_table" where
  "run_sweep cutoff db t = (sweep_journal cutoff db, sweep_orphan_keys t)"

subsection \<open>What a sweep leaves\<close>

lemma sweep_journal_clean:
  "db_ok db \<Longrightarrow> db_ok (sweep_journal cutoff db) \<and>
    filter (reclaimable (sweep_journal cutoff db) cutoff) (invocations (sweep_journal cutoff db)) = []"
proof (induction cutoff db rule: sweep_journal.induct)
  case (1 cutoff db)
  obtain n db' where s: "sweep_effect_journal db cutoff SWEEP_CHUNK = (n, db')" by fastforce
  have ok: "db_ok db'" using db_ok_apply [OF 1(2), of "Sweep cutoff SWEEP_CHUNK"] s by simp
  show ?case
  proof (cases "n = SWEEP_CHUNK")
    case True
    then show ?thesis using 1(1) [OF s [symmetric] True ok] s by (simp add: sweep_journal.simps [of cutoff db])
  next
    case False
    have "n \<le> SWEEP_CHUNK \<and> (n < SWEEP_CHUNK \<longrightarrow> filter (reclaimable db' cutoff) (invocations db') = [])"
      using sweep_reclaims [OF 1(2) _ s] by (simp add: SWEEP_CHUNK_def)
    then show ?thesis using False ok s by (simp add: sweep_journal.simps [of cutoff db])
  qed
qed

lemma anchored_mono: "anchored t' k \<Longrightarrow> set t' \<subseteq> set t \<Longrightarrow> anchored t k"
  by (induction rule: anchored.induct) (auto intro: anchored.intros)

lemma no_orphan_stays: "set t' \<subseteq> set t \<Longrightarrow> orphan t r \<Longrightarrow> orphan t' r"
  by (auto simp: orphan_def)

lemma sweep_call:
  assumes "keys_ok t" and "sweep_orphan_subject_keys t SWEEP_CHUNK = (m, t')"
  shows "keys_ok t'" and "set t' \<subseteq> set t" and "m = 0 \<Longrightarrow> t' = t"
proof -
  show "keys_ok t'" using keys_ok_apply [OF assms(1), of "Sweep_Orphans SWEEP_CHUNK"] assms(2) by simp
  note S = sweep_orphans_rows [OF assms(2)]
  show "set t' \<subseteq> set t" unfolding S(1) delete_limited_def Let_def by auto
  show "t' = t" if "m = 0" using S that by (simp add: delete_limited_def Let_def)
qed

lemma sweep_chunks_pass:
  "keys_ok t \<Longrightarrow> sweep_chunks t = (swept, t') \<Longrightarrow>
    keys_ok t' \<and> set t' \<subseteq> set t \<and> (\<forall>k. anchored t k \<longrightarrow> anchored t' k) \<and>
    (\<forall>r \<in> set t'. \<not> orphan t r) \<and> (swept = 0 \<longrightarrow> t' = t)"
proof (induction t arbitrary: swept t' rule: sweep_chunks.induct)
  case (1 t)
  obtain m t1 where s: "sweep_orphan_subject_keys t SWEEP_CHUNK = (m, t1)" by fastforce
  note C = sweep_call [OF 1(2) s]
  have O: "\<forall>k. anchored t k \<longrightarrow> anchored t1 k" "m < SWEEP_CHUNK \<Longrightarrow> \<forall>r \<in> set t1. \<not> orphan t r"
    using orphan_sweep_keeps_anchored [OF 1(2) _ s] C(2) by (auto simp: SWEEP_CHUNK_def)
  show ?case
  proof (cases "m < SWEEP_CHUNK")
    case True
    then have "swept = m" "t' = t1" using 1(3) s by (simp_all add: sweep_chunks.simps [of t])
    then show ?thesis using C O True by simp
  next
    case False
    obtain n t2 where r: "sweep_chunks t1 = (n, t2)" by fastforce
    have out: "swept = m + n" "t' = t2" using 1(3) s False r by (simp_all add: sweep_chunks.simps [of t])
    have IH: "keys_ok t2 \<and> set t2 \<subseteq> set t1 \<and> (\<forall>k. anchored t1 k \<longrightarrow> anchored t2 k) \<and>
        (\<forall>r \<in> set t2. \<not> orphan t1 r) \<and> (n = 0 \<longrightarrow> t2 = t1)"
      using 1(1) [OF s [symmetric] False C(1) r] .
    have "\<not> orphan t r" if "r \<in> set t2" for r using IH that no_orphan_stays [OF C(2), of r] by blast
    moreover have "m > 0" using False by (simp add: SWEEP_CHUNK_def)
    ultimately show ?thesis using IH C O(1) out by auto
  qed
qed

text \<open>A row that survives \<open>n\<close> passes without leading to a root has \<open>n\<close> rows above it.\<close>

definition chain :: "key_table \<Rightarrow> nat \<Rightarrow> string \<times> string \<Rightarrow> bool" where
  "chain t n k \<longleftrightarrow> (\<exists>q \<in> set t. (k, k_key q) \<in> below t ^^ n)"

lemma below_mono: "set t' \<subseteq> set t \<Longrightarrow> below t' \<subseteq> below t"
  by (auto simp: below_def)

lemma relpow_mono': "R \<subseteq> S \<Longrightarrow> (R :: ('a \<times> 'a) set) ^^ n \<subseteq> S ^^ n"
  by (induction n) (auto intro: relcomp_mono)

lemma anchored_down:
  assumes "keys_ok t" and "(k, d) \<in> below t ^^ n" and "anchored t d"
  shows "anchored t k"
  using assms(2,3)
proof (induction n arbitrary: k)
  case (Suc n)
  then obtain c where c: "(k, c) \<in> below t" "(c, d) \<in> below t ^^ n" by (meson relpow_Suc_E2)
  then have "anchored t c" using Suc by blast
  moreover obtain r where "r \<in> set t" "k = k_key r" "child_of r c" using c(1) by (auto simp: below_def)
  ultimately show ?case by (auto intro: anchored.child)
qed simp

lemma chain_extends:
  assumes "keys_ok t" and sub: "set t1 \<subseteq> set t" and clean: "\<forall>r \<in> set t1. \<not> orphan t r" and ch: "chain t1 n k"
  shows "chain t (Suc n) k \<or> anchored t k"
proof -
  obtain q where q: "q \<in> set t1" "(k, k_key q) \<in> below t1 ^^ n" using ch by (auto simp: chain_def)
  have up: "(k, k_key q) \<in> below t ^^ n" using q(2) relpow_mono' [OF below_mono [OF sub]] by blast
  have qt: "q \<in> set t" using q(1) sub by blast
  show ?thesis
  proof (cases "k_parent_subject q = None")
    case True
    then show ?thesis using anchored_down [OF assms(1) up] anchored.root [OF qt] by blast
  next
    case False
    then obtain p where p: "p \<in> set t" "child_of q (k_key p)"
      using clean q(1) by (auto simp: orphan_def)
    then have "(k_key q, k_key p) \<in> below t" using qt unfolding below_def by blast
    then have "(k, k_key p) \<in> below t ^^ Suc n" using up by (auto intro: relpow_Suc_I)
    then show ?thesis using p(1) unfolding chain_def by blast
  qed
qed

lemma clean_chain:
  assumes "keys_ok t" and "\<forall>r \<in> set t. \<not> orphan t r" and "r \<in> set t"
  shows "anchored t (k_key r) \<or> chain t n (k_key r)"
proof (induction n)
  case 0
  show ?case using assms(3) by (auto simp: chain_def)
next
  case (Suc n)
  then show ?case using chain_extends [OF assms(1) subset_refl assms(2)] by blast
qed

lemma orphan_passes_left:
  "keys_ok t \<Longrightarrow> keys_ok (orphan_passes n t) \<and> set (orphan_passes n t) \<subseteq> set t \<and>
    (\<forall>k. anchored t k \<longrightarrow> anchored (orphan_passes n t) k) \<and>
    (\<forall>r \<in> set (orphan_passes n t). anchored t (k_key r) \<or> chain t n (k_key r))"
proof (induction n arbitrary: t)
  case 0
  then show ?case by (auto simp: chain_def)
next
  case (Suc n)
  obtain swept t1 where s: "sweep_chunks t = (swept, t1)" by fastforce
  note P = sweep_chunks_pass [OF Suc.prems s]
  show ?case
  proof (cases "swept = 0")
    case True
    then have same: "t1 = t" using P by blast
    then have "\<forall>r \<in> set t. \<not> orphan t r" using P by blast
    then show ?thesis using clean_chain [OF Suc.prems] Suc.prems True same by (simp add: s)
  next
    case False
    have IH: "keys_ok (orphan_passes n t1) \<and> set (orphan_passes n t1) \<subseteq> set t1 \<and>
        (\<forall>k. anchored t1 k \<longrightarrow> anchored (orphan_passes n t1) k) \<and>
        (\<forall>r \<in> set (orphan_passes n t1). anchored t1 (k_key r) \<or> chain t1 n (k_key r))"
      using P by (intro Suc.IH) blast
    have "anchored t (k_key r) \<or> chain t (Suc n) (k_key r)" if "r \<in> set (orphan_passes n t1)" for r
      using IH that chain_extends [OF Suc.prems, of t1 n "k_key r"] P anchored_mono by blast
    then show ?thesis using IH P False by (auto simp: s)
  qed
qed

text \<open>
  C19: what one run of the sweeper leaves.  It ends; no journal past its retention is left for another
  run; and on a key hierarchy in which no chain of
  parents is longer than the bound on its passes, the keys left are exactly those that lead to a root,
  whatever was orphaned, however deep.
\<close>

theorem sweep_leaves_exactly_readable:
  assumes "db_ok db" and "keys_ok t" and "\<not> (\<exists>r \<in> set t. chain t ORPHAN_PASSES (k_key r))"
    and "run_sweep cutoff db t = (db', t')"
  shows "db_ok db' \<and> filter (reclaimable db' cutoff) (invocations db') = [] \<and>
    keys_ok t' \<and> set t' \<subseteq> set t \<and> k_key ` set t' = {k. anchored t k} \<and> (\<forall>r \<in> set t'. \<not> orphan t' r)"
proof -
  have out: "db' = sweep_journal cutoff db" "t' = orphan_passes ORPHAN_PASSES t"
    using assms(4) by (simp_all add: run_sweep_def sweep_orphan_keys_def)
  note O = orphan_passes_left [OF assms(2), of ORPHAN_PASSES, folded out(2)]
  have keys: "k_key ` set t' = {k. anchored t k}"
  proof (intro equalityI subsetI)
    fix k
    assume "k \<in> k_key ` set t'"
    then show "k \<in> {k. anchored t k}" using O assms(3) by blast
  next
    fix k
    assume "k \<in> {k. anchored t k}"
    then have "anchored t' k" using O by blast
    then show "k \<in> k_key ` set t'" using anchored_row by blast
  qed
  have "\<not> orphan t' r" if r: "r \<in> set t'" for r
  proof
    assume o: "orphan t' r"
    have "anchored t' (k_key r)" using keys r O by blast
    then show False
    proof cases
      case (root q)
      then show False using o keyed_unique [OF keys_okD(1), of t' q r] O r by (auto simp: orphan_def)
    next
      case (child q k)
      then have "q = r" using keyed_unique [OF keys_okD(1), of t' q r] O r by metis
      then show False using o child anchored_row [of t' k] by (auto simp: orphan_def)
    qed
  qed
  then show ?thesis using O keys sweep_journal_clean [OF assms(1)] unfolding out(1) by blast
qed

end
