(* ===== verification/Effect_Examples.thy ===== *)
theory Effect_Examples
  imports Opdb_Examples Effect_Journal Effect_Sweep
begin

section \<open>The effect driver on concrete data\<close>

text \<open>An effect with one position queued, its handler wedging and then finishing, and a small key
  hierarchy: each property of the effect theories applied to them.\<close>

definition mailer :: effect_ctx where
  "mailer = \<lparr>ec_name = ''mail'', ec_hash = ''h1''\<rparr>"

definition wedged :: attempt_env where
  "wedged = \<lparr>ae_now = 10, ae_time = ''t6'', ae_begin = Fine, ae_write = Fine, ae_quarantine = Fine, ae_row = Fine,
     ae_error = ''io'', ae_trigger = Inr (''c'', ''e''),
     ae_interpret = (\<lambda>db. (Inr \<lparr>ip_outcome = Inl ''timeout'', ip_retry_after = None, ip_transport = None\<rparr>, [])),
     ae_verify = False, ae_replay = (\<lambda>db. Inr None), ae_stopping = False\<rparr>"

definition finishing :: attempt_env where
  "finishing = wedged\<lparr>ae_interpret := (\<lambda>db. (Inr \<lparr>ip_outcome = Inr Hek_Done, ip_retry_after = None, ip_transport = None\<rparr>,
     [(''k'', 0, ''http'', ''ok'')]))\<rparr>"

definition nine :: work where
  "nine = \<lparr>w_position = 9, collapsed_from = None\<rparr>"

theorem attempt_witness:
  "\<exists>st sh' db'. attempt_caught mailer finishing ''i:1'' nine (new_shared 0) mail_db = (st, sh', db') \<and>
     st = Done \<and> finished db' ''mail'' 9"
proof -
  obtain st sh' db' where a: "attempt_caught mailer finishing ''i:1'' nine (new_shared 0) mail_db = (st, sh', db')"
    by (metis prod.collapse)
  have "fst (attempt_caught mailer finishing ''i:1'' nine (new_shared 0) mail_db) = Done" by code_simp
  then have "st = Done" using a by simp
  then show ?thesis using attempt_retires_only_terminal [OF a] a
    by (simp add: step_sound_def mailer_def nine_def)
qed

definition queued_lane :: lane_run where
  "queued_lane = \<lparr>lr_lanes = snd (admit (resuming 0 fmempty {} False) ''i:1'' 9 0 False), lr_shared = new_shared 0,
     lr_db = mail_db, lr_retired = []\<rparr>"

definition one_turn :: "nat \<Rightarrow> attempt_env" where
  "one_turn i = (if i = 0 then finishing else finishing\<lparr>ae_stopping := True\<rparr>)"


text \<open>A handler of two calls whose process dies after performing the first, then after recording the
  second, and then finishes.\<close>

definition two_calls :: script where
  "two_calls = Ask ''charge'' 0 (\<lambda>v. Ask ''mail'' 0 (\<lambda>u. Finish \<lparr>ip_outcome = Inr Hek_Done, ip_retry_after = None, ip_transport = None\<rparr>))"

definition mail_journal :: journal_ctx where
  "mail_journal = \<lparr>jc_effect = ''mail'', jc_position = 7, jc_now = ''t7'', jc_hash = (\<lambda>s. s), jc_decode = Some\<rparr>"

definition worlds :: "(call_key \<Rightarrow> answer) list" where
  "worlds = [\<lambda>key. Died_After, \<lambda>key. if fst key = ''charge'' then Answered ''http'' ''paid'' else Died_After,
     \<lambda>key. Answered ''http'' ''sent'']"

theorem recorded_calls_witness:
  "fst (snd (attempts mail_journal two_calls worlds mail_db)) =
     [Performed (''charge'', 0), Performed (''charge'', 0), Recorded (''charge'', 0),
      Performed (''mail'', 0), Performed (''mail'', 0), Recorded (''mail'', 0)] \<and>
   journaled mail_journal (snd (snd (attempts mail_journal two_calls worlds mail_db))) (''charge'', 0) \<noteq> None"
proof -
  have trace: "fst (snd (attempts mail_journal two_calls worlds mail_db)) =
     [Performed (''charge'', 0), Performed (''charge'', 0), Recorded (''charge'', 0),
      Performed (''mail'', 0), Performed (''mail'', 0), Recorded (''mail'', 0)]" by code_simp
  have ok: "ordinals_ok two_calls" by (simp add: two_calls_def)
  obtain es tr db' where a: "attempts mail_journal two_calls worlds mail_db = (es, tr, db')" by (metis prod.collapse)
  have "Recorded (''charge'', 0) \<in> set tr" using trace a by simp
  then show ?thesis using recorded_calls_happen_once [OF ok a, of _ _ "(''charge'', 0)"] a trace by simp
qed

theorem sweep_witness:
  "k_key ` set (snd (run_sweep ''t9'' mail_db (snd (delete_subject_key key_table ''Tenant'' ''t'')))) =
     {(''Shop'', ''a''), (''Shop'', ''b'')}"
proof -
  let ?t = "snd (delete_subject_key key_table ''Tenant'' ''t'')"
  have ok: "keys_ok ?t" using keys_ok_apply [OF key_table_ok, of "Erase ''Tenant'' ''t''"] by simp
  have t: "?t = [\<lparr>k_subject = ''User'', k_value = ''u'', k_wrapped = ''c1'', k_master = None, k_parent_subject = Some ''Tenant'',
        k_parent_value = Some ''t'', k_fingerprint = Some ''fp''\<rparr>,
      \<lparr>k_subject = ''Shop'', k_value = ''a'', k_wrapped = ''s1'', k_master = Some ''m1'', k_parent_subject = None,
        k_parent_value = None, k_fingerprint = None\<rparr>,
      \<lparr>k_subject = ''Shop'', k_value = ''b'', k_wrapped = ''s2'', k_master = Some ''m1'', k_parent_subject = None,
        k_parent_value = None, k_fingerprint = None\<rparr>]" by code_simp
  have only: "e = ((''User'', ''u''), (''Tenant'', ''t''))" if "e \<in> below ?t" for e
    using that unfolding t by (auto simp: below_def child_of_def k_key_def prod_eq_iff)
  have "(k, d) \<notin> below ?t ^^ ORPHAN_PASSES" for k d
  proof
    assume "(k, d) \<in> below ?t ^^ ORPHAN_PASSES"
    then have "(k, d) \<in> below ?t ^^ (Suc (Suc 30))" by (simp add: ORPHAN_PASSES_def numeral_eq_Suc)
    then obtain x y where "(k, x) \<in> below ?t" "(x, y) \<in> below ?t" by (meson relpow_Suc_E2)
    from only [OF this(1)] only [OF this(2)] show False by simp
  qed
  then have short: "\<not> (\<exists>r \<in> set ?t. chain ?t ORPHAN_PASSES (k_key r))" by (simp add: chain_def)
  obtain db' t' where r: "run_sweep ''t9'' mail_db ?t = (db', t')" by (metis prod.collapse)
  have "anchored ?t (''Shop'', ''a'')" "anchored ?t (''Shop'', ''b'')"
    using anchored.root [of "?t ! 1" ?t] anchored.root [of "?t ! 2" ?t] unfolding t by (simp_all add: k_key_def)
  moreover have "k \<in> {(''Shop'', ''a''), (''Shop'', ''b'')}" if "anchored ?t k" for k
    using that
  proof cases
    case (root r)
    then show ?thesis unfolding t by (auto simp: k_key_def)
  next
    case (child r d)
    have "(k_key r, d) \<in> below ?t" using child unfolding below_def by blast
    then have "d = (''Tenant'', ''t'')" using only by blast
    then have "\<exists>p \<in> set ?t. k_key p = (''Tenant'', ''t'')" using anchored_row [OF child(4)] by simp
    then show ?thesis unfolding t by (simp add: k_key_def)
  qed
  ultimately have "{k. anchored ?t k} = {(''Shop'', ''a''), (''Shop'', ''b'')}" by blast
  then show ?thesis using sweep_leaves_exactly_readable [OF mail_db_ok ok short r] r by simp
qed

end
