(* ===== verification/Effect_Replay.thy ===== *)
theory Effect_Replay
  imports Effect_Journal
begin

section \<open>Replaying a recorded invocation against a sealed host (src/effect.rs, src/invariant.rs)\<close>

text \<open>
  \<open>replay\<close> and the types it answers with.  The handler is a script of calls, as in \<open>Effect_Journal\<close>;
  the sealed journal answers from the rows and writes nothing.  The check reads a database a server may
  be writing, and one busy enough to refuse a read, so each read has its own view, \<open>None\<close> when it fails.
\<close>

subsection \<open>Violations\<close>

datatype mismatch = OnlyLive string | OnlyRebuilt string | Differs string string

datatype violation =
    RebuildMismatch string string string mismatch
  | ReplayDivergence string nat string
  | CheckpointRegression string nat nat
  | UnadoptedKeys "string list" nat

fun mismatch_text :: "mismatch \<Rightarrow> string" where
  "mismatch_text (OnlyLive row) = ''live has a row a rebuild does not produce: '' @ row"
| "mismatch_text (OnlyRebuilt row) = ''a rebuild produces a row live does not have: '' @ row"
| "mismatch_text (Differs live rebuilt) = ''live '' @ live @ '' but a rebuild gives '' @ rebuilt"

fun violation_text :: "violation \<Rightarrow> string" where
  "violation_text (RebuildMismatch projector entity key detail) =
     ''projector '' @ quoted projector @ '' entity '' @ quoted entity @ '' key '' @ quoted key @ '': '' @
     mismatch_text detail"
| "violation_text (ReplayDivergence effect position detail) =
     ''effect '' @ quoted effect @ '' at position '' @ nat_str position @
     '' does not replay faithfully: '' @ detail"
| "violation_text (CheckpointRegression component a b) =
     component @ '' moved its checkpoint backwards, from '' @ nat_str a @ '' to '' @ nat_str b"
| "violation_text (UnadoptedKeys subjects keys) =
     nat_str keys @ '' key(s) of '' @ joined '', '' (map quoted subjects) @
     '' are wrapped under the master although their subject declares a parent, so erasing the tenant would not reach them; `hekla adopt` moves them, and `hekla serve` does it at boot''"

subsection \<open>What a replay comes to\<close>

datatype asked = Live | Sweep_Check | Candidate

datatype replayed =
    Matched
  | NewCall string asked
  | Different string string
  | NoLongerHandled
  | SubjectErased string
  | NoJournal string
  | Reclaimed
  | TerminallyFailed string
  | OperatorSkipped
  | Unreadable string
  | Failed_Part_Way string

datatype uncovered = U_SubjectErased | U_NoJournal | U_Reclaimed | U_OperatorSkipped | U_Unreadable

fun uncovered_by :: "replayed \<Rightarrow> uncovered option" where
  "uncovered_by (SubjectErased _) = Some U_SubjectErased"
| "uncovered_by (NoJournal _) = Some U_NoJournal"
| "uncovered_by Reclaimed = Some U_Reclaimed"
| "uncovered_by OperatorSkipped = Some U_OperatorSkipped"
| "uncovered_by (Unreadable _) = Some U_Unreadable"
| "uncovered_by _ = None"

definition is_covered :: "replayed \<Rightarrow> bool" where
  "is_covered r \<longleftrightarrow> uncovered_by r = None"

fun replay_label :: "replayed \<Rightarrow> string" where
  "replay_label Matched = ''matched''"
| "replay_label (NewCall _ _) = ''new_call''"
| "replay_label (Different _ _) = ''different_calls''"
| "replay_label NoLongerHandled = ''no_longer_handled''"
| "replay_label (SubjectErased _) = ''subject_erased''"
| "replay_label (NoJournal _) = ''no_journal''"
| "replay_label Reclaimed = ''reclaimed''"
| "replay_label OperatorSkipped = ''operator_skipped''"
| "replay_label (Unreadable _) = ''unreadable''"
| "replay_label (TerminallyFailed _) = ''terminally_failed''"
| "replay_label (Failed_Part_Way _) = ''failed''"

definition reproduces :: "replayed \<Rightarrow> bool" where
  "reproduces r \<longleftrightarrow> r = Matched"

fun replayed_text :: "replayed \<Rightarrow> string" where
  "replayed_text Matched = ''it made the calls the journal records''"
| "replayed_text (NewCall call Candidate) = ''it reached a call the recorded run never made ('' @ call @ '')''"
| "replayed_text (NewCall call _) =
     ''it reached a call with no journal entry ('' @ call @ ''); a real retry would have performed it a second time''"
| "replayed_text (Different was now) =
     ''it made a different sequence of calls than the journal records (journal '' @ was @ '', replay '' @ now @ '')''"
| "replayed_text NoLongerHandled = ''no arm selects the event that triggered it, so it would not run at all''"
| "replayed_text (SubjectErased reason) = ''it cannot be replayed: '' @ reason"
| "replayed_text (NoJournal call) =
     ''it reached a call ('' @ call @ '') against a journal with no entries, and an operator skip and a run that called nothing both journal nothing, so what it would now call cannot be compared''"
| "replayed_text Reclaimed =
     ''retention reclaimed its record while the replay was running, so there is nothing left to compare against''"
| "replayed_text (TerminallyFailed detail) =
     ''it would end in a terminal `fail`, advancing past the event rather than handling it: '' @ detail"
| "replayed_text OperatorSkipped =
     ''an operator skipped it, so nothing ran it to an end and its journal is whatever the wedged run had reached''"
| "replayed_text (Unreadable detail) = ''its record could not be read, so nothing was compared: '' @ detail"
| "replayed_text (Failed_Part_Way detail) = ''it failed part-way through: '' @ detail"

definition violation_of :: "replayed \<Rightarrow> string \<Rightarrow> nat \<Rightarrow> violation option" where
  "violation_of r effect position =
     (if reproduces r \<or> \<not> is_covered r then None
      else Some (ReplayDivergence effect position (replayed_text r)))"

subsection \<open>The sealed run\<close>

definition render_key :: "call_key \<Rightarrow> string" where
  "render_key key = take 8 (fst key) @ ''#'' @ nat_str (snd key)"

definition render_keys :: "call_key list \<Rightarrow> string" where
  "render_keys keys = ''['' @ joined '', '' (map render_key keys) @ '']''"

record sealed_log =
  visited :: "call_key list"
  missed :: "string option"

text \<open>\<open>SealedJournal::recorded\<close>: a hit is remembered in order, of the misses the first.\<close>

definition sealed_recorded ::
  "journal_ctx \<Rightarrow> opdb option \<Rightarrow> string \<Rightarrow> string \<Rightarrow> nat \<Rightarrow> sealed_log \<Rightarrow> (string + string option) \<times> sealed_log" where
  "sealed_recorded j view err call ordinal lg =
     (case view of
        None \<Rightarrow> (Inl err, lg)
      | Some db \<Rightarrow>
         (case recorded j db call ordinal of
            Inl e \<Rightarrow> (Inl e, lg)
          | Inr (Some v) \<Rightarrow> (Inr (Some v), lg\<lparr>visited := visited lg @ [(jc_hash j call, ordinal)]\<rparr>)
          | Inr None \<Rightarrow>
              (Inr None, lg\<lparr>missed := (case missed lg of
                                      None \<Rightarrow> Some (call @ '' #'' @ nat_str ordinal)
                                    | Some m \<Rightarrow> Some m)\<rparr>)))"

text \<open>\<open>reads\<close> is what each lookup meets, in order; \<open>host\<close> what the sealed host answers to a call the
  journal does not hold.  \<open>SealedJournal::record\<close> writes nothing.\<close>

primrec sealed_run ::
  "journal_ctx \<Rightarrow> (nat \<Rightarrow> opdb option) \<Rightarrow> string \<Rightarrow> (call_key \<Rightarrow> string + string) \<Rightarrow> script \<Rightarrow> nat \<Rightarrow> sealed_log \<Rightarrow>
    (payload + (string + hek)) \<times> sealed_log" where
  "sealed_run j reads err host (Finish out) n lg = (Inr (ip_outcome out), lg)"
| "sealed_run j reads err host (Panic p) n lg = (Inl p, lg)"
| "sealed_run j reads err host (Ask call ordinal k) n lg =
     (case sealed_recorded j (reads n) err call ordinal lg of
        (Inl e, lg) \<Rightarrow> (Inr (Inl e), lg)
      | (Inr (Some v), lg) \<Rightarrow> sealed_run j reads err host (k v) (n + 1) lg
      | (Inr None, lg) \<Rightarrow>
          (case host (jc_hash j call, ordinal) of
             Inl e \<Rightarrow> (Inr (Inl e), lg)
           | Inr v \<Rightarrow> sealed_run j reads err host (k v) (n + 1) lg))"

record replay_views =
  rv_skip :: "opdb option"
  rv_reads :: "nat \<Rightarrow> opdb option"
  rv_keys :: "opdb option"
  rv_row :: "opdb option"
  rv_error :: string

definition terminal_failure :: "string + hek \<Rightarrow> asked \<Rightarrow> replayed option" where
  "terminal_failure outcome asked =
     (case outcome of
        Inr (Hek_Failed detail) \<Rightarrow> if asked = Candidate then Some (TerminallyFailed detail) else None
      | _ \<Rightarrow> None)"

definition reclaimed :: "journal_ctx \<Rightarrow> opdb option \<Rightarrow> asked \<Rightarrow> replayed option" where
  "reclaimed j view asked =
     (if asked \<noteq> Candidate then None
      else case view of
             None \<Rightarrow> None
           | Some db \<Rightarrow>
               if find_row inv_key (jc_effect j, as_i64 (jc_position j)) (invocations db) = None
               then Some Reclaimed else None)"

definition or_matched :: "replayed option \<Rightarrow> replayed" where
  "or_matched r = (case r of None \<Rightarrow> Matched | Some r \<Rightarrow> r)"

definition compare_calls :: "call_key list \<Rightarrow> string + hek \<Rightarrow> sealed_log \<Rightarrow> asked \<Rightarrow> replayed" where
  "compare_calls recs outcome lg asked =
     (case outcome of
        Inl err \<Rightarrow> (case missed lg of Some call \<Rightarrow> NewCall call asked | None \<Rightarrow> Failed_Part_Way err)
      | Inr _ \<Rightarrow>
          (case missed lg of
             Some call \<Rightarrow> NewCall call asked
           | None \<Rightarrow>
               if visited lg \<noteq> recs then Different (render_keys recs) (render_keys (visited lg))
               else or_matched (terminal_failure outcome asked)))"

definition compare_empty :: "journal_ctx \<Rightarrow> replay_views \<Rightarrow> string + hek \<Rightarrow> sealed_log \<Rightarrow> asked \<Rightarrow> replayed" where
  "compare_empty j rv outcome lg asked =
     (case missed lg of
        Some call \<Rightarrow> if asked = Live then NewCall call asked else NoJournal call
      | None \<Rightarrow>
          (case outcome of
             Inl err \<Rightarrow> Failed_Part_Way err
           | Inr _ \<Rightarrow>
               (case reclaimed j (rv_row rv) asked of
                  Some gone \<Rightarrow> gone
                | None \<Rightarrow> or_matched (terminal_failure outcome asked))))"

definition replay ::
  "journal_ctx \<Rightarrow> asked \<Rightarrow> replay_views \<Rightarrow> (call_key \<Rightarrow> string + string) \<Rightarrow> script \<Rightarrow> payload + replayed" where
  "replay j asked rv host script =
     (if asked \<noteq> Live \<and>
         (case rv_skip rv of None \<Rightarrow> False | Some db \<Rightarrow> invocation_skipped db (jc_effect j) (jc_position j))
      then Inr OperatorSkipped
      else
        case sealed_run j (rv_reads rv) (rv_error rv) host script 0 \<lparr>visited = [], missed = None\<rparr> of
          (Inl panic, lg) \<Rightarrow> Inl panic
        | (Inr (Inr (Hek_Skipped reason)), lg) \<Rightarrow> Inr (SubjectErased reason)
        | (Inr (Inr Hek_Ignored), lg) \<Rightarrow> Inr NoLongerHandled
        | (Inr outcome, lg) \<Rightarrow>
            (case rv_keys rv of
               None \<Rightarrow> Inr (Unreadable (rv_error rv))
             | Some db \<Rightarrow>
                 (case journal_keys db (jc_effect j) (jc_position j) of
                    [] \<Rightarrow> Inr (compare_empty j rv outcome lg asked)
                  | recs \<Rightarrow> Inr (compare_calls recs outcome lg asked))))"

end
