(* ===== verification/Effect_Replay_Sound.thy ===== *)
theory Effect_Replay_Sound
  imports Effect_Replay
begin

section \<open>What a replay says of the record and of a retry\<close>

text \<open>
  The journal of an invocation lists the calls its handler made, in order, over any crashes and retries;
  so replaying the handler that wrote it agrees with it, and what a replay reports is what a retry in
  any world would do.
\<close>

abbreviation keys_of :: "journal_ctx \<Rightarrow> opdb \<Rightarrow> call_key list" where
  "keys_of j db \<equiv> journal_keys db (jc_effect j) (jc_position j)"

text \<open>The calls a handler makes that the journal answers, up to the first it does not.\<close>

primrec trail :: "journal_ctx \<Rightarrow> opdb \<Rightarrow> script \<Rightarrow> call_key list" where
  "trail j db (Finish out) = []"
| "trail j db (Panic p) = []"
| "trail j db (Ask call ordinal k) =
     (case journaled j db (jc_hash j call, ordinal) of
        None \<Rightarrow> []
      | Some raw \<Rightarrow>
          (jc_hash j call, ordinal) # (case jc_decode j raw of None \<Rightarrow> [] | Some v \<Rightarrow> trail j db (k v)))"

text \<open>No key twice on a path: the ordinal separates repeats of one call.\<close>

primrec asks_once :: "journal_ctx \<Rightarrow> call_key set \<Rightarrow> script \<Rightarrow> bool" where
  "asks_once j seen (Finish out) = True"
| "asks_once j seen (Panic p) = True"
| "asks_once j seen (Ask call ordinal k) =
     ((jc_hash j call, ordinal) \<notin> seen \<and> (\<forall>v. asks_once j (insert (jc_hash j call, ordinal) seen) (k v)))"

subsection \<open>The journal is the trail\<close>

lemma journaled_key:
  assumes "journaled j db key = Some v" and "snd key < 2 ^ 64"
  shows "key \<in> set (keys_of j db)"
proof -
  obtain r where r: "find_row j_key ((jc_effect j, as_i64 (jc_position j)), fst key, as_i64 (snd key)) (journal db) = Some r"
    using assms(1) by (auto simp: journaled_def journal_get_def)
  from find_row_SomeD [OF this] have "r \<in> set (journal db)" and k: "j_effect r = jc_effect j"
      "j_position r = as_i64 (jc_position j)" "j_call r = fst key" "j_disambiguator r = as_i64 (snd key)"
    by (auto simp: j_key_def)
  then show ?thesis
    by (auto simp: journal_keys_def as_u64_as_i64 [OF assms(2)] intro!: image_eqI [of _ _ r])
qed

lemma record_call_keys:
  assumes "record_call j db call ordinal kind v = Inr db'" and "ordinal < 2 ^ 64"
  shows "keys_of j db' = keys_of j db @ [(jc_hash j call, ordinal)]"
  using journal_put_Inr(1) [OF assms(1) [unfolded record_call_def]]
  by (simp add: journal_keys_def as_u64_as_i64 [OF assms(2)])

lemma ordinal_fits: "ordinals_ok (Ask call ordinal k) \<Longrightarrow> ordinal < 2 ^ 64"
  by simp

lemma trail_new:
  assumes "asks_once j seen script" and "ordinals_ok script" and "set (keys_of j db) \<subseteq> seen"
  shows "trail j db script = []"
proof (cases script)
  case (Ask call ordinal k)
  then have "(jc_hash j call, ordinal) \<notin> set (keys_of j db)" using assms by auto
  then have "journaled j db (jc_hash j call, ordinal) = None"
    using journaled_key [of j db "(jc_hash j call, ordinal)"] ordinal_fits [OF assms(2) [unfolded Ask]]
    by (cases "journaled j db (jc_hash j call, ordinal)") auto
  then show ?thesis by (simp add: Ask)
qed simp_all

lemma run_script_cases:
  assumes "run_script j world (Ask call ordinal k) db = (e, trace, db')"
  obtains (bad) raw where "journaled j db (jc_hash j call, ordinal) = Some raw" "jc_decode j raw = None"
      "db' = db" "trace = []" "e = Host_Error ''the recorded result does not read back''"
    | (hit) raw v where "journaled j db (jc_hash j call, ordinal) = Some raw" "jc_decode j raw = Some v"
      "run_script j world (k v) db = (e, trace, db')"
    | (unrecorded) "journaled j db (jc_hash j call, ordinal) = None" "db' = db"
      "\<forall>out. e \<noteq> Ended out"
      "world (jc_hash j call, ordinal) \<noteq> Died_Before \<Longrightarrow> trace = [Performed (jc_hash j call, ordinal)]"
    | (garbled) kind v where "journaled j db (jc_hash j call, ordinal) = None" "record_call j db call ordinal kind v = Inr db'"
      "jc_decode j v = None" "\<forall>out. e \<noteq> Ended out"
      "trace = [Performed (jc_hash j call, ordinal), Recorded (jc_hash j call, ordinal)]"
    | (made) kind v v' db1 t where "journaled j db (jc_hash j call, ordinal) = None"
      "record_call j db call ordinal kind v = Inr db1" "jc_decode j v = Some v'"
      "run_script j world (k v') db1 = (e, t, db')"
      "trace = Performed (jc_hash j call, ordinal) # Recorded (jc_hash j call, ordinal) # t"
proof (cases "journaled j db (jc_hash j call, ordinal)")
  case (Some raw)
  then have "journal_get db (jc_effect j) (jc_position j) (jc_hash j call) ordinal = Some raw"
    by (simp add: journaled_def)
  then show thesis using assms bad [OF Some] hit [OF Some]
    by (cases "jc_decode j raw") (simp_all add: recorded_def)
next
  case None
  then have "journal_get db (jc_effect j) (jc_position j) (jc_hash j call) ordinal = None"
    by (simp add: journaled_def)
  then have R: "recorded j db call ordinal = Inr None" by (simp add: recorded_def)
  show thesis
  proof (cases "world (jc_hash j call, ordinal)")
    case (Answered kind v)
    show thesis
    proof (cases "record_call j db call ordinal kind v")
      case (Inl err)
      then show thesis using assms R Answered by (intro unrecorded [OF None]) (auto simp: Let_def)
    next
      case rec: (Inr db1)
      show thesis
      proof (cases "jc_decode j v")
        case dec: None
        then show thesis using assms R Answered rec by (intro garbled [OF None, of kind v]) (auto simp: Let_def)
      next
        case dec: (Some v')
        obtain e1 t db2 where "run_script j world (k v') db1 = (e1, t, db2)" by (metis prod.collapse)
        then show thesis using assms R Answered rec dec by (intro made [OF None rec dec]) (auto simp: Let_def)
      qed
    qed
  qed (use assms R unrecorded [OF None] in auto)
qed

lemma run_script_keeps:
  "ordinals_ok script \<Longrightarrow> run_script j world script db = (e, trace, db') \<Longrightarrow> snd key < 2 ^ 64 \<Longrightarrow>
    journaled j db key = Some v \<Longrightarrow> journaled j db' key = Some v"
  using run_script_follows by blast

lemma put_then_run:
  assumes "ordinals_ok (Ask call ordinal k)" and "record_call j db call ordinal kind v = Inr db1"
    and "run_script j world (k v') db1 = (e, t, db')"
  shows "journaled j db' (jc_hash j call, ordinal) = Some v"
proof (rule run_script_keeps [OF _ assms(3)])
  note o64 = ordinal_fits [OF assms(1)]
  show "ordinals_ok (k v')" using assms(1) by simp
  show "snd (jc_hash j call, ordinal) < 2 ^ 64" using o64 by simp
  show "journaled j db1 (jc_hash j call, ordinal) = Some v"
    using journaled_put [OF assms(2) _ o64, of "(jc_hash j call, ordinal)"] o64 by simp
qed

lemma run_script_trail:
  "ordinals_ok script \<Longrightarrow> asks_once j (set pre) script \<Longrightarrow> run_script j world script db = (e, trace, db') \<Longrightarrow>
    keys_of j db = pre @ trail j db script \<Longrightarrow> keys_of j db' = pre @ trail j db' script"
proof (induction script arbitrary: pre db e trace db')
  case (Ask call ordinal k)
  let ?key = "(jc_hash j call, ordinal)"
  note o64 = ordinal_fits [OF Ask.prems(1)]
  have ok: "ordinals_ok (k v)" "asks_once j (set (pre @ [?key])) (k v)" for v using Ask.prems(1,2) by simp_all
  note IH = Ask.IH [OF _ ok]
  from Ask.prems(3) show ?case
  proof (cases rule: run_script_cases)
    case (hit raw v)
    have "keys_of j db' = (pre @ [?key]) @ trail j db' (k v)"
      using Ask.prems(4) hit(1,2) by (intro IH [OF _ hit(3)]) simp_all
    moreover have "journaled j db' ?key = Some raw" using run_script_keeps [OF ok(1) hit(3) _ hit(1)] o64 by simp
    ultimately show ?thesis using hit(2) by simp
  next
    case (garbled kind v)
    then have "journaled j db' ?key = Some v" using journaled_put [OF garbled(2) _ o64, of ?key] o64 by simp
    then show ?thesis using Ask.prems(4) garbled(1,3) record_call_keys [OF garbled(2) o64] by simp
  next
    case (made kind v v' db1 t)
    have K: "keys_of j db1 = pre @ [?key]" using Ask.prems(4) made(1) record_call_keys [OF made(2) o64] by simp
    then have "trail j db1 (k v') = []" by (intro trail_new [OF ok(2) ok(1)]) simp
    then have "keys_of j db' = (pre @ [?key]) @ trail j db' (k v')" using K by (intro IH [OF _ made(4)]) simp_all
    then show ?thesis using made(3) put_then_run [OF Ask.prems(1) made(2,4)] by simp
  qed (use Ask.prems(4) in simp_all)
qed simp_all

lemma attempts_trail:
  "ordinals_ok script \<Longrightarrow> asks_once j {} script \<Longrightarrow> attempts j script ws db = (es, trace, db') \<Longrightarrow>
    keys_of j db = trail j db script \<Longrightarrow> keys_of j db' = trail j db' script"
proof (induction ws arbitrary: db es trace db')
  case (Cons w ws)
  obtain e t db1 where r: "run_script j w script db = (e, t, db1)" by (metis prod.collapse)
  obtain es2 t2 db2 where a: "attempts j script ws db1 = (es2, t2, db2)" by (metis prod.collapse)
  have "keys_of j db1 = trail j db1 script"
    using run_script_trail [of script j "[]", OF Cons.prems(1) _ r] Cons.prems(2,4) by simp
  from Cons.IH [OF Cons.prems(1,2) a this] show ?case using Cons.prems(3) r a by auto
qed simp

subsection \<open>The sealed run of a finished invocation\<close>

lemma ended_run_sealed:
  "ordinals_ok script \<Longrightarrow> run_script j world script db = (Ended out, trace, db') \<Longrightarrow>
    \<forall>key. journaled j view key = journaled j db' key \<Longrightarrow>
    sealed_run j (\<lambda>_. Some view) err host script n lg =
      (Inr (ip_outcome out), lg\<lparr>visited := visited lg @ trail j view script\<rparr>)"
proof (induction script arbitrary: db trace n lg)
  case (Ask call ordinal k)
  let ?key = "(jc_hash j call, ordinal)"
  have goes_on: ?case if at: "journaled j db' ?key = Some raw" "jc_decode j raw = Some v"
    and run: "run_script j world (k v) db1 = (Ended out, t, db')" for raw v db1 t
  proof -
    have R: "recorded j view call ordinal = Inr (Some v)"
      using at Ask.prems(3) by (simp add: recorded_def journaled_def)
    have "ordinals_ok (k v)" using Ask.prems(1) by simp
    from Ask.IH [OF _ this run Ask.prems(3)] R at Ask.prems(3) show ?thesis by (simp add: sealed_recorded_def)
  qed
  from Ask.prems(2) show ?case
  proof (cases rule: run_script_cases)
    case (hit raw v)
    then show ?thesis
      using goes_on [OF run_script_keeps [OF _ hit(3) _ hit(1)] hit(2,3)] Ask.prems(1) by simp
  next
    case (made kind v v' db1 t)
    then show ?thesis using goes_on [OF put_then_run [OF Ask.prems(1) made(2,4)] made(3,4)] by simp
  qed simp_all
qed simp_all

lemma same_journal:
  "journal view = journal db \<Longrightarrow> journaled j view key = journaled j db key"
  "journal view = journal db \<Longrightarrow> keys_of j view = keys_of j db"
  by (simp_all add: journaled_def journal_get_def journal_keys_def)

lemma same_trail:
  "\<forall>key. journaled j view key = journaled j db key \<Longrightarrow> trail j view script = trail j db script"
  by (induction script) (simp_all split: option.splits)

definition quiet :: "opdb \<Rightarrow> string \<Rightarrow> replay_views" where
  "quiet db err = \<lparr>rv_skip = Some db, rv_reads = (\<lambda>_. Some db), rv_keys = Some db, rv_row = Some db, rv_error = err\<rparr>"

lemmas quiet_simps = quiet_def replay_views.simps

lemma replay_quiet:
  assumes "sealed_run j (\<lambda>_. Some db) err host script 0 \<lparr>visited = [], missed = None\<rparr> = (Inr outcome, lg)"
    and "outcome \<noteq> Inr Hek_Ignored" and "\<forall>reason. outcome \<noteq> Inr (Hek_Skipped reason)"
    and "asked = Live \<or> \<not> invocation_skipped db (jc_effect j) (jc_position j)"
  shows "replay j asked (quiet db err) host script =
    Inr (if keys_of j db = [] then compare_empty j (quiet db err) outcome lg asked
         else compare_calls (keys_of j db) outcome lg asked)"
  using assms by (auto simp: replay_def quiet_simps split: sum.splits hek.splits list.splits)

text \<open>
  C20: the recorded handler replays faithfully.  Whatever processes died and whatever attempts failed
  before it, once an attempt at an invocation ends, the journal holds the calls the handler makes, in
  the order it makes them; replaying the same handler against any database that still holds that
  journal and the invocation's row makes no call the journal lacks and agrees with it, so the check
  reports no violation, unless the handler ended in \<open>fail\<close> and the program asked about is a candidate.
\<close>

theorem finished_run_replays:
  assumes "ordinals_ok script" and "asks_once j {} script" and "journal_keys db (jc_effect j) (jc_position j) = []"
    and "attempts j script ws db = (es, trace, db1)" and "run_script j world script db1 = (Ended out, t, db2)"
    and "ip_outcome out = Inr h" and "h = Hek_Done \<or> h = Hek_Failed why"
    and "journal view = journal db2" and "\<not> invocation_skipped view (jc_effect j) (jc_position j)"
    and "find_row inv_key (jc_effect j, as_i64 (jc_position j)) (invocations view) \<noteq> None"
  shows "replay j asked (quiet view err) host script =
      Inr (if asked = Candidate \<and> h = Hek_Failed why then TerminallyFailed why else Matched) \<and>
    (asked \<noteq> Candidate \<or> h = Hek_Done \<longrightarrow> (\<exists>r. replay j asked (quiet view err) host script = Inr r \<and>
      is_covered r \<and> violation_of r (jc_effect j) (jc_position j) = None))"
proof -
  have "trail j db script = []" using trail_new [OF assms(2,1)] assms(3) by simp
  then have "keys_of j db1 = trail j db1 script" using attempts_trail [OF assms(1,2,4)] assms(3) by simp
  then have "keys_of j db2 = trail j db2 script"
    using run_script_trail [of script j "[]", OF assms(1) _ assms(5)] assms(2) by simp
  moreover have same: "\<forall>key. journaled j view key = journaled j db2 key" using same_journal(1) [OF assms(8)] by simp
  ultimately have K: "keys_of j view = trail j view script"
    using same_journal(2) [OF assms(8)] same_trail [OF same] by simp
  define lg where "lg = \<lparr>visited = trail j view script, missed = None\<rparr>"
  have S: "sealed_run j (\<lambda>_. Some view) err host script 0 \<lparr>visited = [], missed = None\<rparr> = (Inr (Inr h), lg)"
    using ended_run_sealed [OF assms(1,5) same] assms(6) by (simp add: lg_def)
  have "replay j asked (quiet view err) host script =
      Inr (if keys_of j view = [] then compare_empty j (quiet view err) (Inr h) lg asked
           else compare_calls (keys_of j view) (Inr h) lg asked)"
    by (rule replay_quiet [OF S]) (use assms(7,9) in auto)
  then have R: "replay j asked (quiet view err) host script =
      Inr (if asked = Candidate \<and> h = Hek_Failed why then TerminallyFailed why else Matched)"
    using K assms(7,10)
    by (auto simp: compare_empty_def compare_calls_def lg_def terminal_failure_def or_matched_def reclaimed_def quiet_simps)
  then show ?thesis by (auto simp: is_covered_def violation_of_def reproduces_def)
qed

subsection \<open>What a retry would do\<close>

text \<open>A retry that performs nothing answers with what the sealed run answered.\<close>

fun answers :: "ended \<Rightarrow> payload + (string + hek) \<Rightarrow> bool" where
  "answers (Ended out) o' \<longleftrightarrow> Inr (ip_outcome out) = o'"
| "answers (Panicked p) o' \<longleftrightarrow> o' = Inl p"
| "answers (Host_Error err) o' \<longleftrightarrow> o' = Inr (Inl err)"
| "answers Died o' \<longleftrightarrow> False"

definition retries_quietly :: "journal_ctx \<Rightarrow> opdb \<Rightarrow> script \<Rightarrow> payload + (string + hek) \<Rightarrow> bool" where
  "retries_quietly j db script o' \<longleftrightarrow>
     (\<exists>e. answers e o' \<and> (\<forall>world. run_script j world script db = (e, [], db)))"

definition retry_performs :: "journal_ctx \<Rightarrow> opdb \<Rightarrow> script \<Rightarrow> string \<Rightarrow> bool" where
  "retry_performs j db script m \<longleftrightarrow>
     (\<exists>call ordinal. m = call @ '' #'' @ nat_str ordinal \<and> journaled j db (jc_hash j call, ordinal) = None \<and>
       (\<forall>world. world (jc_hash j call, ordinal) \<noteq> Died_Before \<longrightarrow>
          (\<exists>rest. fst (snd (run_script j world script db)) = Performed (jc_hash j call, ordinal) # rest)))"

lemma missed_stays:
  "sealed_run j reads err host script n lg = (o', lg') \<Longrightarrow> missed lg = Some m \<Longrightarrow> missed lg' = Some m"
proof (induction script arbitrary: n lg)
  case (Ask call ordinal k)
  obtain r lg1 where r: "sealed_recorded j (reads n) err call ordinal lg = (r, lg1)" by (metis prod.collapse)
  then have "missed lg1 = Some m" using Ask.prems(2)
    by (auto simp: sealed_recorded_def split: option.splits sum.splits)
  then show ?case using Ask.prems(1) Ask.IH [OF rangeI] r by (simp split: sum.splits option.splits)
qed auto

lemma first_performed:
  assumes "journaled j db (jc_hash j call, ordinal) = None" and "world (jc_hash j call, ordinal) \<noteq> Died_Before"
  shows "\<exists>rest. fst (snd (run_script j world (Ask call ordinal k) db)) = Performed (jc_hash j call, ordinal) # rest"
proof -
  obtain e trace db' where r: "run_script j world (Ask call ordinal k) db = (e, trace, db')" by (metis prod.collapse)
  then have "\<exists>rest. trace = Performed (jc_hash j call, ordinal) # rest"
    by (cases rule: run_script_cases) (use assms in simp_all)
  then show ?thesis by (simp add: r del: run_script.simps)
qed

lemma sealed_run_tells:
  "sealed_run j (\<lambda>_. Some db) err host script n lg = (o', lg') \<Longrightarrow> missed lg = None \<Longrightarrow>
    (case missed lg' of
       None \<Rightarrow> retries_quietly j db script o'
     | Some m \<Rightarrow> retry_performs j db script m)"
proof (induction script arbitrary: n lg)
  case (Finish out)
  then show ?case by (auto simp: retries_quietly_def intro!: exI [of _ "Ended out"])
next
  case (Panic p)
  then show ?case by (auto simp: retries_quietly_def intro!: exI [of _ "Panicked p"])
next
  case (Ask call ordinal k)
  let ?key = "(jc_hash j call, ordinal)"
  show ?case
  proof (cases "journaled j db ?key")
    case None
    then have rec: "recorded j db call ordinal = Inr None" by (simp add: recorded_def journaled_def)
    let ?m = "call @ '' #'' @ nat_str ordinal"
    let ?lg1 = "lg\<lparr>missed := Some ?m\<rparr>"
    have "missed lg' = Some ?m"
    proof (cases "host ?key")
      case (Inl e)
      then show ?thesis using Ask.prems rec by (auto simp: sealed_recorded_def)
    next
      case (Inr v)
      then have "sealed_run j (\<lambda>_. Some db) err host (k v) (n + 1) ?lg1 = (o', lg')"
        using Ask.prems rec by (simp add: sealed_recorded_def)
      then show ?thesis by (rule missed_stays) simp
    qed
    moreover have "\<exists>rest. fst (snd (run_script j world (Ask call ordinal k) db)) = Performed ?key # rest"
      if "world ?key \<noteq> Died_Before" for world
      using None that by (rule first_performed)
    ultimately show ?thesis using None by (auto simp: retry_performs_def simp del: run_script.simps)
  next
    case (Some raw)
    show ?thesis
    proof (cases "jc_decode j raw")
      case None
      then have rec: "recorded j db call ordinal = Inl ''the recorded result does not read back''"
        using Some by (simp add: recorded_def journaled_def)
      have "o' = Inr (Inl ''the recorded result does not read back'')" "missed lg' = None"
        using Ask.prems rec by (auto simp: sealed_recorded_def)
      moreover have "run_script j world (Ask call ordinal k) db = (Host_Error ''the recorded result does not read back'', [], db)"
        for world using rec by simp
      ultimately show ?thesis
        by (auto simp: retries_quietly_def intro!: exI [of _ "Host_Error ''the recorded result does not read back''"])
    next
      case dec: (Some v)
      then have rec: "recorded j db call ordinal = Inr (Some v)"
        using Some by (simp add: recorded_def journaled_def)
      have "sealed_run j (\<lambda>_. Some db) err host (k v) (n + 1) (lg\<lparr>visited := visited lg @ [?key]\<rparr>) = (o', lg')"
        using Ask.prems(1) rec by (simp add: sealed_recorded_def)
      from Ask.IH [OF _ this] Ask.prems(2)
      have "case missed lg' of None \<Rightarrow> retries_quietly j db (k v) o' | Some m \<Rightarrow> retry_performs j db (k v) m" by simp
      moreover have "run_script j world (Ask call ordinal k) db = run_script j world (k v) db" for world
        using rec by simp
      ultimately show ?thesis by (simp add: retries_quietly_def retry_performs_def del: run_script.simps split: option.splits)
    qed
  qed
qed

lemma replay_missed:
  assumes "replay j asked (quiet db err) host script = Inr r"
    and "sealed_run j (\<lambda>_. Some db) err host script 0 \<lparr>visited = [], missed = None\<rparr> = (o', lg)"
  shows "r = NewCall call a \<or> r = NoJournal call \<Longrightarrow> missed lg = Some call"
    and "r = Matched \<or> r = Different was now \<Longrightarrow> missed lg = None \<and> (\<exists>h. o' = Inr (Inr h))"
  using assms by (auto simp: replay_def quiet_simps compare_empty_def compare_calls_def or_matched_def
      terminal_failure_def reclaimed_def split: if_splits sum.splits hek.splits list.splits option.splits)

text \<open>
  C21: a replay tells what a retry would do.  Over any handler and any journal, a replay that matches,
  or that finds only the order or number of calls different, means a retry in whatever world performs
  nothing, writes nothing and ends; a replay that reports a call the journal lacks names the very first
  thing every retry does, in every world in which its process lives to do it.
\<close>

theorem replay_tells_retry:
  assumes "replay j asked (quiet db err) host script = Inr r"
  shows "(r = Matched \<or> r = Different was now \<longrightarrow>
      (\<exists>out h. ip_outcome out = Inr h \<and> (\<forall>world. run_script j world script db = (Ended out, [], db)))) \<and>
    (r = NewCall m a \<or> r = NoJournal m \<longrightarrow>
      (\<exists>call ordinal. m = call @ '' #'' @ nat_str ordinal \<and> journaled j db (jc_hash j call, ordinal) = None \<and>
        (\<forall>world. world (jc_hash j call, ordinal) \<noteq> Died_Before \<longrightarrow>
          (\<exists>rest. fst (snd (run_script j world script db)) = Performed (jc_hash j call, ordinal) # rest))))"
proof -
  obtain o' lg where S: "sealed_run j (\<lambda>_. Some db) err host script 0 \<lparr>visited = [], missed = None\<rparr> = (o', lg)"
    by (metis prod.collapse)
  note M = replay_missed [OF assms S] and T = sealed_run_tells [OF S]
  have "\<exists>out h. ip_outcome out = Inr h \<and> (\<forall>world. run_script j world script db = (Ended out, [], db))"
    if r: "r = Matched \<or> r = Different was now"
  proof -
    obtain h where h: "o' = Inr (Inr h)" and "missed lg = None" using M(2) [OF r] by blast
    then obtain e where "answers e (Inr (Inr h))" "\<forall>world. run_script j world script db = (e, [], db)"
      using T by (auto simp: retries_quietly_def)
    then show ?thesis by (cases e) auto
  qed
  moreover have "\<exists>call ordinal. m = call @ '' #'' @ nat_str ordinal \<and> journaled j db (jc_hash j call, ordinal) = None \<and>
        (\<forall>world. world (jc_hash j call, ordinal) \<noteq> Died_Before \<longrightarrow>
          (\<exists>rest. fst (snd (run_script j world script db)) = Performed (jc_hash j call, ordinal) # rest))"
    if r: "r = NewCall m a \<or> r = NoJournal m"
    using M(1) [OF r] T by (simp add: retry_performs_def)
  ultimately show ?thesis by blast
qed

end
