(* ===== verification/Replay_Examples.thy ===== *)
theory Replay_Examples
  imports Effect_Examples Effect_Replay_Sound
begin

section \<open>Replays on concrete data\<close>

text \<open>The invocation of \<open>Effect_Examples\<close>, which finishes after two attempts that died, replayed by the
  handler that ran it and by one that makes another call.\<close>

definition paid_db :: opdb where
  "paid_db = snd (snd (attempts mail_journal two_calls (take 2 worlds) mail_db))"

definition sent_db :: opdb where
  "sent_db = snd (snd (run_script mail_journal (worlds ! 2) two_calls paid_db))"

definition sealed_host :: "call_key \<Rightarrow> string + string" where
  "sealed_host key = Inl ''sealed''"

definition all_done :: interp where
  "all_done = \<lparr>ip_outcome = Inr Hek_Done, ip_retry_after = None, ip_transport = None\<rparr>"

theorem finished_run_witness:
  "replay mail_journal Sweep_Check (quiet sent_db ''busy'') sealed_host two_calls = Inr Matched \<and>
   journal_keys sent_db ''mail'' 7 = [(''charge'', 0), (''mail'', 0)]"
proof -
  obtain es tr where a: "attempts mail_journal two_calls (take 2 worlds) mail_db = (es, tr, paid_db)"
    unfolding paid_db_def by (metis prod.collapse)
  have "fst (run_script mail_journal (worlds ! 2) two_calls paid_db) = Ended all_done" by code_simp
  then obtain t where r: "run_script mail_journal (worlds ! 2) two_calls paid_db = (Ended all_done, t, sent_db)"
    unfolding sent_db_def by (metis prod.collapse)
  have script: "ordinals_ok two_calls" "asks_once mail_journal {} two_calls"
    by (simp_all add: two_calls_def mail_journal_def)
  have "journal_keys mail_db (jc_effect mail_journal) (jc_position mail_journal) = []"
    and "\<not> invocation_skipped sent_db (jc_effect mail_journal) (jc_position mail_journal)"
    and "find_row inv_key (jc_effect mail_journal, as_i64 (jc_position mail_journal)) (invocations sent_db) \<noteq> None"
    and K: "journal_keys sent_db ''mail'' 7 = [(''charge'', 0), (''mail'', 0)]"
    by code_simp+
  from finished_run_replays [OF script this(1) a r _ _ refl this(2,3), where h = Hek_Done and why = "''''"] K
  show ?thesis by (simp add: all_done_def)
qed

definition other_call :: script where
  "other_call = Ask ''charge'' 0 (\<lambda>v. Ask ''refund'' 0 (\<lambda>u. Finish all_done))"

theorem replay_tells_witness:
  "replay mail_journal Candidate (quiet sent_db ''busy'') sealed_host other_call = Inr (NewCall ''refund #0'' Candidate) \<and>
   (\<exists>rest. fst (snd (run_script mail_journal (\<lambda>key. Died_After) other_call sent_db)) = Performed (''refund'', 0) # rest)"
proof -
  have R: "replay mail_journal Candidate (quiet sent_db ''busy'') sealed_host other_call = Inr (NewCall ''refund #0'' Candidate)"
    by code_simp
  from replay_tells_retry [OF this, of "''''" "''''" "''refund #0''" Candidate]
  obtain call ordinal where c: "''refund #0'' = call @ '' #'' @ nat_str ordinal"
    and new: "journaled mail_journal sent_db (jc_hash mail_journal call, ordinal) = None"
    and first: "\<forall>world. world (jc_hash mail_journal call, ordinal) \<noteq> Died_Before \<longrightarrow>
          (\<exists>rest. fst (snd (run_script mail_journal world other_call sent_db)) =
            Performed (jc_hash mail_journal call, ordinal) # rest)" by auto
  let ?w = "\<lambda>key. Answered ''http'' ''ok''"
  have "fst (snd (run_script mail_journal ?w other_call sent_db)) = [Performed (''refund'', 0), Recorded (''refund'', 0)]"
    by code_simp
  then have "jc_hash mail_journal call = ''refund''" "ordinal = 0"
    using first [rule_format, of ?w] by auto
  then show ?thesis using R first [rule_format, of "\<lambda>key. Died_After"] by simp
qed

end
