(* ===== verification/Json.thy ===== *)
theory Json
  imports Prelude
begin

section \<open>JSON, heklang's JSON and recorded answers (src/heklang_host.rs, src/schema.rs)\<close>

text \<open>
  \<open>json\<close> is \<open>serde_json::Value\<close> as this build configures it: a number is its own text
  (\<open>arbitrary_precision\<close>), an object a list of its entries in key order.  \<open>hjson\<close> is heklang's \<open>Json\<close>,
  which has a credential beside its redaction.  What \<open>Invoked\<close>'s accessors answer is heklang's: they are
  the fields of \<open>invoked_api\<close>.
\<close>

datatype json =
    JNull
  | JBool bool
  | JNum string
  | JStr string
  | JArr "json list"
  | JObj "(string \<times> json) list"

datatype hjson =
    HNull
  | HBool bool
  | HNum string
  | HStr string
  | HSecret string string
  | HArr "hjson list"
  | HObj "(string \<times> hjson) list"

fun map_insert :: "string \<Rightarrow> 'a \<Rightarrow> (string \<times> 'a) list \<Rightarrow> (string \<times> 'a) list" where
  "map_insert k v [] = [(k, v)]"
| "map_insert k v ((k', v') # m) =
     (if k = k' then (k, v) # m else if k < k' then (k, v) # (k', v') # m else (k', v') # map_insert k v m)"

definition json_map :: "(string \<times> json) list \<Rightarrow> json" where
  "json_map entries = JObj (fold (\<lambda>(k, v). map_insert k v) entries [])"

fun json_get :: "json \<Rightarrow> string \<Rightarrow> json option" where
  "json_get (JObj members) k = map_of members k"
| "json_get _ k = None"

fun to_heklang_json :: "json \<Rightarrow> hjson" where
  "to_heklang_json JNull = HNull"
| "to_heklang_json (JBool flag) = HBool flag"
| "to_heklang_json (JNum number) = HNum number"
| "to_heklang_json (JStr s) = HStr s"
| "to_heklang_json (JArr items) = HArr (map to_heklang_json items)"
| "to_heklang_json (JObj members) = HObj (map (\<lambda>(name, v). (name, to_heklang_json v)) members)"

text \<open>\<open>is_number\<close>: whether serde reads this text as a number, which it then keeps as its text.\<close>

fun from_heklang_json :: "(string \<Rightarrow> bool) \<Rightarrow> hjson \<Rightarrow> json" where
  "from_heklang_json is_number HNull = JNull"
| "from_heklang_json is_number (HBool flag) = JBool flag"
| "from_heklang_json is_number (HNum s) = (if is_number s then JNum s else JStr s)"
| "from_heklang_json is_number (HStr s) = JStr s"
| "from_heklang_json is_number (HSecret content redacted) = JStr redacted"
| "from_heklang_json is_number (HArr items) = JArr (map (from_heklang_json is_number) items)"
| "from_heklang_json is_number (HObj members) =
     JObj (fold (\<lambda>(name, v). map_insert name v) (map (\<lambda>(name, v). (name, from_heklang_json is_number v)) members) [])"

fun scalar_to_string :: "json \<Rightarrow> string option" where
  "scalar_to_string (JStr s) = Some s"
| "scalar_to_string (JNum number) = Some number"
| "scalar_to_string (JBool flag) = Some (if flag then ''true'' else ''false'')"
| "scalar_to_string _ = None"

subsection \<open>Recorded answers\<close>

datatype invoked = Invoked_Ok | Invoked_Reject string string | Invoked_Invalid string

record invoked_api =
  iv_ok :: "invoked \<Rightarrow> bool"
  iv_code :: "invoked \<Rightarrow> string option"
  iv_message :: "invoked \<Rightarrow> string option"

datatype answer_recorded = Response int hjson | Was_Invoked invoked | Was_Now int | Erased

definition parse_digits :: "string \<Rightarrow> nat option" where
  "parse_digits s = (if s \<noteq> [] \<and> (\<forall>c \<in> set s. is_digit c) then Some (str_nat 0 s) else None)"

definition parse_i64 :: "string \<Rightarrow> int option" where
  "parse_i64 s =
     (case (case s of
              [] \<Rightarrow> None
            | c # cs \<Rightarrow>
                if c = CHR ''-'' then map_option (\<lambda>n. - int n) (parse_digits cs)
                else if c = CHR ''+'' then map_option int (parse_digits cs)
                else map_option int (parse_digits s)) of
        None \<Rightarrow> None
      | Some i \<Rightarrow> if - (2 ^ 63) \<le> i \<and> i < 2 ^ 63 then Some i else None)"

fun json_i64 :: "json \<Rightarrow> int option" where
  "json_i64 (JNum number) = parse_i64 number"
| "json_i64 _ = None"

fun json_str :: "json \<Rightarrow> string option" where
  "json_str (JStr s) = Some s"
| "json_str _ = None"

fun json_bool :: "json \<Rightarrow> bool option" where
  "json_bool (JBool b) = Some b"
| "json_bool _ = None"

definition json_text_or_null :: "string option \<Rightarrow> json" where
  "json_text_or_null s = (case s of None \<Rightarrow> JNull | Some s \<Rightarrow> JStr s)"

definition encode_recorded :: "(string \<Rightarrow> bool) \<Rightarrow> invoked_api \<Rightarrow> answer_recorded \<Rightarrow> string \<times> json" where
  "encode_recorded is_number api recorded =
     (case recorded of
        Response status body \<Rightarrow>
          (''http'', json_map [(''status'', JNum (int_str status)), (''body'', from_heklang_json is_number body)])
      | Was_Invoked outcome \<Rightarrow>
          (''invoke'', json_map [(''ok'', JBool (iv_ok api outcome)),
             (''code'', json_text_or_null (iv_code api outcome)),
             (''message'', json_text_or_null (iv_message api outcome))])
      | Was_Now micros \<Rightarrow> (''now'', json_map [(''micros'', JNum (int_str micros))])
      | Erased \<Rightarrow> (''erase'', json_map []))"

definition invoked :: "bool \<Rightarrow> string option \<Rightarrow> string option \<Rightarrow> invoked" where
  "invoked ok code msg =
     (if ok then Invoked_Ok
      else case code of
             Some code \<Rightarrow> Invoked_Reject code (case msg of None \<Rightarrow> [] | Some m \<Rightarrow> m)
           | None \<Rightarrow> Invoked_Invalid (case msg of None \<Rightarrow> [] | Some m \<Rightarrow> m))"

definition json_field :: "json \<Rightarrow> string \<Rightarrow> (json \<Rightarrow> 'a option) \<Rightarrow> 'a option" where
  "json_field v name as = (case json_get v name of None \<Rightarrow> None | Some x \<Rightarrow> as x)"

definition decode_recorded :: "json \<Rightarrow> answer_recorded" where
  "decode_recorded v =
     (case json_field v ''micros'' json_i64 of
        Some micros \<Rightarrow> Was_Now micros
      | None \<Rightarrow>
     (case json_field v ''status'' json_i64 of
        Some status \<Rightarrow>
          Response status (case json_get v ''body'' of None \<Rightarrow> HNull | Some b \<Rightarrow> to_heklang_json b)
      | None \<Rightarrow>
     (case json_field v ''ok'' json_bool of
        Some ok \<Rightarrow> Was_Invoked (invoked ok (json_field v ''code'' json_str) (json_field v ''message'' json_str))
      | None \<Rightarrow> Erased)))"

subsection \<open>Ordered entries\<close>

lemma map_insert_last: "\<forall>x \<in> fst ` set m. x < k \<Longrightarrow> map_insert k v m = m @ [(k, v)]"
  by (induction m) auto

lemma fold_map_insert_sorted:
  "sorted_wrt (<) (map fst (acc @ fs)) \<Longrightarrow> fold (\<lambda>(k, v). map_insert k v) fs acc = acc @ fs"
proof (induction fs arbitrary: acc)
  case (Cons f fs)
  obtain k v where f: "f = (k, v)" by (cases f)
  have "map_insert k v acc = acc @ [(k, v)]"
    using Cons.prems by (intro map_insert_last) (auto simp: f sorted_wrt_append)
  then show ?case using Cons.IH [of "acc @ [(k, v)]"] Cons.prems by (simp add: f)
qed simp

lemma fst_map_insert: "fst ` set (map_insert k v m) = insert k (fst ` set m)"
  by (induction k v m rule: map_insert.induct) auto

lemma sorted_map_insert: "sorted_wrt (<) (map fst m) \<Longrightarrow> sorted_wrt (<) (map fst (map_insert k v m))"
proof (induction m)
  case (Cons kv m)
  obtain k' v' where kv: "kv = (k', v')" by (cases kv)
  show ?case
  proof (cases "k < k' \<or> k = k'")
    case True
    then show ?thesis using Cons.prems by (auto simp: kv)
  next
    case False
    then have "k' < k" by auto
    then show ?thesis using Cons fst_map_insert [of k v m] by (auto simp: kv)
  qed
qed simp

lemma sorted_fold_map_insert: "sorted_wrt (<) (map fst acc) \<Longrightarrow> sorted_wrt (<) (map fst (fold (\<lambda>(k, v). map_insert k v) fs acc))"
  by (induction fs arbitrary: acc) (auto simp: sorted_map_insert)

lemma map_of_map_insert: "map_of (map_insert k v m) = (map_of m)(k \<mapsto> v)"
  by (induction m) auto

lemma fold_map_insert_of: "map_of (fold (\<lambda>(k, v). map_insert k v) fs acc) = map_of acc ++ map_of (rev fs)"
  by (induction fs arbitrary: acc) (auto simp: map_of_map_insert)

subsection \<open>Round trips\<close>

fun wf_json :: "(string \<Rightarrow> bool) \<Rightarrow> json \<Rightarrow> bool" where
  "wf_json is_number (JNum s) \<longleftrightarrow> is_number s"
| "wf_json is_number (JArr items) \<longleftrightarrow> (\<forall>i \<in> set items. wf_json is_number i)"
| "wf_json is_number (JObj members) \<longleftrightarrow>
     sorted_wrt (<) (map fst members) \<and> (\<forall>f \<in> set members. wf_json is_number (snd f))"
| "wf_json is_number _ \<longleftrightarrow> True"

fun plain :: "(string \<Rightarrow> bool) \<Rightarrow> hjson \<Rightarrow> bool" where
  "plain is_number (HNum s) \<longleftrightarrow> is_number s"
| "plain is_number (HSecret content redacted) \<longleftrightarrow> False"
| "plain is_number (HArr items) \<longleftrightarrow> (\<forall>i \<in> set items. plain is_number i)"
| "plain is_number (HObj members) \<longleftrightarrow>
     sorted_wrt (<) (map fst members) \<and> (\<forall>f \<in> set members. plain is_number (snd f))"
| "plain is_number _ \<longleftrightarrow> True"

lemma fst_mapped [simp]: "map fst (map (\<lambda>(name, v). (name, f v)) members) = map fst members"
  by (induction members) auto

lemma from_to_json: "wf_json is_number v \<Longrightarrow> from_heklang_json is_number (to_heklang_json v) = v"
proof (induction v)
  case (JArr items)
  then show ?case by (simp add: map_idI)
next
  case (JObj members)
  have "map (\<lambda>(name, v). (name, from_heklang_json is_number v)) (map (\<lambda>(name, v). (name, to_heklang_json v)) members) = members"
    unfolding map_map by (rule map_idI) (use JObj in force)
  then show ?case using JObj.prems fold_map_insert_sorted [of "[]" members] by simp
qed simp_all

lemma to_from_json: "plain is_number v \<Longrightarrow> to_heklang_json (from_heklang_json is_number v) = v"
proof (induction v)
  case (HArr items)
  then show ?case by (simp add: map_idI)
next
  case (HObj members)
  let ?fs = "map (\<lambda>(name, v). (name, from_heklang_json is_number v)) members"
  have "map (\<lambda>(name, v). (name, to_heklang_json v)) ?fs = members"
    unfolding map_map by (rule map_idI) (use HObj in force)
  moreover have "fold (\<lambda>(k, v). map_insert k v) ?fs [] = ?fs"
    using HObj.prems fold_map_insert_sorted [of "[]" ?fs] by (simp del: map_map)
  ultimately show ?case by simp
qed simp_all

text \<open>What a value shows of its credentials is their redaction.\<close>

fun forget :: "hjson \<Rightarrow> hjson" where
  "forget (HSecret content redacted) = HStr redacted"
| "forget (HArr items) = HArr (map forget items)"
| "forget (HObj members) = HObj (map (\<lambda>(name, v). (name, forget v)) members)"
| "forget v = v"

lemma from_forget: "from_heklang_json is_number (forget v) = from_heklang_json is_number v"
proof (induction v)
  case (HObj members)
  have "map (\<lambda>(name, v). (name, from_heklang_json is_number v)) (map (\<lambda>(name, v). (name, forget v)) members) =
      map (\<lambda>(name, v). (name, from_heklang_json is_number v)) members"
    using HObj by (auto simp: case_prod_unfold)
  then show ?case by (simp del: map_map)
qed simp_all

lemma parse_digits_nat_str: "parse_digits (nat_str n) = Some n"
  using nat_str_digits by (simp add: parse_digits_def text_simps)

lemma parse_i64_int_str: "- (2 ^ 63) \<le> i \<Longrightarrow> i < 2 ^ 63 \<Longrightarrow> parse_i64 (int_str i) = Some i"
proof (cases "i < 0")
  case False
  obtain c cs where n: "nat_str (nat i) = c # cs" by (metis nat_str_not_Nil list.exhaust)
  then have "is_digit c" using nat_str_digits by (metis list.set_intros(1))
  then have "c \<noteq> CHR ''-''" "c \<noteq> CHR ''+''" by (auto simp: is_digit_def)
  then show "- (2 ^ 63) \<le> i \<Longrightarrow> i < 2 ^ 63 \<Longrightarrow> parse_i64 (int_str i) = Some i"
    using False parse_digits_nat_str [of "nat i"] n by (simp add: parse_i64_def int_str_def)
qed (simp add: parse_i64_def int_str_def parse_digits_nat_str)

text \<open>heklang's accessors tell the three outcomes apart by what they carry.\<close>

definition invoked_api_ok :: "invoked_api \<Rightarrow> bool" where
  "invoked_api_ok api \<longleftrightarrow>
     (\<forall>r. iv_ok api r \<longleftrightarrow> r = Invoked_Ok) \<and>
     (\<forall>c m. iv_code api (Invoked_Reject c m) = Some c \<and> iv_message api (Invoked_Reject c m) = Some m) \<and>
     (\<forall>m. iv_code api (Invoked_Invalid m) = None \<and> iv_message api (Invoked_Invalid m) = Some m)"

fun recordable :: "answer_recorded \<Rightarrow> bool" where
  "recordable (Response status body) \<longleftrightarrow> - (2 ^ 63) \<le> status \<and> status < 2 ^ 63"
| "recordable (Was_Now micros) \<longleftrightarrow> - (2 ^ 63) \<le> micros \<and> micros < 2 ^ 63"
| "recordable _ \<longleftrightarrow> True"

fun read_back :: "(string \<Rightarrow> bool) \<Rightarrow> answer_recorded \<Rightarrow> answer_recorded" where
  "read_back is_number (Response status body) = Response status (to_heklang_json (from_heklang_json is_number body))"
| "read_back is_number r = r"

lemmas recorded_defs = encode_recorded_def decode_recorded_def json_map_def json_field_def

lemma decode_encode_recorded:
  assumes "invoked_api_ok api" and "recordable r"
  shows "decode_recorded (snd (encode_recorded is_number api r)) = read_back is_number r"
proof (cases r)
  case (Response status body)
  then show ?thesis using assms(2) by (simp add: recorded_defs parse_i64_int_str)
next
  case (Was_Invoked outcome)
  then show ?thesis using assms(1)
    by (cases outcome) (auto simp: recorded_defs invoked_api_ok_def invoked_def json_text_or_null_def split: option.splits)
next
  case (Was_Now micros)
  then show ?thesis using assms(2) by (simp add: recorded_defs parse_i64_int_str)
qed (simp add: recorded_defs)

text \<open>
  C26: what the journal keeps is read back, and keeps no credential.  A recorded answer decodes to the
  answer that was encoded; a response's body comes back as it was when it carried no credential, and in
  every case as its redaction would, so no credential reaches the row.
\<close>

theorem recorded_answer_reads_back:
  assumes "invoked_api_ok api" and "recordable r"
  shows "decode_recorded (snd (encode_recorded is_number api r)) = read_back is_number r \<and>
    (\<forall>status body. r = Response status body \<longrightarrow>
       (plain is_number body \<longrightarrow> read_back is_number r = r) \<and>
       encode_recorded is_number api (Response status (forget body)) = encode_recorded is_number api r)"
  using decode_encode_recorded [OF assms] by (auto simp: to_from_json from_forget encode_recorded_def)

end
