(* ===== verification/Crypto.thy ===== *)
theory Crypto
  imports Opdb_Introspect Lane
begin

section \<open>Encryption of personal data (src/crypto.rs)\<close>

text \<open>
  The key store: per-subject secrets, wrapped under a master key or under a key derived from the
  parent's secret, in the \<open>subject_key\<close> table.  Every taking of the database lock is one atomic step;
  between two of them other threads may change the table, which is \<open>kw_others\<close>, and a statement may
  fail, which is \<open>kw_fault\<close>.  The ciphers, the hash, base64, the UTF-8 check and the operating system's
  entropy come from other crates: they are the fields of \<open>cipher\<close>.
\<close>

record cipher =
  c_random :: "nat \<Rightarrow> string + bytes"
  c_gcm_seal :: "bytes \<Rightarrow> bytes \<Rightarrow> bytes \<Rightarrow> bytes \<Rightarrow> bytes"
  c_gcm_open :: "bytes \<Rightarrow> bytes \<Rightarrow> bytes \<Rightarrow> bytes \<Rightarrow> bytes option"
  c_siv_seal :: "bytes \<Rightarrow> bytes \<Rightarrow> bytes \<Rightarrow> bytes"
  c_siv_open :: "bytes \<Rightarrow> bytes \<Rightarrow> bytes \<Rightarrow> bytes option"
  c_b64 :: "bytes \<Rightarrow> string"
  c_unb64 :: "string \<Rightarrow> bytes option"
  c_utf8 :: "bytes \<Rightarrow> bool"
  c_sha :: "bytes \<Rightarrow> bytes"

definition SIV_KEY_LEN :: nat where "SIV_KEY_LEN = 64"
definition MASTER_KEY_LEN :: nat where "MASTER_KEY_LEN = 32"
definition WRAP_NONCE_LEN :: nat where "WRAP_NONCE_LEN = 12"
definition AD_VERSION :: nat where "AD_VERSION = 1"
definition WRAP_AD_VERSION :: nat where "WRAP_AD_VERSION = 1"
definition MAX_SUBJECT_DEPTH :: nat where "MAX_SUBJECT_DEPTH = 32"
definition MINT_ATTEMPTS :: nat where "MINT_ATTEMPTS = 32"
definition GLOBAL_SUBJECT_VALUE :: string where "GLOBAL_SUBJECT_VALUE = ''global''"
definition KEK_DOMAIN :: bytes where "KEK_DOMAIN = ''hekla:subject-kek:v1''"
definition PARENT_FP_DOMAIN :: bytes where "PARENT_FP_DOMAIN = ''hekla:subject-parent-fp:v1''"

subsection \<open>Master keys\<close>

record master_keys =
  primary_id :: string
  m_keys :: "(string, bytes) fmap"

definition new_masters :: "cipher \<Rightarrow> bytes \<Rightarrow> bytes list \<Rightarrow> master_keys" where
  "new_masters c primary previous =
     \<lparr>primary_id = sha256_hex (c_sha c) primary,
      m_keys = fmupd (sha256_hex (c_sha c) primary) primary
        (fold (\<lambda>k. fmupd (sha256_hex (c_sha c) k) k) previous fmempty)\<rparr>"

definition primary_key :: "master_keys \<Rightarrow> bytes" where
  "primary_key m = (case fmlookup (m_keys m) (primary_id m) of None \<Rightarrow> [] | Some k \<Rightarrow> k)"

definition decode_master_key :: "(string \<Rightarrow> bytes option) \<Rightarrow> (string \<Rightarrow> bytes option) \<Rightarrow> (string \<Rightarrow> string) \<Rightarrow> string \<Rightarrow> string + bytes" where
  "decode_master_key url_safe standard trim encoded =
     (case (case url_safe (trim encoded) of Some b \<Rightarrow> Some b | None \<Rightarrow> standard (trim encoded)) of
        None \<Rightarrow> Inl ''master key is not valid base64''
      | Some b \<Rightarrow>
          if length b = MASTER_KEY_LEN then Inr b
          else Inl (''master key must be exactly 32 bytes (base64-encoded)''))"

subsection \<open>Associated data and derived keys\<close>

definition be32 :: "nat \<Rightarrow> bytes" where
  "be32 n = map (\<lambda>i. char_of (n div 256 ^ i mod 256)) [3, 2, 1, 0]"

definition prefixed :: "string \<Rightarrow> bytes" where
  "prefixed part = be32 (length part) @ part"

definition child_aad :: "string \<Rightarrow> string \<Rightarrow> string \<Rightarrow> string \<Rightarrow> bytes" where
  "child_aad subject v parent_subject parent_value =
     char_of WRAP_AD_VERSION # concat (map prefixed [subject, v, parent_subject, parent_value])"

definition associated_data :: "string \<Rightarrow> bytes" where
  "associated_data field = char_of AD_VERSION # field"

definition child_kek :: "cipher \<Rightarrow> bytes \<Rightarrow> bytes" where
  "child_kek c parent_secret = c_sha c (KEK_DOMAIN @ parent_secret)"

definition parent_fingerprint :: "cipher \<Rightarrow> bytes \<Rightarrow> string" where
  "parent_fingerprint c parent_secret = sha256_hex (c_sha c) (PARENT_FP_DOMAIN @ parent_secret)"

definition encrypt_with :: "cipher \<Rightarrow> bytes \<Rightarrow> string \<Rightarrow> bytes \<Rightarrow> string + string" where
  "encrypt_with c secret field plaintext =
     (if length secret \<noteq> SIV_KEY_LEN then Inl ''invalid SIV key length''
      else Inr (c_b64 c (c_siv_seal c secret (associated_data field) plaintext)))"

definition decrypt_with :: "cipher \<Rightarrow> bytes \<Rightarrow> string \<Rightarrow> string \<Rightarrow> string + bytes" where
  "decrypt_with c secret field ciphertext =
     (if length secret \<noteq> SIV_KEY_LEN then Inl ''invalid SIV key length''
      else case c_unb64 c ciphertext of
             None \<Rightarrow> Inl ''ciphertext is not valid base64url''
           | Some b \<Rightarrow>
               ok_or (c_siv_open c secret (associated_data field) b)
                 ''subject decryption failed (tampered ciphertext or scheme mismatch)'')"

definition plaintext_under :: "cipher \<Rightarrow> bytes \<Rightarrow> string \<Rightarrow> string \<Rightarrow> string option" where
  "plaintext_under c secret field ciphertext =
     (case decrypt_with c secret field ciphertext of
        Inl _ \<Rightarrow> None
      | Inr b \<Rightarrow> if c_utf8 c b then Some b else None)"

definition unwrap_key_under :: "cipher \<Rightarrow> bytes \<Rightarrow> bytes \<Rightarrow> bytes \<Rightarrow> string + bytes" where
  "unwrap_key_under c key b aad =
     (if length b \<le> WRAP_NONCE_LEN then Inl ''wrapped key is too short''
      else ok_or (c_gcm_open c key (take WRAP_NONCE_LEN b) aad (drop WRAP_NONCE_LEN b))
             ''unwrapping a subject key failed (wrong key?)'')"

definition unwrap_key :: "cipher \<Rightarrow> bytes \<Rightarrow> bytes \<Rightarrow> string + bytes" where
  "unwrap_key c master b = unwrap_key_under c master b []"

subsection \<open>The store and its critical sections\<close>

record key_world =
  kw_cipher :: cipher
  kw_masters :: master_keys
  kw_others :: "nat \<Rightarrow> key_table \<Rightarrow> key_table"
  kw_fault :: "nat \<Rightarrow> string option"

type_synonym secret_cache = "(string \<times> string, bytes option) fmap"

record keystore =
  ks_table :: key_table
  ks_turn :: nat
  ks_entropy :: nat
  ks_cache :: "secret_cache option"

type_synonym 'a ks = "keystore \<Rightarrow> (string + 'a) \<times> keystore"

definition ret :: "'a \<Rightarrow> 'a ks" where
  "ret x s = (Inr x, s)"

definition fails :: "string \<Rightarrow> 'a ks" where
  "fails e s = (Inl e, s)"

definition lift :: "string + 'a \<Rightarrow> 'a ks" where
  "lift r s = (r, s)"

definition bind_ks :: "'a ks \<Rightarrow> ('a \<Rightarrow> 'b ks) \<Rightarrow> 'b ks" where
  "bind_ks m f s = (case m s of (Inl e, s) \<Rightarrow> (Inl e, s) | (Inr x, s) \<Rightarrow> f x s)"

definition locked :: "key_world \<Rightarrow> (key_table \<Rightarrow> 'a \<times> key_table) \<Rightarrow> 'a ks" where
  "locked w f s =
     (let t = kw_others w (ks_turn s) (ks_table s);
          s = s\<lparr>ks_turn := ks_turn s + 1\<rparr>
      in case kw_fault w (ks_turn s - 1) of
           Some e \<Rightarrow> (Inl e, s\<lparr>ks_table := t\<rparr>)
         | None \<Rightarrow> (case f t of (x, t) \<Rightarrow> (Inr x, s\<lparr>ks_table := t\<rparr>)))"

definition locked_read :: "key_world \<Rightarrow> (key_table \<Rightarrow> 'a) \<Rightarrow> 'a ks" where
  "locked_read w f = locked w (\<lambda>t. (f t, t))"

definition draw :: "key_world \<Rightarrow> nat \<Rightarrow> bytes ks" where
  "draw w n s =
     (map_sum id (take n) (c_random (kw_cipher w) (ks_entropy s)), s\<lparr>ks_entropy := ks_entropy s + 1\<rparr>)"

definition random_secret :: "key_world \<Rightarrow> bytes ks" where
  "random_secret w = draw w SIV_KEY_LEN"

definition wrap_key_under :: "key_world \<Rightarrow> bytes \<Rightarrow> bytes \<Rightarrow> bytes \<Rightarrow> bytes ks" where
  "wrap_key_under w key secret aad =
     bind_ks (draw w WRAP_NONCE_LEN)
       (\<lambda>nonce. ret (nonce @ c_gcm_seal (kw_cipher w) key nonce aad secret))"

definition wrap_key :: "key_world \<Rightarrow> bytes \<Rightarrow> bytes \<Rightarrow> bytes ks" where
  "wrap_key w master secret = wrap_key_under w master secret []"

definition master_for :: "key_world \<Rightarrow> string \<Rightarrow> string \<Rightarrow> string + bytes" where
  "master_for w master_id subject =
     ok_or (fmlookup (m_keys (kw_masters w)) master_id)
       (''cannot unwrap subject `'' @ subject @ ''`: master key `'' @ master_id @
        ''` is not configured (was HEKLA_MASTER_KEY rotated away without keeping the previous key?)'')"

subsection \<open>Loading a secret\<close>

definition neither_text :: "string \<Rightarrow> string \<Rightarrow> string" where
  "neither_text subject v =
     ''subject `'' @ subject @ ''` = `'' @ v @
     ''` is wrapped under neither a master nor a parent, which the schema forbids: the row has been edited outside hekla''"

definition too_deep_text :: "string \<Rightarrow> string" where
  "too_deep_text subject =
     ''subject `'' @ subject @ ''` is more than '' @ nat_str MAX_SUBJECT_DEPTH @
     '' levels deep, which a declared hierarchy cannot be: the key store has a cycle in its parent pointers''"

text \<open>\<open>load\<close> answers for the parent: \<open>load_secret_at\<close> one level up, through the cache.\<close>

definition open_row ::
  "key_world \<Rightarrow> (string \<Rightarrow> string \<Rightarrow> bytes option ks) \<Rightarrow> string \<Rightarrow> string \<Rightarrow> subject_key \<Rightarrow> bytes option ks" where
  "open_row w load subject v row =
     (case wrapping_of row of
        Master master_id \<Rightarrow>
          lift (bind_res (master_for w master_id subject)
                 (\<lambda>master. map_sum id Some (unwrap_key (kw_cipher w) master (wrapped row))))
      | Parent p \<Rightarrow>
          bind_ks (load (p_subject p) (p_value p))
            (\<lambda>found. case found of
               None \<Rightarrow> ret None
             | Some parent \<Rightarrow>
                 if p_fingerprint p \<noteq> parent_fingerprint (kw_cipher w) parent then ret None
                 else lift (map_sum id Some (unwrap_key_under (kw_cipher w) (child_kek (kw_cipher w) parent)
                              (wrapped row) (child_aad subject v (p_subject p) (p_value p)))))
      | Neither \<Rightarrow>
          fails (neither_text subject v))"

definition cached ::
  "(string \<Rightarrow> string \<Rightarrow> bytes option ks) \<Rightarrow> string \<Rightarrow> string \<Rightarrow> bytes option ks" where
  "cached load subject v s =
     (case ks_cache s of
        None \<Rightarrow> load subject v s
      | Some cache \<Rightarrow>
          (case fmlookup cache (subject, v) of
             Some hit \<Rightarrow> (Inr hit, s)
           | None \<Rightarrow>
               bind_ks (load subject v)
                 (\<lambda>loaded s. (Inr loaded, s\<lparr>ks_cache := map_option (fmupd (subject, v) loaded) (ks_cache s)\<rparr>)) s))"

text \<open>\<open>levels\<close> is how many levels the walk may still go up: \<open>MAX_SUBJECT_DEPTH + 1 - depth\<close>.\<close>

primrec load_secret_at :: "key_world \<Rightarrow> nat \<Rightarrow> string \<Rightarrow> string \<Rightarrow> bytes option ks" where
  "load_secret_at w 0 subject v =
     fails (too_deep_text subject)"
| "load_secret_at w (Suc levels) subject v =
     bind_ks (locked_read w (\<lambda>t. get_subject_key t subject v))
       (\<lambda>found. case found of
          None \<Rightarrow> ret None
        | Some row \<Rightarrow> open_row w (cached (load_secret_at w levels)) subject v row)"

definition load_secret :: "key_world \<Rightarrow> string \<Rightarrow> string \<Rightarrow> bytes option ks" where
  "load_secret w = load_secret_at w (MAX_SUBJECT_DEPTH + 1)"

subsection \<open>Minting\<close>

text \<open>\<open>None\<close> is an attempt that lost a race; another is made, up to \<open>MINT_ATTEMPTS\<close>.\<close>

primrec attempts_at :: "nat \<Rightarrow> 'a option ks \<Rightarrow> 'a option ks" where
  "attempts_at 0 m = ret None"
| "attempts_at (Suc n) m = bind_ks m (\<lambda>r. case r of Some x \<Rightarrow> ret (Some x) | None \<Rightarrow> attempts_at n m)"

definition candidate_key ::
  "key_world \<Rightarrow> ((string \<times> string) list \<Rightarrow> bytes option ks) \<Rightarrow> string \<Rightarrow> string \<Rightarrow> (string \<times> string) list \<Rightarrow> bytes \<Rightarrow>
    (subject_key \<times> bytes option) option ks" where
  "candidate_key w mint subject v ancestors fresh =
     (case ancestors of
        [] \<Rightarrow>
          bind_ks (wrap_key w (primary_key (kw_masters w)) fresh)
            (\<lambda>b. ret (Some (\<lparr>wrapped = b, wrapping_of = Master (primary_id (kw_masters w))\<rparr>, None)))
      | (parent_subject, parent_value) # _ \<Rightarrow>
          bind_ks (mint ancestors)
            (\<lambda>minted. case minted of
               None \<Rightarrow> ret None
             | Some parent \<Rightarrow>
                 bind_ks (wrap_key_under w (child_kek (kw_cipher w) parent) fresh
                            (child_aad subject v parent_subject parent_value))
                   (\<lambda>b. ret (Some (\<lparr>wrapped = b, wrapping_of = Parent \<lparr>p_subject = parent_subject,
                      p_value = parent_value, p_fingerprint = parent_fingerprint (kw_cipher w) parent\<rparr>\<rparr>,
                      Some parent)))))"

definition open_persisted ::
  "key_world \<Rightarrow> string \<Rightarrow> string \<Rightarrow> (string \<times> string) list \<Rightarrow> bytes option \<Rightarrow> subject_key \<Rightarrow> bytes option ks" where
  "open_persisted w subject v ancestors minted persisted =
     (case (wrapping_of persisted, minted) of
        (Master master_id, _) \<Rightarrow>
          lift (bind_res (master_for w master_id subject)
                 (\<lambda>master. map_sum id Some (unwrap_key (kw_cipher w) master (wrapped persisted))))
      | (Parent p, Some parent) \<Rightarrow>
          if take 1 ancestors = [(p_subject p, p_value p)] \<and> p_fingerprint p = parent_fingerprint (kw_cipher w) parent
          then lift (map_sum id Some (unwrap_key_under (kw_cipher w) (child_kek (kw_cipher w) parent)
                       (wrapped persisted) (child_aad subject v (p_subject p) (p_value p))))
          else load_secret w subject v
      | _ \<Rightarrow> load_secret w subject v)"

primrec try_mint_in :: "key_world \<Rightarrow> (string \<times> string) list \<Rightarrow> bytes option ks" where
  "try_mint_in w [] = fails ''a subject chain cannot be empty''"
| "try_mint_in w (k # ancestors) =
     bind_ks (locked_read w (\<lambda>t. get_subject_key t (fst k) (snd k)))
       (\<lambda>existing.
         bind_ks (case existing of
                    None \<Rightarrow> ret None
                  | Some row \<Rightarrow> open_row w (cached (load_secret_at w MAX_SUBJECT_DEPTH)) (fst k) (snd k) row)
           (\<lambda>opened. case opened of
              Some secret \<Rightarrow> ret (Some secret)
            | None \<Rightarrow>
                bind_ks (random_secret w)
                  (\<lambda>fresh. bind_ks (candidate_key w (\<lambda>_. attempts_at MINT_ATTEMPTS (try_mint_in w ancestors))
                                     (fst k) (snd k) ancestors fresh)
                    (\<lambda>made. case made of
                       None \<Rightarrow> ret None
                     | Some (cand, parent) \<Rightarrow>
                         bind_ks (locked w (\<lambda>t. get_or_insert_subject_key t (fst k) (snd k) cand existing))
                           (\<lambda>row. case row of
                              None \<Rightarrow> fails ''subject key missing immediately after insert''
                            | Some persisted \<Rightarrow> open_persisted w (fst k) (snd k) ancestors parent persisted)))))"

definition mint_secret_in :: "key_world \<Rightarrow> (string \<times> string) list \<Rightarrow> bytes option ks" where
  "mint_secret_in w chain = attempts_at MINT_ATTEMPTS (try_mint_in w chain)"

fun chain_text :: "(string \<times> string) list \<Rightarrow> string" where
  "chain_text [] = []"
| "chain_text [(s, v)] = ''`'' @ s @ ''` = `'' @ v @ ''`''"
| "chain_text ((s, v) # rest) = ''`'' @ s @ ''` = `'' @ v @ ''` under '' @ chain_text rest"

definition get_or_create_secret_in :: "key_world \<Rightarrow> (string \<times> string) list \<Rightarrow> bytes ks" where
  "get_or_create_secret_in w chain =
     bind_ks (mint_secret_in w chain)
       (\<lambda>r. case r of
          Some secret \<Rightarrow> ret secret
        | None \<Rightarrow> fails (chain_text chain @ '' is being erased and recreated faster than a key can be minted for it''))"

end
