(* ===== verification/Keystore.thy ===== *)
theory Keystore
  imports Crypto
begin

section \<open>The operations of the key store (src/crypto.rs)\<close>

text \<open>
  What the runtime calls: sealing and opening values, erasing a subject, rotating the master, and
  moving a root key under the parent its subject now declares.
\<close>

subsection \<open>Sealing and opening\<close>

definition encrypt_subject_in :: "key_world \<Rightarrow> (string \<times> string) list \<Rightarrow> string \<Rightarrow> string \<Rightarrow> string ks" where
  "encrypt_subject_in w chain field plaintext =
     bind_ks (get_or_create_secret_in w chain)
       (\<lambda>secret. lift (encrypt_with (kw_cipher w) secret field plaintext))"

definition encrypt_subject :: "key_world \<Rightarrow> string \<Rightarrow> string \<Rightarrow> string \<Rightarrow> string \<Rightarrow> string ks" where
  "encrypt_subject w subject v field plaintext = encrypt_subject_in w [(subject, v)] field plaintext"

definition encrypt_global :: "key_world \<Rightarrow> string \<Rightarrow> string \<Rightarrow> string ks" where
  "encrypt_global w field plaintext =
     encrypt_subject_in w [(GLOBAL_SUBJECT, GLOBAL_SUBJECT_VALUE)] field plaintext"

definition encrypt_subject_existing :: "key_world \<Rightarrow> string \<Rightarrow> string \<Rightarrow> string \<Rightarrow> string \<Rightarrow> string option ks" where
  "encrypt_subject_existing w subject v field plaintext =
     bind_ks (load_secret w subject v)
       (\<lambda>found. case found of
          None \<Rightarrow> ret None
        | Some secret \<Rightarrow> lift (map_sum id Some (encrypt_with (kw_cipher w) secret field plaintext)))"

definition decrypt_subject :: "key_world \<Rightarrow> string \<Rightarrow> string \<Rightarrow> string \<Rightarrow> string \<Rightarrow> string option ks" where
  "decrypt_subject w subject v field ciphertext =
     bind_ks (load_secret w subject v)
       (\<lambda>found. case found of
          None \<Rightarrow> ret None
        | Some secret \<Rightarrow> ret (plaintext_under (kw_cipher w) secret field ciphertext))"

text \<open>\<open>RowDecryptor\<close>: the same through a cache that lives for one request.\<close>

definition row_decryptor :: "keystore \<Rightarrow> keystore" where
  "row_decryptor s = s\<lparr>ks_cache := Some fmempty\<rparr>"

definition row_decrypt :: "key_world \<Rightarrow> string \<Rightarrow> string \<Rightarrow> string \<Rightarrow> string \<Rightarrow> string option ks" where
  "row_decrypt w subject v field ciphertext =
     bind_ks (cached (load_secret_at w (MAX_SUBJECT_DEPTH + 1)) subject v)
       (\<lambda>found. case found of
          None \<Rightarrow> ret None
        | Some secret \<Rightarrow> ret (plaintext_under (kw_cipher w) secret field ciphertext))"

definition key_present :: "keystore \<Rightarrow> string \<Rightarrow> string \<Rightarrow> bool option" where
  "key_present s subject v =
     (case ks_cache s of
        None \<Rightarrow> None
      | Some cache \<Rightarrow> map_option (\<lambda>secret. secret \<noteq> None) (fmlookup cache (subject, v)))"

subsection \<open>Erasing\<close>

definition erase_subject :: "key_world \<Rightarrow> string \<Rightarrow> string \<Rightarrow> bool ks" where
  "erase_subject w subject v =
     (if subject = GLOBAL_SUBJECT then fails ''the global uniqueness secret cannot be erased''
      else locked w (\<lambda>t. delete_subject_key t subject v))"

subsection \<open>Rotating the master\<close>

primrec rewraps :: "key_world \<Rightarrow> (string \<times> string \<times> bytes \<times> string) list \<Rightarrow> rewrap_update list ks" where
  "rewraps w [] = ret []"
| "rewraps w (r # rows) =
     (case r of (field, v, b, master_id) \<Rightarrow>
        if master_id = primary_id (kw_masters w) then rewraps w rows
        else
          bind_ks (lift (ok_or (fmlookup (m_keys (kw_masters w)) master_id)
                     (''no master `'' @ master_id @ ''` to unwrap subject `'' @ field @ ''`'')))
            (\<lambda>master. bind_ks (lift (unwrap_key (kw_cipher w) master b))
              (\<lambda>secret. bind_ks (wrap_key w (primary_key (kw_masters w)) secret)
                (\<lambda>rewrapped. bind_ks (rewraps w rows)
                  (\<lambda>us. ret ((field, v, rewrapped, primary_id (kw_masters w), master_id) # us))))))"

definition rotate_masters :: "key_world \<Rightarrow> nat ks" where
  "rotate_masters w =
     bind_ks (locked_read w all_subject_keys)
       (\<lambda>rows. bind_ks (rewraps w rows)
         (\<lambda>us. if us = [] then ret 0 else locked w (\<lambda>t. rewrap_subject_keys t us)))"

definition verify_masters_present :: "key_world \<Rightarrow> unit ks" where
  "verify_masters_present w =
     bind_ks (locked_read w distinct_master_key_ids)
       (\<lambda>ids. let missing = filter (\<lambda>i. fmlookup (m_keys (kw_masters w)) i = None) ids
              in if missing = [] then ret ()
                 else fails (''stored subject data was wrapped under master key(s) not configured now: '' @ joined '', '' missing @
                   ''. Set HEKLA_MASTER_KEY (and HEKLA_MASTER_KEY_PREVIOUS, comma-separated, for masters mid-rotation) to the master(s) that wrapped this data. Losing a master is permanent, unrecoverable loss of every subject it wrapped''))"

subsection \<open>Adoption\<close>

datatype adopted = Moved | Settled | Contended | Undone

text \<open>The second half of an adoption: the compare-and-set, the read back through the chain, and the undo.\<close>

definition adopt_write ::
  "key_world \<Rightarrow> string \<Rightarrow> string \<Rightarrow> parent_ref \<Rightarrow> bytes \<Rightarrow> bytes \<Rightarrow> bytes \<Rightarrow> adopted ks" where
  "adopt_write w subject v parent expected secret b =
     bind_ks (locked w (\<lambda>t. adopt_subject_key t
          \<lparr>a_subject = subject, a_value = v, a_wrapped = b, a_parent = parent, a_expected = expected\<rparr>))
       (\<lambda>swapped. if \<not> swapped then ret Contended
          else bind_ks (load_secret w subject v)
            (\<lambda>back. case back of
               Some _ \<Rightarrow> ret Moved
             | None \<Rightarrow>
                 bind_ks (wrap_key w (primary_key (kw_masters w)) secret)
                   (\<lambda>root. bind_ks (locked w (\<lambda>t. restore_root t subject v root (primary_id (kw_masters w)) b))
                     (\<lambda>restored. ret Undone))))"

definition adopt_in :: "key_world \<Rightarrow> (string \<times> string) list \<Rightarrow> adopted ks" where
  "adopt_in w chain =
     (case chain of
        [] \<Rightarrow> fails ''a subject chain cannot be empty''
      | [(subject, v)] \<Rightarrow> fails (''subject `'' @ subject @ ''` declares no parent to be adopted under'')
      | (subject, v) # (parent_subject, parent_value) # rest \<Rightarrow>
          bind_ks (locked_read w (\<lambda>t. get_subject_key t subject v))
            (\<lambda>found. case found of
               None \<Rightarrow> ret Settled
             | Some row \<Rightarrow>
                 (case wrapping_of row of
                    Master master_id \<Rightarrow>
                      bind_ks (lift (bind_res (master_for w master_id subject)
                                 (\<lambda>master. unwrap_key (kw_cipher w) master (wrapped row))))
                        (\<lambda>secret. bind_ks (mint_secret_in w ((parent_subject, parent_value) # rest))
                          (\<lambda>minted. case minted of
                             None \<Rightarrow> ret Contended
                           | Some parent \<Rightarrow>
                               bind_ks (wrap_key_under w (child_kek (kw_cipher w) parent) secret
                                          (child_aad subject v parent_subject parent_value))
                                 (\<lambda>b. adopt_write w subject v
                                    \<lparr>p_subject = parent_subject, p_value = parent_value,
                                     p_fingerprint = parent_fingerprint (kw_cipher w) parent\<rparr>
                                    (wrapped row) secret b)))
                  | _ \<Rightarrow> ret Settled)))"

definition is_reachable :: "key_world \<Rightarrow> string \<Rightarrow> string \<Rightarrow> bool ks" where
  "is_reachable w subject v = locked_read w (\<lambda>t. subject_key_reachable t subject v)"

definition pending_adoptions :: "key_world \<Rightarrow> string list \<Rightarrow> nat ks" where
  "pending_adoptions w subjects = locked_read w (\<lambda>t. count_roots_of t subjects)"

definition adoption_candidates ::
  "key_world \<Rightarrow> string list \<Rightarrow> (string \<times> string) option \<Rightarrow> nat \<Rightarrow> (string \<times> string) list ks" where
  "adoption_candidates w subjects after limit = locked_read w (\<lambda>t. roots_of t subjects after limit)"

end
