(* ===== verification/Keystore_Sound.thy ===== *)
theory Keystore_Sound
  imports Keystore
begin

section \<open>What the key store guarantees\<close>

text \<open>
  \<open>opens\<close> is what a load answers on a table nobody is changing: the reference the operations are
  compared with.  A declared hierarchy is ranked, every parent below its children, and shallower than
  \<open>MAX_SUBJECT_DEPTH\<close>: heklang checks it acyclic when it parses the program.
\<close>

subsection \<open>Loading, without the steps\<close>

definition opens_row :: "key_world \<Rightarrow> (string \<Rightarrow> string \<Rightarrow> string + bytes option) \<Rightarrow> string \<Rightarrow> string \<Rightarrow> subject_key \<Rightarrow> string + bytes option" where
  "opens_row w load subject v row =
     (case wrapping_of row of
        Master master_id \<Rightarrow>
          bind_res (master_for w master_id subject)
            (\<lambda>master. map_sum id Some (unwrap_key (kw_cipher w) master (wrapped row)))
      | Parent p \<Rightarrow>
          bind_res (load (p_subject p) (p_value p))
            (\<lambda>found. case found of
               None \<Rightarrow> Inr None
             | Some parent \<Rightarrow>
                 if p_fingerprint p \<noteq> parent_fingerprint (kw_cipher w) parent then Inr None
                 else map_sum id Some (unwrap_key_under (kw_cipher w) (child_kek (kw_cipher w) parent)
                        (wrapped row) (child_aad subject v (p_subject p) (p_value p))))
      | Neither \<Rightarrow> Inl (neither_text subject v))"

primrec opens :: "key_world \<Rightarrow> key_table \<Rightarrow> nat \<Rightarrow> string \<Rightarrow> string \<Rightarrow> string + bytes option" where
  "opens w t 0 subject v =
     Inl (too_deep_text subject)"
| "opens w t (Suc levels) subject v =
     (case get_subject_key t subject v of
        None \<Rightarrow> Inr None
      | Some row \<Rightarrow> opens_row w (opens w t levels) subject v row)"

definition undisturbed :: "key_world \<Rightarrow> bool" where
  "undisturbed w \<longleftrightarrow> (\<forall>n t. kw_others w n t = t) \<and> (\<forall>n. kw_fault w n = None)"

lemmas ks_simps = bind_ks_def ret_def fails_def lift_def

lemma bind_ks_InrD: "bind_ks m f s = (Inr y, s') \<Longrightarrow> \<exists>x t. m s = (Inr x, t) \<and> f x t = (Inr y, s')"
  by (cases "m s"; cases "fst (m s)") (auto simp: bind_ks_def)

lemma locked_undisturbed:
  "undisturbed w \<Longrightarrow> locked w f s = (case f (ks_table s) of (x, t) \<Rightarrow> (Inr x, s\<lparr>ks_turn := ks_turn s + 1, ks_table := t\<rparr>))"
  by (simp add: locked_def undisturbed_def Let_def)

lemma locked_read_undisturbed:
  "undisturbed w \<Longrightarrow> locked_read w f s = (Inr (f (ks_table s)), s\<lparr>ks_turn := ks_turn s + 1\<rparr>)"
  by (simp add: locked_read_def locked_undisturbed)

lemma cached_none: "ks_cache s = None \<Longrightarrow> cached load subject v s = load subject v s"
  by (simp add: cached_def)

lemma open_row_opens:
  assumes "\<And>s v. \<exists>k. load s v st = (pure s v, st\<lparr>ks_turn := k\<rparr>)"
  shows "\<exists>k. open_row w load subject v row st = (opens_row w pure subject v row, st\<lparr>ks_turn := k\<rparr>)"
proof (cases "wrapping_of row")
  case (Master i)
  then show ?thesis by (auto simp: open_row_def opens_row_def ks_simps intro!: exI [of _ "ks_turn st"])
next
  case (Parent p)
  obtain k where k: "load (p_subject p) (p_value p) st = (pure (p_subject p) (p_value p), st\<lparr>ks_turn := k\<rparr>)"
    using assms by blast
  show ?thesis
    by (rule exI [of _ k], cases "pure (p_subject p) (p_value p)")
      (auto simp: open_row_def opens_row_def ks_simps Parent k split: option.splits)
next
  case Neither
  then show ?thesis by (auto simp: open_row_def opens_row_def ks_simps intro!: exI [of _ "ks_turn st"])
qed

lemma load_opens:
  "undisturbed w \<Longrightarrow> ks_cache st = None \<Longrightarrow>
    \<exists>k. load_secret_at w n subject v st = (opens w (ks_table st) n subject v, st\<lparr>ks_turn := k\<rparr>)"
proof (induction n arbitrary: subject v st)
  case 0
  show ?case by (auto simp: ks_simps intro!: exI [of _ "ks_turn st"])
next
  case (Suc n)
  let ?st = "st\<lparr>ks_turn := ks_turn st + 1\<rparr>"
  show ?case
  proof (cases "get_subject_key (ks_table st) subject v")
    case None
    then show ?thesis using Suc.prems(1)
      by (auto simp: bind_ks_def locked_read_undisturbed ret_def intro!: exI [of _ "ks_turn st + 1"])
  next
    case (Some row)
    have "\<exists>k. cached (load_secret_at w n) s v ?st = (opens w (ks_table st) n s v, ?st\<lparr>ks_turn := k\<rparr>)" for s v
      using Suc.IH [of ?st] Suc.prems by (simp add: cached_none)
    from open_row_opens [where load = "cached (load_secret_at w n)" and st = ?st, OF this]
    show ?thesis using Suc.prems(1) Some by (simp add: bind_ks_def locked_read_undisturbed)
  qed
qed

lemma open_row_at:
  assumes "undisturbed w" and "ks_cache st = None" and "get_subject_key (ks_table st) subject v = Some row"
  shows "\<exists>k. open_row w (cached (load_secret_at w n)) subject v row st =
    (opens w (ks_table st) (Suc n) subject v, st\<lparr>ks_turn := k\<rparr>)"
proof -
  have "\<exists>k. cached (load_secret_at w n) s v st = (opens w (ks_table st) n s v, st\<lparr>ks_turn := k\<rparr>)" for s v
    using load_opens [OF assms(1,2)] assms(2) by (simp add: cached_none)
  from open_row_opens [where load = "cached (load_secret_at w n)" and st = st, OF this]
  show ?thesis using assms(3) by simp
qed

subsection \<open>What an answer depends on\<close>

lemma bind_res_Inr_mono:
  "bind_res r f = Inr x \<Longrightarrow> (\<And>y. r = Inr y \<Longrightarrow> r' = Inr y) \<Longrightarrow> bind_res r' f = Inr x"
  by (cases r) auto

lemma opens_mono: "opens w t n s v = Inr r \<Longrightarrow> n \<le> m \<Longrightarrow> opens w t m s v = Inr r"
proof (induction n arbitrary: m s v r)
  case (Suc n)
  then obtain m' where m: "m = Suc m'" "n \<le> m'" by (cases m) auto
  have "opens_row w (opens w t m') s v row = Inr r" if "opens_row w (opens w t n) s v row = Inr r" for row
    using that Suc.IH [OF _ m(2)]
    by (auto simp: opens_row_def split: wrapping.splits elim!: bind_res_Inr_mono)
  then show ?case using Suc.prems(1) m(1) by (auto split: option.splits)
qed simp

definition readable :: "key_world \<Rightarrow> key_table \<Rightarrow> string \<Rightarrow> string \<Rightarrow> bool" where
  "readable w t s v \<longleftrightarrow> (\<exists>n x. opens w t n s v = Inr (Some x))"

definition keeps_readable :: "key_world \<Rightarrow> key_table \<Rightarrow> key_table \<Rightarrow> bool" where
  "keeps_readable w t t' \<longleftrightarrow> (\<forall>s v. readable w t s v \<longrightarrow> get_subject_key t' s v = get_subject_key t s v)"

lemma opens_parent:
  assumes "opens_row w load s v row = Inr (Some x)" and "wrapping_of row = Parent p"
  obtains parent where "load (p_subject p) (p_value p) = Inr (Some parent)"
  using assms by (auto simp: opens_row_def bind_res_Inr_iff split: option.splits)

lemma opens_keeps:
  "keeps_readable w t t' \<Longrightarrow> opens w t n s v = Inr (Some x) \<Longrightarrow> opens w t' n s v = Inr (Some x)"
proof (induction n arbitrary: s v x)
  case (Suc n)
  then obtain row where row: "get_subject_key t s v = Some row" "opens_row w (opens w t n) s v row = Inr (Some x)"
    by (auto split: option.splits)
  have "readable w t s v" using Suc.prems(2) unfolding readable_def by blast
  then have row': "get_subject_key t' s v = Some row" using Suc.prems(1) row(1) by (simp add: keeps_readable_def)
  have "opens_row w (opens w t' n) s v row = Inr (Some x)"
  proof (cases "wrapping_of row")
    case (Parent p)
    from opens_parent [OF row(2) this] obtain parent
      where par: "opens w t n (p_subject p) (p_value p) = Inr (Some parent)" .
    then show ?thesis using row(2) Suc.IH [OF Suc.prems(1) par] by (simp add: opens_row_def Parent)
  qed (use row(2) in \<open>simp_all add: opens_row_def fails_def\<close>)
  then show ?case using row' by simp
qed simp

lemma readable_keeps: "keeps_readable w t t' \<Longrightarrow> readable w t s v \<Longrightarrow> readable w t' s v"
  using opens_keeps unfolding readable_def by blast

lemma keeps_readable_refl [simp]: "keeps_readable w t t"
  by (simp add: keeps_readable_def)

lemma keeps_readable_trans: "keeps_readable w t t' \<Longrightarrow> keeps_readable w t' t'' \<Longrightarrow> keeps_readable w t t''"
  using readable_keeps unfolding keeps_readable_def by metis

lemma unreadable: "opens w t n s v = Inr None \<Longrightarrow> \<not> readable w t s v"
  unfolding readable_def
proof clarify
  fix m x
  assume a: "opens w t n s v = Inr None" "opens w t m s v = Inr (Some x)"
  have "opens w t (max n m) s v = Inr None" "opens w t (max n m) s v = Inr (Some x)"
    by (rule opens_mono [OF a(1)], simp, rule opens_mono [OF a(2)], simp)
  then show False by simp
qed

subsection \<open>Declared hierarchies\<close>

definition ranked :: "(string \<Rightarrow> nat) \<Rightarrow> key_table \<Rightarrow> bool" where
  "ranked rank t \<longleftrightarrow> (\<forall>r \<in> set t. \<forall>ps. k_parent_subject r = Some ps \<longrightarrow> rank ps < rank (k_subject r))"

definition declared_chain :: "(string \<Rightarrow> nat) \<Rightarrow> (string \<times> string) list \<Rightarrow> bool" where
  "declared_chain rank chain \<longleftrightarrow> sorted_wrt (\<lambda>a b. rank (fst b) < rank (fst a)) chain"

lemma ranked_parent:
  assumes "ranked rank t" and "get_subject_key t s v = Some row" and "wrapping_of row = Parent p"
  shows "rank (p_subject p) < rank s"
proof -
  obtain r where "find_row k_key (s, v) t = Some r" and row: "row = \<lparr>wrapped = k_wrapped r, wrapping_of = row_wrapping r\<rparr>"
    using assms(2) by (auto simp: get_subject_key_def)
  then have "r \<in> set t" "k_subject r = s" using find_row_SomeD by (fastforce simp: k_key_def)+
  moreover have "k_parent_subject r = Some (p_subject p)"
    using assms(3) row by (auto simp: row_wrapping_def split: option.splits)
  ultimately show ?thesis using assms(1) unfolding ranked_def by blast
qed

lemma opens_depth:
  "ranked rank t \<Longrightarrow> rank s < m \<Longrightarrow> rank s < n \<Longrightarrow> opens w t m s v = opens w t n s v"
proof (induction m arbitrary: n s v)
  case (Suc m)
  then obtain n' where n: "n = Suc n'" by (cases n) auto
  show ?case
  proof (cases "get_subject_key t s v")
    case (Some row)
    have "opens_row w (opens w t m) s v row = opens_row w (opens w t n') s v row"
    proof (cases "wrapping_of row")
      case (Parent p)
      have "rank (p_subject p) < rank s" by (rule ranked_parent [OF Suc.prems(1) Some Parent])
      then have "opens w t m (p_subject p) (p_value p) = opens w t n' (p_subject p) (p_value p)"
        using Suc.prems n by (intro Suc.IH) simp_all
      then show ?thesis by (simp add: opens_row_def Parent)
    qed (simp_all add: opens_row_def)
    then show ?thesis by (simp add: n Some)
  qed (simp add: n)
qed simp

text \<open>The walk above a subject only meets lower ranks.\<close>

lemma opens_below:
  "ranked rank t \<Longrightarrow> (\<And>s v. rank s < r \<Longrightarrow> get_subject_key t' s v = get_subject_key t s v) \<Longrightarrow>
    rank s < r \<Longrightarrow> opens w t' n s v = opens w t n s v"
proof (induction n arbitrary: s v)
  case (Suc n)
  show ?case
  proof (cases "get_subject_key t s v")
    case (Some row)
    have "opens_row w (opens w t' n) s v row = opens_row w (opens w t n) s v row"
    proof (cases "wrapping_of row")
      case (Parent p)
      have "rank (p_subject p) < r" using ranked_parent [OF Suc.prems(1) Some Parent] Suc.prems(3) by simp
      then have "opens w t' n (p_subject p) (p_value p) = opens w t n (p_subject p) (p_value p)"
        using Suc.prems(2) by (intro Suc.IH [OF Suc.prems(1)]) simp_all
      then show ?thesis by (simp add: opens_row_def Parent)
    qed (simp_all add: opens_row_def)
    then show ?thesis using Some Suc.prems(2,3) by simp
  qed (use Suc.prems(2,3) in simp)
qed simp

subsection \<open>What the ciphers promise\<close>

definition cipher_ok :: "cipher \<Rightarrow> bool" where
  "cipher_ok c \<longleftrightarrow>
     (\<forall>k n a m. c_gcm_open c k n a (c_gcm_seal c k n a m) = Some m \<and> c_gcm_seal c k n a m \<noteq> []) \<and>
     (\<forall>k a m. c_siv_open c k a (c_siv_seal c k a m) = Some m) \<and>
     (\<forall>b. c_unb64 c (c_b64 c b) = Some b) \<and>
     (\<forall>n b. c_random c n = Inr b \<longrightarrow> SIV_KEY_LEN \<le> length b)"

lemma cipher_okD:
  assumes "cipher_ok c"
  shows "c_gcm_open c k n a (c_gcm_seal c k n a m) = Some m" "c_gcm_seal c k n a m \<noteq> []"
    "c_siv_open c k a (c_siv_seal c k a m) = Some m" "c_unb64 c (c_b64 c b) = Some b"
    "c_random c i = Inr b \<Longrightarrow> SIV_KEY_LEN \<le> length b"
  using assms by (simp_all add: cipher_ok_def)

definition masters_ok :: "master_keys \<Rightarrow> bool" where
  "masters_ok m \<longleftrightarrow> fmlookup (m_keys m) (primary_id m) \<noteq> None"

lemma masters_ok_new: "masters_ok (new_masters c primary previous)"
  by (simp add: masters_ok_def new_masters_def)

lemma primary_for: "masters_ok (kw_masters w) \<Longrightarrow> master_for w (primary_id (kw_masters w)) s = Inr (primary_key (kw_masters w))"
  by (auto simp: masters_ok_def master_for_def primary_key_def)

lemma decrypt_encrypt:
  assumes "cipher_ok c" and "encrypt_with c secret field plaintext = Inr ct" and "c_utf8 c plaintext"
  shows "plaintext_under c secret field ct = Some plaintext"
  using assms(2,3) by (auto simp: encrypt_with_def plaintext_under_def decrypt_with_def cipher_okD [OF assms(1)] split: if_splits)

lemma wrap_then_unwrap:
  assumes "cipher_ok (kw_cipher w)" and "wrap_key_under w key secret aad s = (Inr b, s')"
  shows "unwrap_key_under (kw_cipher w) key b aad = Inr secret" and "ks_table s' = ks_table s" and "ks_cache s' = ks_cache s"
proof -
  obtain raw where r: "c_random (kw_cipher w) (ks_entropy s) = Inr raw"
    and b: "b = take WRAP_NONCE_LEN raw @ c_gcm_seal (kw_cipher w) key (take WRAP_NONCE_LEN raw) aad secret"
    and s': "s' = s\<lparr>ks_entropy := ks_entropy s + 1\<rparr>"
    using assms(2) by (cases "c_random (kw_cipher w) (ks_entropy s)") (auto simp: wrap_key_under_def draw_def ks_simps)
  have len: "length (take WRAP_NONCE_LEN raw) = WRAP_NONCE_LEN"
    using cipher_okD(5) [OF assms(1) r] by (simp add: WRAP_NONCE_LEN_def SIV_KEY_LEN_def)
  then show "unwrap_key_under (kw_cipher w) key b aad = Inr secret"
    using cipher_okD(2) [OF assms(1), of key "take WRAP_NONCE_LEN raw" aad secret]
    by (simp add: unwrap_key_under_def b cipher_okD(1) [OF assms(1)])
  show "ks_table s' = ks_table s" "ks_cache s' = ks_cache s" by (simp_all add: s')
qed

lemma draw_table: "draw w n s = (r, s') \<Longrightarrow> ks_table s' = ks_table s \<and> ks_cache s' = ks_cache s"
  by (auto simp: draw_def)

lemma wrap_table: "wrap_key_under w key secret aad s = (r, s') \<Longrightarrow> ks_table s' = ks_table s \<and> ks_cache s' = ks_cache s"
  by (auto simp: wrap_key_under_def draw_def ks_simps split: sum.splits prod.splits)

end
