(* ===== verification/Keystore_Mint.thy ===== *)
theory Keystore_Mint
  imports Keystore_Sound
begin

section \<open>Minting keys\<close>

text \<open>
  On a store nobody else is changing, minting the secret of a declared chain answers a secret the
  store reads back, keeps every key that could be read, and touches no key outside the chain.
\<close>

definition ready :: "(string \<Rightarrow> nat) \<Rightarrow> keystore \<Rightarrow> bool" where
  "ready rank s \<longleftrightarrow> keys_ok (ks_table s) \<and> ranked rank (ks_table s) \<and> ks_cache s = None"

definition minted ::
  "key_world \<Rightarrow> (string \<Rightarrow> nat) \<Rightarrow> (string \<times> string) list \<Rightarrow> keystore \<Rightarrow> (string + bytes option) \<times> keystore \<Rightarrow> bool" where
  "minted w rank chain s rs \<longleftrightarrow>
     ready rank (snd rs) \<and> keeps_readable w (ks_table s) (ks_table (snd rs)) \<and>
     (\<forall>s' v. (s', v) \<notin> set chain \<longrightarrow> get_subject_key (ks_table (snd rs)) s' v = get_subject_key (ks_table s) s' v) \<and>
     (\<forall>sec. fst rs = Inr (Some sec) \<longrightarrow>
        opens w (ks_table (snd rs)) (MAX_SUBJECT_DEPTH + 1) (fst (hd chain)) (snd (hd chain)) = Inr (Some sec))"

lemma mintedI:
  assumes "ready rank s'" and "keeps_readable w (ks_table s) (ks_table s')"
    and "\<And>u v. (u, v) \<notin> set chain \<Longrightarrow> get_subject_key (ks_table s') u v = get_subject_key (ks_table s) u v"
    and "\<And>sec. r = Inr (Some sec) \<Longrightarrow>
      opens w (ks_table s') (MAX_SUBJECT_DEPTH + 1) (fst (hd chain)) (snd (hd chain)) = Inr (Some sec)"
  shows "minted w rank chain s (r, s')"
  using assms by (simp add: minted_def)

lemma minted_same:
  assumes "ready rank s" and "ks_table s' = ks_table s" and "ks_cache s' = ks_cache s" and "\<And>x. r \<noteq> Inr (Some x)"
  shows "minted w rank chain s (r, s')"
  using assms by (auto simp: ready_def intro!: mintedI)

lemma minted_attempts:
  assumes "\<And>s. ready rank s \<Longrightarrow> minted w rank chain s (m s)"
  shows "ready rank s \<Longrightarrow> minted w rank chain s (attempts_at n m s)"
proof (induction n arbitrary: s)
  case 0
  then show ?case by (auto simp: ret_def intro: minted_same)
next
  case (Suc n)
  obtain r s' where m: "m s = (r, s')" by (metis prod.collapse)
  note M = assms [OF Suc.prems, unfolded m]
  show ?case
  proof (cases "r = Inr None")
    case True
    then have "attempts_at (Suc n) m s = attempts_at n m s'" by (simp add: bind_ks_def m)
    moreover have "minted w rank chain s' (attempts_at n m s')" using M by (intro Suc.IH) (simp add: minted_def)
    ultimately show ?thesis using M by (auto simp: minted_def intro: keeps_readable_trans)
  next
    case False
    then have "attempts_at (Suc n) m s = (r, s')" by (auto simp: bind_ks_def m ret_def split: sum.splits option.splits)
    then show ?thesis using M by simp
  qed
qed

subsection \<open>Installing a row\<close>

lemma insert_fresh:
  fixes s v :: string
  assumes "keys_ok t" and "wrapping_of cand \<noteq> Neither"
  defines "r \<equiv> get_or_insert_subject_key t s v cand (get_subject_key t s v)"
  shows "fst r = Some cand" and "keys_ok (snd r)" and "get_subject_key (snd r) s v = Some cand"
    and "(u, x) \<noteq> (s, v) \<Longrightarrow> get_subject_key (snd r) u x = get_subject_key t u x"
    and "set (snd r) \<subseteq> insert (key_row_of s v cand) (set t)"
proof -
  note K = keys_okD(1) [OF assms(1)]
  define t1 where "t1 = (case get_subject_key t s v of None \<Rightarrow> t
    | Some stale \<Rightarrow> delete_where (\<lambda>r. k_key r = (s, v) \<and> k_wrapped r = wrapped stale) t)"
  have chk: "check_ok (key_row_of s v cand)" using assms(2) by (simp add: columns_row_of)
  have r: "r = (get_subject_key (insert_ignore k_key (key_row_of s v cand) t1) s v, insert_ignore k_key (key_row_of s v cand) t1)"
    by (simp add: r_def get_or_insert_subject_key_def Let_def chk t1_def)
  have gone: "find_row k_key (s, v) t1 = None"
  proof (cases "find_row k_key (s, v) t")
    case None
    then show ?thesis by (simp add: t1_def get_subject_key_def)
  next
    case (Some row)
    then show ?thesis using find_row_SomeD [OF Some] by (simp add: t1_def get_subject_key_def find_row_delete [OF K])
  qed
  have others: "find_row k_key (u, x) t1 = find_row k_key (u, x) t" if "(u, x) \<noteq> (s, v)" for u x
    using that by (auto simp: t1_def find_row_delete [OF K] split: option.splits dest!: find_row_SomeD)
  have G: "get_subject_key (insert_ignore k_key (key_row_of s v cand) t1) s v = Some cand"
    using get_after_insert [OF assms(2), of s v t1] gone by (simp add: get_subject_key_def)
  then show "fst r = Some cand" "get_subject_key (snd r) s v = Some cand" by (simp_all add: r)
  show "keys_ok (snd r)"
    using keys_ok_apply [OF assms(1), of "Get_Or_Insert s v cand (get_subject_key t s v)"] by (simp add: r_def)
  show "get_subject_key (snd r) u x = get_subject_key t u x" if "(u, x) \<noteq> (s, v)"
    using others [OF that] that by (auto simp: r get_subject_key_def find_row_insert split: option.splits)
  have "set t1 \<subseteq> set t" by (auto simp: t1_def delete_where_def split: option.splits)
  then show "set (snd r) \<subseteq> insert (key_row_of s v cand) (set t)"
    using set_insert_ignore [of k_key "key_row_of s v cand" t1] by (auto simp: r)
qed

lemma ranked_insert:
  assumes "ranked rank t" and "set t' \<subseteq> insert (key_row_of s v cand) (set t)"
    and "\<And>p. wrapping_of cand = Parent p \<Longrightarrow> rank (p_subject p) < rank s"
  shows "ranked rank t'"
proof -
  have "rank ps < rank s" if "k_parent_subject (key_row_of s v cand) = Some ps" for ps
    using that assms(3) by (cases "wrapping_of cand") (auto simp: key_row_of_def)
  moreover have "k_subject (key_row_of s v cand) = s" by (cases "wrapping_of cand") (simp_all add: key_row_of_def)
  ultimately show ?thesis using assms(1,2) unfolding ranked_def by fastforce
qed

text \<open>A row made for a subject that could not be read.\<close>

lemma install:
  assumes "undisturbed w" and "ready rank s0" and "ready rank s1" and "\<not> readable w (ks_table s0) u v"
    and "keeps_readable w (ks_table s0) (ks_table s1)"
    and "\<And>a b. (a, b) \<notin> set rest \<Longrightarrow> get_subject_key (ks_table s1) a b = get_subject_key (ks_table s0) a b"
    and "(u, v) \<notin> set rest"
    and "wrapping_of cand \<noteq> Neither" and "\<And>p. wrapping_of cand = Parent p \<Longrightarrow> rank (p_subject p) < rank u"
  shows "\<exists>s2. locked w (\<lambda>t. get_or_insert_subject_key t u v cand (get_subject_key (ks_table s0) u v)) s1 = (Inr (Some cand), s2) \<and>
    ready rank s2 \<and> keeps_readable w (ks_table s0) (ks_table s2) \<and> get_subject_key (ks_table s2) u v = Some cand \<and>
    (\<forall>a b. (a, b) \<noteq> (u, v) \<longrightarrow> get_subject_key (ks_table s2) a b = get_subject_key (ks_table s1) a b)"
proof -
  let ?r = "get_or_insert_subject_key (ks_table s1) u v cand (get_subject_key (ks_table s0) u v)"
  have ex: "get_subject_key (ks_table s0) u v = get_subject_key (ks_table s1) u v" using assms(6,7) by simp
  have ok: "keys_ok (ks_table s1)" "ranked rank (ks_table s1)" "ks_cache s1 = None" using assms(3) by (simp_all add: ready_def)
  note I = insert_fresh [OF ok(1) assms(8), where s = u and v = v, folded ex]
  have "ranked rank (snd ?r)" using ranked_insert [OF ok(2) I(5) assms(9)] by simp
  moreover have "get_subject_key (snd ?r) a b = get_subject_key (ks_table s0) a b"
    if "readable w (ks_table s0) a b" for a b
  proof -
    have "(a, b) \<noteq> (u, v)" using that assms(4) by auto
    from I(4) [OF this] show ?thesis using that assms(5) by (simp add: keeps_readable_def)
  qed
  moreover define s2 where "s2 = s1\<lparr>ks_turn := ks_turn s1 + 1, ks_table := snd ?r\<rparr>"
  moreover have "locked w (\<lambda>t. get_or_insert_subject_key t u v cand (get_subject_key (ks_table s0) u v)) s1 = (Inr (Some cand), s2)"
    using I(1) by (simp add: locked_undisturbed [OF assms(1)] s2_def case_prod_unfold)
  ultimately show ?thesis
    using I(2-4) ok(3) by (intro exI [of _ s2] conjI allI impI) (simp_all add: ready_def keeps_readable_def s2_def)
qed

text \<open>Reading the row back as \<open>open_persisted\<close> does.\<close>

lemma candidate_made:
  assumes "candidate_key w mint subject v ancestors fresh s = (Inr (Some (cand, par)), s')"
  obtains (root) "ancestors = []" "par = None" "wrapping_of cand = Master (primary_id (kw_masters w))"
      "wrap_key w (primary_key (kw_masters w)) fresh s = (Inr (wrapped cand), s')"
    | (child) ps pv rest parent s1 where "ancestors = (ps, pv) # rest" "par = Some parent"
      "mint ancestors s = (Inr (Some parent), s1)"
      "wrapping_of cand = Parent \<lparr>p_subject = ps, p_value = pv, p_fingerprint = parent_fingerprint (kw_cipher w) parent\<rparr>"
      "wrap_key_under w (child_kek (kw_cipher w) parent) fresh (child_aad subject v ps pv) s1 = (Inr (wrapped cand), s')"
proof (cases ancestors)
  case Nil
  then show thesis using assms root
    by (auto simp: candidate_key_def ks_simps split: prod.splits sum.splits)
next
  case (Cons p rest)
  obtain ps pv where p: "p = (ps, pv)" by (cases p)
  obtain r s1 where m: "mint ancestors s = (r, s1)" by (metis prod.collapse)
  obtain parent where r: "r = Inr (Some parent)"
    using assms by (auto simp: candidate_key_def ks_simps Cons p m [unfolded Cons p] split: prod.splits sum.splits option.splits)
  show thesis
    using assms m r child [OF _ _ m [unfolded r], of ps pv rest]
    by (auto simp: candidate_key_def ks_simps Cons p split: prod.splits sum.splits)
qed

lemma candidate_frame:
  assumes "candidate_key w mint subject v ancestors fresh s = (r, s')" and "ready rank s"
    and "ancestors \<noteq> [] \<Longrightarrow> minted w rank ancestors s (mint ancestors s)"
  shows "ready rank s' \<and> keeps_readable w (ks_table s) (ks_table s') \<and>
    (\<forall>a b. (a, b) \<notin> set ancestors \<longrightarrow> get_subject_key (ks_table s') a b = get_subject_key (ks_table s) a b)"
proof -
  have same: ?thesis if "ks_table s' = ks_table s1" "ks_cache s' = ks_cache s1" "ready rank s1"
    "keeps_readable w (ks_table s) (ks_table s1)"
    "\<forall>a b. (a, b) \<notin> set ancestors \<longrightarrow> get_subject_key (ks_table s1) a b = get_subject_key (ks_table s) a b" for s1
    using that by (simp add: ready_def)
  show ?thesis
  proof (cases ancestors)
    case Nil
    obtain r1 s1 where w: "wrap_key w (primary_key (kw_masters w)) fresh s = (r1, s1)" by (metis prod.collapse)
    have "s' = s1" using assms(1) by (auto simp: candidate_key_def ks_simps Nil w split: sum.splits)
    then show ?thesis using wrap_table [OF w [unfolded wrap_key_def]] assms(2) by (intro same [of s]) simp_all
  next
    case (Cons p rest)
    obtain ps pv where p: "p = (ps, pv)" by (cases p)
    obtain r1 s1 where m: "mint ancestors s = (r1, s1)" by (metis prod.collapse)
    have M: "minted w rank ancestors s (r1, s1)" using assms(3) Cons m by simp
    have "ks_table s' = ks_table s1 \<and> ks_cache s' = ks_cache s1"
    proof (cases "\<exists>parent. r1 = Inr (Some parent)")
      case True
      then obtain parent where r1: "r1 = Inr (Some parent)" by blast
      obtain r2 s2 where w: "wrap_key_under w (child_kek (kw_cipher w) parent) fresh (child_aad subject v ps pv) s1 = (r2, s2)"
        by (metis prod.collapse)
      have "s' = s2"
        using assms(1) m r1 w by (auto simp: candidate_key_def ks_simps Cons p split: sum.splits)
      then show ?thesis using wrap_table [OF w] by simp
    next
      case False
      then show ?thesis
        using assms(1) m by (auto simp: candidate_key_def ks_simps Cons p split: sum.splits option.splits)
    qed
    then show ?thesis using M by (intro same [of s1]) (simp_all add: minted_def)
  qed
qed

subsection \<open>A mint\<close>

lemma opened_existing:
  assumes "undisturbed w" and "ks_cache s = None"
  shows "\<exists>k. (case get_subject_key (ks_table s) u v of
       None \<Rightarrow> ret None
     | Some row \<Rightarrow> open_row w (cached (load_secret_at w MAX_SUBJECT_DEPTH)) u v row) s =
     (opens w (ks_table s) (MAX_SUBJECT_DEPTH + 1) u v, s\<lparr>ks_turn := k\<rparr>)"
proof (cases "get_subject_key (ks_table s) u v")
  case None
  then show ?thesis by (auto simp: ret_def intro!: exI [of _ "ks_turn s"])
next
  case (Some row)
  then show ?thesis using open_row_at [OF assms Some] by simp
qed

lemma persisted_opens:
  assumes "undisturbed w" and "cipher_ok (kw_cipher w)" and "masters_ok (kw_masters w)"
    and "candidate_key w mint u v ancestors fresh s = (Inr (Some (cand, par)), s')"
    and "ready rank s" and "ancestors \<noteq> [] \<Longrightarrow> minted w rank ancestors s (mint ancestors s)"
    and "\<And>s. rank s \<le> MAX_SUBJECT_DEPTH" and "declared_chain rank ((u, v) # ancestors)"
    and "ready rank s2" and "get_subject_key (ks_table s2) u v = Some cand"
    and "\<And>a b. (a, b) \<noteq> (u, v) \<Longrightarrow> get_subject_key (ks_table s2) a b = get_subject_key (ks_table s') a b"
  shows "open_persisted w u v ancestors par cand s2 = (Inr (Some fresh), s2) \<and>
    opens w (ks_table s2) (MAX_SUBJECT_DEPTH + 1) u v = Inr (Some fresh)"
  using assms(4)
proof (cases rule: candidate_made)
  case root
  have "unwrap_key (kw_cipher w) (primary_key (kw_masters w)) (wrapped cand) = Inr fresh"
    using wrap_then_unwrap(1) [OF assms(2) root(4) [unfolded wrap_key_def]] by (simp add: unwrap_key_def)
  then show ?thesis
    using assms(10) by (simp add: open_persisted_def root lift_def primary_for [OF assms(3)] opens_row_def)
next
  case (child ps pv rest parent s1)
  have U: "unwrap_key_under (kw_cipher w) (child_kek (kw_cipher w) parent) (wrapped cand) (child_aad u v ps pv) = Inr fresh"
    and T: "ks_table s' = ks_table s1"
    using wrap_then_unwrap [OF assms(2) child(5)] by simp_all
  have M: "minted w rank ancestors s (Inr (Some parent), s1)" using assms(6) child(1,3) by simp
  then have par: "opens w (ks_table s1) (MAX_SUBJECT_DEPTH + 1) ps pv = Inr (Some parent)" and r1: "ranked rank (ks_table s1)"
    by (simp_all add: minted_def child(1) ready_def)
  have lt: "rank ps < rank u" using assms(8) by (simp add: declared_chain_def child(1))
  have "rank ps < MAX_SUBJECT_DEPTH" using lt assms(7) [of u] by simp
  then have "opens w (ks_table s1) MAX_SUBJECT_DEPTH ps pv = Inr (Some parent)"
    using par opens_depth [OF r1, of ps MAX_SUBJECT_DEPTH "MAX_SUBJECT_DEPTH + 1"] by simp
  moreover have "opens w (ks_table s2) MAX_SUBJECT_DEPTH ps pv = opens w (ks_table s1) MAX_SUBJECT_DEPTH ps pv"
    by (rule opens_below [OF r1 _ lt]) (use assms(11) T in fastforce)
  ultimately have "opens w (ks_table s2) MAX_SUBJECT_DEPTH ps pv = Inr (Some parent)" by simp
  then show ?thesis
    using assms(10) U by (simp add: open_persisted_def child(1,2,4) lift_def opens_row_def)
qed

lemma bind_ks_Inr: "m s = (Inr x, s') \<Longrightarrow> bind_ks m f s = f x s'"
  by (simp add: bind_ks_def)

lemma bind_ks_Inl: "m s = (Inl e, s') \<Longrightarrow> bind_ks m f s = (Inl e, s')"
  by (simp add: bind_ks_def)

lemma mint_installs:
  fixes w k ancestors
  defines "m \<equiv> \<lambda>_ :: (string \<times> string) list. attempts_at MINT_ATTEMPTS (try_mint_in w ancestors)"
  assumes "undisturbed w" and "cipher_ok (kw_cipher w)" and "masters_ok (kw_masters w)" and "\<And>s. rank s \<le> MAX_SUBJECT_DEPTH"
    and "declared_chain rank (k # ancestors)" and "ready rank s" and "ready rank s3" and "ks_table s3 = ks_table s"
    and "\<not> readable w (ks_table s) (fst k) (snd k)" and "minted w rank ancestors s3 (m ancestors s3)"
    and c: "candidate_key w m (fst k) (snd k) ancestors fresh s3 = (Inr (Some (cand, par)), s4)"
  obtains s5 where
    "locked w (\<lambda>t. get_or_insert_subject_key t (fst k) (snd k) cand (get_subject_key (ks_table s) (fst k) (snd k))) s4 = (Inr (Some cand), s5)"
    "open_persisted w (fst k) (snd k) ancestors par cand s5 = (Inr (Some fresh), s5)"
    "minted w rank (k # ancestors) s (Inr (Some fresh), s5)"
proof -
  let ?u = "fst k" and ?v = "snd k" and ?T = "ks_table s"
  note F = candidate_frame [OF c assms(8,11), unfolded assms(9)]
  have new: "(?u, ?v) \<notin> set ancestors" using assms(6) by (force simp: declared_chain_def)
  have "wrapping_of cand \<noteq> Neither \<and> (\<forall>p. wrapping_of cand = Parent p \<longrightarrow> rank (p_subject p) < rank ?u)"
    using c by (cases rule: candidate_made) (use assms(6) in \<open>simp_all add: declared_chain_def\<close>)
  then have cw: "wrapping_of cand \<noteq> Neither" "\<And>p. wrapping_of cand = Parent p \<Longrightarrow> rank (p_subject p) < rank ?u"
    by simp_all
  obtain s5 where I: "locked w (\<lambda>t. get_or_insert_subject_key t ?u ?v cand (get_subject_key ?T ?u ?v)) s4 = (Inr (Some cand), s5)"
    "ready rank s5" "keeps_readable w ?T (ks_table s5)" "get_subject_key (ks_table s5) ?u ?v = Some cand"
    "\<And>a b. (a, b) \<noteq> (?u, ?v) \<Longrightarrow> get_subject_key (ks_table s5) a b = get_subject_key (ks_table s4) a b"
    using install [OF assms(2,7) conjunct1 [OF F] assms(10) _ _ new cw] F by blast
  note P = persisted_opens [OF assms(2-4) c assms(8,11,5) _ I(2,4,5)]
  have P: "open_persisted w ?u ?v ancestors par cand s5 = (Inr (Some fresh), s5)"
    "opens w (ks_table s5) (MAX_SUBJECT_DEPTH + 1) ?u ?v = Inr (Some fresh)"
    using P assms(6) by simp_all
  have "get_subject_key (ks_table s5) a b = get_subject_key ?T a b" if "(a, b) \<notin> set (k # ancestors)" for a b
    using I(5) [of a b] F that by auto
  then have "minted w rank (k # ancestors) s (Inr (Some fresh), s5)" using I(2,3) P(2) by (simp add: minted_def del: opens.simps)
  then show thesis using that I(1) P(1) by blast
qed

lemma mint_sound:
  assumes "undisturbed w" and "cipher_ok (kw_cipher w)" and "masters_ok (kw_masters w)"
    and "\<And>s. rank s \<le> MAX_SUBJECT_DEPTH"
  shows "declared_chain rank chain \<Longrightarrow> ready rank s \<Longrightarrow> minted w rank chain s (try_mint_in w chain s)"
proof (induction chain arbitrary: s)
  case Nil
  then show ?case by (auto simp: ks_simps intro: minted_same)
next
  case (Cons k ancestors)
  let ?u = "fst k" and ?v = "snd k"
  let ?T = "ks_table s" and ?m = "\<lambda>_. attempts_at MINT_ATTEMPTS (try_mint_in w ancestors)"
  have above: "minted w rank ancestors s (?m ancestors s)" if "ready rank s" for s
    using Cons.prems(1) Cons.IH that by (intro minted_attempts) (simp_all add: declared_chain_def)
  define s1 where "s1 = s\<lparr>ks_turn := ks_turn s + 1\<rparr>"
  have s1: "ks_table s1 = ?T" "ks_cache s1 = ks_cache s" "ks_cache s = None"
    using Cons.prems(2) by (simp_all add: s1_def ready_def)
  define R where "R = opens w ?T (MAX_SUBJECT_DEPTH + 1) ?u ?v"
  obtain n where o: "(case get_subject_key ?T ?u ?v of
       None \<Rightarrow> ret None
     | Some row \<Rightarrow> open_row w (cached (load_secret_at w MAX_SUBJECT_DEPTH)) ?u ?v row) s1 = (R, s1\<lparr>ks_turn := n\<rparr>)"
    using opened_existing [OF assms(1), of s1 ?u ?v] s1 by (auto simp: R_def)
  define s2 where "s2 = s1\<lparr>ks_turn := n\<rparr>"
  have s2: "ks_table s2 = ?T" "ks_cache s2 = ks_cache s" "ready rank s2"
    using s1 Cons.prems(2) by (simp_all add: s2_def ready_def)
  have read: "locked_read w (\<lambda>t. get_subject_key t ?u ?v) s = (Inr (get_subject_key ?T ?u ?v), s1)"
    by (simp add: locked_read_undisturbed [OF assms(1)] s1_def)
  note step = try_mint_in.simps(2) bind_ks_Inr [where m = "locked_read w (\<lambda>t. get_subject_key t ?u ?v)" and s = s, OF read] o [folded s2_def] bind_ks_def [where s = s1] ret_def fails_def
  show ?case
  proof (cases R)
    case (Inl e)
    then have "try_mint_in w (k # ancestors) s = (Inl e, s2)" by (simp add: step)
    then show ?thesis using s2 Cons.prems(2) by (auto intro: minted_same)
  next
    case (Inr found)
    show ?thesis
    proof (cases found)
      case (Some sec)
      then have "try_mint_in w (k # ancestors) s = (Inr (Some sec), s2)" using Inr by (simp add: step)
      then show ?thesis using s2 Inr Some R_def by (auto simp del: opens.simps intro!: mintedI)
    next
      case None
      then have dead: "\<not> readable w ?T ?u ?v" using Inr R_def unreadable by metis
      obtain r3 s3 where d: "random_secret w s2 = (r3, s3)" by (metis prod.collapse)
      have s3: "ks_table s3 = ?T" "ks_cache s3 = ks_cache s" "ready rank s3"
        using draw_table [OF d [unfolded random_secret_def]] s2 by (simp_all add: ready_def)
      show ?thesis
      proof (cases r3)
        case (Inl e)
        then have "try_mint_in w (k # ancestors) s = (Inl e, s3)" using Inr None d by (simp add: step bind_ks_def [where s = s2])
        then show ?thesis using s3 Cons.prems(2) by (auto intro: minted_same)
      next
        case fresh: (Inr fresh)
        obtain r4 s4 where c: "candidate_key w ?m ?u ?v ancestors fresh s3 = (r4, s4)" by (metis prod.collapse)
        note F = candidate_frame [OF c s3(3) above [OF s3(3)], unfolded s3(1)]
        show ?thesis
        proof (cases "\<exists>made. r4 = Inr (Some made)")
          case False
          then have "r4 = Inr None \<or> (\<exists>e. r4 = Inl e)" by (metis obj_sumE option.exhaust)
          then obtain r where r: "try_mint_in w (k # ancestors) s = (r, s4)" "\<And>x. r \<noteq> Inr (Some x)"
            using Inr None d fresh c by (auto simp: step bind_ks_def [where s = s2] bind_ks_def [where s = s3])
          then show ?thesis using F by (auto simp: r(1) intro!: mintedI)
        next
          case True
          then obtain cand par where r4: "r4 = Inr (Some (cand, par))" by auto
          obtain s5 where I: "locked w (\<lambda>t. get_or_insert_subject_key t ?u ?v cand (get_subject_key ?T ?u ?v)) s4 = (Inr (Some cand), s5)"
            "open_persisted w ?u ?v ancestors par cand s5 = (Inr (Some fresh), s5)"
            "minted w rank (k # ancestors) s (Inr (Some fresh), s5)"
            using mint_installs [OF assms Cons.prems s3(3,1) dead above [OF s3(3)] c [unfolded r4]] .
          have "try_mint_in w (k # ancestors) s = (Inr (Some fresh), s5)"
            using Inr None d fresh c r4 I(1,2)
            by (simp add: step bind_ks_def [where s = s2] bind_ks_def [where s = s3] bind_ks_def [where s = s4])
          then show ?thesis using I(3) by simp
        qed
      qed
    qed
  qed
qed

subsection \<open>A mint answers\<close>

text \<open>
  A key that cannot be opened stops a mint; a key that is gone, or whose parent is gone or is of another
  generation, does not.
\<close>

definition entropy_ok :: "key_world \<Rightarrow> bool" where
  "entropy_ok w \<longleftrightarrow> (\<forall>n. \<exists>b. c_random (kw_cipher w) n = Inr b)"

definition able :: "key_world \<Rightarrow> key_table \<Rightarrow> (string \<times> string) list \<Rightarrow> bool" where
  "able w t chain \<longleftrightarrow> entropy_ok w \<and>
     (\<forall>k \<in> set chain. \<exists>r. opens w t (MAX_SUBJECT_DEPTH + 1) (fst k) (snd k) = Inr r \<and>
        (\<forall>sec. r = Some sec \<longrightarrow> length sec = SIV_KEY_LEN))"

lemma draw_answers: "entropy_ok w \<Longrightarrow> \<exists>b s'. draw w n s = (Inr b, s')"
  unfolding entropy_ok_def draw_def by (metis map_sum.simps(2))

lemma wrap_answers: "entropy_ok w \<Longrightarrow> \<exists>b s'. wrap_key_under w key secret aad s = (Inr b, s')"
  using draw_answers [of w WRAP_NONCE_LEN s] by (auto simp: wrap_key_under_def ks_simps)

lemma attempts_first: "m s = (Inr (Some x), s') \<Longrightarrow> 0 < n \<Longrightarrow> attempts_at n m s = (Inr (Some x), s')"
  by (cases n) (simp_all add: bind_ks_def ret_def)

lemma mint_answers:
  assumes "undisturbed w" and "cipher_ok (kw_cipher w)" and "masters_ok (kw_masters w)"
    and "\<And>s. rank s \<le> MAX_SUBJECT_DEPTH"
  shows "declared_chain rank chain \<Longrightarrow> ready rank s \<Longrightarrow> chain \<noteq> [] \<Longrightarrow> able w (ks_table s) chain \<Longrightarrow>
    \<exists>sec s'. try_mint_in w chain s = (Inr (Some sec), s') \<and> length sec = SIV_KEY_LEN"
proof (induction chain arbitrary: s)
  case (Cons k ancestors)
  let ?u = "fst k" and ?v = "snd k"
  let ?T = "ks_table s" and ?m = "\<lambda>_. attempts_at MINT_ATTEMPTS (try_mint_in w ancestors)"
  define s1 where "s1 = s\<lparr>ks_turn := ks_turn s + 1\<rparr>"
  have s1: "ks_table s1 = ?T" "ks_cache s1 = ks_cache s" "ks_cache s = None"
    using Cons.prems(2) by (simp_all add: s1_def ready_def)
  obtain found where R: "opens w ?T (MAX_SUBJECT_DEPTH + 1) ?u ?v = Inr found" and len: "\<And>sec. found = Some sec \<Longrightarrow> length sec = SIV_KEY_LEN"
    using Cons.prems(4) by (auto simp: able_def simp del: opens.simps)
  obtain n where o: "(case get_subject_key ?T ?u ?v of
       None \<Rightarrow> ret None
     | Some row \<Rightarrow> open_row w (cached (load_secret_at w MAX_SUBJECT_DEPTH)) ?u ?v row) s1 = (Inr found, s1\<lparr>ks_turn := n\<rparr>)"
    using opened_existing [OF assms(1), of s1 ?u ?v] s1 R by (auto simp del: opens.simps)
  define s2 where "s2 = s1\<lparr>ks_turn := n\<rparr>"
  have s2: "ks_table s2 = ?T" "ready rank s2" using s1 Cons.prems(2) by (simp_all add: s2_def ready_def)
  have read: "locked_read w (\<lambda>t. get_subject_key t ?u ?v) s = (Inr (get_subject_key ?T ?u ?v), s1)"
    by (simp add: locked_read_undisturbed [OF assms(1)] s1_def)
  note step = try_mint_in.simps(2) bind_ks_Inr [where m = "locked_read w (\<lambda>t. get_subject_key t ?u ?v)" and s = s, OF read]
    o [folded s2_def] bind_ks_def [where s = s1] ret_def fails_def
  show ?case
  proof (cases found)
    case (Some sec)
    then show ?thesis using len by (simp add: step)
  next
    case None
    then have dead: "\<not> readable w ?T ?u ?v" using R unreadable by metis
    have entropy: "entropy_ok w" using Cons.prems(4) by (simp add: able_def)
    obtain fresh s3 where d: "random_secret w s2 = (Inr fresh, s3)"
      using draw_answers [OF entropy] unfolding random_secret_def by blast
    have s3: "ks_table s3 = ?T" "ready rank s3"
      using draw_table [OF d [unfolded random_secret_def]] s2 by (simp_all add: ready_def)
    have fresh: "length fresh = SIV_KEY_LEN"
      using d cipher_okD(5) [OF assms(2)] by (cases "c_random (kw_cipher w) (ks_entropy s2)") (auto simp: random_secret_def draw_def)
    have above: "minted w rank ancestors s3 (?m ancestors s3)"
      using Cons.prems(1) s3 by (intro minted_attempts mint_sound [OF assms]) (simp_all add: declared_chain_def)
    have "\<exists>made s4. candidate_key w ?m ?u ?v ancestors fresh s3 = (Inr (Some made), s4)"
    proof (cases ancestors)
      case Nil
      then show ?thesis using wrap_answers [OF entropy, of "primary_key (kw_masters w)" fresh "[]" s3]
        by (auto simp: candidate_key_def wrap_key_def bind_ks_def ret_def)
    next
      case (Cons p rest)
      obtain parent s' where "try_mint_in w ancestors s3 = (Inr (Some parent), s')"
        using Cons.IH [of s3] Cons.prems Cons s3 by (auto simp: declared_chain_def able_def)
      then have "?m ancestors s3 = (Inr (Some parent), s')" by (intro attempts_first) (simp_all add: MINT_ATTEMPTS_def)
      then show ?thesis using wrap_answers [OF entropy, of "child_kek (kw_cipher w) parent" fresh "child_aad ?u ?v (fst p) (snd p)" s']
        by (cases p) (auto simp: candidate_key_def bind_ks_def ret_def Cons simp del: try_mint_in.simps)
    qed
    then obtain cand par s4 where c: "candidate_key w ?m ?u ?v ancestors fresh s3 = (Inr (Some (cand, par)), s4)" by auto
    obtain s5 where I: "locked w (\<lambda>t. get_or_insert_subject_key t ?u ?v cand (get_subject_key ?T ?u ?v)) s4 = (Inr (Some cand), s5)"
      "open_persisted w ?u ?v ancestors par cand s5 = (Inr (Some fresh), s5)"
      using mint_installs [OF assms Cons.prems(1,2) s3(2,1) dead above c] .
    then show ?thesis using None d c fresh
      by (simp add: step bind_ks_def [where s = s2] bind_ks_def [where s = s3] bind_ks_def [where s = s4])
  qed
qed simp

end
