(* ===== verification/Keystore_Props.thy ===== *)
theory Keystore_Props
  imports Keystore_Mint
begin

section \<open>Sealing, erasing, adopting\<close>

text \<open>
  The properties of the key store over whole operations, on a store nobody else is changing and a
  declared hierarchy.  Their witnesses are in \<open>Keystore_Examples\<close>.
\<close>

definition sound_world :: "key_world \<Rightarrow> (string \<Rightarrow> nat) \<Rightarrow> bool" where
  "sound_world w rank \<longleftrightarrow> undisturbed w \<and> cipher_ok (kw_cipher w) \<and> masters_ok (kw_masters w) \<and>
     (\<forall>s. rank s \<le> MAX_SUBJECT_DEPTH)"

lemma sound_worldD:
  assumes "sound_world w rank"
  shows "undisturbed w" "cipher_ok (kw_cipher w)" "masters_ok (kw_masters w)" "rank s \<le> MAX_SUBJECT_DEPTH"
  using assms by (simp_all add: sound_world_def)

lemma mint_secret_sound:
  assumes "sound_world w rank" and "declared_chain rank chain" and "ready rank s"
  shows "minted w rank chain s (mint_secret_in w chain s)"
  unfolding mint_secret_in_def
  by (rule minted_attempts [OF mint_sound [OF sound_worldD(1-3) [OF assms(1)] sound_worldD(4) [OF assms(1)] assms(2)] assms(3)])

lemma load_secret_opens:
  "undisturbed w \<Longrightarrow> ks_cache s = None \<Longrightarrow>
    \<exists>k. load_secret w u v s = (opens w (ks_table s) (MAX_SUBJECT_DEPTH + 1) u v, s\<lparr>ks_turn := k\<rparr>)"
  unfolding load_secret_def by (rule load_opens)

lemma ready_turn [simp]: "ready rank (s\<lparr>ks_turn := k\<rparr>) = ready rank s"
  by (simp add: ready_def)

subsection \<open>Sealing\<close>

lemma encrypt_sound:
  assumes "sound_world w rank" and "declared_chain rank chain" and "ready rank s"
    and "encrypt_subject_in w chain field plaintext s = (r, s')"
  shows "ready rank s' \<and> keeps_readable w (ks_table s) (ks_table s') \<and>
    (\<forall>ct. r = Inr ct \<longrightarrow> (\<exists>sec. encrypt_with (kw_cipher w) sec field plaintext = Inr ct \<and>
       opens w (ks_table s') (MAX_SUBJECT_DEPTH + 1) (fst (hd chain)) (snd (hd chain)) = Inr (Some sec)))"
proof -
  obtain r1 s1 where m: "mint_secret_in w chain s = (r1, s1)" by (metis prod.collapse)
  note M = mint_secret_sound [OF assms(1-3), unfolded m]
  have "s' = s1" using assms(4)
    by (auto simp: encrypt_subject_in_def get_or_create_secret_in_def ks_simps m split: sum.splits option.splits)
  moreover have "\<exists>sec. encrypt_with (kw_cipher w) sec field plaintext = Inr ct \<and> r1 = Inr (Some sec)" if "r = Inr ct" for ct
    using assms(4) that
    by (auto simp: encrypt_subject_in_def get_or_create_secret_in_def ks_simps m split: sum.splits option.splits)
  ultimately show ?thesis using M by (fastforce simp: minted_def simp del: opens.simps)
qed

type_synonym sealing = "(string \<times> string) list \<times> string \<times> string"

primrec seal_all :: "key_world \<Rightarrow> sealing list \<Rightarrow> keystore \<Rightarrow> keystore" where
  "seal_all w [] s = s"
| "seal_all w (x # xs) s = (case x of (chain, field, plaintext) \<Rightarrow> seal_all w xs (snd (encrypt_subject_in w chain field plaintext s)))"

lemma seal_all_sound:
  assumes "sound_world w rank"
  shows "ready rank s \<Longrightarrow> \<forall>x \<in> set xs. declared_chain rank (fst x) \<Longrightarrow>
    ready rank (seal_all w xs s) \<and> keeps_readable w (ks_table s) (ks_table (seal_all w xs s))"
proof (induction xs arbitrary: s)
  case (Cons x xs)
  obtain chain field plaintext where x: "x = (chain, field, plaintext)" by (cases x)
  obtain r s' where e: "encrypt_subject_in w chain field plaintext s = (r, s')" by (metis prod.collapse)
  have E: "ready rank s'" "keeps_readable w (ks_table s) (ks_table s')"
    using encrypt_sound [OF assms _ Cons.prems(1) e] Cons.prems(2) x by simp_all
  have "ready rank (seal_all w xs s') \<and> keeps_readable w (ks_table s') (ks_table (seal_all w xs s'))"
    using Cons.prems(2) by (intro Cons.IH [OF E(1)]) simp
  then show ?case using keeps_readable_trans [OF E(2)] by (simp add: x e)
qed simp

text \<open>A request's cache answers what the store answers.\<close>

definition cache_ok :: "key_world \<Rightarrow> keystore \<Rightarrow> bool" where
  "cache_ok w s \<longleftrightarrow>
     (\<exists>cache. ks_cache s = Some cache \<and>
       (\<forall>u v r. fmlookup cache (u, v) = Some r \<longrightarrow> (\<exists>n. opens w (ks_table s) n u v = Inr r)))"

lemma opens_unique: "opens w t m u v = Inr a \<Longrightarrow> opens w t n u v = Inr b \<Longrightarrow> a = b"
  using opens_mono [of w t m u v a "max m n"] opens_mono [of w t n u v b "max m n"] by simp

lemma cached_load:
  assumes "undisturbed w"
  shows "opens w (ks_table s) n u v = Inr r \<Longrightarrow> cache_ok w s \<Longrightarrow>
    \<exists>s'. cached (load_secret_at w n) u v s = (Inr r, s') \<and> ks_table s' = ks_table s \<and> cache_ok w s'"
proof (induction n arbitrary: u v r s)
  case (Suc n)
  obtain cache where c: "ks_cache s = Some cache"
    and hits: "\<And>u v r. fmlookup cache (u, v) = Some r \<Longrightarrow> \<exists>n. opens w (ks_table s) n u v = Inr r"
    using Suc.prems(2) unfolding cache_ok_def by blast
  show ?case
  proof (cases "fmlookup cache (u, v)")
    case (Some r')
    then have "r' = r" using hits [OF Some] opens_unique [OF Suc.prems(1)] by metis
    then show ?thesis using Suc.prems(2) c Some by (simp add: cached_def)
  next
    case None
    let ?s1 = "s\<lparr>ks_turn := ks_turn s + 1\<rparr>"
    have ok1: "cache_ok w ?s1" using Suc.prems(2) by (simp add: cache_ok_def)
    have "\<exists>s2. load_secret_at w (Suc n) u v s = (Inr r, s2) \<and> ks_table s2 = ks_table s \<and> cache_ok w s2"
    proof (cases "get_subject_key (ks_table s) u v")
      case None
      then show ?thesis using Suc.prems(1) ok1 assms
        by (auto simp: bind_ks_def locked_read_undisturbed ret_def)
    next
      case (Some row)
      have "\<exists>s2. open_row w (cached (load_secret_at w n)) u v row ?s1 = (Inr r, s2) \<and> ks_table s2 = ks_table s \<and> cache_ok w s2"
      proof (cases "wrapping_of row")
        case (Parent p)
        obtain found where f: "opens w (ks_table s) n (p_subject p) (p_value p) = Inr found"
          using Suc.prems(1) Some by (auto simp: opens_row_def Parent bind_res_Inr_iff)
        have same: "ks_table ?s1 = ks_table s" by simp
        from Suc.IH [of ?s1, unfolded same, OF f ok1]
        obtain s2 where "cached (load_secret_at w n) (p_subject p) (p_value p) ?s1 = (Inr found, s2)"
          "ks_table s2 = ks_table s" "cache_ok w s2" by blast
        then show ?thesis using Suc.prems(1) Some f
          by (auto simp: open_row_def opens_row_def Parent ks_simps split: option.splits)
      qed (use Suc.prems(1) Some ok1 in \<open>auto simp: open_row_def opens_row_def ks_simps\<close>)
      then show ?thesis using assms Some by (simp add: bind_ks_def locked_read_undisturbed)
    qed
    then obtain s2 where s2: "load_secret_at w (Suc n) u v s = (Inr r, s2)" "ks_table s2 = ks_table s" "cache_ok w s2" by blast
    obtain cache2 where c2: "ks_cache s2 = Some cache2"
      "\<And>u v r. fmlookup cache2 (u, v) = Some r \<Longrightarrow> \<exists>n. opens w (ks_table s) n u v = Inr r"
      using s2(2,3) unfolding cache_ok_def by auto
    have "cache_ok w (s2\<lparr>ks_cache := Some (fmupd (u, v) r cache2)\<rparr>)"
      using c2(2) Suc.prems(1) s2(2) unfolding cache_ok_def
      by (auto simp del: opens.simps intro: exI [of _ "Suc n"])
    then show ?thesis using c None s2 c2(1)
      by (simp add: cached_def bind_ks_def del: load_secret_at.simps)
  qed
qed simp

lemma cache_ok_new: "cache_ok w (row_decryptor s)"
  by (simp add: cache_ok_def row_decryptor_def)

lemma row_decrypt_agrees:
  assumes "undisturbed w" and "ks_cache s = None" and "fst (decrypt_subject w u v field ct s) = Inr r"
    and "cache_ok w s'" and "ks_table s' = ks_table s"
  shows "fst (row_decrypt w u v field ct s') = Inr r \<and> cache_ok w (snd (row_decrypt w u v field ct s')) \<and>
    ks_table (snd (row_decrypt w u v field ct s')) = ks_table s"
proof -
  obtain k where k: "load_secret w u v s = (opens w (ks_table s) (MAX_SUBJECT_DEPTH + 1) u v, s\<lparr>ks_turn := k\<rparr>)"
    using load_secret_opens [OF assms(1,2)] by blast
  then obtain found where f: "opens w (ks_table s) (MAX_SUBJECT_DEPTH + 1) u v = Inr found"
    and r: "r = (case found of None \<Rightarrow> None | Some sec \<Rightarrow> plaintext_under (kw_cipher w) sec field ct)"
    using assms(3) by (cases "opens w (ks_table s) (MAX_SUBJECT_DEPTH + 1) u v")
      (auto simp: decrypt_subject_def ks_simps split: option.splits)
  obtain s2 where "cached (load_secret_at w (MAX_SUBJECT_DEPTH + 1)) u v s' = (Inr found, s2)"
      "ks_table s2 = ks_table s'" "cache_ok w s2"
    using cached_load [OF assms(1) _ assms(4)] f assms(5) by metis
  then show ?thesis using assms(5) by (simp add: row_decrypt_def ks_simps r split: option.splits)
qed

lemma mint_secret_answers:
  assumes "sound_world w rank" and "declared_chain rank chain" and "ready rank s" and "chain \<noteq> []" and "able w (ks_table s) chain"
  shows "\<exists>sec s'. mint_secret_in w chain s = (Inr (Some sec), s') \<and> length sec = SIV_KEY_LEN"
proof -
  obtain sec s' where "try_mint_in w chain s = (Inr (Some sec), s')" "length sec = SIV_KEY_LEN"
    using mint_answers [OF sound_worldD(1-4) [OF assms(1)] assms(2-5)] by blast
  then have "attempts_at MINT_ATTEMPTS (try_mint_in w chain) s = (Inr (Some sec), s')"
    by (intro attempts_first) (simp_all add: MINT_ATTEMPTS_def)
  then show ?thesis using \<open>length sec = SIV_KEY_LEN\<close> by (simp add: mint_secret_in_def)
qed

lemma encrypt_answers:
  assumes "sound_world w rank" and "declared_chain rank ((u, v) # ancestors)" and "ready rank s"
    and "able w (ks_table s) ((u, v) # ancestors)"
    and "encrypt_subject_in w ((u, v) # ancestors) field plaintext s = (r, s')"
  shows "\<exists>ct. r = Inr ct"
proof -
  obtain sec s1 where "mint_secret_in w ((u, v) # ancestors) s = (Inr (Some sec), s1)" "length sec = SIV_KEY_LEN"
    using mint_secret_answers [OF assms(1-3) _ assms(4)] by blast
  then show ?thesis using assms(5)
    by (auto simp: encrypt_subject_in_def get_or_create_secret_in_def ks_simps encrypt_with_def)
qed

text \<open>
  C22: what is sealed reads back.  Content sealed under a declared chain, whether the sealing found the
  keys or minted them, decrypts to itself under the same field, after any further sealings under any
  declared chains; and a request's decryptor, whatever it has already decrypted, answers the same.  And
  the sealing does answer, when the system has entropy and no key of the chain is one that refuses to open.
\<close>

theorem sealed_reads_back:
  assumes "sound_world w rank" and "ready rank s" and "declared_chain rank ((u, v) # ancestors)"
    and "encrypt_subject_in w ((u, v) # ancestors) field plaintext s = (r, s1)"
    and "c_utf8 (kw_cipher w) plaintext" and "\<forall>x \<in> set later. declared_chain rank (fst x)"
    and "cache_ok w s2" and "ks_table s2 = ks_table (seal_all w later s1)"
  shows "(able w (ks_table s) ((u, v) # ancestors) \<longrightarrow> (\<exists>ct. r = Inr ct)) \<and>
    (\<forall>ct. r = Inr ct \<longrightarrow>
      fst (decrypt_subject w u v field ct (seal_all w later s1)) = Inr (Some plaintext) \<and>
      fst (row_decrypt w u v field ct s2) = Inr (Some plaintext))"
proof (intro conjI allI impI)
  show "\<exists>ct. r = Inr ct" if "able w (ks_table s) ((u, v) # ancestors)"
    by (rule encrypt_answers [OF assms(1,3,2) that assms(4)])
next
  fix ct
  assume r: "r = Inr ct"
  let ?s = "seal_all w later s1"
  have E: "ready rank s1" and "\<exists>sec. encrypt_with (kw_cipher w) sec field plaintext = Inr ct \<and>
       opens w (ks_table s1) (MAX_SUBJECT_DEPTH + 1) u v = Inr (Some sec)"
    using encrypt_sound [OF assms(1,3,2,4)] r by simp_all
  then obtain sec where sec: "encrypt_with (kw_cipher w) sec field plaintext = Inr ct"
    "opens w (ks_table s1) (MAX_SUBJECT_DEPTH + 1) u v = Inr (Some sec)" by blast
  have K: "keeps_readable w (ks_table s1) (ks_table ?s)" and none: "ks_cache ?s = None"
    using seal_all_sound [OF assms(1) E assms(6)] by (simp_all add: ready_def)
  have open': "opens w (ks_table ?s) (MAX_SUBJECT_DEPTH + 1) u v = Inr (Some sec)" by (rule opens_keeps [OF K sec(2)])
  obtain k where "load_secret w u v ?s = (opens w (ks_table ?s) (MAX_SUBJECT_DEPTH + 1) u v, ?s\<lparr>ks_turn := k\<rparr>)"
    using load_secret_opens [OF sound_worldD(1) [OF assms(1)] none] by blast
  then show D: "fst (decrypt_subject w u v field ct ?s) = Inr (Some plaintext)"
    using open' decrypt_encrypt [OF sound_worldD(2) [OF assms(1)] sec(1) assms(5)]
    by (simp add: decrypt_subject_def ks_simps)
  show "fst (row_decrypt w u v field ct s2) = Inr (Some plaintext)"
    using row_decrypt_agrees [OF sound_worldD(1) [OF assms(1)] none D assms(7,8)] by simp
qed

end
