(* ===== verification/Schema.thy ===== *)
theory Schema
  imports Json Keystore_Props
begin

section \<open>Declarations as the runtime stores them (src/schema.rs)\<close>

text \<open>
  \<open>hk_type\<close> has the constructors of heklang's \<open>Type\<close> that the source names; which subject a type is sealed
  under and which variants an enum has are heklang's answers, the arguments \<open>ty_subject\<close> and \<open>variants\<close>.
\<close>

datatype hk_type =
    T_Sealed hk_type string
  | T_Opt hk_type
  | T_Bool
  | T_Int
  | T_String
  | T_Uuid
  | T_Timestamp
  | T_Money nat
  | T_Decimal nat
  | T_Enum string
  | T_Subject string hk_type
  | T_Record string
  | T_List hk_type
  | T_Map hk_type hk_type
  | T_Json
  | T_Rounding
  | T_Response
  | T_Outcome
  | T_Secret
  | T_Event string

subsection \<open>Field kinds\<close>

datatype field_kind =
    Text "nat option"
  | I64
  | Bool
  | Uuid
  | Timestamp
  | Money nat
  | Json_Kind
  | OneOf "string list"
  | Optional field_kind

fun kind_sql_type :: "field_kind \<Rightarrow> string" where
  "kind_sql_type (Text _) = ''TEXT''"
| "kind_sql_type Uuid = ''TEXT''"
| "kind_sql_type (OneOf _) = ''TEXT''"
| "kind_sql_type I64 = ''INTEGER''"
| "kind_sql_type (Money _) = ''TEXT''"
| "kind_sql_type Bool = ''INTEGER''"
| "kind_sql_type Timestamp = ''TEXT''"
| "kind_sql_type Json_Kind = ''TEXT''"
| "kind_sql_type (Optional k) = kind_sql_type k"

fun kind_nullable :: "field_kind \<Rightarrow> bool" where
  "kind_nullable (Optional _) \<longleftrightarrow> True"
| "kind_nullable _ \<longleftrightarrow> False"

fun describe :: "field_kind \<Rightarrow> string" where
  "describe (Text (Some n)) = ''String @max('' @ nat_str n @ '')''"
| "describe (Text None) = ''String''"
| "describe I64 = ''Int''"
| "describe Bool = ''Bool''"
| "describe Uuid = ''Uuid''"
| "describe Timestamp = ''Timestamp''"
| "describe (Money scale) = ''Money('' @ nat_str scale @ '')''"
| "describe Json_Kind = ''Json''"
| "describe (OneOf values) = joined '' | '' values"
| "describe (Optional (Text (Some n))) = ''String? @max('' @ nat_str n @ '')''"
| "describe (Optional (OneOf values)) = ''('' @ joined '' | '' values @ '')?''"
| "describe (Optional k) = describe k @ ''?''"

fun kind_base :: "field_kind \<Rightarrow> field_kind" where
  "kind_base (Optional k) = k"
| "kind_base k = k"

fun is_keyable :: "field_kind \<Rightarrow> bool" where
  "is_keyable (Text _) \<longleftrightarrow> True"
| "is_keyable I64 \<longleftrightarrow> True"
| "is_keyable Uuid \<longleftrightarrow> True"
| "is_keyable Timestamp \<longleftrightarrow> True"
| "is_keyable (OneOf _) \<longleftrightarrow> True"
| "is_keyable _ \<longleftrightarrow> False"

definition is_comparable :: "field_kind \<Rightarrow> bool" where
  "is_comparable k \<longleftrightarrow> is_keyable k \<and> (case k of OneOf _ \<Rightarrow> False | _ \<Rightarrow> True)"

fun kind_of :: "(string \<Rightarrow> string list option) \<Rightarrow> hk_type \<Rightarrow> field_kind" where
  "kind_of variants (T_Sealed t _) = kind_of variants t"
| "kind_of variants (T_Opt t) = Optional (kind_of variants t)"
| "kind_of variants T_Bool = Bool"
| "kind_of variants T_Int = I64"
| "kind_of variants T_String = Text None"
| "kind_of variants T_Uuid = Uuid"
| "kind_of variants T_Timestamp = Timestamp"
| "kind_of variants (T_Money scale) = Money scale"
| "kind_of variants (T_Decimal scale) = Money scale"
| "kind_of variants (T_Enum name) = OneOf (case variants name of None \<Rightarrow> [] | Some vs \<Rightarrow> vs)"
| "kind_of variants (T_Subject name t) = kind_of variants t"
| "kind_of variants _ = Json_Kind"

fun bounded :: "field_kind \<Rightarrow> nat option \<Rightarrow> field_kind" where
  "bounded (Optional k) m = Optional (bounded k m)"
| "bounded (Text _) (Some m) = Text (if m < 2 ^ 32 then Some m else None)"
| "bounded k _ = k"

fun identified_subject :: "hk_type \<Rightarrow> string option" where
  "identified_subject (T_Subject name _) = Some name"
| "identified_subject (T_Opt t) = identified_subject t"
| "identified_subject _ = None"

subsection \<open>Fields, seals and events\<close>

record seal =
  sl_chain :: "(string \<times> string) list"

definition seal_subject :: "seal \<Rightarrow> string" where
  "seal_subject s = fst (sl_chain s ! 0)"

definition seal_id_field :: "seal \<Rightarrow> string" where
  "seal_id_field s = snd (sl_chain s ! 0)"

definition seal_resolve :: "seal \<Rightarrow> (string \<Rightarrow> string option) \<Rightarrow> (string \<times> string) list option" where
  "seal_resolve s ids = those (map (\<lambda>(subject, id_field). map_option (Pair subject) (ids id_field)) (sl_chain s))"

record field_meta =
  fm_kind :: field_kind
  fm_indexed :: bool
  fm_sealed_under :: "seal option"
  fm_identifies :: "string option"

definition field_sql_type :: "field_meta \<Rightarrow> string" where
  "field_sql_type m = (if fm_sealed_under m \<noteq> None then ''TEXT'' else kind_sql_type (fm_kind m))"

record event_def =
  ed_event_type :: string
  ed_fields :: "(string \<times> field_meta) list"

definition event_field :: "event_def \<Rightarrow> string \<Rightarrow> field_meta option" where
  "event_field def name = map_option snd (find (\<lambda>f. fst f = name) (ed_fields def))"

definition is_subject :: "event_def \<Rightarrow> string \<Rightarrow> bool" where
  "is_subject def name \<longleftrightarrow>
     (case event_field def name of None \<Rightarrow> False | Some meta \<Rightarrow> fm_sealed_under meta \<noteq> None)"

definition event_type :: "string list \<Rightarrow> string" where
  "event_type segments = joined ''.'' segments"

subsection \<open>The hierarchy of subjects\<close>

type_synonym subjects = "(string, string) fmap"

definition parented :: "subjects \<Rightarrow> string list" where
  "parented parents = sorted_list_of_fset (fmdom parents)"

text \<open>\<open>links\<close> is how many links the walk may still take: one per declared parent.\<close>

primrec ancestors_within :: "subjects \<Rightarrow> nat \<Rightarrow> string \<Rightarrow> string list" where
  "ancestors_within parents 0 name = []"
| "ancestors_within parents (Suc links) name =
     (case fmlookup parents name of
        None \<Rightarrow> []
      | Some parent \<Rightarrow> parent # ancestors_within parents links parent)"

definition ancestors :: "subjects \<Rightarrow> string \<Rightarrow> string list" where
  "ancestors parents name = ancestors_within parents (fcard (fmdom parents)) name"

record ir_field =
  if_name :: string
  if_ty :: hk_type
  if_max_len :: "nat option"
  if_indexed :: bool
  if_subject :: "string option"

record ir_event =
  ie_path :: "string list"
  ie_fields :: "ir_field list"

definition carries :: "string \<Rightarrow> ir_field \<Rightarrow> bool" where
  "carries ancestor f \<longleftrightarrow> (case if_ty f of T_Subject name _ \<Rightarrow> name = ancestor | _ \<Rightarrow> False)"

fun chain_links :: "ir_field list \<Rightarrow> string list \<Rightarrow> (string \<times> string) list" where
  "chain_links fs [] = []"
| "chain_links fs (ancestor # rest) =
     (case filter (carries ancestor) fs of
        [f] \<Rightarrow> (ancestor, if_name f) # chain_links fs rest
      | _ \<Rightarrow> [])"

definition seal_chain :: "ir_event \<Rightarrow> string \<Rightarrow> string \<Rightarrow> subjects \<Rightarrow> (string \<times> string) list" where
  "seal_chain def subject id_field parents =
     (subject, id_field) # chain_links (ie_fields def) (ancestors parents subject)"

definition event_def_of ::
  "(hk_type \<Rightarrow> string option) \<Rightarrow> (string \<Rightarrow> string list option) \<Rightarrow> subjects \<Rightarrow> ir_event \<Rightarrow> event_def" where
  "event_def_of ty_subject variants parents def =
     \<lparr>ed_event_type = event_type (ie_path def),
      ed_fields = map (\<lambda>f. (if_name f,
        \<lparr>fm_kind = bounded (kind_of variants (if_ty f)) (if_max_len f), fm_indexed = if_indexed f,
         fm_sealed_under = map_option (\<lambda>subject.
            \<lparr>sl_chain = seal_chain def subject (case if_subject f of None \<Rightarrow> subject | Some s \<Rightarrow> s) parents\<rparr>)
           (ty_subject (if_ty f)),
         fm_identifies = identified_subject (if_ty f)\<rparr>)) (ie_fields def)\<rparr>"

subsection \<open>The walk over the hierarchy\<close>

text \<open>heklang refuses a cycle, so some rank falls along every parent.\<close>

definition parents_ranked :: "(string \<Rightarrow> nat) \<Rightarrow> subjects \<Rightarrow> bool" where
  "parents_ranked rank parents \<longleftrightarrow> (\<forall>s p. fmlookup parents s = Some p \<longrightarrow> rank p < rank s)"

lemma ancestors_within_ranked:
  "parents_ranked rank parents \<Longrightarrow> a \<in> set (ancestors_within parents n s) \<Longrightarrow> rank a < rank s"
proof (induction n arbitrary: s)
  case (Suc n)
  then obtain p where p: "fmlookup parents s = Some p" "a = p \<or> a \<in> set (ancestors_within parents n p)"
    by (cases "fmlookup parents s") auto
  then have "rank p < rank s" using Suc.prems(1) by (simp add: parents_ranked_def)
  then show ?case using p(2) Suc.IH [OF Suc.prems(1), of p] by auto
qed simp

lemma ancestors_sorted:
  "parents_ranked rank parents \<Longrightarrow>
    sorted_wrt (\<lambda>a b. rank b < rank a) (s # ancestors_within parents n s)"
proof (induction n arbitrary: s)
  case (Suc n)
  show ?case
  proof (cases "fmlookup parents s")
    case (Some p)
    then show ?thesis using Suc ancestors_within_ranked [OF Suc.prems, of _ "Suc n" s] by auto
  qed simp
qed simp

text \<open>The bound never cuts a walk over an acyclic hierarchy.\<close>

lemma ancestors_step:
  assumes "parents_ranked rank parents"
  shows "ancestors parents s = (case fmlookup parents s of None \<Rightarrow> [] | Some p \<Rightarrow> p # ancestors parents p)"
proof -
  have more: "ancestors_within parents (Suc n) s = ancestors_within parents n s"
    if "card {a. fmlookup parents a \<noteq> None \<and> rank a \<le> rank s} \<le> n" for n s
    using that
  proof (induction n arbitrary: s)
    case 0
    have "finite {a. fmlookup parents a \<noteq> None \<and> rank a \<le> rank s}"
      by (rule finite_subset [of _ "fset (fmdom parents)"]) (auto simp: fmlookup_dom_iff)
    then have "{a. fmlookup parents a \<noteq> None \<and> rank a \<le> rank s} = {}" using 0 by simp
    then have "fmlookup parents s = None" by fastforce
    then show ?case by simp
  next
    case (Suc n)
    show ?case
    proof (cases "fmlookup parents s")
      case (Some p)
      let ?A = "\<lambda>s. {a. fmlookup parents a \<noteq> None \<and> rank a \<le> rank s}"
      have fin: "finite (?A s)"
        by (rule finite_subset [of _ "fset (fmdom parents)"]) (auto simp: fmlookup_dom_iff)
      have "rank p < rank s" using assms Some by (simp add: parents_ranked_def)
      then have "?A p \<subseteq> ?A s" "s \<in> ?A s - ?A p" using Some by auto
      then have "?A p \<subset> ?A s" by blast
      then have "card (?A p) < card (?A s)" using psubset_card_mono [OF fin] by blast
      then have "ancestors_within parents (Suc n) p = ancestors_within parents n p" using Suc by (intro Suc.IH) simp
      then show ?thesis using Some by simp
    qed simp
  qed
  have "card {a. fmlookup parents a \<noteq> None \<and> rank a \<le> rank s} \<le> fcard (fmdom parents)" for s
    unfolding fcard.rep_eq by (rule card_mono) (auto simp: fmlookup_dom_iff)
  then have "ancestors parents s = ancestors_within parents (Suc (fcard (fmdom parents))) s" for s
    using more by (simp add: ancestors_def)
  then show ?thesis by (simp add: ancestors_def split: option.splits)
qed

lemma chain_links_fst: "\<exists>m. map fst (chain_links fs as) = take m as"
proof (induction as)
  case (Cons a as)
  then obtain m where m: "map fst (chain_links fs as) = take m as" by blast
  show ?case
  proof (cases "\<exists>f. filter (carries a) fs = [f]")
    case True
    then show ?thesis using m by (auto intro: exI [of _ "Suc m"])
  next
    case False
    then have "chain_links fs (a # as) = []" by (auto split: list.splits)
    then show ?thesis by (auto intro: exI [of _ 0])
  qed
qed simp

lemma seal_chain_declared:
  assumes "parents_ranked rank parents"
  shows "declared_chain rank (seal_chain def subject id_field parents)"
proof -
  obtain m where m: "map fst (chain_links (ie_fields def) (ancestors parents subject)) = take m (ancestors parents subject)"
    using chain_links_fst by blast
  have "sorted_wrt (\<lambda>a b. rank b < rank a) (take (Suc m) (subject # ancestors parents subject))"
    unfolding ancestors_def by (rule sorted_wrt_take [OF ancestors_sorted [OF assms]])
  then have "sorted_wrt (\<lambda>a b. rank b < rank a) (map fst (seal_chain def subject id_field parents))"
    by (simp add: seal_chain_def m)
  then show ?thesis by (simp add: declared_chain_def sorted_wrt_map)
qed

lemma those_map_fst:
  "those (map (\<lambda>(s, i). map_option (Pair s) (ids i)) chain) = Some links \<Longrightarrow> map fst links = map fst chain"
  by (induction chain arbitrary: links) (auto split: option.splits)

lemma resolve_declared:
  assumes "seal_resolve s ids = Some links" and "declared_chain rank (sl_chain s)"
  shows "declared_chain rank links"
proof -
  have "map fst links = map fst (sl_chain s)" using assms(1) those_map_fst by (simp add: seal_resolve_def)
  then have "sorted_wrt (\<lambda>a b. rank b < rank a) (map fst links)"
    using assms(2) by (simp add: declared_chain_def sorted_wrt_map [symmetric, of _ fst] del: sorted_wrt_map) (simp add: sorted_wrt_map)
  then show ?thesis by (simp add: declared_chain_def sorted_wrt_map)
qed

end
