(* ===== verification/Envelope.thy ===== *)
theory Envelope
  imports Json Lane
begin

section \<open>Envelopes, causation and reserved tags (src/envelope.rs, src/context.rs, src/tags.rs)\<close>

text \<open>
  An event's payload is stored inside an envelope.  A \<open>Uuid\<close> is its hyphenated lower-case text.  The text
  of a JSON object and the reading of a text into its entries, in the order they stand, repeated keys
  included, are serde's: they are the fields of \<open>wire\<close>.
\<close>

record wire =
  w_object :: "(string \<times> json) list \<Rightarrow> bytes"
  w_entries :: "bytes \<Rightarrow> string + (string \<times> json) list"
  w_uuid :: "string \<Rightarrow> string option"

record envelope =
  e_event_id :: string
  e_timestamp :: string
  e_correlation_id :: string
  e_causation_id :: string
  e_triggering_event_id :: "string option"

subsection \<open>Causation\<close>

record command_context =
  cx_correlation_id :: string
  cx_causation_id :: string
  cx_triggering_event_id :: "string option"

text \<open>\<open>fresh\<close> is the version 4 id drawn for this execution.\<close>

definition new_context :: "string \<Rightarrow> string \<Rightarrow> command_context" where
  "new_context fresh correlation =
     \<lparr>cx_correlation_id = correlation, cx_causation_id = fresh, cx_triggering_event_id = None\<rparr>"

definition context_from_effect :: "string \<Rightarrow> string \<Rightarrow> string \<Rightarrow> command_context" where
  "context_from_effect fresh correlation triggering =
     \<lparr>cx_correlation_id = correlation, cx_causation_id = fresh, cx_triggering_event_id = Some triggering\<rparr>"

subsection \<open>Reserved tags\<close>

definition RESERVED_TAG_PREFIX :: string where "RESERVED_TAG_PREFIX = ''_hekla_''"
definition IDEMPOTENCY_TAG_KEY :: string where "IDEMPOTENCY_TAG_KEY = ''_hekla_idem''"
definition CORRELATION_TAG_KEY :: string where "CORRELATION_TAG_KEY = ''_hekla_corr''"

definition idempotency_tag :: "(bytes \<Rightarrow> bytes) \<Rightarrow> string \<Rightarrow> string \<Rightarrow> string" where
  "idempotency_tag sha command key =
     IDEMPOTENCY_TAG_KEY @ '':'' @ sha256_hex sha (command @ [CHR 0x00] @ key)"

definition correlation_tag_value :: "string \<Rightarrow> string" where
  "correlation_tag_value correlation = CORRELATION_TAG_KEY @ '':'' @ correlation"

definition correlation_tag :: "string \<Rightarrow> string" where
  "correlation_tag correlation = correlation_tag_value correlation"

subsection \<open>Writing\<close>

definition stored_entries :: "envelope \<Rightarrow> json \<Rightarrow> (string \<times> json) list" where
  "stored_entries env data =
     [(''event_id'', JStr (e_event_id env)), (''timestamp'', JStr (e_timestamp env)),
      (''correlation_id'', JStr (e_correlation_id env)), (''causation_id'', JStr (e_causation_id env))] @
     (case e_triggering_event_id env of None \<Rightarrow> [] | Some t \<Rightarrow> [(''triggering_event_id'', JStr t)]) @
     [(''data'', data)]"

definition encode_event :: "wire \<Rightarrow> envelope \<Rightarrow> json \<Rightarrow> bytes" where
  "encode_event io env data = w_object io (stored_entries env data)"

subsection \<open>Reading\<close>

record slots =
  s_event_id :: "string option"
  s_timestamp :: "string option"
  s_correlation_id :: "string option"
  s_causation_id :: "string option"
  s_triggering_event_id :: "string option option"
  s_data :: "json option"

definition no_slots :: slots where
  "no_slots = \<lparr>s_event_id = None, s_timestamp = None, s_correlation_id = None, s_causation_id = None,
     s_triggering_event_id = None, s_data = None\<rparr>"

fun as_uuid :: "wire \<Rightarrow> json \<Rightarrow> string + string" where
  "as_uuid io (JStr s) = ok_or (w_uuid io s) ''UUID parsing failed''"
| "as_uuid io _ = Inl ''invalid type, expected a formatted UUID string''"

fun as_text :: "json \<Rightarrow> string + string" where
  "as_text (JStr s) = Inr s"
| "as_text _ = Inl ''invalid type, expected a string''"

definition as_optional_uuid :: "wire \<Rightarrow> json \<Rightarrow> string + string option" where
  "as_optional_uuid io v = (if v = JNull then Inr None else map_sum id Some (as_uuid io v))"

definition once :: "'a option \<Rightarrow> string \<Rightarrow> (json \<Rightarrow> string + 'a) \<Rightarrow> json \<Rightarrow> string + 'a" where
  "once slot name read v =
     (if slot \<noteq> None then Inl (''duplicate field `'' @ name @ ''`'') else read v)"

definition visit_entry :: "wire \<Rightarrow> slots \<Rightarrow> string \<times> json \<Rightarrow> string + slots" where
  "visit_entry io s entry =
     (case entry of (key, v) \<Rightarrow>
        if key = ''event_id'' then
          map_sum id (\<lambda>x. s\<lparr>s_event_id := Some x\<rparr>) (once (s_event_id s) key (as_uuid io) v)
        else if key = ''timestamp'' then
          map_sum id (\<lambda>x. s\<lparr>s_timestamp := Some x\<rparr>) (once (s_timestamp s) key as_text v)
        else if key = ''correlation_id'' then
          map_sum id (\<lambda>x. s\<lparr>s_correlation_id := Some x\<rparr>) (once (s_correlation_id s) key (as_uuid io) v)
        else if key = ''causation_id'' then
          map_sum id (\<lambda>x. s\<lparr>s_causation_id := Some x\<rparr>) (once (s_causation_id s) key (as_uuid io) v)
        else if key = ''triggering_event_id'' then
          map_sum id (\<lambda>x. s\<lparr>s_triggering_event_id := Some x\<rparr>) (once (s_triggering_event_id s) key (as_optional_uuid io) v)
        else if key = ''data'' then
          map_sum id (\<lambda>x. s\<lparr>s_data := Some x\<rparr>) (once (s_data s) key Inr v)
        else Inr s)"

primrec visit_map :: "wire \<Rightarrow> (string \<times> json) list \<Rightarrow> slots \<Rightarrow> string + slots" where
  "visit_map io [] s = Inr s"
| "visit_map io (entry # entries) s = bind_res (visit_entry io s entry) (visit_map io entries)"

definition needed :: "'a option \<Rightarrow> string \<Rightarrow> string + 'a" where
  "needed slot name = ok_or slot (''missing field `'' @ name @ ''`'')"

definition stored_of :: "slots \<Rightarrow> string + envelope \<times> json" where
  "stored_of s =
     bind_res (needed (s_event_id s) ''event_id'')
       (\<lambda>i. bind_res (needed (s_timestamp s) ''timestamp'')
         (\<lambda>t. bind_res (needed (s_correlation_id s) ''correlation_id'')
           (\<lambda>c. bind_res (needed (s_causation_id s) ''causation_id'')
             (\<lambda>u. bind_res (needed (s_data s) ''data'')
               (\<lambda>d. Inr (\<lparr>e_event_id = i, e_timestamp = t, e_correlation_id = c, e_causation_id = u,
                  e_triggering_event_id = (case s_triggering_event_id s of None \<Rightarrow> None | Some x \<Rightarrow> x)\<rparr>, d))))))"

definition decode_event :: "wire \<Rightarrow> bytes \<Rightarrow> string + envelope \<times> json" where
  "decode_event io b =
     map_err (\<lambda>e. ''decoding event: '' @ e)
       (bind_res (w_entries io b) (\<lambda>entries. bind_res (visit_map io entries no_slots) stored_of))"

subsection \<open>What a read accepts\<close>

definition vals :: "string \<Rightarrow> (string \<times> json) list \<Rightarrow> json list" where
  "vals k entries = map snd (filter (\<lambda>e. fst e = k) entries)"

definition fills :: "'a option \<Rightarrow> (json \<Rightarrow> string + 'a) \<Rightarrow> json list \<Rightarrow> 'a option \<Rightarrow> bool" where
  "fills slot read vs slot' \<longleftrightarrow>
     (vs = [] \<and> slot' = slot) \<or> (slot = None \<and> (\<exists>v x. vs = [v] \<and> read v = Inr x \<and> slot' = Some x))"

lemma vals_simps [simp]:
  "vals k [] = []" "vals k (e # es) = (if fst e = k then snd e # vals k es else vals k es)"
  by (simp_all add: vals_def)

lemma fills_Nil [simp]: "fills slot read [] slot' \<longleftrightarrow> slot' = slot"
  by (auto simp: fills_def)

lemma fills_Cons: "fills slot read (v # vs) slot' \<longleftrightarrow> (\<exists>x. slot = None \<and> read v = Inr x \<and> fills (Some x) read vs slot')"
  by (auto simp: fills_def)

lemma fills_once: "slot = None \<and> read v = Inr x \<longleftrightarrow> once slot name read v = Inr x"
  by (auto simp: once_def)

lemma visit_map_iff:
  "visit_map io es s = Inr s' \<longleftrightarrow>
    fills (s_event_id s) (as_uuid io) (vals ''event_id'' es) (s_event_id s') \<and>
    fills (s_timestamp s) as_text (vals ''timestamp'' es) (s_timestamp s') \<and>
    fills (s_correlation_id s) (as_uuid io) (vals ''correlation_id'' es) (s_correlation_id s') \<and>
    fills (s_causation_id s) (as_uuid io) (vals ''causation_id'' es) (s_causation_id s') \<and>
    fills (s_triggering_event_id s) (as_optional_uuid io) (vals ''triggering_event_id'' es) (s_triggering_event_id s') \<and>
    fills (s_data s) Inr (vals ''data'' es) (s_data s')"
proof (induction es arbitrary: s)
  case Nil
  then show ?case by (cases s; cases s') auto
next
  case (Cons e es)
  obtain k v where e: "e = (k, v)" by (cases e)
  have step: "visit_map io (e # es) s = Inr s' \<longleftrightarrow> (\<exists>t. visit_entry io s e = Inr t \<and> visit_map io es t = Inr s')"
    by (simp add: bind_res_Inr_iff)
  have once: "map_sum id f (once slot name read v) = Inr t \<longleftrightarrow> (\<exists>x. slot = None \<and> read v = Inr x \<and> t = f x)"
    for f :: "'b \<Rightarrow> slots" and slot read name t
    by (cases "once slot name read v") (auto simp: once_def split: if_splits)
  have ex: "(\<exists>t. (\<exists>x. P x \<and> t = f x) \<and> Q t) \<longleftrightarrow> (\<exists>x. P x \<and> Q (f x))" for P :: "'b \<Rightarrow> bool" and Q and f :: "'b \<Rightarrow> slots"
    by blast
  show ?case
  proof (cases "k \<in> {''event_id'', ''timestamp'', ''correlation_id'', ''causation_id'', ''triggering_event_id'', ''data''}")
    case False
    then show ?thesis unfolding step Cons.IH by (simp add: e visit_entry_def)
  next
    case True
    then have "k = ''event_id'' \<or> k = ''timestamp'' \<or> k = ''correlation_id'' \<or> k = ''causation_id'' \<or>
      k = ''triggering_event_id'' \<or> k = ''data''" by (simp only: insert_iff empty_iff simp_thms)
    then show ?thesis unfolding step Cons.IH
      by (elim disjE) (simp add: e visit_entry_def once ex fills_Cons, iprover?)+
  qed
qed

lemma fills_one: "fills None read vs (Some x) \<longleftrightarrow> (\<exists>v. vs = [v] \<and> read v = Inr x)"
  by (auto simp: fills_def)

lemma fills_none: "fills None read vs None \<longleftrightarrow> vs = []"
  by (auto simp: fills_def)

lemma needed_Inr [simp]: "needed slot name = Inr x \<longleftrightarrow> slot = Some x"
  by (simp add: needed_def ok_or_Inr_iff)

lemma stored_of_iff:
  "stored_of s = Inr (env, data) \<longleftrightarrow>
    s_event_id s = Some (e_event_id env) \<and> s_timestamp s = Some (e_timestamp env) \<and>
    s_correlation_id s = Some (e_correlation_id env) \<and> s_causation_id s = Some (e_causation_id env) \<and>
    (case s_triggering_event_id s of None \<Rightarrow> None | Some x \<Rightarrow> x) = e_triggering_event_id env \<and> s_data s = Some data"
  by (cases env) (auto simp: stored_of_def bind_res_Inr_iff)

definition reads_as :: "wire \<Rightarrow> (string \<times> json) list \<Rightarrow> envelope \<Rightarrow> json \<Rightarrow> bool" where
  "reads_as io es env data \<longleftrightarrow>
     (\<exists>v. vals ''event_id'' es = [v] \<and> as_uuid io v = Inr (e_event_id env)) \<and>
     vals ''timestamp'' es = [JStr (e_timestamp env)] \<and>
     (\<exists>v. vals ''correlation_id'' es = [v] \<and> as_uuid io v = Inr (e_correlation_id env)) \<and>
     (\<exists>v. vals ''causation_id'' es = [v] \<and> as_uuid io v = Inr (e_causation_id env)) \<and>
     (vals ''triggering_event_id'' es = [] \<and> e_triggering_event_id env = None \<or>
      (\<exists>v. vals ''triggering_event_id'' es = [v] \<and> as_optional_uuid io v = Inr (e_triggering_event_id env))) \<and>
     vals ''data'' es = [data]"

lemma as_text_iff: "as_text v = Inr x \<longleftrightarrow> v = JStr x"
  by (cases v) auto

lemma visit_reads_as:
  "(\<exists>s. visit_map io es no_slots = Inr s \<and> stored_of s = Inr (env, data)) \<longleftrightarrow> reads_as io es env data"
proof -
  let ?T = "vals ''triggering_event_id'' es"
  have trig: "(\<exists>t. fills None (as_optional_uuid io) ?T t \<and> (case t of None \<Rightarrow> None | Some x \<Rightarrow> x) = e_triggering_event_id env) \<longleftrightarrow>
      (?T = [] \<and> e_triggering_event_id env = None \<or> (\<exists>v. ?T = [v] \<and> as_optional_uuid io v = Inr (e_triggering_event_id env)))"
    by (auto simp: fills_def)
  have "(\<exists>s. visit_map io es no_slots = Inr s \<and> stored_of s = Inr (env, data)) \<longleftrightarrow>
    (\<exists>t. visit_map io es no_slots = Inr \<lparr>s_event_id = Some (e_event_id env), s_timestamp = Some (e_timestamp env),
       s_correlation_id = Some (e_correlation_id env), s_causation_id = Some (e_causation_id env),
       s_triggering_event_id = t, s_data = Some data\<rparr> \<and> (case t of None \<Rightarrow> None | Some x \<Rightarrow> x) = e_triggering_event_id env)"
    unfolding stored_of_iff
    by (rule iffI, elim exE conjE, rename_tac s, rule_tac x = "s_triggering_event_id s" in exI, case_tac s, simp, force)
  also have "\<dots> \<longleftrightarrow> reads_as io es env data"
    unfolding visit_map_iff reads_as_def trig [symmetric]
    by (simp add: no_slots_def fills_one as_text_iff) blast
  finally show ?thesis .
qed

text \<open>What the two sides of the seam rely on: serde reads back what it wrote, and an id its own text.\<close>

definition wire_ok :: "wire \<Rightarrow> bool" where
  "wire_ok io \<longleftrightarrow> (\<forall>es. distinct (map fst es) \<longrightarrow> w_entries io (w_object io es) = Inr es)"

definition ids_ok :: "wire \<Rightarrow> envelope \<Rightarrow> bool" where
  "ids_ok io env \<longleftrightarrow>
     (\<forall>u \<in> {e_event_id env, e_correlation_id env, e_causation_id env} \<union> set_option (e_triggering_event_id env).
        w_uuid io u = Some u)"

lemma decode_encode_event:
  assumes "wire_ok io" and "ids_ok io env"
  shows "decode_event io (encode_event io env data) = Inr (env, data)"
proof -
  have d: "distinct (map fst (stored_entries env data))"
    by (cases "e_triggering_event_id env") (simp_all add: stored_entries_def)
  have "reads_as io (stored_entries env data) env data"
    using assms(2)
    by (cases "e_triggering_event_id env") (simp_all add: reads_as_def stored_entries_def ids_ok_def as_optional_uuid_def)
  then obtain s where "visit_map io (stored_entries env data) no_slots = Inr s" "stored_of s = Inr (env, data)"
    using visit_reads_as by blast
  then show ?thesis
    using assms(1) d by (simp add: decode_event_def encode_event_def wire_ok_def map_err_Inr_iff)
qed

text \<open>
  C27: an envelope reads exactly one way.  Stored bytes decode to an envelope and a payload exactly when
  each of the five required keys stands once with a value of its kind and the causing event's id at most
  once, whatever order the keys stand in and whatever other keys stand beside them; what is written reads
  back as itself, so a fold never sees the envelope in place of the data.
\<close>

theorem envelope_reads_one_way:
  assumes "wire_ok io" and "ids_ok io env"
  shows "decode_event io (encode_event io env data) = Inr (env, data) \<and>
    (decode_event io b = Inr (env', data') \<longleftrightarrow> (\<exists>es. w_entries io b = Inr es \<and> reads_as io es env' data'))"
  using decode_encode_event [OF assms]
  by (auto simp: decode_event_def map_err_Inr_iff bind_res_Inr_iff simp flip: visit_reads_as)

end
