(* ===== verification/Event_Log.thy ===== *)
theory Event_Log
  imports Prelude
begin

section \<open>The event log as hekla uses it (src/store.rs)\<close>

text \<open>
  tephra's log is an append-only sequence of events at the positions 1, 2, 3, ...: \<open>tlog\<close>.  Which tags
  and types it accepts, which events a read answers, and whether it accepts an append are tephra's: they
  are the fields of \<open>tephra\<close>, whose documented behaviour is \<open>tephra_ok\<close>.
\<close>

record tevent =
  te_type :: string
  te_tags :: "string list"
  te_data :: bytes

type_synonym tlog = "tevent list"

record query_item =
  qi_types :: "string list"
  qi_tags :: "string list"

datatype query = Query_All | Query_Items "query_item list"

text \<open>The two clauses of an append: nothing matching the boundary after a position, nothing matching anywhere.\<close>

record append_condition =
  ac_boundary :: query
  ac_after :: nat
  ac_exists :: "query option"

datatype conflict_clause = Boundary | Existence

datatype append_error = Shutdown | Conflict conflict_clause | Append_Failed string

record tephra =
  tp_tag :: "string \<Rightarrow> string + string"
  tp_tags :: "string list \<Rightarrow> string + string list"
  tp_type :: "string \<Rightarrow> string + string"
  tp_event :: "string \<Rightarrow> string list \<Rightarrow> bytes \<Rightarrow> string + tevent"
  tp_read :: "tlog \<Rightarrow> query \<Rightarrow> nat \<Rightarrow> nat option \<Rightarrow> (string + nat \<times> tevent) list"
  tp_append :: "tlog \<Rightarrow> tevent list \<Rightarrow> append_condition \<Rightarrow> append_error option"

definition item_matches :: "query_item \<Rightarrow> tevent \<Rightarrow> bool" where
  "item_matches q e \<longleftrightarrow> (qi_types q = [] \<or> te_type e \<in> set (qi_types q)) \<and> set (qi_tags q) \<subseteq> set (te_tags e)"

fun query_matches :: "query \<Rightarrow> tevent \<Rightarrow> bool" where
  "query_matches Query_All e \<longleftrightarrow> True"
| "query_matches (Query_Items qs) e \<longleftrightarrow> (\<exists>q \<in> set qs. item_matches q e)"

definition hits :: "tlog \<Rightarrow> query \<Rightarrow> nat \<Rightarrow> (nat \<times> tevent) list" where
  "hits log q after = filter (\<lambda>(p, e). after < p \<and> query_matches q e) (enumerate 1 log)"

definition violates :: "tlog \<Rightarrow> append_condition \<Rightarrow> conflict_clause \<Rightarrow> bool" where
  "violates log c clause \<longleftrightarrow>
     (case clause of
        Existence \<Rightarrow> (\<exists>q. ac_exists c = Some q \<and> (\<exists>e \<in> set log. query_matches q e))
      | Boundary \<Rightarrow> hits log (ac_boundary c) (ac_after c) \<noteq> [])"

definition tephra_ok :: "tephra \<Rightarrow> bool" where
  "tephra_ok tp \<longleftrightarrow>
     (\<forall>t t'. tp_tag tp t = Inr t' \<longrightarrow> t' = t) \<and>
     (\<forall>ts ts'. tp_tags tp ts = Inr ts' \<longrightarrow> set ts' = set ts \<and> sorted ts' \<and> distinct ts') \<and>
     (\<forall>t t'. tp_type tp t = Inr t' \<longrightarrow> t' = t) \<and>
     (\<forall>t ts d e. tp_event tp t ts d = Inr e \<longrightarrow> e = \<lparr>te_type = t, te_tags = ts, te_data = d\<rparr>) \<and>
     (\<forall>log q after. (\<forall>x \<in> set (tp_read tp log q after None). \<not> isl x) \<longrightarrow>
        tp_read tp log q after None = map Inr (hits log q after)) \<and>
     (\<forall>log es c. tp_append tp log es c = None \<longrightarrow> \<not> violates log c Existence \<and> \<not> violates log c Boundary) \<and>
     (\<forall>log es c clause. tp_append tp log es c = Some (Conflict clause) \<longrightarrow> violates log c clause)"

lemma tephra_okD:
  assumes "tephra_ok tp"
  shows "tp_tag tp t = Inr t' \<Longrightarrow> t' = t"
    and "tp_tags tp ts = Inr ts' \<Longrightarrow> set ts' = set ts \<and> sorted ts' \<and> distinct ts'"
    and "tp_type tp t = Inr t' \<Longrightarrow> t' = t"
    and "tp_event tp t ts d = Inr e \<Longrightarrow> e = \<lparr>te_type = t, te_tags = ts, te_data = d\<rparr>"
    and "\<forall>x \<in> set (tp_read tp log q after None). \<not> isl x \<Longrightarrow> tp_read tp log q after None = map Inr (hits log q after)"
    and "tp_append tp log es c = None \<Longrightarrow> \<not> violates log c Existence"
    and "tp_append tp log es c = Some (Conflict clause) \<Longrightarrow> violates log c clause"
  using assms by (auto simp: tephra_ok_def)

subsection \<open>A log with or without a writer\<close>

definition read_only :: "string \<Rightarrow> string \<Rightarrow> string" where
  "read_only role need = role @ '' needs a log it can '' @ need @ '', and this one is open for reading only''"

definition store_writer :: "bool \<Rightarrow> string \<Rightarrow> string + unit" where
  "store_writer writing role = (if writing then Inr () else Inl (read_only role ''append to''))"

definition store_head :: "tlog \<Rightarrow> nat" where
  "store_head log = length log"

text \<open>heklang counts positions from zero and tephra from one.\<close>

definition to_tephra :: "nat \<Rightarrow> nat" where
  "to_tephra position = position + 1"

definition from_tephra :: "nat \<Rightarrow> nat" where
  "from_tephra position = position - 1"

lemma from_to_tephra [simp]: "from_tephra (to_tephra n) = n"
  by (simp add: from_tephra_def to_tephra_def)

subsection \<open>Events carrying a tag\<close>

definition tag_query :: "string \<Rightarrow> query" where
  "tag_query t = Query_Items [\<lparr>qi_types = [], qi_tags = [t]\<rparr>]"

lemma tag_query_matches [simp]: "query_matches (tag_query t) e \<longleftrightarrow> t \<in> set (te_tags e)"
  by (simp add: tag_query_def item_matches_def)

definition tagged :: "string \<Rightarrow> tlog \<Rightarrow> (nat \<times> tevent) list" where
  "tagged t log = filter (\<lambda>(p, e). t \<in> set (te_tags e)) (enumerate 1 log)"

lemma hits_tag: "hits log (tag_query t) 0 = tagged t log"
  unfolding hits_def tagged_def by (rule filter_cong) (auto dest: in_set_enumerate_eq [THEN iffD1])

lemma tagged_append: "tagged t (log @ es) = tagged t log @ filter (\<lambda>(p, e). t \<in> set (te_tags e)) (enumerate (Suc (length log)) es)"
  by (simp add: tagged_def enumerate_append_eq)

lemma tagged_none: "tagged t log = [] \<longleftrightarrow> (\<forall>e \<in> set log. t \<notin> set (te_tags e))"
proof
  assume none: "tagged t log = []"
  show "\<forall>e \<in> set log. t \<notin> set (te_tags e)"
  proof
    fix e
    assume "e \<in> set log"
    then obtain i where "i < length log" "log ! i = e" by (auto simp: in_set_conv_nth)
    then have "(Suc i, e) \<in> set (enumerate 1 log)" by (simp add: in_set_enumerate_eq)
    then show "t \<notin> set (te_tags e)" using none by (auto simp: tagged_def filter_empty_conv)
  qed
qed (auto simp: tagged_def filter_empty_conv in_set_enumerate_eq)

end
