(* ===== verification/Lowering.thy ===== *)
theory Lowering
  imports Schema Envelope Event_Log Effect_Retry
begin

section \<open>Lowering an emitted event (src/heklang_host.rs)\<close>

text \<open>
  What a command emits becomes what the log stores: sealed fields encrypted under the whole chain of
  subjects the declaration names, every indexed field a tag, the reserved tags beside them and the
  envelope around the payload.  heklang's values are \<open>hk_value\<close>, with the two constructors the source
  looks into; their JSON is the field \<open>hv_json\<close> of \<open>hk_api\<close>, as are its text of a value, serde's text of
  a document, the reading and the writing of RFC 3339, and the version 4 ids.
\<close>

datatype 'v hk_value = V_Opt "'v hk_value option" | V_Sealed string string string string | V_Other 'v

record 'v hk_event =
  he_path :: "string list"
  he_fields :: "(string, 'v hk_value) fmap"

record 'v hk_api =
  hv_json :: "'v hk_value \<Rightarrow> hjson"
  hv_text :: "'v hk_value \<Rightarrow> string"
  hv_is_number :: "string \<Rightarrow> bool"
  hv_document :: "json \<Rightarrow> string"
  hv_rfc3339 :: "int \<Rightarrow> string option"
  hv_timestamp :: "string \<Rightarrow> int option"
  hv_new_id :: "nat \<Rightarrow> string"

definition value_json :: "'v hk_api \<Rightarrow> 'v hk_value \<Rightarrow> json" where
  "value_json api v = from_heklang_json (hv_is_number api) (hv_json api v)"

fun peeled :: "'v hk_value \<Rightarrow> 'v hk_value" where
  "peeled (V_Opt (Some held)) = peeled held"
| "peeled v = v"

definition plaintext_scalar :: "'v hk_api \<Rightarrow> 'v hk_value \<Rightarrow> string option" where
  "plaintext_scalar api v =
     (case peeled v of V_Sealed _ _ _ _ \<Rightarrow> None | _ \<Rightarrow> scalar_to_string (value_json api v))"

definition subject_ids :: "'v hk_api \<Rightarrow> event_def \<Rightarrow> 'v hk_event \<Rightarrow> (string, string) fmap" where
  "subject_ids api def event =
     fold (\<lambda>(name, _) ids.
             case Option.bind (fmlookup (he_fields event) name) (plaintext_scalar api) of
               None \<Rightarrow> ids
             | Some s \<Rightarrow> fmupd name s ids) (ed_fields def) fmempty"

definition seals_content :: "'v hk_api \<Rightarrow> 'v hk_event \<Rightarrow> string \<Rightarrow> bool" where
  "seals_content api event field =
     (case fmlookup (he_fields event) field of None \<Rightarrow> False | Some v \<Rightarrow> value_json api v \<noteq> JNull)"

subsection \<open>Sealing a value\<close>

definition seal_text :: "'v hk_api \<Rightarrow> field_kind \<Rightarrow> json \<Rightarrow> string" where
  "seal_text api kind v =
     (if kind_base kind = Json_Kind then hv_document api v
      else case scalar_to_string v of Some s \<Rightarrow> s | None \<Rightarrow> hv_document api v)"

definition stored_seal ::
  "key_world \<Rightarrow> 'v hk_api \<Rightarrow> (string \<times> string) list \<Rightarrow> string \<Rightarrow> field_kind \<Rightarrow> 'v hk_value \<Rightarrow> json \<Rightarrow> string ks" where
  "stored_seal w api chain name kind v doc =
     (let (subject_name, subject_value) = chain ! 0 in
      case peeled v of
        V_Sealed field subject i content \<Rightarrow>
          if field = name \<and> subject = subject_name \<and> i = subject_value then ret content
          else bind_ks (decrypt_subject w subject i field content)
            (\<lambda>plaintext. case plaintext of
               None \<Rightarrow> fails (quoted name @ '' holds content sealed under '' @ quoted subject @ '' = '' @ quoted i @
                 '', whose key is gone, so it cannot be re-sealed under '' @ quoted subject_name)
             | Some plaintext \<Rightarrow> encrypt_subject_in w chain name plaintext)
      | _ \<Rightarrow> encrypt_subject_in w chain name (seal_text api kind doc))"

subsection \<open>The fields of an event\<close>

type_synonym derived = "(string \<times> string option) list"

definition missing_id_text :: "string \<Rightarrow> seal \<Rightarrow> string" where
  "missing_id_text ty s =
     ''event '' @ quoted ty @ '' does not carry every id '' @ quoted (seal_subject s) @ [CHR 0x27] @ ''s key is filed under: it needs '' @
     joined '', '' (map (\<lambda>(subject, field). quoted field @ '' for '' @ quoted subject) (sl_chain s))"

definition lower_field ::
  "key_world \<Rightarrow> 'v hk_api \<Rightarrow> bool \<Rightarrow> string \<Rightarrow> (string, string) fmap \<Rightarrow> 'v hk_event \<Rightarrow> string \<times> field_meta \<Rightarrow>
    (string \<times> json) list \<times> derived \<Rightarrow> ((string \<times> json) list \<times> derived) ks" where
  "lower_field w api keystore ty ids event f acc =
     (case (f, acc) of ((name, meta), (payload, tags)) \<Rightarrow>
        case fmlookup (he_fields event) name of
          None \<Rightarrow> ret (payload, tags)
        | Some v \<Rightarrow>
            let doc = value_json api v in
            case fm_sealed_under meta of
              None \<Rightarrow>
                ret (map_insert name doc payload,
                     if fm_indexed meta
                     then (case scalar_to_string doc of None \<Rightarrow> tags | Some s \<Rightarrow> tags @ [(name, Some s)])
                     else tags)
            | Some s \<Rightarrow>
                if doc = JNull then ret (map_insert name JNull payload, tags)
                else if \<not> keystore then
                  fails (''field '' @ quoted name @ '' is sealed under '' @ quoted (seal_subject s) @ '' but no master key is configured'')
                else case seal_resolve s (fmlookup ids) of
                       None \<Rightarrow> fails (missing_id_text ty s)
                     | Some chain \<Rightarrow>
                         bind_ks (stored_seal w api chain name (fm_kind meta) v doc)
                           (\<lambda>content. ret (map_insert name (JStr content) payload,
                              if fm_indexed meta then tags @ [(name, Some content)] else tags)))"

primrec lower_fields ::
  "key_world \<Rightarrow> 'v hk_api \<Rightarrow> bool \<Rightarrow> string \<Rightarrow> (string, string) fmap \<Rightarrow> 'v hk_event \<Rightarrow> (string \<times> field_meta) list \<Rightarrow>
    (string \<times> json) list \<times> derived \<Rightarrow> ((string \<times> json) list \<times> derived) ks" where
  "lower_fields w api keystore ty ids event [] acc = ret acc"
| "lower_fields w api keystore ty ids event (f # fs) acc =
     bind_ks (lower_field w api keystore ty ids event f acc) (lower_fields w api keystore ty ids event fs)"

definition tag_string :: "string \<times> string option \<Rightarrow> string" where
  "tag_string pair = (case pair of (key, Some v) \<Rightarrow> key @ '':'' @ v | (key, None) \<Rightarrow> key)"

definition build_tags :: "tephra \<Rightarrow> derived \<Rightarrow> string list \<Rightarrow> string + string list" where
  "build_tags tp pairs extra =
     bind_res (traverse (tp_tag tp) (map tag_string pairs @ extra)) (tp_tags tp)"

subsection \<open>Stamps\<close>

datatype stamp = Wall string | Pinned

definition PINNED_EPOCH_MICROS :: int where "PINNED_EPOCH_MICROS = 1577836800000000"
definition PINNED_STEP_MICROS :: int where "PINNED_STEP_MICROS = 60000000"

definition pinned_at :: "nat \<Rightarrow> int" where
  "pinned_at position = PINNED_EPOCH_MICROS + as_i64 position * PINNED_STEP_MICROS"

definition pinned_stamp :: "'v hk_api \<Rightarrow> nat \<Rightarrow> string + string" where
  "pinned_stamp api position =
     ok_or (hv_rfc3339 api (pinned_at position)) ''panic: a harness position renders inside the date range''"

definition pinned_id :: "nat \<Rightarrow> string + string" where
  "pinned_id position =
     (let digits = replicate (12 - length (nat_str position)) CHR ''0'' @ nat_str position
      in if length digits = 12 then Inr (''0190d1a1-0000-7000-9000-'' @ digits)
         else Inl ''panic: a harness position fits the twelve digits of the id'')"

definition stamped :: "'v hk_api \<Rightarrow> stamp \<Rightarrow> nat \<Rightarrow> (string \<times> string) ks" where
  "stamped api st position s =
     (case st of
        Wall now \<Rightarrow> (Inr (hv_new_id api (ks_entropy s), now), s\<lparr>ks_entropy := ks_entropy s + 1\<rparr>)
      | Pinned \<Rightarrow> (bind_res (pinned_id position) (\<lambda>i. map_sum id (Pair i) (pinned_stamp api position)), s))"

subsection \<open>The event\<close>

record emitted =
  em_event_type :: string
  em_data :: json
  em_tags :: derived

record host_cfg =
  hc_events :: "(string, event_def) fmap"
  hc_keystore :: bool
  hc_ctx :: command_context
  hc_stamp :: stamp
  hc_idem_tag :: "string option"
  hc_call :: "string option option"
  hc_writing :: bool
  hc_sealed :: bool

definition envelope_for :: "command_context \<Rightarrow> string \<times> string \<Rightarrow> envelope" where
  "envelope_for ctx st =
     \<lparr>e_event_id = fst st, e_timestamp = snd st, e_correlation_id = cx_correlation_id ctx,
      e_causation_id = cx_causation_id ctx, e_triggering_event_id = cx_triggering_event_id ctx\<rparr>"

definition extra_tags :: "host_cfg \<Rightarrow> string list" where
  "extra_tags cfg =
     correlation_tag (cx_correlation_id (hc_ctx cfg)) #
     (case hc_idem_tag cfg of None \<Rightarrow> [] | Some t \<Rightarrow> [t])"

definition lower ::
  "key_world \<Rightarrow> 'v hk_api \<Rightarrow> wire \<Rightarrow> tephra \<Rightarrow> host_cfg \<Rightarrow> 'v hk_event \<Rightarrow> nat \<Rightarrow> (tevent \<times> emitted) ks" where
  "lower w api io tp cfg event position =
     (let ty = event_type (he_path event) in
      case fmlookup (hc_events cfg) ty of
        None \<Rightarrow> fails (''event type '' @ quoted ty @ '' is not declared'')
      | Some def \<Rightarrow>
          bind_ks (lower_fields w api (hc_keystore cfg) ty (subject_ids api def event) event (ed_fields def) ([], []))
            (\<lambda>(payload, derived). bind_ks (lift (build_tags tp derived (extra_tags cfg)))
              (\<lambda>tags. bind_ks (stamped api (hc_stamp cfg) position)
                (\<lambda>st. bind_ks (lift (tp_type tp ty))
                  (\<lambda>ty'. bind_ks (lift (tp_event tp ty' tags (encode_event io (envelope_for (hc_ctx cfg) st) (JObj payload))))
                    (\<lambda>stored. ret (stored, \<lparr>em_event_type = ty, em_data = JObj payload, em_tags = derived\<rparr>)))))))"

end
