(* ===== verification/Command_Host.thy ===== *)
theory Command_Host
  imports Lowering
begin

section \<open>Appending through the host (src/heklang_host.rs)\<close>

text \<open>
  \<open>Log::append\<close> of \<open>HeklaHost\<close>: lower the events, guard the append with the boundary heklang resolved
  and with the idempotency tag of the request, and answer for what the log said.  Between any two looks
  at the log other writers may extend it: \<open>rw_others\<close>.
\<close>

record run_world =
  rw_keys :: key_world
  rw_others :: "nat \<Rightarrow> tlog \<Rightarrow> tlog"

record run_state =
  rs_log :: tlog
  rs_turn :: nat
  rs_keys :: keystore
  rs_appended :: "(nat \<times> nat) option"
  rs_emitted :: "emitted list"
  rs_unavailable :: "string option"
  rs_duplicated :: bool

datatype hk_error = Host string | Beaten_After nat | Language string

record 'v predicate =
  pr_event :: "string list"
  pr_filters :: "(string \<times> 'v hk_value) list"

record 'v hk_condition =
  cn_after :: nat
  cn_slices :: "'v predicate list"

definition current_log :: "run_world \<Rightarrow> run_state \<Rightarrow> run_state" where
  "current_log w s = s\<lparr>rs_log := rw_others w (rs_turn s) (rs_log s), rs_turn := rs_turn s + 1\<rparr>"

text \<open>\<open>hc_call\<close> is the shared slot the journal publishes into; an unset slot guards nothing.\<close>

definition host_idempotency_tag :: "host_cfg \<Rightarrow> string option" where
  "host_idempotency_tag cfg =
     (case hc_idem_tag cfg of
        Some t \<Rightarrow> Some t
      | None \<Rightarrow> (case hc_call cfg of None \<Rightarrow> None | Some held \<Rightarrow> held))"

definition item_of :: "'v hk_api \<Rightarrow> tephra \<Rightarrow> 'v predicate \<Rightarrow> string + query_item" where
  "item_of api tp slice =
     bind_res (tp_type tp (event_type (pr_event slice)))
       (\<lambda>ty. bind_res (traverse (\<lambda>(field, v). tp_tag tp (field @ '':'' @ hv_text api v)) (pr_filters slice))
         (\<lambda>tags. bind_res (tp_tags tp tags) (\<lambda>tags. Inr \<lparr>qi_types = [ty], qi_tags = tags\<rparr>)))"

definition query_of :: "'v hk_api \<Rightarrow> tephra \<Rightarrow> 'v predicate list \<Rightarrow> string + query" where
  "query_of api tp slices = map_sum id Query_Items (traverse (item_of api tp) slices)"

definition idem_item :: "tephra \<Rightarrow> string \<Rightarrow> string + query_item" where
  "idem_item tp tag =
     bind_res (tp_tag tp tag) (\<lambda>t. bind_res (tp_tags tp [t]) (\<lambda>ts. Inr \<lparr>qi_types = [], qi_tags = ts\<rparr>))"

primrec lower_all ::
  "key_world \<Rightarrow> 'v hk_api \<Rightarrow> wire \<Rightarrow> tephra \<Rightarrow> host_cfg \<Rightarrow> 'v hk_event list \<Rightarrow> nat \<Rightarrow> (tevent \<times> emitted) list ks" where
  "lower_all w api io tp cfg [] position = ret []"
| "lower_all w api io tp cfg (e # es) position =
     bind_ks (lower w api io tp cfg e position)
       (\<lambda>x. bind_ks (lower_all w api io tp cfg es (position + 1)) (\<lambda>xs. ret (x # xs)))"

definition guarded :: "'v hk_api \<Rightarrow> tephra \<Rightarrow> host_cfg \<Rightarrow> 'v hk_condition \<Rightarrow> string + append_condition" where
  "guarded api tp cfg cond =
     bind_res (query_of api tp (cn_slices cond))
       (\<lambda>q. case host_idempotency_tag cfg of
          None \<Rightarrow> Inr \<lparr>ac_boundary = q, ac_after = cn_after cond, ac_exists = None\<rparr>
        | Some tag \<Rightarrow>
            bind_res (idem_item tp tag)
              (\<lambda>item. Inr \<lparr>ac_boundary = q, ac_after = cn_after cond, ac_exists = Some (Query_Items [item])\<rparr>))"

definition landed_text :: "nat \<Rightarrow> nat \<Rightarrow> string" where
  "landed_text base at =
     ''a pinned append lowered for position '' @ nat_str base @ '' landed at '' @ nat_str at @
     ''; something else is writing to this world'' @ [CHR 0x27] @ ''s log''"

text \<open>The write itself: the last look at the log and the answer the log gives.\<close>

definition commit ::
  "run_world \<Rightarrow> tephra \<Rightarrow> host_cfg \<Rightarrow> nat \<Rightarrow> nat \<Rightarrow> append_condition \<Rightarrow> (tevent \<times> emitted) list \<Rightarrow> run_state \<Rightarrow>
    (hk_error + unit) \<times> run_state" where
  "commit w tp cfg base after dcb lowered s =
     (let s = current_log w s; built = map fst lowered in
      case tp_append tp (rs_log s) built dcb of
        None \<Rightarrow>
          let first = length (rs_log s) + 1; last = length (rs_log s) + length built;
              s = s\<lparr>rs_log := rs_log s @ built\<rparr>
          in if hc_stamp cfg = Pinned \<and> from_tephra first \<noteq> base
             then (Inl (Host (landed_text base (from_tephra first))), s)
             else (Inr (), s\<lparr>rs_appended := Some (first, last), rs_emitted := map snd lowered\<rparr>)
      | Some Shutdown \<Rightarrow>
          (Inl (Host ''the write coordinator is shutting down; retry''),
           s\<lparr>rs_unavailable := Some ''the write coordinator is shutting down; retry''\<rparr>)
      | Some (Conflict Existence) \<Rightarrow>
          (Inl (Host ''this request already committed''), s\<lparr>rs_duplicated := True\<rparr>)
      | Some (Conflict Boundary) \<Rightarrow> (Inl (Beaten_After after), s)
      | Some (Append_Failed e) \<Rightarrow> (Inl (Host e), s))"

definition host_append ::
  "run_world \<Rightarrow> 'v hk_api \<Rightarrow> wire \<Rightarrow> tephra \<Rightarrow> host_cfg \<Rightarrow> 'v hk_event list \<Rightarrow> 'v hk_condition \<Rightarrow> run_state \<Rightarrow>
    (hk_error + unit) \<times> run_state" where
  "host_append w api io tp cfg events cond s =
     (if hc_sealed cfg then (Inl (Host ''a sealed replay tried to append to the log''), s)
      else case store_writer (hc_writing cfg) ''a handler'' of
        Inl e \<Rightarrow> (Inl (Host e), s)
      | Inr _ \<Rightarrow>
          if events = [] then (Inr (), s)
          else
            let s = current_log w s; base = length (rs_log s) in
            case lower_all (rw_keys w) api io tp cfg events base (rs_keys s) of
              (Inl e, k) \<Rightarrow> (Inl (Host e), s\<lparr>rs_keys := k\<rparr>)
            | (Inr lowered, k) \<Rightarrow>
                (case guarded api tp cfg cond of
                   Inl e \<Rightarrow> (Inl (Host e), s\<lparr>rs_keys := k\<rparr>)
                 | Inr dcb \<Rightarrow> commit w tp cfg base (cn_after cond) dcb lowered (s\<lparr>rs_keys := k\<rparr>)))"

subsection \<open>What lowering leaves in an event\<close>

lemma build_tags_set:
  assumes "tephra_ok tp" and "build_tags tp pairs extra = Inr tags"
  shows "set tags = tag_string ` set pairs \<union> set extra \<and> sorted tags \<and> distinct tags"
proof -
  obtain ts where ts: "traverse (tp_tag tp) (map tag_string pairs @ extra) = Inr ts" "tp_tags tp ts = Inr tags"
    using assms(2) by (auto simp: build_tags_def bind_res_Inr_iff)
  have "list_all2 (\<lambda>x y. y = x) (map tag_string pairs @ extra) ts"
    using ts(1) tephra_okD(1) [OF assms(1)] unfolding traverse_Inr_iff by (auto elim!: list_all2_mono)
  then have "ts = map tag_string pairs @ extra" by (intro nth_equalityI) (auto simp: list_all2_conv_all_nth)
  then show ?thesis using tephra_okD(2) [OF assms(1) ts(2)] by simp
qed

definition lowered_to :: "'v hk_api \<Rightarrow> wire \<Rightarrow> host_cfg \<Rightarrow> nat \<Rightarrow> tevent \<times> emitted \<Rightarrow> bool" where
  "lowered_to api io cfg position x \<longleftrightarrow>
     (\<exists>st. (case hc_stamp cfg of Wall now \<Rightarrow> (\<exists>n. st = (hv_new_id api n, now))
            | Pinned \<Rightarrow> pinned_id position = Inr (fst st) \<and> pinned_stamp api position = Inr (snd st)) \<and>
       te_data (fst x) = encode_event io (envelope_for (hc_ctx cfg) st) (em_data (snd x))) \<and>
     te_type (fst x) = em_event_type (snd x) \<and>
     set (te_tags (fst x)) = tag_string ` set (em_tags (snd x)) \<union> set (extra_tags cfg) \<and>
     sorted (te_tags (fst x)) \<and> distinct (te_tags (fst x))"

lemma lower_lowered:
  assumes "tephra_ok tp" and "lower w api io tp cfg event position s = (Inr x, s')"
  shows "lowered_to api io cfg position x"
proof -
  obtain payload derived tags st stored s1 s2 ty where
      t: "build_tags tp derived (extra_tags cfg) = Inr tags"
    and st: "stamped api (hc_stamp cfg) position s1 = (Inr st, s2)"
    and ev: "tp_type tp (event_type (he_path event)) = Inr ty"
       "tp_event tp ty tags (encode_event io (envelope_for (hc_ctx cfg) st) (JObj payload)) = Inr stored"
    and x: "x = (stored, \<lparr>em_event_type = event_type (he_path event), em_data = JObj payload, em_tags = derived\<rparr>)"
    using assms(2)
    by (force simp: lower_def Let_def fails_def lift_def ret_def split: option.splits dest!: bind_ks_InrD)
  have s: "stored = \<lparr>te_type = event_type (he_path event), te_tags = tags,
      te_data = encode_event io (envelope_for (hc_ctx cfg) st) (JObj payload)\<rparr>"
    using ev tephra_okD(3,4) [OF assms(1)] by blast
  have "case hc_stamp cfg of Wall now \<Rightarrow> (\<exists>n. st = (hv_new_id api n, now))
      | Pinned \<Rightarrow> pinned_id position = Inr (fst st) \<and> pinned_stamp api position = Inr (snd st)"
    using st by (cases "pinned_stamp api position") (auto simp: stamped_def bind_res_Inr_iff split: stamp.splits)
  then show ?thesis using build_tags_set [OF assms(1) t]
    unfolding lowered_to_def by (intro conjI exI [of _ st]) (simp_all add: x s)
qed

lemma lower_all_lowered:
  assumes "tephra_ok tp"
  shows "lower_all w api io tp cfg es position s = (Inr xs, s') \<Longrightarrow>
    length xs = length es \<and> (\<forall>i < length xs. lowered_to api io cfg (position + i) (xs ! i))"
proof (induction es arbitrary: position s xs s')
  case (Cons e es)
  obtain x t ys where x: "lower w api io tp cfg e position s = (Inr x, t)"
    and ys: "lower_all w api io tp cfg es (position + 1) t = (Inr ys, s')" and xs: "xs = x # ys"
    using Cons.prems by (auto simp: ret_def dest!: bind_ks_InrD)
  then show ?case using Cons.IH [OF ys] lower_lowered [OF assms x] by (auto simp: nth_Cons split: nat.splits)
qed (simp add: ret_def)

end
