(* ===== verification/Command_Run.thy ===== *)
theory Command_Run
  imports Command_Host
begin

section \<open>Running one command (src/dispatch.rs)\<close>

text \<open>
  Binding a body to the declared parameters, running the command to a settled outcome and recovering the
  outcome of a request that already committed.  What heklang does between its calls to the host is a
  \<open>session\<close>: it looks at the log, appends, asks whether to try again after losing a race, and finishes;
  which session a command and its arguments give is the argument \<open>hk_run\<close>.
\<close>

datatype hk_outcome = O_Ok | O_Reject string string | O_Invalid string

datatype 'v session =
    Finished hk_outcome
  | Refused hk_error
  | Looks "tlog \<Rightarrow> 'v session"
  | Appends "'v hk_event list" "'v hk_condition" "hk_error + unit \<Rightarrow> 'v session"
  | Asks_Retry nat "bool \<Rightarrow> 'v session"

subsection \<open>Binding the body\<close>

record command_def =
  cd_params :: "(string \<times> hk_type) list"
  cd_reads :: "bool list"

fun is_timestamp :: "hk_type \<Rightarrow> bool" where
  "is_timestamp T_Timestamp \<longleftrightarrow> True"
| "is_timestamp (T_Opt t) \<longleftrightarrow> is_timestamp t"
| "is_timestamp _ \<longleftrightarrow> False"

definition timestamp_wire :: "'v hk_api \<Rightarrow> string \<Rightarrow> json option" where
  "timestamp_wire api s = map_option (\<lambda>micros. JNum (int_str micros)) (hv_timestamp api s)"

definition bind_param ::
  "'v hk_api \<Rightarrow> (hjson \<Rightarrow> hk_type \<Rightarrow> string + 'v hk_value) \<Rightarrow> json \<Rightarrow> string \<times> hk_type \<Rightarrow> string + string \<times> 'v hk_value" where
  "bind_param api from_json input param =
     (case param of (name, ty) \<Rightarrow>
        case json_get input name of
          None \<Rightarrow>
            if (case ty of T_Opt _ \<Rightarrow> False | _ \<Rightarrow> True) then Inl (''missing required field '' @ quoted name)
            else map_err (\<lambda>why. quoted name @ '': '' @ why) (map_sum id (Pair name) (from_json HNull ty))
        | Some found \<Rightarrow>
            bind_res (case found of
                        JStr s \<Rightarrow>
                          if is_timestamp ty
                          then ok_or (timestamp_wire api s)
                                 (quoted name @ '': expected Timestamp, stored text that is not RFC 3339'')
                          else Inr found
                      | _ \<Rightarrow> Inr found)
              (\<lambda>v. map_err (\<lambda>why. quoted name @ '': '' @ why) (map_sum id (Pair name) (from_json (to_heklang_json v) ty))))"

definition bind_args ::
  "'v hk_api \<Rightarrow> (hjson \<Rightarrow> hk_type \<Rightarrow> string + 'v hk_value) \<Rightarrow> command_def \<Rightarrow> json \<Rightarrow> string + (string \<times> 'v hk_value) list" where
  "bind_args api from_json command input =
     (case (case input of
              JObj members \<Rightarrow> find (\<lambda>name. name \<notin> fst ` set (cd_params command)) (map fst members)
            | _ \<Rightarrow> None) of
        Some name \<Rightarrow> Inl (''unknown field '' @ quoted name)
      | None \<Rightarrow> traverse (bind_param api from_json input) (cd_params command))"

definition validate_input ::
  "'v hk_api \<Rightarrow> (hjson \<Rightarrow> hk_type \<Rightarrow> string + 'v hk_value) \<Rightarrow> (string, command_def) fmap \<Rightarrow> string \<Rightarrow> json \<Rightarrow> string + unit" where
  "validate_input api from_json commands name input =
     (case fmlookup commands name of
        None \<Rightarrow> Inl (''unknown command '' @ quoted name)
      | Some command \<Rightarrow> map_sum id (\<lambda>_. ()) (bind_args api from_json command input))"

subsection \<open>Recovering a committed outcome\<close>

record recovered_event =
  re_event_type :: string
  re_tags :: "string list"

record recovered =
  rc_events :: "recovered_event list"
  rc_positions :: "nat \<times> nat"
  rc_correlation_id :: string
  rc_causation_id :: string

datatype outcome =
    Committed "emitted list" "(nat \<times> nat) option"
  | Rejected string string
  | InvalidInput string
  | Conflicted
  | AlreadyCommitted recovered
  | Unavailable string

definition starts_with :: "string \<Rightarrow> string \<Rightarrow> bool" where
  "starts_with prefix s \<longleftrightarrow> take (length prefix) s = prefix"

definition tag_key :: "string \<Rightarrow> string" where
  "tag_key tag = takeWhile (\<lambda>c. c \<noteq> CHR '':'') tag"

definition reported_tags :: "(string, event_def) fmap \<Rightarrow> tevent \<Rightarrow> string list" where
  "reported_tags defs e =
     sort (filter (\<lambda>tag. \<not> (case fmlookup defs (te_type e) of None \<Rightarrow> False | Some def \<Rightarrow> is_subject def (tag_key tag)))
       (filter (\<lambda>tag. \<not> starts_with RESERVED_TAG_PREFIX tag) (te_tags e)))"

record recovery =
  ry_events :: "recovered_event list"
  ry_range :: "(nat \<times> nat) option"
  ry_ids :: "(string \<times> string) option"

definition recover_item :: "wire \<Rightarrow> (string, event_def) fmap \<Rightarrow> recovery \<Rightarrow> string + nat \<times> tevent \<Rightarrow> string + recovery" where
  "recover_item io defs acc item =
     (case item of
        Inl e \<Rightarrow> Inl (''reading idempotent replay: '' @ e)
      | Inr (position, e) \<Rightarrow>
          bind_res (map_err (\<lambda>why. ''reading event: '' @ why) (decode_event io (te_data e)))
            (\<lambda>(env, _).
               if (case ry_ids acc of None \<Rightarrow> False | Some (_, causation) \<Rightarrow> e_causation_id env \<noteq> causation)
               then Inl ''idempotency tag matches events from more than one command execution''
               else Inr \<lparr>ry_events = ry_events acc @ [\<lparr>re_event_type = te_type e, re_tags = reported_tags defs e\<rparr>],
                         ry_range = Some (case ry_range acc of None \<Rightarrow> (position, position) | Some (first, _) \<Rightarrow> (first, position)),
                         ry_ids = (case ry_ids acc of
                                     None \<Rightarrow> Some (e_correlation_id env, e_causation_id env)
                                   | Some ids \<Rightarrow> Some ids)\<rparr>))"

primrec recover_items :: "wire \<Rightarrow> (string, event_def) fmap \<Rightarrow> (string + nat \<times> tevent) list \<Rightarrow> recovery \<Rightarrow> string + recovery" where
  "recover_items io defs [] acc = Inr acc"
| "recover_items io defs (x # xs) acc = bind_res (recover_item io defs acc x) (recover_items io defs xs)"

definition recovery_item :: "tephra \<Rightarrow> string \<Rightarrow> string + query_item" where
  "recovery_item tp tag =
     bind_res (map_err (\<lambda>e. ''invalid idempotency tag '' @ quoted tag @ '': '' @ e) (tp_tag tp tag))
       (\<lambda>t. bind_res (map_err (\<lambda>e. ''invalid idempotency tag set: '' @ e) (tp_tags tp [t]))
         (\<lambda>ts. Inr \<lparr>qi_types = [], qi_tags = ts\<rparr>))"

definition find_committed_outcome ::
  "tephra \<Rightarrow> wire \<Rightarrow> (string, event_def) fmap \<Rightarrow> string \<Rightarrow> tlog \<Rightarrow> string + recovered option" where
  "find_committed_outcome tp io defs tag log =
     bind_res (recovery_item tp tag)
       (\<lambda>item. bind_res (recover_items io defs (tp_read tp log (Query_Items [item]) 0 None)
                           \<lparr>ry_events = [], ry_range = None, ry_ids = None\<rparr>)
          (\<lambda>r. case (ry_range r, ry_ids r) of
             (Some rg, Some (correlation, causation)) \<Rightarrow>
               Inr (Some \<lparr>rc_events = ry_events r, rc_positions = rg,
                          rc_correlation_id = correlation, rc_causation_id = causation\<rparr>)
           | _ \<Rightarrow> Inr None))"

definition recover_if_committed ::
  "tephra \<Rightarrow> wire \<Rightarrow> (string, event_def) fmap \<Rightarrow> bool \<Rightarrow> string option \<Rightarrow> tlog \<Rightarrow> string + recovered option" where
  "recover_if_committed tp io defs boundaried idem_tag log =
     (case (boundaried, idem_tag) of
        (True, Some tag) \<Rightarrow> find_committed_outcome tp io defs tag log
      | _ \<Rightarrow> Inr None)"

subsection \<open>The run\<close>

primrec run_session ::
  "run_world \<Rightarrow> 'v hk_api \<Rightarrow> wire \<Rightarrow> tephra \<Rightarrow> host_cfg \<Rightarrow> nat \<Rightarrow> 'v session \<Rightarrow> run_state \<Rightarrow> (hk_error + hk_outcome) \<times> run_state" where
  "run_session w api io tp cfg tries (Finished outcome) s = (Inr outcome, s)"
| "run_session w api io tp cfg tries (Refused e) s = (Inl e, s)"
| "run_session w api io tp cfg tries (Looks k) s =
     run_session w api io tp cfg tries (k (rs_log (current_log w s))) (current_log w s)"
| "run_session w api io tp cfg tries (Appends events cond k) s =
     (case host_append w api io tp cfg events cond s of (r, s) \<Rightarrow> run_session w api io tp cfg tries (k r) s)"
| "run_session w api io tp cfg tries (Asks_Retry attempt k) s =
     run_session w api io tp cfg tries (k (\<not> tries \<le> attempt + 1)) s"

definition recover_or ::
  "run_world \<Rightarrow> tephra \<Rightarrow> wire \<Rightarrow> host_cfg \<Rightarrow> bool \<Rightarrow> outcome \<Rightarrow> run_state \<Rightarrow> (string + outcome) \<times> run_state" where
  "recover_or w tp io cfg boundaried otherwise s =
     (let s = current_log w s in
      (map_sum id (\<lambda>found. case found of Some r \<Rightarrow> AlreadyCommitted r | None \<Rightarrow> otherwise)
         (recover_if_committed tp io (hc_events cfg) boundaried (hc_idem_tag cfg) (rs_log s)), s))"

definition settle ::
  "run_world \<Rightarrow> tephra \<Rightarrow> wire \<Rightarrow> host_cfg \<Rightarrow> bool \<Rightarrow> hk_error + hk_outcome \<Rightarrow> run_state \<Rightarrow> (string + outcome) \<times> run_state" where
  "settle w tp io cfg boundaried result s =
     (case result of
        Inl e \<Rightarrow>
          (case rs_unavailable s of
             Some m \<Rightarrow> (Inr (Unavailable m), s)
           | None \<Rightarrow>
               if rs_duplicated s then
                 (case hc_idem_tag cfg of
                    None \<Rightarrow> (Inl ''panic: the existence clause is only set when keyed'', s)
                  | Some tag \<Rightarrow>
                      let s = current_log w s in
                      (bind_res (find_committed_outcome tp io (hc_events cfg) tag (rs_log s))
                         (\<lambda>found. case found of
                            Some r \<Rightarrow> Inr (AlreadyCommitted r)
                          | None \<Rightarrow> Inl ''the idempotency guard fired but no committed outcome was found''), s))
               else (case e of
                       Beaten_After _ \<Rightarrow> (Inr Conflicted, s)
                     | Host m \<Rightarrow> (Inl m, s)
                     | Language m \<Rightarrow> (Inl m, s)))
      | Inr O_Ok \<Rightarrow>
          if rs_appended s = None
          then recover_or w tp io cfg boundaried (Committed (rs_emitted s) (rs_appended s)) s
          else (Inr (Committed (rs_emitted s) (rs_appended s)), s)
      | Inr (O_Reject code m) \<Rightarrow> recover_or w tp io cfg boundaried (Rejected code m) s
      | Inr (O_Invalid m) \<Rightarrow> recover_or w tp io cfg boundaried (InvalidInput m) s)"

definition fresh_run :: "run_state \<Rightarrow> run_state" where
  "fresh_run s = s\<lparr>rs_appended := None, rs_emitted := [], rs_unavailable := None, rs_duplicated := False\<rparr>"

definition run_command ::
  "run_world \<Rightarrow> 'v hk_api \<Rightarrow> wire \<Rightarrow> tephra \<Rightarrow> (hjson \<Rightarrow> hk_type \<Rightarrow> string + 'v hk_value) \<Rightarrow>
    (string, command_def) fmap \<Rightarrow> (string \<Rightarrow> (string \<times> 'v hk_value) list \<Rightarrow> 'v session) \<Rightarrow> host_cfg \<Rightarrow> nat \<Rightarrow> string \<Rightarrow> json \<Rightarrow>
    run_state \<Rightarrow> (string + outcome) \<times> run_state" where
  "run_command w api io tp from_json commands hk_run cfg tries name input s =
     (case fmlookup commands name of
        None \<Rightarrow> (Inl (''unknown command '' @ quoted name), s)
      | Some command \<Rightarrow>
          (case bind_args api from_json command input of
             Inl m \<Rightarrow> (Inr (InvalidInput m), s)
           | Inr args \<Rightarrow>
               if tries = 0 then (Inr Conflicted, s)
               else case run_session w api io tp cfg tries (hk_run name args) (fresh_run s) of
                      (result, s) \<Rightarrow> settle w tp io cfg (\<exists>r \<in> set (cd_reads command). r) result s))"

end
