(* ===== verification/Command_Response.thy ===== *)
theory Command_Response
  imports Command_Run
begin

section \<open>Answering a request (src/runtime.rs)\<close>

text \<open>
  The retry budget and the wait between attempts, the status and the body a command's outcome becomes,
  and the two ways in: the public surface, which does not see internal commands, and an effect.
\<close>

subsection \<open>The budget\<close>

definition DEFAULT_MAX_ATTEMPTS :: nat where "DEFAULT_MAX_ATTEMPTS = 5"
definition MAX_ATTEMPTS_CAP :: nat where "MAX_ATTEMPTS_CAP = 15"
definition BACKOFF_CAP_MS :: nat where "BACKOFF_CAP_MS = 16"

text \<open>\<open>setting\<close> is the variable \<open>HEKLA_MAX_ATTEMPTS\<close> without the white space around it, if it is set.\<close>

definition parse_u32 :: "string \<Rightarrow> nat option" where
  "parse_u32 s =
     (case parse_digits (case s of [] \<Rightarrow> [] | c # cs \<Rightarrow> if c = CHR ''+'' then cs else s) of
        None \<Rightarrow> None
      | Some n \<Rightarrow> if n < 2 ^ 32 then Some n else None)"

definition max_attempts :: "string option \<Rightarrow> nat" where
  "max_attempts setting =
     min (case Option.bind setting parse_u32 of
            None \<Rightarrow> DEFAULT_MAX_ATTEMPTS
          | Some n \<Rightarrow> if 1 \<le> n then n else DEFAULT_MAX_ATTEMPTS) MAX_ATTEMPTS_CAP"

text \<open>In microseconds; \<open>roll\<close> is the caller's draw.  \<open>BACKOFF_CAP_MS.ilog2() + 1\<close> is 5.\<close>

definition command_backoff :: "nat \<Rightarrow> nat \<Rightarrow> nat" where
  "command_backoff attempt roll = roll mod (min (2 ^ min attempt 5) BACKOFF_CAP_MS * 1000 + 1)"

lemma max_attempts_bounds: "1 \<le> max_attempts setting \<and> max_attempts setting \<le> MAX_ATTEMPTS_CAP"
  by (auto simp: max_attempts_def DEFAULT_MAX_ATTEMPTS_def MAX_ATTEMPTS_CAP_def split: option.splits)

lemma command_backoff_bound: "command_backoff attempt roll \<le> min (2 ^ attempt) BACKOFF_CAP_MS * 1000"
proof -
  have "min (2 ^ min attempt 5) BACKOFF_CAP_MS \<le> min (2 ^ attempt) BACKOFF_CAP_MS"
    by (rule min.mono) (simp_all add: power_increasing)
  moreover have "command_backoff attempt roll \<le> min (2 ^ min attempt 5) BACKOFF_CAP_MS * 1000"
    unfolding command_backoff_def by (metis less_Suc_eq_le mod_less_divisor zero_less_Suc Suc_eq_plus1)
  ultimately show ?thesis by (meson le_trans mult_le_mono1)
qed

subsection \<open>Bodies\<close>

definition tag_strings :: "derived \<Rightarrow> string list" where
  "tag_strings tags = sort (map tag_string tags)"

definition committed_body :: "string \<Rightarrow> string \<Rightarrow> (nat \<times> nat) option \<Rightarrow> json list \<Rightarrow> json" where
  "committed_body correlation causation positions events =
     json_map [(''correlation_id'', JStr correlation), (''causation_id'', JStr causation),
       (''positions'', case positions of
          None \<Rightarrow> JNull
        | Some (first, final) \<Rightarrow> json_map [(''first'', JNum (nat_str first)), (''last'', JNum (nat_str final))]),
       (''events'', JArr events)]"

definition event_body :: "string \<Rightarrow> string list \<Rightarrow> json" where
  "event_body ty tags = json_map [(''type'', JStr ty), (''tags'', JArr (map JStr tags))]"

definition success_body ::
  "command_context \<Rightarrow> (nat \<times> nat) option \<Rightarrow> emitted list \<Rightarrow> (string, event_def) fmap \<Rightarrow> json" where
  "success_body ctx positions events defs =
     committed_body (cx_correlation_id ctx) (cx_causation_id ctx) positions
       (map (\<lambda>e. event_body (em_event_type e)
          (tag_strings (filter (\<lambda>(key, _).
             \<not> (case fmlookup defs (em_event_type e) of None \<Rightarrow> False | Some def \<Rightarrow> is_subject def key)) (em_tags e)))) events)"

definition recovered_body :: "recovered \<Rightarrow> json" where
  "recovered_body r =
     committed_body (rc_correlation_id r) (rc_causation_id r) (Some (rc_positions r))
       (map (\<lambda>e. event_body (re_event_type e) (re_tags e)) (rc_events r))"

definition error_body :: "command_context \<Rightarrow> string \<Rightarrow> string \<Rightarrow> json" where
  "error_body ctx code m =
     json_map [(''correlation_id'', JStr (cx_correlation_id ctx)), (''causation_id'', JStr (cx_causation_id ctx)),
       (''error'', json_map [(''code'', JStr code), (''message'', JStr m)])]"

definition conflict_body :: "command_context \<Rightarrow> json" where
  "conflict_body ctx =
     error_body ctx ''concurrency_conflict''
       (''the command'' @ [CHR 0x27] @ ''s consistency boundary kept changing during the request; retry'')"

subsection \<open>Executing\<close>

record exec_result =
  xr_status :: nat
  xr_body :: json

fun outcome_result :: "command_context \<Rightarrow> (string, event_def) fmap \<Rightarrow> outcome \<Rightarrow> exec_result" where
  "outcome_result ctx defs Conflicted = \<lparr>xr_status = 409, xr_body = conflict_body ctx\<rparr>"
| "outcome_result ctx defs (Committed events positions) = \<lparr>xr_status = 200, xr_body = success_body ctx positions events defs\<rparr>"
| "outcome_result ctx defs (AlreadyCommitted r) = \<lparr>xr_status = 200, xr_body = recovered_body r\<rparr>"
| "outcome_result ctx defs (Rejected code m) = \<lparr>xr_status = 422, xr_body = error_body ctx code m\<rparr>"
| "outcome_result ctx defs (InvalidInput m) = \<lparr>xr_status = 400, xr_body = error_body ctx ''invalid_input'' m\<rparr>"
| "outcome_result ctx defs (Unavailable m) = \<lparr>xr_status = 503, xr_body = error_body ctx ''unavailable'' m\<rparr>"

text \<open>What a runtime holds that a request does not change; \<open>rt_internal\<close> marks the commands off the public surface.\<close>

record 'v runtime =
  rt_world :: run_world
  rt_api :: "'v hk_api"
  rt_wire :: wire
  rt_tephra :: tephra
  rt_from_json :: "hjson \<Rightarrow> hk_type \<Rightarrow> string + 'v hk_value"
  rt_commands :: "(string, command_def) fmap"
  rt_internal :: "string \<Rightarrow> bool"
  rt_run :: "string \<Rightarrow> (string \<times> 'v hk_value) list \<Rightarrow> 'v session"
  rt_events :: "(string, event_def) fmap"
  rt_keystore :: bool
  rt_writing :: bool
  rt_tries :: nat
  rt_sha :: "bytes \<Rightarrow> bytes"

definition command_cfg :: "'v runtime \<Rightarrow> command_context \<Rightarrow> string \<Rightarrow> string option \<Rightarrow> host_cfg" where
  "command_cfg rt ctx now idem_tag =
     \<lparr>hc_events = rt_events rt, hc_keystore = rt_keystore rt, hc_ctx = ctx, hc_stamp = Wall now,
      hc_idem_tag = idem_tag, hc_call = None, hc_writing = rt_writing rt, hc_sealed = False\<rparr>"

definition run_with_retry ::
  "'v runtime \<Rightarrow> string \<Rightarrow> json \<Rightarrow> command_context \<Rightarrow> string \<Rightarrow> string option \<Rightarrow> run_state \<Rightarrow> (string + exec_result) \<times> run_state" where
  "run_with_retry rt name body ctx now idem_tag s =
     (case validate_input (rt_api rt) (rt_from_json rt) (rt_commands rt) name body of
        Inl e \<Rightarrow> (Inr \<lparr>xr_status = 400, xr_body = error_body ctx ''invalid_input'' e\<rparr>, s)
      | Inr _ \<Rightarrow>
          (case run_command (rt_world rt) (rt_api rt) (rt_wire rt) (rt_tephra rt) (rt_from_json rt) (rt_commands rt) (rt_run rt)
                  (command_cfg rt ctx now idem_tag) (rt_tries rt) name body s of
             (r, s) \<Rightarrow> (map_sum id (outcome_result ctx (rt_events rt)) r, s)))"

definition run_resolved ::
  "'v runtime \<Rightarrow> string \<Rightarrow> json \<Rightarrow> command_context \<Rightarrow> string \<Rightarrow> string option \<Rightarrow> run_state \<Rightarrow> (string + exec_result) \<times> run_state" where
  "run_resolved rt name body ctx now idem_key s =
     run_with_retry rt name body ctx now (map_option (idempotency_tag (rt_sha rt) name) idem_key) s"

definition execute ::
  "'v runtime \<Rightarrow> string \<Rightarrow> json \<Rightarrow> command_context \<Rightarrow> string \<Rightarrow> string option \<Rightarrow> run_state \<Rightarrow> (string + exec_result) \<times> run_state" where
  "execute rt name body ctx now idem_key s =
     (if fmlookup (rt_commands rt) name = None \<or> rt_internal rt name
      then (Inr \<lparr>xr_status = 404, xr_body = error_body ctx ''not_found'' (''no public command '' @ quoted name)\<rparr>, s)
      else run_resolved rt name body ctx now idem_key s)"

definition execute_from_effect ::
  "'v runtime \<Rightarrow> string \<Rightarrow> json \<Rightarrow> command_context \<Rightarrow> string \<Rightarrow> string option \<Rightarrow> run_state \<Rightarrow> (string + exec_result) \<times> run_state" where
  "execute_from_effect rt name body ctx now idem_key s =
     (if fmlookup (rt_commands rt) name = None
      then (Inr \<lparr>xr_status = 404, xr_body = error_body ctx ''not_found'' (''no command '' @ quoted name)\<rparr>, s)
      else run_resolved rt name body ctx now idem_key s)"

end
