(* ===== verification/Command_Safety.thy ===== *)
theory Command_Safety
  imports Command_Response
begin

section \<open>A keyed request commits once and answers the same\<close>

text \<open>
  Every event a keyed request appends carries its tag, and no append with that tag is accepted once one is
  in the log.  What the log then recovers renders as the response the first commit gave.
\<close>

subsection \<open>Tags and their keys\<close>

definition field_name :: "string \<Rightarrow> bool" where
  "field_name name \<longleftrightarrow> CHR '':'' \<notin> set name \<and> \<not> starts_with RESERVED_TAG_PREFIX name"

lemma tag_key_pair: "CHR '':'' \<notin> set key \<Longrightarrow> tag_key (key @ CHR '':'' # v) = key"
  by (induction key) (auto simp: tag_key_def)

lemma starts_with_pair:
  assumes "CHR '':'' \<notin> set prefix" and "\<not> starts_with prefix key"
  shows "\<not> starts_with prefix (key @ CHR '':'' # v)"
proof
  assume pre: "starts_with prefix (key @ CHR '':'' # v)"
  show False
  proof (cases "length prefix \<le> length key")
    case True
    then show False using pre assms(2) by (simp add: starts_with_def)
  next
    case False
    then have "prefix ! length key = CHR '':''" using pre
      by (metis linorder_not_le nth_append_length nth_take starts_with_def)
    then show False using assms(1) False by (metis linorder_not_le nth_mem)
  qed
qed

lemma no_colon_prefix: "CHR '':'' \<notin> set RESERVED_TAG_PREFIX"
  by (simp add: RESERVED_TAG_PREFIX_def)

lemma correlation_reserved: "starts_with RESERVED_TAG_PREFIX (correlation_tag c)"
  by (simp add: starts_with_def correlation_tag_def correlation_tag_value_def CORRELATION_TAG_KEY_def RESERVED_TAG_PREFIX_def)

lemma idempotency_reserved: "starts_with RESERVED_TAG_PREFIX (idempotency_tag sha name key)"
  by (simp add: starts_with_def idempotency_tag_def IDEMPOTENCY_TAG_KEY_def RESERVED_TAG_PREFIX_def)

definition tags_named :: "event_def \<Rightarrow> derived \<Rightarrow> bool" where
  "tags_named def tags \<longleftrightarrow>
     fst ` set tags \<subseteq> fst ` set (ed_fields def) \<and>
     (distinct (map fst (ed_fields def)) \<longrightarrow> distinct (map fst tags)) \<and> (\<forall>t \<in> set tags. snd t \<noteq> None)"

lemma lower_field_tags:
  assumes "lower_field w api keystore ty ids event f (payload, tags) s = (Inr (payload', tags'), s')"
  shows "tags' = tags \<or> (\<exists>v. tags' = tags @ [(fst f, Some v)])"
proof -
  obtain name meta where f: "f = (name, meta)" by (cases f)
  show ?thesis using assms
    by (auto simp: f lower_field_def ret_def fails_def Let_def split: option.splits if_splits dest!: bind_ks_InrD)
qed

lemma lower_fields_tags:
  "lower_fields w api keystore ty ids event fs (payload, tags) s = (Inr (payload', tags'), s') \<Longrightarrow>
    \<exists>more. tags' = tags @ more \<and> fst ` set more \<subseteq> fst ` set fs \<and>
      (distinct (map fst fs) \<longrightarrow> distinct (map fst more)) \<and> (\<forall>t \<in> set more. snd t \<noteq> None)"
proof (induction fs arbitrary: payload tags s)
  case (Cons f fs)
  obtain p1 t1 s1 where f: "lower_field w api keystore ty ids event f (payload, tags) s = (Inr (p1, t1), s1)"
    and rest: "lower_fields w api keystore ty ids event fs (p1, t1) s1 = (Inr (payload', tags'), s')"
    using Cons.prems by (fastforce dest!: bind_ks_InrD)
  obtain more where more: "tags' = t1 @ more" "fst ` set more \<subseteq> fst ` set fs"
    "distinct (map fst fs) \<longrightarrow> distinct (map fst more)" "\<forall>t \<in> set more. snd t \<noteq> None"
    using Cons.IH [OF rest] by blast
  from lower_field_tags [OF f] show ?case
  proof (elim disjE exE)
    assume "t1 = tags"
    then show ?thesis using more by (intro exI [of _ more]) auto
  next
    fix v
    assume t1: "t1 = tags @ [(fst f, Some v)]"
    have "fst f \<notin> fst ` set more" if "distinct (map fst (f # fs))" using that more(2) by auto
    then show ?thesis using more t1 by (intro exI [of _ "(fst f, Some v) # more"]) auto
  qed
qed (simp add: ret_def)

lemma lower_named:
  assumes "lower w api io tp cfg event position s = (Inr x, s')"
  shows "\<exists>def. fmlookup (hc_events cfg) (em_event_type (snd x)) = Some def \<and> tags_named def (em_tags (snd x))"
proof -
  obtain def payload tags t stored where
      def: "fmlookup (hc_events cfg) (event_type (he_path event)) = Some def"
    and f: "lower_fields w api (hc_keystore cfg) (event_type (he_path event)) (subject_ids api def event) event
       (ed_fields def) ([], []) s = (Inr (payload, tags), t)"
    and x: "x = (stored, \<lparr>em_event_type = event_type (he_path event), em_data = JObj payload, em_tags = tags\<rparr>)"
    using assms by (force simp: lower_def Let_def fails_def lift_def ret_def split: option.splits dest!: bind_ks_InrD)
  from lower_fields_tags [OF f] def x show ?thesis by (auto simp: tags_named_def)
qed

lemma lower_all_named:
  "lower_all w api io tp cfg es position s = (Inr xs, s') \<Longrightarrow> x \<in> set xs \<Longrightarrow>
    \<exists>def. fmlookup (hc_events cfg) (em_event_type (snd x)) = Some def \<and> tags_named def (em_tags (snd x))"
proof (induction es arbitrary: position s xs)
  case (Cons e es)
  obtain y t ys where y: "lower w api io tp cfg e position s = (Inr y, t)"
    and ys: "lower_all w api io tp cfg es (position + 1) t = (Inr ys, s')" and xs: "xs = y # ys"
    using Cons.prems by (auto simp: ret_def dest!: bind_ks_InrD)
  then show ?case using Cons.IH [OF ys] lower_named [OF y] Cons.prems(2) by auto
qed (simp add: ret_def)

subsection \<open>The response and the recovered response\<close>

definition defs_ok :: "(string, event_def) fmap \<Rightarrow> bool" where
  "defs_ok defs \<longleftrightarrow>
     (\<forall>ty def. fmlookup defs ty = Some def \<longrightarrow>
        distinct (map fst (ed_fields def)) \<and> (\<forall>f \<in> set (ed_fields def). field_name (fst f)))"

lemma tag_string_Some [simp]: "tag_string (key, Some v) = key @ CHR '':'' # v"
  by (simp add: tag_string_def)

lemma reported_as_emitted:
  assumes "defs_ok (hc_events cfg)" and "lowered_to api io cfg position x"
    and "fmlookup (hc_events cfg) (em_event_type (snd x)) = Some def" and "tags_named def (em_tags (snd x))"
    and "\<forall>t \<in> set (extra_tags cfg). starts_with RESERVED_TAG_PREFIX t"
  shows "reported_tags (hc_events cfg) (fst x) = tag_strings (filter (\<lambda>(key, _). \<not> is_subject def key) (em_tags (snd x)))"
proof -
  let ?tags = "em_tags (snd x)" and ?keep = "filter (\<lambda>(key, _). \<not> is_subject def key) (em_tags (snd x))"
  have L: "te_type (fst x) = em_event_type (snd x)"
    "set (te_tags (fst x)) = tag_string ` set ?tags \<union> set (extra_tags cfg)" "distinct (te_tags (fst x))"
    using assms(2) by (auto simp: lowered_to_def)
  have names: "field_name k \<and> v \<noteq> None" if "(k, v) \<in> set ?tags" for k v
    using that assms(1,3,4) by (fastforce simp: defs_ok_def tags_named_def)
  then have pair: "\<exists>u. v = Some u \<and> tag_key (tag_string (k, v)) = k \<and> \<not> starts_with RESERVED_TAG_PREFIX (tag_string (k, v))"
    if "(k, v) \<in> set ?tags" for k v
    using that starts_with_pair [OF no_colon_prefix] by (fastforce simp: field_name_def tag_key_pair)
  have d: "distinct (map fst ?tags)" using assms(1,3,4) by (simp add: defs_ok_def tags_named_def)
  have "inj_on tag_string (set ?tags)"
  proof (rule inj_onI)
    fix a b
    assume ab: "a \<in> set ?tags" "b \<in> set ?tags" "tag_string a = tag_string b"
    obtain k v l u where kv: "a = (k, v)" "b = (l, u)" by (cases a; cases b)
    have "k = l" using ab pair [of k v] pair [of l u] by (metis kv)
    then show "a = b" using d ab kv by (metis eq_key_imp_eq_value)
  qed
  then have "inj_on tag_string (set ?keep)" by (rule inj_on_subset) auto
  then have dk: "distinct (map tag_string ?keep)" using d by (simp add: distinct_map)
  let ?stored = "filter (\<lambda>tag. \<not> is_subject def (tag_key tag)) (filter (\<lambda>tag. \<not> starts_with RESERVED_TAG_PREFIX tag) (te_tags (fst x)))"
  have "set ?stored = set (map tag_string ?keep)"
  proof (intro set_eqI iffI)
    fix tag
    assume "tag \<in> set ?stored"
    then have tag: "tag \<in> tag_string ` set ?tags" "\<not> is_subject def (tag_key tag)"
      using L(2) assms(5) by auto
    then obtain k v where "(k, v) \<in> set ?tags" "tag = tag_string (k, v)" by auto
    then show "tag \<in> set (map tag_string ?keep)" using tag(2) pair [of k v] by (auto intro!: image_eqI [of _ _ "(k, v)"])
  next
    fix tag
    assume "tag \<in> set (map tag_string ?keep)"
    then obtain k v where "(k, v) \<in> set ?tags" "tag = tag_string (k, v)" "\<not> is_subject def k" by auto
    then show "tag \<in> set ?stored" using L(2) pair [of k v] by auto
  qed
  then have "sort ?stored = sort (map tag_string ?keep)"
    using dk L(3) by (intro sorted_distinct_set_unique) simp_all
  then show ?thesis using assms(3) L(1) by (simp add: reported_tags_def tag_strings_def)
qed

subsection \<open>What a run does to the log\<close>

text \<open>A property of the log and of what the run reports is kept by looks and by accepted appends.\<close>

definition accepted ::
  "run_world \<Rightarrow> 'v hk_api \<Rightarrow> wire \<Rightarrow> tephra \<Rightarrow> host_cfg \<Rightarrow> tlog \<Rightarrow> (tevent \<times> emitted) list \<Rightarrow> bool" where
  "accepted w api io tp cfg log xs \<longleftrightarrow>
     xs \<noteq> [] \<and> (\<exists>es position k k'. lower_all (rw_keys w) api io tp cfg es position k = (Inr xs, k')) \<and>
     (\<exists>cond dcb. guarded api tp cfg cond = Inr dcb \<and> tp_append tp log (map fst xs) dcb = None)"

definition kept_by ::
  "run_world \<Rightarrow> 'v hk_api \<Rightarrow> wire \<Rightarrow> tephra \<Rightarrow> host_cfg \<Rightarrow> (tlog \<Rightarrow> (nat \<times> nat) option \<Rightarrow> emitted list \<Rightarrow> bool \<Rightarrow> bool) \<Rightarrow> bool" where
  "kept_by w api io tp cfg Q \<longleftrightarrow>
     (\<forall>log a e d n. Q log a e d \<longrightarrow> Q (rw_others w n log) a e d) \<and>
     (\<forall>log a e d xs. Q log a e d \<longrightarrow> accepted w api io tp cfg log xs \<longrightarrow>
        Q (log @ map fst xs) (Some (length log + 1, length log + length xs)) (map snd xs) d) \<and>
     (\<forall>log a e d cond dcb. Q log a e d \<longrightarrow> guarded api tp cfg cond = Inr dcb \<longrightarrow> violates log dcb Existence \<longrightarrow> Q log a e True)"

definition holds_in :: "(tlog \<Rightarrow> (nat \<times> nat) option \<Rightarrow> emitted list \<Rightarrow> bool \<Rightarrow> bool) \<Rightarrow> run_state \<Rightarrow> bool" where
  "holds_in Q s \<longleftrightarrow> Q (rs_log s) (rs_appended s) (rs_emitted s) (rs_duplicated s)"

lemma kept_byD:
  assumes "kept_by w api io tp cfg Q" and "Q log a e d"
  shows "Q (rw_others w n log) a e d"
    and "accepted w api io tp cfg log xs \<Longrightarrow>
      Q (log @ map fst xs) (Some (length log + 1, length log + length xs)) (map snd xs) d"
    and "guarded api tp cfg cond = Inr dcb \<Longrightarrow> violates log dcb Existence \<Longrightarrow> Q log a e True"
  using assms unfolding kept_by_def by blast+

lemma current_log_kept: "kept_by w api io tp cfg Q \<Longrightarrow> holds_in Q s \<Longrightarrow> holds_in Q (current_log w s)"
  by (simp add: kept_by_def holds_in_def current_log_def)

lemma commit_kept:
  assumes "kept_by w api io tp cfg Q" and "holds_in Q s" and "hc_stamp cfg = Wall now"
    and "lower_all (rw_keys w) api io tp cfg es position k = (Inr xs, k')" and "xs \<noteq> []"
    and "guarded api tp cfg cond = Inr dcb" and "tephra_ok tp"
  shows "holds_in Q (snd (commit w tp cfg base after dcb xs s))"
proof -
  have c: "holds_in Q (current_log w s)" using current_log_kept [OF assms(1,2)] .
  show ?thesis
  proof (cases "tp_append tp (rs_log (current_log w s)) (map fst xs) dcb")
    case None
    then have "accepted w api io tp cfg (rs_log (current_log w s)) xs"
      using assms(4-6) by (auto simp: accepted_def)
    then show ?thesis
      using kept_byD(2) [OF assms(1) c [unfolded holds_in_def]] assms(3) None
      by (simp add: commit_def Let_def holds_in_def)
  next
    case (Some e)
    show ?thesis
    proof (cases "e = Conflict Existence")
      case True
      then have "violates (rs_log (current_log w s)) dcb Existence" using tephra_okD(7) [OF assms(7)] Some by simp
      then show ?thesis
        using kept_byD(3) [OF assms(1) c [unfolded holds_in_def] assms(6)] Some True
        by (simp add: commit_def Let_def holds_in_def)
    next
      case False
      then show ?thesis
        using c Some by (cases e) (auto simp: commit_def Let_def holds_in_def split: conflict_clause.splits)
    qed
  qed
qed

lemma host_append_kept:
  assumes "kept_by w api io tp cfg Q" and "holds_in Q s" and "hc_stamp cfg = Wall now" and "tephra_ok tp"
  shows "holds_in Q (snd (host_append w api io tp cfg events cond s))"
proof -
  let ?s = "current_log w s"
  have c: "holds_in Q ?s" using current_log_kept [OF assms(1,2)] .
  have keys: "holds_in Q (t\<lparr>rs_keys := k\<rparr>) = holds_in Q t" for t k by (simp add: holds_in_def)
  obtain r k where l: "lower_all (rw_keys w) api io tp cfg events (length (rs_log ?s)) (rs_keys ?s) = (r, k)"
    by (metis surj_pair)
  show ?thesis
  proof (cases r)
    case (Inl e)
    then show ?thesis using c l assms(2)
      by (auto simp: host_append_def Let_def keys split: sum.splits)
  next
    case (Inr xs)
    have "xs \<noteq> []" if "events \<noteq> []"
      using lower_all_lowered [OF assms(4) l [unfolded Inr]] that by auto
    then show ?thesis
      using c l assms(2) Inr commit_kept [OF assms(1) _ assms(3) l [unfolded Inr] _ _ assms(4)]
      by (auto simp: host_append_def Let_def keys split: sum.splits)
  qed
qed

lemma run_session_kept:
  assumes "kept_by w api io tp cfg Q" and "hc_stamp cfg = Wall now" and "tephra_ok tp"
  shows "holds_in Q s \<Longrightarrow> holds_in Q (snd (run_session w api io tp cfg tries session s))"
proof (induction session arbitrary: s)
  case (Looks k)
  then show ?case using current_log_kept [OF assms(1) Looks.prems] by simp
next
  case (Appends events cond k)
  then show ?case
    using host_append_kept [OF assms(1) Appends.prems assms(2,3), of events cond]
    by (cases "host_append w api io tp cfg events cond s") (simp add: Appends.IH)
qed simp_all

subsection \<open>The block a keyed request writes\<close>

lemma idem_item_is:
  assumes "tephra_ok tp" and "idem_item tp tag = Inr item"
  shows "item = \<lparr>qi_types = [], qi_tags = [tag]\<rparr>"
proof -
  obtain t ts where t: "tp_tag tp tag = Inr t" "tp_tags tp [t] = Inr ts" "item = \<lparr>qi_types = [], qi_tags = ts\<rparr>"
    using assms(2) by (auto simp: idem_item_def bind_res_Inr_iff)
  then have "set ts = set [tag] \<and> sorted ts \<and> distinct ts" using tephra_okD(1,2) [OF assms(1)] by metis
  then have "ts = [tag]" using sorted_distinct_set_unique [of ts "[tag]"] by simp
  then show ?thesis using t(3) by simp
qed

lemma idem_query: "tephra_ok tp \<Longrightarrow> idem_item tp tag = Inr item \<Longrightarrow> Query_Items [item] = tag_query tag"
  using idem_item_is by (simp add: tag_query_def)

text \<open>Other requests may write between two looks, but none with this key once an event carries it.\<close>

definition others_keep :: "string \<Rightarrow> run_world \<Rightarrow> bool" where
  "others_keep tag w \<longleftrightarrow>
     (\<forall>n log. \<exists>more. rw_others w n log = log @ more \<and>
        (tagged tag log \<noteq> [] \<longrightarrow> (\<forall>e \<in> set more. tag \<notin> set (te_tags e))))"

lemma others_keep_tagged:
  assumes "others_keep tag w" and "tagged tag log \<noteq> []"
  shows "tagged tag (rw_others w n log) = tagged tag log"
proof -
  obtain more where m: "rw_others w n log = log @ more" "\<forall>e \<in> set more. tag \<notin> set (te_tags e)"
    using assms unfolding others_keep_def by blast
  then have "filter (\<lambda>(p, e). tag \<in> set (te_tags e)) (enumerate (Suc (length log)) more) = []"
    by (auto simp: filter_empty_conv in_set_enumerate_eq)
  then show ?thesis by (simp add: m(1) tagged_append)
qed

definition written :: "'v hk_api \<Rightarrow> wire \<Rightarrow> host_cfg \<Rightarrow> (tevent \<times> emitted) list \<Rightarrow> bool" where
  "written api io cfg xs \<longleftrightarrow>
     (\<forall>x \<in> set xs. (\<exists>p. lowered_to api io cfg p x) \<and>
        (\<exists>def. fmlookup (hc_events cfg) (em_event_type (snd x)) = Some def \<and> tags_named def (em_tags (snd x))))"

lemma accepted_written:
  assumes "tephra_ok tp" and "accepted w api io tp cfg log xs"
  shows "written api io cfg xs \<and> xs \<noteq> []"
proof -
  obtain es p k k' where l: "lower_all (rw_keys w) api io tp cfg es p k = (Inr xs, k')" and ne: "xs \<noteq> []"
    using assms(2) by (auto simp: accepted_def)
  have "\<exists>q. lowered_to api io cfg q x" if "x \<in> set xs" for x
    using lower_all_lowered [OF assms(1) l] that by (auto simp: in_set_conv_nth)
  then show ?thesis using lower_all_named [OF l] ne by (auto simp: written_def)
qed

lemma written_tagged: "written api io cfg xs \<Longrightarrow> x \<in> set xs \<Longrightarrow> set (extra_tags cfg) \<subseteq> set (te_tags (fst x))"
  by (auto simp: written_def lowered_to_def)

lemma accepted_fresh:
  assumes "tephra_ok tp" and "accepted w api io tp cfg log xs" and "host_idempotency_tag cfg = Some tag"
  shows "tagged tag log = []"
proof -
  obtain cond dcb where g: "guarded api tp cfg cond = Inr dcb" "tp_append tp log (map fst xs) dcb = None"
    using assms(2) by (auto simp: accepted_def)
  then obtain item where "idem_item tp tag = Inr item" "ac_exists dcb = Some (Query_Items [item])"
    using assms(3) by (auto simp: guarded_def bind_res_Inr_iff)
  then have "ac_exists dcb = Some (tag_query tag)" using idem_query [OF assms(1)] by simp
  then show ?thesis
    using tephra_okD(6) [OF assms(1) g(2)] by (auto simp: violates_def tagged_none)
qed

lemma in_set_enumerated: "(p, e) \<in> set (enumerate k es) \<Longrightarrow> e \<in> set es"
  by (metis image_eqI map_snd_enumerate set_map snd_conv)

definition keyed_block ::
  "string \<Rightarrow> 'v hk_api \<Rightarrow> wire \<Rightarrow> host_cfg \<Rightarrow> tlog \<Rightarrow> (nat \<times> nat) option \<Rightarrow> emitted list \<Rightarrow> bool" where
  "keyed_block tag api io cfg log appended emitted \<longleftrightarrow>
     (appended = None \<and> emitted = []) \<or>
     (\<exists>start xs. xs \<noteq> [] \<and> appended = Some (start + 1, start + length xs) \<and> emitted = map snd xs \<and>
        tagged tag log = enumerate (start + 1) (map fst xs) \<and> written api io cfg xs)"

lemma keyed_block_kept:
  assumes "tephra_ok tp" and "hc_idem_tag cfg = Some tag" and "others_keep tag w"
  shows "kept_by w api io tp cfg (\<lambda>log a e d. keyed_block tag api io cfg log a e)"
  unfolding kept_by_def
proof (intro conjI allI impI; assumption?)
  fix log a e n
  assume q: "keyed_block tag api io cfg log a e"
  have "tagged tag (rw_others w n log) = tagged tag log"
    if "tagged tag log = enumerate k (map fst xs)" "xs \<noteq> []" for k and xs :: "(tevent \<times> emitted) list"
    using others_keep_tagged [OF assms(3)] that by (metis enumerate_simps(2) list.exhaust list.simps(3) list.simps(9))
  then show "keyed_block tag api io cfg (rw_others w n log) a e"
    using q unfolding keyed_block_def by metis
next
  fix log a e xs
  assume acc: "accepted w api io tp cfg log xs"
  have f: "tagged tag log = []" using accepted_fresh [OF assms(1) acc] assms(2) by (simp add: host_idempotency_tag_def)
  have wr: "written api io cfg xs" "xs \<noteq> []" using accepted_written [OF assms(1) acc] by simp_all
  have each: "tag \<in> set (te_tags (fst x))" if "x \<in> set xs" for x
    using written_tagged [OF wr(1) that] assms(2) by (auto simp: extra_tags_def)
  have "tag \<in> set (te_tags e)" if "(p, e) \<in> set (enumerate k (map fst xs))" for p e k
    using in_set_enumerated [OF that] each by auto
  then have "filter (\<lambda>(p, e). tag \<in> set (te_tags e)) (enumerate (Suc (length log)) (map fst xs)) =
      enumerate (Suc (length log)) (map fst xs)"
    by (auto simp: filter_id_conv)
  then have "tagged tag (log @ map fst xs) = enumerate (length log + 1) (map fst xs)"
    by (simp add: tagged_append f)
  then show "keyed_block tag api io cfg (log @ map fst xs) (Some (length log + 1, length log + length xs)) (map snd xs)"
    using wr unfolding keyed_block_def by blast
qed

end
