(* ===== verification/Command_Once.thy ===== *)
theory Command_Once
  imports Command_Safety
begin

section \<open>What a keyed request's tag recovers\<close>

text \<open>
  The block a keyed request wrote is read back as the outcome it had, and a second run of the request
  with the same key adds nothing to it and answers with it.
\<close>

definition ids_known :: "wire \<Rightarrow> 'v hk_api \<Rightarrow> command_context \<Rightarrow> bool" where
  "ids_known io api ctx \<longleftrightarrow>
     (\<forall>n. w_uuid io (hv_new_id api n) = Some (hv_new_id api n)) \<and>
     (\<forall>u \<in> {cx_correlation_id ctx, cx_causation_id ctx} \<union> set_option (cx_triggering_event_id ctx). w_uuid io u = Some u)"

subsection \<open>Reading the block back\<close>

lemma decode_lowered:
  assumes "wire_ok io" and "ids_known io api (hc_ctx cfg)" and "hc_stamp cfg = Wall now" and "lowered_to api io cfg p x"
  shows "\<exists>env. decode_event io (te_data (fst x)) = Inr (env, em_data (snd x)) \<and>
    e_correlation_id env = cx_correlation_id (hc_ctx cfg) \<and> e_causation_id env = cx_causation_id (hc_ctx cfg)"
proof -
  obtain n st where st: "st = (hv_new_id api n, now)"
    "te_data (fst x) = encode_event io (envelope_for (hc_ctx cfg) st) (em_data (snd x))"
    using assms(3,4) by (auto simp: lowered_to_def)
  have "ids_ok io (envelope_for (hc_ctx cfg) st)"
    using assms(2) st(1) by (simp add: ids_ok_def ids_known_def envelope_for_def)
  then show ?thesis using decode_encode_event [OF assms(1)] st by (simp add: envelope_for_def)
qed

definition recovered_of :: "(string, event_def) fmap \<Rightarrow> tevent \<Rightarrow> recovered_event" where
  "recovered_of defs e = \<lparr>re_event_type = te_type e, re_tags = reported_tags defs e\<rparr>"

lemma recover_written:
  assumes "wire_ok io" and "ids_known io api (hc_ctx cfg)" and "hc_stamp cfg = Wall now"
  shows "written api io cfg xs \<Longrightarrow>
    ry_ids acc \<in> {None, Some (cx_correlation_id (hc_ctx cfg), cx_causation_id (hc_ctx cfg))} \<Longrightarrow> xs \<noteq> [] \<Longrightarrow>
    recover_items io defs (map Inr (enumerate k (map fst xs))) acc =
      Inr \<lparr>ry_events = ry_events acc @ map (recovered_of defs \<circ> fst) xs,
           ry_range = Some (case ry_range acc of None \<Rightarrow> k | Some (first, _) \<Rightarrow> first, k + length xs - 1),
           ry_ids = Some (cx_correlation_id (hc_ctx cfg), cx_causation_id (hc_ctx cfg))\<rparr>"
proof (induction xs arbitrary: k acc)
  case (Cons x xs)
  obtain p where "lowered_to api io cfg p x" using Cons.prems(1) by (auto simp: written_def)
  then obtain env where env: "decode_event io (te_data (fst x)) = Inr (env, em_data (snd x))"
    "e_correlation_id env = cx_correlation_id (hc_ctx cfg)" "e_causation_id env = cx_causation_id (hc_ctx cfg)"
    using decode_lowered [OF assms] by blast
  let ?acc = "\<lparr>ry_events = ry_events acc @ [recovered_of defs (fst x)],
      ry_range = Some (case ry_range acc of None \<Rightarrow> k | Some (first, _) \<Rightarrow> first, k),
      ry_ids = Some (cx_correlation_id (hc_ctx cfg), cx_causation_id (hc_ctx cfg))\<rparr>"
  have one: "recover_item io defs acc (Inr (k, fst x)) = Inr ?acc"
    using Cons.prems(2) env
    by (auto simp: recover_item_def recovered_of_def split: option.splits)
  show ?case
  proof (cases "xs = []")
    case True
    then show ?thesis by (simp add: one)
  next
    case False
    have "written api io cfg xs" using Cons.prems(1) by (simp add: written_def)
    from Cons.IH [OF this _ False, of ?acc "Suc k"] show ?thesis
      using False by (cases xs) (simp_all add: one)
  qed
qed simp

lemma recover_items_clean: "recover_items io defs items acc = Inr r \<Longrightarrow> \<forall>x \<in> set items. \<not> isl x"
proof (induction items arbitrary: acc)
  case (Cons x xs)
  then show ?case by (cases x) (auto simp: bind_res_Inr_iff recover_item_def)
qed simp

lemma recovery_item_Inr: "recovery_item tp tag = Inr item \<longleftrightarrow> idem_item tp tag = Inr item"
  by (simp add: recovery_item_def idem_item_def bind_res_Inr_iff map_err_Inr_iff)

definition outcome_of :: "host_cfg \<Rightarrow> nat \<Rightarrow> (tevent \<times> emitted) list \<Rightarrow> recovered" where
  "outcome_of cfg start xs =
     \<lparr>rc_events = map (recovered_of (hc_events cfg) \<circ> fst) xs, rc_positions = (start + 1, start + length xs),
      rc_correlation_id = cx_correlation_id (hc_ctx cfg), rc_causation_id = cx_causation_id (hc_ctx cfg)\<rparr>"

lemma recovers_block:
  assumes "tephra_ok tp" and "wire_ok io" and "ids_known io api (hc_ctx cfg)" and "hc_stamp cfg = Wall now"
    and "written api io cfg xs" and "xs \<noteq> []" and "tagged tag log = enumerate (start + 1) (map fst xs)"
    and "idem_item tp tag = Inr item"
    and "\<forall>x \<in> set (tp_read tp log (tag_query tag) 0 None). \<not> isl x"
  shows "find_committed_outcome tp io (hc_events cfg) tag log = Inr (Some (outcome_of cfg start xs))"
proof -
  have "tp_read tp log (tag_query tag) 0 None = map Inr (enumerate (start + 1) (map fst xs))"
    using tephra_okD(5) [OF assms(1,9)] assms(7) by (simp add: hits_tag)
  moreover have "recovery_item tp tag = Inr item" using recovery_item_Inr assms(8) by blast
  ultimately show ?thesis
    using recover_written [OF assms(2-5) _ assms(6), of "\<lparr>ry_events = [], ry_range = None, ry_ids = None\<rparr>"] assms(8)
    by (simp add: find_committed_outcome_def idem_query [OF assms(1)] outcome_of_def)
qed

lemma found_is_block:
  assumes "tephra_ok tp" and "wire_ok io" and "ids_known io api (hc_ctx cfg)" and "hc_stamp cfg = Wall now"
    and "written api io cfg xs" and "xs \<noteq> []" and "tagged tag log = enumerate (start + 1) (map fst xs)"
    and "find_committed_outcome tp io (hc_events cfg) tag log = Inr found"
  shows "found = Some (outcome_of cfg start xs)"
proof -
  obtain item r where "recovery_item tp tag = Inr item"
    and r: "recover_items io (hc_events cfg) (tp_read tp log (Query_Items [item]) 0 None)
       \<lparr>ry_events = [], ry_range = None, ry_ids = None\<rparr> = Inr r"
    using assms(8) by (auto simp: find_committed_outcome_def bind_res_Inr_iff)
  then have i: "idem_item tp tag = Inr item" using recovery_item_Inr by blast
  have "\<forall>x \<in> set (tp_read tp log (tag_query tag) 0 None). \<not> isl x"
    using recover_items_clean [OF r] idem_query [OF assms(1) i] by simp
  from recovers_block [OF assms(1-7) i this] show ?thesis using assms(8) by simp
qed

subsection \<open>The response\<close>

definition reserved_tags :: "host_cfg \<Rightarrow> bool" where
  "reserved_tags cfg \<longleftrightarrow> (\<forall>t. hc_idem_tag cfg = Some t \<longrightarrow> starts_with RESERVED_TAG_PREFIX t)"

lemma extra_reserved: "reserved_tags cfg \<Longrightarrow> \<forall>t \<in> set (extra_tags cfg). starts_with RESERVED_TAG_PREFIX t"
  by (auto simp: reserved_tags_def extra_tags_def correlation_reserved split: option.splits)

lemma recovered_body_is:
  assumes "defs_ok (hc_events cfg)" and "reserved_tags cfg" and "written api io cfg xs"
  shows "recovered_body (outcome_of cfg start xs) =
    success_body (hc_ctx cfg) (Some (start + 1, start + length xs)) (map snd xs) (hc_events cfg)"
proof -
  have "event_body (te_type (fst x)) (reported_tags (hc_events cfg) (fst x)) =
      event_body (em_event_type (snd x)) (tag_strings (filter (\<lambda>(key, _).
        \<not> (case fmlookup (hc_events cfg) (em_event_type (snd x)) of None \<Rightarrow> False | Some def \<Rightarrow> is_subject def key)) (em_tags (snd x))))"
    if "x \<in> set xs" for x
  proof -
    obtain p def where x: "lowered_to api io cfg p x" "fmlookup (hc_events cfg) (em_event_type (snd x)) = Some def"
      "tags_named def (em_tags (snd x))"
      using assms(3) \<open>x \<in> set xs\<close> by (auto simp: written_def)
    then have "te_type (fst x) = em_event_type (snd x)" by (simp add: lowered_to_def)
    then show ?thesis using reported_as_emitted [OF assms(1) x extra_reserved [OF assms(2)]] x(2) by simp
  qed
  then show ?thesis by (simp add: recovered_body_def success_body_def outcome_of_def recovered_of_def comp_def cong: map_cong)
qed

subsection \<open>One keyed request\<close>

text \<open>What the seam relies on: tephra, serde and the ids as documented, the program's declarations, a wall clock.\<close>

definition seam_ok :: "tephra \<Rightarrow> wire \<Rightarrow> 'v hk_api \<Rightarrow> host_cfg \<Rightarrow> bool" where
  "seam_ok tp io api cfg \<longleftrightarrow>
     tephra_ok tp \<and> wire_ok io \<and> ids_known io api (hc_ctx cfg) \<and> defs_ok (hc_events cfg) \<and> reserved_tags cfg \<and>
     (\<exists>now. hc_stamp cfg = Wall now)"

lemma committed_run:
  assumes "run_command w api io tp from_json commands hk_run cfg tries name input s = (Inr (Committed em (Some rg)), s')"
    and "kept_by w api io tp cfg Q" and "hc_stamp cfg = Wall now" and "tephra_ok tp" and "Q (rs_log s) None [] False"
  shows "rs_appended s' = Some rg \<and> rs_emitted s' = em \<and> Q (rs_log s') (Some rg) em (rs_duplicated s')"
proof -
  obtain args session r t where t: "run_session w api io tp cfg tries session (fresh_run s) = (r, t)"
    and st: "settle w tp io cfg args r t = (Inr (Committed em (Some rg)), s')"
    using assms(1) by (auto simp: run_command_def split: option.splits sum.splits if_splits prod.splits)
  have "holds_in Q (fresh_run s)" using assms(5) by (simp add: holds_in_def fresh_run_def)
  from run_session_kept [OF assms(2,3,4) this, of tries session] have q: "holds_in Q t" by (simp add: t)
  have "s' = t \<and> rs_appended t = Some rg \<and> rs_emitted t = em"
    using st
    by (auto simp: settle_def recover_or_def Let_def bind_res_Inr_iff map_sum_id_Inr_iff split: sum.splits option.splits if_splits hk_error.splits hk_outcome.splits)
  then show ?thesis using q by (auto simp: holds_in_def)
qed

lemma keyed_block_of:
  assumes "run_command w api io tp from_json commands hk_run cfg tries name input s = (Inr (Committed em (Some rg)), s')"
    and "seam_ok tp io api cfg" and "hc_idem_tag cfg = Some tag" and "others_keep tag w"
  obtains start xs where "xs \<noteq> []" and "rg = (start + 1, start + length xs)" and "em = map snd xs"
    and "tagged tag (rs_log s') = enumerate (start + 1) (map fst xs)" and "written api io cfg xs"
proof -
  obtain now where "hc_stamp cfg = Wall now" using assms(2) by (auto simp: seam_ok_def)
  moreover have "tephra_ok tp" using assms(2) by (simp add: seam_ok_def)
  ultimately have "keyed_block tag api io cfg (rs_log s') (Some rg) em"
    using committed_run [OF assms(1) keyed_block_kept [OF _ assms(3,4)]] by (simp add: keyed_block_def)
  then show ?thesis using that by (auto simp: keyed_block_def)
qed

text \<open>
  C28: a committed request is recovered as it was answered.  Once a request with an idempotency key has
  committed at some positions, reading the log by its tag, in whatever later state of the log that other
  requests have extended, finds one outcome: the same positions, events and identities, and the body built
  from the log is the body the first response had, subject tags left out of both.
\<close>

theorem committed_request_recovers:
  assumes "run_command w api io tp from_json commands hk_run cfg tries name input s = (Inr (Committed em (Some rg)), s')"
    and "seam_ok tp io api cfg" and "hc_idem_tag cfg = Some tag" and "others_keep tag w"
    and "tagged tag log = tagged tag (rs_log s')" and "idem_item tp tag = Inr item"
    and "\<forall>x \<in> set (tp_read tp log (tag_query tag) 0 None). \<not> isl x"
  shows "\<exists>r. find_committed_outcome tp io (hc_events cfg) tag log = Inr (Some r) \<and>
    rc_positions r = rg \<and> map re_event_type (rc_events r) = map em_event_type em \<and>
    recovered_body r = success_body (hc_ctx cfg) (Some rg) em (hc_events cfg)"
proof -
  obtain start xs where b: "xs \<noteq> []" "rg = (start + 1, start + length xs)" "em = map snd xs"
    "tagged tag (rs_log s') = enumerate (start + 1) (map fst xs)" "written api io cfg xs"
    by (rule keyed_block_of [OF assms(1-4)])
  obtain now where ok: "tephra_ok tp" "wire_ok io" "ids_known io api (hc_ctx cfg)" "hc_stamp cfg = Wall now"
    "defs_ok (hc_events cfg)" "reserved_tags cfg"
    using assms(2) by (auto simp: seam_ok_def)
  have "find_committed_outcome tp io (hc_events cfg) tag log = Inr (Some (outcome_of cfg start xs))"
    using recovers_block [OF ok(1-4) b(5,1) _ assms(6,7)] assms(5) b(4) by simp
  moreover have "te_type (fst x) = em_event_type (snd x)" if "x \<in> set xs" for x
    using b(5) that by (auto simp: written_def lowered_to_def)
  ultimately show ?thesis
    using recovered_body_is [OF ok(5,6) b(5)] b(2,3)
    by (auto simp: outcome_of_def recovered_of_def cong: map_cong)
qed

subsection \<open>The request again\<close>

lemma spent_tag_kept:
  assumes "tephra_ok tp" and "hc_idem_tag cfg = Some tag" and "others_keep tag w" and "block \<noteq> []"
  shows "kept_by w api io tp cfg (\<lambda>log a e d. tagged tag log = block \<and> a = None \<and> e = [])"
  using accepted_fresh [OF assms(1), of w api io cfg] others_keep_tagged [OF assms(3)] assms(2,4)
  by (auto simp: kept_by_def host_idempotency_tag_def)

text \<open>What a settled outcome may be when the tag is in the log; \<open>found\<close> is what the log recovers.\<close>

fun replay_outcome :: "bool \<Rightarrow> recovered \<Rightarrow> outcome \<Rightarrow> bool" where
  "replay_outcome boundaried found (Committed em rg) \<longleftrightarrow> \<not> boundaried \<and> em = [] \<and> rg = None"
| "replay_outcome boundaried found (Rejected code m) \<longleftrightarrow> \<not> boundaried"
| "replay_outcome boundaried found (InvalidInput m) \<longleftrightarrow> \<not> boundaried"
| "replay_outcome boundaried found (AlreadyCommitted r) \<longleftrightarrow> r = found"
| "replay_outcome boundaried found Conflicted \<longleftrightarrow> True"
| "replay_outcome boundaried found (Unavailable m) \<longleftrightarrow> True"

lemma settle_replay:
  assumes "\<And>log found'. tagged tag log = block \<Longrightarrow> find_committed_outcome tp io (hc_events cfg) tag log = Inr found' \<Longrightarrow>
      found' = Some found"
    and "hc_idem_tag cfg = Some tag" and "others_keep tag w" and "block \<noteq> []"
    and "tagged tag (rs_log t) = block" and "rs_appended t = None" and "rs_emitted t = []"
    and "settle w tp io cfg boundaried r t = (result, s')"
  shows "tagged tag (rs_log s') = block \<and> (\<forall>out. result = Inr out \<longrightarrow> replay_outcome boundaried found out)"
proof -
  have c: "tagged tag (rs_log (current_log w t)) = block"
    using others_keep_tagged [OF assms(3)] assms(4,5) by (simp add: current_log_def)
  note f = assms(1) [OF c]
  show ?thesis
    using assms(2,5-8) c f
    by (cases boundaried)
      (auto simp: settle_def recover_or_def recover_if_committed_def Let_def bind_res_Inr_iff map_sum_id_Inr_iff
        split: sum.splits option.splits if_splits hk_error.splits hk_outcome.splits)
qed

text \<open>
  C29: a request with an idempotency key commits once.  After it has committed, running a command again
  with the same key, whatever its input, its own context and the log others have extended meanwhile, adds
  no event with the tag.  If the run settles, it answers that the request already committed, with the body
  the first response had; or it was beaten or the log is shutting down; or the input does not bind; or, for
  a command that reads nothing, it decided without appending.
\<close>

theorem keyed_request_commits_once:
  assumes "run_command w api io tp from_json commands hk_run cfg tries name input s = (Inr (Committed em (Some rg)), s')"
    and "seam_ok tp io api cfg" and "hc_idem_tag cfg = Some tag" and "others_keep tag w"
    and "run_command w2 api io tp from_json commands hk_run cfg2 tries2 name2 input2 s2 = (result, s3)"
    and "hc_idem_tag cfg2 = Some tag" and "hc_events cfg2 = hc_events cfg" and "hc_stamp cfg2 = Wall now"
    and "others_keep tag w2" and "tagged tag (rs_log s2) = tagged tag (rs_log s')"
    and "fmlookup commands name2 = Some command"
  shows "tagged tag (rs_log s3) = tagged tag (rs_log s') \<and>
    (\<exists>found. recovered_body found = success_body (hc_ctx cfg) (Some rg) em (hc_events cfg) \<and>
       (\<forall>out. result = Inr out \<longrightarrow>
          replay_outcome (\<exists>r \<in> set (cd_reads command). r) found out \<or>
          (\<exists>m. bind_args api from_json command input2 = Inl m \<and> out = InvalidInput m)))"
proof -
  obtain start xs where b: "xs \<noteq> []" "rg = (start + 1, start + length xs)" "em = map snd xs"
    "tagged tag (rs_log s') = enumerate (start + 1) (map fst xs)" "written api io cfg xs"
    by (rule keyed_block_of [OF assms(1-4)])
  obtain t where ok: "tephra_ok tp" "wire_ok io" "ids_known io api (hc_ctx cfg)" "hc_stamp cfg = Wall t"
    "defs_ok (hc_events cfg)" "reserved_tags cfg"
    using assms(2) by (auto simp: seam_ok_def)
  let ?block = "tagged tag (rs_log s')" and ?found = "outcome_of cfg start xs"
  have ne: "?block \<noteq> []" using b(1,4) by (cases xs) simp_all
  have f: "found' = Some ?found"
    if "tagged tag log = ?block" "find_committed_outcome tp io (hc_events cfg2) tag log = Inr found'" for log found'
    using found_is_block [OF ok(1-4) b(5,1)] that b(4) assms(7) by simp
  have body: "recovered_body ?found = success_body (hc_ctx cfg) (Some rg) em (hc_events cfg)"
    using recovered_body_is [OF ok(5,6) b(5)] b(2,3) by simp
  let ?q = "\<lambda>log a e (d :: bool). tagged tag log = ?block \<and> a = None \<and> e = []"
  have "?thesis" if "bind_args api from_json command input2 = Inl m" for m
    using that assms(5,10,11) body by (auto simp: run_command_def)
  moreover have "?thesis" if "bind_args api from_json command input2 = Inr args" "tries2 = 0" for args
    using that assms(5,10,11) body by (auto simp: run_command_def)
  moreover have "?thesis" if bound: "bind_args api from_json command input2 = Inr args" "tries2 \<noteq> 0" for args
  proof -
    obtain r u where u: "run_session w2 api io tp cfg2 tries2 (hk_run name2 args) (fresh_run s2) = (r, u)"
      by (metis surj_pair)
    have "holds_in ?q (fresh_run s2)" using assms(10) by (simp add: holds_in_def fresh_run_def)
    from run_session_kept [OF spent_tag_kept [OF ok(1) assms(6,9) ne] assms(8) ok(1) this, where api = api and io = io and tries = tries2 and session = "hk_run name2 args"]
    have q: "tagged tag (rs_log u) = ?block" "rs_appended u = None" "rs_emitted u = []"
      by (simp_all add: u holds_in_def)
    have "settle w2 tp io cfg2 (\<exists>r \<in> set (cd_reads command). r) r u = (result, s3)"
      using assms(5,11) bound u by (simp add: run_command_def)
    from settle_replay [OF _ assms(6,9) ne q this, of ?found] f
    have "tagged tag (rs_log s3) = ?block \<and>
        (\<forall>out. result = Inr out \<longrightarrow> replay_outcome (\<exists>r \<in> set (cd_reads command). r) ?found out)" by blast
    then show ?thesis using body by blast
  qed
  ultimately show ?thesis by (cases "bind_args api from_json command input2") blast+
qed

subsection \<open>An effect's invoke\<close>

text \<open>The tag an \<open>invoke\<close> guards its append with is never on what it appends: lowering looks at \<open>hc_idem_tag\<close> only.\<close>

lemma idempotency_not_correlation: "correlation_tag c \<noteq> idempotency_tag sha name key"
  by (simp add: correlation_tag_def correlation_tag_value_def idempotency_tag_def CORRELATION_TAG_KEY_def IDEMPOTENCY_TAG_KEY_def)

definition others_keep_out :: "string \<Rightarrow> run_world \<Rightarrow> bool" where
  "others_keep_out tag w \<longleftrightarrow> (\<forall>n log. tagged tag log = [] \<longrightarrow> tagged tag (rw_others w n log) = [])"

lemma unkeyed_untagged:
  assumes "defs_ok (hc_events cfg)" and "hc_idem_tag cfg = None" and "written api io cfg xs" and "x \<in> set xs"
  shows "idempotency_tag sha name key \<notin> set (te_tags (fst x))"
proof
  let ?tag = "idempotency_tag sha name key"
  assume tag: "?tag \<in> set (te_tags (fst x))"
  obtain p def where x: "lowered_to api io cfg p x" "fmlookup (hc_events cfg) (em_event_type (snd x)) = Some def"
    "tags_named def (em_tags (snd x))"
    using assms(3,4) by (auto simp: written_def)
  have "set (te_tags (fst x)) = tag_string ` set (em_tags (snd x)) \<union> {correlation_tag (cx_correlation_id (hc_ctx cfg))}"
    using x(1) assms(2) by (simp add: lowered_to_def extra_tags_def)
  then have "?tag \<in> tag_string ` set (em_tags (snd x))"
    using tag idempotency_not_correlation [symmetric] by simp
  then obtain k v where kv: "(k, v) \<in> set (em_tags (snd x))" "?tag = tag_string (k, v)" by auto
  then have "field_name k \<and> v \<noteq> None" using x(2,3) assms(1) by (fastforce simp: defs_ok_def tags_named_def)
  then obtain u where "field_name k" "?tag = k @ CHR '':'' # u" using kv(2) by auto
  then show False
    using starts_with_pair [OF no_colon_prefix, of k u] idempotency_reserved [of sha name key] by (simp add: field_name_def)
qed

text \<open>
  C30: the guard of an effect's invoke never fires.  Run through the host of an effect, which has no tag of
  its own but publishes the journal identity of the call, a command appends events that do not carry that
  identity's tag; so while nothing else writes the tag, no run of the same call, a replay after a crash
  between the append and the journal write included, is ever told that it already committed.
\<close>

theorem invoke_guard_never_fires:
  assumes "seam_ok tp io api cfg" and "hc_idem_tag cfg = None"
    and "tag = idempotency_tag sha effect key" and "hc_call cfg = Some (Some tag)" and "others_keep_out tag w"
    and "tagged tag (rs_log s) = []" and "\<not> rs_duplicated s"
  shows "tagged tag (rs_log (snd (run_session w api io tp cfg tries session s))) = [] \<and>
    \<not> rs_duplicated (snd (run_session w api io tp cfg tries session s))"
proof -
  obtain now where ok: "tephra_ok tp" "hc_stamp cfg = Wall now" "defs_ok (hc_events cfg)"
    using assms(1) by (auto simp: seam_ok_def)
  have guard: "host_idempotency_tag cfg = Some tag" using assms(2,4) by (simp add: host_idempotency_tag_def)
  let ?q = "\<lambda>log a e d. tagged tag log = [] \<and> \<not> d"
  have "kept_by w api io tp cfg ?q"
    unfolding kept_by_def
  proof (intro conjI allI impI)
    fix log a e d xs
    assume q: "tagged tag log = [] \<and> \<not> d" and acc: "accepted w api io tp cfg log xs"
    have "tag \<notin> set (te_tags (fst x))" if "x \<in> set xs" for x
      using unkeyed_untagged [OF ok(3) assms(2) _ that] accepted_written [OF ok(1) acc] assms(3) by blast
    then show "tagged tag (log @ map fst xs) = []" using q by (auto simp: tagged_none)
  next
    fix log a e d cond dcb
    assume q: "tagged tag log = [] \<and> \<not> d" and g: "guarded api tp cfg cond = Inr dcb" "violates log dcb Existence"
    then obtain item where "idem_item tp tag = Inr item" "ac_exists dcb = Some (Query_Items [item])"
      using guard by (auto simp: guarded_def bind_res_Inr_iff)
    then have "ac_exists dcb = Some (tag_query tag)" using idem_query [OF ok(1)] by simp
    then have False using q g(2) by (auto simp: violates_def tagged_none)
    then show "tagged tag log = []" and "\<not> True" by simp_all
  qed (use assms(5) in \<open>auto simp: others_keep_out_def\<close>)
  then show ?thesis
    using run_session_kept [OF _ ok(2,1), of w api io ?q s tries session] assms(6,7) by (simp add: holds_in_def)
qed

end
