(* ===== verification/Lowering_Sound.thy ===== *)
theory Lowering_Sound
  imports Command_Host
begin

section \<open>What lowering seals can be opened\<close>

text \<open>
  The chains a declaration gives the key store are well formed, and what lowering writes into a sealed
  field opens to the value the command emitted.
\<close>

subsection \<open>Chains\<close>

lemma chain_links_complete:
  "\<forall>a \<in> set as. \<exists>f. filter (carries a) fs = [f] \<Longrightarrow> map fst (chain_links fs as) = as"
  by (induction as) auto

lemma declared_seal:
  assumes "(name, meta) \<in> set (ed_fields (event_def_of ty_subject variants parents def))"
    and "fm_sealed_under meta = Some s"
  obtains subject id_field where "sl_chain s = seal_chain def subject id_field parents" and "seal_subject s = subject"
  using assms by (auto simp: event_def_of_def seal_subject_def seal_chain_def)

text \<open>
  C31: every seal of a declared event is a well-formed chain of keys.  Whatever event is declared over an
  acyclic hierarchy of subjects, the chain a sealed field resolves to starts at the field's subject and
  climbs its ancestors, parent by parent, each a level above the one before, so it is a chain the key store
  may mint; and it climbs to the root when the event carries one id for each ancestor.
\<close>

theorem declared_seals_well_formed:
  assumes "parents_ranked rank parents"
    and "(name, meta) \<in> set (ed_fields (event_def_of ty_subject variants parents def))"
    and "fm_sealed_under meta = Some s" and "seal_resolve s ids = Some links"
  shows "declared_chain rank links \<and> links \<noteq> [] \<and>
    (\<exists>m. map fst links = take (m + 1) (seal_subject s # ancestors parents (seal_subject s))) \<and>
    ((\<forall>a \<in> set (ancestors parents (seal_subject s)). \<exists>f. filter (carries a) (ie_fields def) = [f]) \<longrightarrow>
       map fst links = seal_subject s # ancestors parents (seal_subject s)) \<and>
    (\<forall>a \<in> set (ancestors parents (seal_subject s)). rank a < rank (seal_subject s)) \<and>
    ancestors parents (seal_subject s) =
      (case fmlookup parents (seal_subject s) of None \<Rightarrow> [] | Some p \<Rightarrow> p # ancestors parents p)"
proof -
  obtain subject id_field where c: "sl_chain s = seal_chain def subject id_field parents" "seal_subject s = subject"
    by (rule declared_seal [OF assms(2,3)])
  have f: "map fst links = map fst (sl_chain s)" using assms(4) those_map_fst by (simp add: seal_resolve_def)
  obtain m where m: "map fst (chain_links (ie_fields def) (ancestors parents subject)) = take m (ancestors parents subject)"
    using chain_links_fst by blast
  have "map fst links = take (m + 1) (subject # ancestors parents subject)" by (simp add: f c(1) seal_chain_def m)
  moreover have "declared_chain rank links"
    using resolve_declared [OF assms(4)] seal_chain_declared [OF assms(1)] c(1) by simp
  moreover have "map fst links = subject # ancestors parents subject"
    if "\<forall>a \<in> set (ancestors parents subject). \<exists>f. filter (carries a) (ie_fields def) = [f]"
    using chain_links_complete [OF that] by (simp add: f c(1) seal_chain_def)
  moreover have "\<forall>a \<in> set (ancestors parents subject). rank a < rank subject"
    using ancestors_within_ranked [OF assms(1)] by (auto simp: ancestors_def)
  ultimately show ?thesis using ancestors_step [OF assms(1), of subject] by (auto simp: c(2))
qed

subsection \<open>Sealing one field\<close>

definition sealed_as :: "key_world \<Rightarrow> keystore \<Rightarrow> string \<Rightarrow> string \<Rightarrow> string \<Rightarrow> string \<Rightarrow> string \<Rightarrow> bool" where
  "sealed_as w s u i name ct plaintext \<longleftrightarrow>
     (\<exists>sec. encrypt_with (kw_cipher w) sec name plaintext = Inr ct \<and>
        opens w (ks_table s) (MAX_SUBJECT_DEPTH + 1) u i = Inr (Some sec))"

lemma sealed_as_keeps:
  "sealed_as w s u i name ct plaintext \<Longrightarrow> keeps_readable w (ks_table s) (ks_table s') \<Longrightarrow> sealed_as w s' u i name ct plaintext"
  unfolding sealed_as_def using opens_keeps by blast

lemma ready_uncached: "ready rank s \<Longrightarrow> ks_cache s = None"
  by (simp add: ready_def)

lemma sealed_as_opens:
  assumes "sound_world w rank" and "ready rank s" and "sealed_as w s u i name ct plaintext" and "c_utf8 (kw_cipher w) plaintext"
  shows "fst (decrypt_subject w u i name ct s) = Inr (Some plaintext)"
proof -
  obtain sec where sec: "encrypt_with (kw_cipher w) sec name plaintext = Inr ct"
    "opens w (ks_table s) (MAX_SUBJECT_DEPTH + 1) u i = Inr (Some sec)" using assms(3) by (auto simp: sealed_as_def)
  obtain k where "load_secret w u i s = (opens w (ks_table s) (MAX_SUBJECT_DEPTH + 1) u i, s\<lparr>ks_turn := k\<rparr>)"
    using load_secret_opens [OF sound_worldD(1) [OF assms(1)] ready_uncached [OF assms(2)]] by blast
  then show ?thesis
    using sec(2) decrypt_encrypt [OF sound_worldD(2) [OF assms(1)] sec(1) assms(4)] by (simp add: decrypt_subject_def ks_simps del: opens.simps)
qed

lemma decrypt_keeps:
  assumes "sound_world w rank" and "ready rank s" and "decrypt_subject w u i name ct s = (r, s')"
  shows "ready rank s' \<and> ks_table s' = ks_table s"
proof -
  obtain r0 k where l: "load_secret w u i s = (r0, s\<lparr>ks_turn := k\<rparr>)"
    using load_secret_opens [OF sound_worldD(1) [OF assms(1)] ready_uncached [OF assms(2)]] by blast
  have "s' = s\<lparr>ks_turn := k\<rparr>" using assms(3) l
    by (auto simp: decrypt_subject_def ks_simps split: sum.splits option.splits)
  then show ?thesis using assms(2) by simp
qed

lemma stored_seal_sound:
  assumes "sound_world w rank" and "declared_chain rank chain" and "chain = (u, i) # rest" and "ready rank s"
    and "stored_seal w api chain name kind v doc s = (Inr ct, s')"
  shows "ready rank s' \<and> keeps_readable w (ks_table s) (ks_table s') \<and>
    ((\<forall>a b c d. peeled v \<noteq> V_Sealed a b c d) \<longrightarrow> sealed_as w s' u i name ct (seal_text api kind doc))"
proof (cases "peeled v")
  case (V_Sealed field subject j content)
  show ?thesis
  proof (cases "field = name \<and> subject = u \<and> j = i")
    case True
    then show ?thesis using assms(3-5) V_Sealed by (simp add: stored_seal_def ret_def)
  next
    case False
    have "\<exists>m. bind_ks (decrypt_subject w subject j field content) (case_option (fails m) (encrypt_subject_in w chain name)) s = (Inr ct, s')"
      using assms(3,5) V_Sealed False by (auto simp: stored_seal_def)
    then obtain p t where d: "decrypt_subject w subject j field content s = (Inr (Some p), t)"
      and e: "encrypt_subject_in w chain name p t = (Inr ct, s')"
      by (fastforce simp: fails_def split: option.splits dest!: bind_ks_InrD)
    have "ready rank t" "ks_table t = ks_table s" using decrypt_keeps [OF assms(1,4) d] by simp_all
    then show ?thesis using encrypt_sound [OF assms(1,2) _ e] V_Sealed by auto
  qed
next
  case (V_Opt x)
  then have "encrypt_subject_in w chain name (seal_text api kind doc) s = (Inr ct, s')"
    using assms(3,5) by (simp add: stored_seal_def)
  from encrypt_sound [OF assms(1,2,4) this] show ?thesis by (simp add: sealed_as_def assms(3))
next
  case (V_Other x)
  then have "encrypt_subject_in w chain name (seal_text api kind doc) s = (Inr ct, s')"
    using assms(3,5) by (simp add: stored_seal_def)
  from encrypt_sound [OF assms(1,2,4) this] show ?thesis by (simp add: sealed_as_def assms(3))
qed


subsection \<open>All fields\<close>

definition seals_declared :: "(string \<Rightarrow> nat) \<Rightarrow> (string \<times> field_meta) list \<Rightarrow> bool" where
  "seals_declared rank fs \<longleftrightarrow>
     (\<forall>f \<in> set fs. \<forall>s. fm_sealed_under (snd f) = Some s \<longrightarrow> sl_chain s \<noteq> [] \<and> declared_chain rank (sl_chain s))"

lemma resolve_nonempty:
  assumes "seal_resolve s ids = Some links" and "sl_chain s \<noteq> []"
  obtains u i rest where "links = (u, i) # rest"
proof -
  have "map fst links = map fst (sl_chain s)" using assms(1) those_map_fst by (simp add: seal_resolve_def)
  then have "links \<noteq> []" using assms(2) by auto
  then obtain x rest where "links = x # rest" by (cases links) auto
  then show ?thesis using that by (cases x) auto
qed

text \<open>What a field of the event asks of the payload: a sealed value under its chain, anything else as it is.\<close>

definition field_written ::
  "key_world \<Rightarrow> 'v hk_api \<Rightarrow> (string, string) fmap \<Rightarrow> 'v hk_event \<Rightarrow> (string \<times> json) list \<Rightarrow> keystore \<Rightarrow> string \<times> field_meta \<Rightarrow> bool" where
  "field_written w api ids event payload s f \<longleftrightarrow>
     (\<forall>v. fmlookup (he_fields event) (fst f) = Some v \<longrightarrow>
        (case fm_sealed_under (snd f) of
           None \<Rightarrow> map_of payload (fst f) = Some (value_json api v)
         | Some sl \<Rightarrow>
             if value_json api v = JNull then map_of payload (fst f) = Some JNull
             else \<exists>u i rest ct. seal_resolve sl (fmlookup ids) = Some ((u, i) # rest) \<and>
               map_of payload (fst f) = Some (JStr ct) \<and>
               ((\<forall>a b c d. peeled v \<noteq> V_Sealed a b c d) \<longrightarrow>
                  sealed_as w s u i (fst f) ct (seal_text api (fm_kind (snd f)) (value_json api v)))))"

lemma field_written_keeps:
  assumes "field_written w api ids event payload s f" and "keeps_readable w (ks_table s) (ks_table s')"
    and "map_of payload' (fst f) = map_of payload (fst f)"
  shows "field_written w api ids event payload' s' f"
  using assms(1) sealed_as_keeps [OF _ assms(2)] unfolding field_written_def assms(3)
  by (auto split: option.splits)

lemma lower_field_written:
  assumes "sound_world w rank" and "seals_declared rank [f]" and "ready rank s"
    and "lower_field w api keystore ty ids event f (payload, tags) s = (Inr (payload', tags'), s')"
  shows "ready rank s' \<and> keeps_readable w (ks_table s) (ks_table s') \<and> field_written w api ids event payload' s' f \<and>
    (\<forall>k. k \<noteq> fst f \<longrightarrow> map_of payload' k = map_of payload k)"
proof -
  obtain name meta where f: "f = (name, meta)" by (cases f)
  show ?thesis
  proof (cases "fmlookup (he_fields event) name")
    case None
    then show ?thesis using assms(3,4) by (simp add: f lower_field_def ret_def field_written_def)
  next
    case (Some v)
    show ?thesis
    proof (cases "fm_sealed_under meta")
      case None
      then show ?thesis using assms(3,4) Some
        by (auto simp: f lower_field_def ret_def field_written_def map_of_map_insert Let_def split: option.splits if_splits)
    next
      case (Some sl)
      note sealed = Some
      show ?thesis
      proof (cases "value_json api v = JNull")
        case True
        then show ?thesis using assms(3,4) sealed \<open>fmlookup (he_fields event) name = Some v\<close>
          by (auto simp: f lower_field_def ret_def field_written_def map_of_map_insert Let_def)
      next
        case False
        obtain chain where chain: "seal_resolve sl (fmlookup ids) = Some chain"
          using assms(4) sealed \<open>fmlookup (he_fields event) name = Some v\<close> False
          by (auto simp: f lower_field_def fails_def Let_def split: if_splits option.splits)
        have ne: "sl_chain sl \<noteq> []" "declared_chain rank (sl_chain sl)"
          using assms(2) sealed by (simp_all add: seals_declared_def f)
        obtain u i rest where c: "chain = (u, i) # rest" by (rule resolve_nonempty [OF chain ne(1)])
        obtain ct where st: "stored_seal w api chain name (fm_kind meta) v (value_json api v) s = (Inr ct, s')"
          and p: "payload' = map_insert name (JStr ct) payload"
          using assms(4) sealed \<open>fmlookup (he_fields event) name = Some v\<close> False chain
          by (auto simp: f lower_field_def fails_def ret_def Let_def split: if_splits dest!: bind_ks_InrD)
        from stored_seal_sound [OF assms(1) resolve_declared [OF chain ne(2)] c assms(3) st]
        show ?thesis
          using sealed \<open>fmlookup (he_fields event) name = Some v\<close> False chain
          by (simp add: f p c field_written_def map_of_map_insert)
      qed
    qed
  qed
qed

lemma lower_fields_written:
  assumes "sound_world w rank"
  shows "seals_declared rank fs \<Longrightarrow> ready rank s \<Longrightarrow> distinct (map fst fs) \<Longrightarrow>
    lower_fields w api keystore ty ids event fs (payload, tags) s = (Inr (payload', tags'), s') \<Longrightarrow>
    ready rank s' \<and> keeps_readable w (ks_table s) (ks_table s') \<and> (\<forall>f \<in> set fs. field_written w api ids event payload' s' f) \<and>
    (\<forall>k. k \<notin> fst ` set fs \<longrightarrow> map_of payload' k = map_of payload k)"
proof (induction fs arbitrary: payload tags s)
  case (Cons f fs)
  obtain p t s1 where f: "lower_field w api keystore ty ids event f (payload, tags) s = (Inr (p, t), s1)"
    and rest: "lower_fields w api keystore ty ids event fs (p, t) s1 = (Inr (payload', tags'), s')"
    using Cons.prems(4) by (fastforce dest!: bind_ks_InrD)
  have F: "ready rank s1" "keeps_readable w (ks_table s) (ks_table s1)" "field_written w api ids event p s1 f"
    "\<forall>k. k \<noteq> fst f \<longrightarrow> map_of p k = map_of payload k"
    using lower_field_written [OF assms _ Cons.prems(2) f] Cons.prems(1) by (simp_all add: seals_declared_def)
  have R: "ready rank s'" "keeps_readable w (ks_table s1) (ks_table s')"
    "\<forall>f \<in> set fs. field_written w api ids event payload' s' f"
    "\<forall>k. k \<notin> fst ` set fs \<longrightarrow> map_of payload' k = map_of p k"
    using Cons.IH [OF _ F(1) _ rest] Cons.prems(1,3) by (simp_all add: seals_declared_def)
  have "map_of payload' (fst f) = map_of p (fst f)" using R(4) Cons.prems(3) by auto
  then have "field_written w api ids event payload' s' f" by (rule field_written_keeps [OF F(3) R(2)])
  then show ?case using R F(4) keeps_readable_trans [OF F(2) R(2)] by auto
qed (simp add: ret_def)


lemma event_seals_declared:
  "parents_ranked rank parents \<Longrightarrow> seals_declared rank (ed_fields (event_def_of ty_subject variants parents def))"
  using seal_chain_declared
  by (fastforce simp: seals_declared_def event_def_of_def seal_chain_def)

lemma lower_written:
  assumes "sound_world w rank" and "ready rank s" and "fmlookup (hc_events cfg) (event_type (he_path event)) = Some def"
    and "seals_declared rank (ed_fields def)" and "distinct (map fst (ed_fields def))"
    and "lower w api io tp cfg event position s = (Inr x, s')"
  shows "\<exists>payload. em_data (snd x) = JObj payload \<and> ready rank s' \<and>
    (\<forall>f \<in> set (ed_fields def). field_written w api (subject_ids api def event) event payload s' f)"
proof -
  obtain payload tags t where
      f: "lower_fields w api (hc_keystore cfg) (event_type (he_path event)) (subject_ids api def event) event
       (ed_fields def) ([], []) s = (Inr (payload, tags), t)"
    and x: "em_data (snd x) = JObj payload" and table: "ks_table s' = ks_table t" "ks_cache s' = ks_cache t"
    using assms(6,3)
    by (force simp: lower_def Let_def lift_def ret_def stamped_def split: stamp.splits sum.splits dest!: bind_ks_InrD)
  from lower_fields_written [OF assms(1,4,2,5) f]
  have "ready rank t" "\<forall>f \<in> set (ed_fields def). field_written w api (subject_ids api def event) event payload t f" by simp_all
  then have "ready rank s'" "\<forall>f \<in> set (ed_fields def). field_written w api (subject_ids api def event) event payload s' f"
    using table field_written_keeps [of w api "subject_ids api def event" event payload t _ s' payload]
    by (simp_all add: ready_def)
  then show ?thesis using x by blast
qed


end
