(* ===== verification/Keystore_Adopt.thy ===== *)
theory Keystore_Adopt
  imports Keystore_Props
begin

section \<open>Erasing a subtree, and moving a key under its parent\<close>

text \<open>
  An erase takes away exactly what hangs from the erased subject; an adoption changes where a secret is
  wrapped and no secret.
\<close>

subsection \<open>Rows and the hierarchy\<close>

lemma get_row:
  assumes "get_subject_key t a x = Some row"
  obtains r where "r \<in> set t" "k_key r = (a, x)" "find_row k_key (a, x) t = Some r"
    "row = \<lparr>wrapped = k_wrapped r, wrapping_of = row_wrapping r\<rparr>"
  using assms find_row_SomeD by (fastforce simp: get_subject_key_def)

lemma parent_child_of: "row_wrapping r = Parent p \<Longrightarrow> child_of r (p_subject p, p_value p)"
  by (auto simp: row_wrapping_def child_of_def split: option.splits)

lemma child_of_parent:
  assumes "check_ok r" and "child_of r k"
  obtains p where "row_wrapping r = Parent p" "(p_subject p, p_value p) = k"
proof -
  obtain f where "k_fingerprint r = Some f" "k_master r = None"
    using assms by (auto simp: check_ok_def child_of_def)
  then show thesis using assms(2) that by (auto simp: row_wrapping_def child_of_def)
qed

lemma below_parent:
  assumes "get_subject_key t a x = Some row" and "wrapping_of row = Parent p"
  shows "((a, x), (p_subject p, p_value p)) \<in> below t"
proof -
  obtain r where "r \<in> set t" "k_key r = (a, x)" "row_wrapping r = Parent p"
    using get_row [OF assms(1)] assms(2) by (metis subject_key.select_convs(2))
  then show ?thesis using parent_child_of unfolding below_def by (intro CollectI exI [of _ r]) auto
qed

lemma get_delete:
  assumes "keys_ok t"
  shows "get_subject_key (snd (delete_subject_key t u v)) a x = (if (a, x) = (u, v) then None else get_subject_key t a x)"
  using find_row_delete [OF keys_okD(1) [OF assms], of "(a, x)" "\<lambda>r. k_key r = (u, v)"]
  by (auto simp: get_subject_key_def delete_subject_key_def split: option.splits dest!: find_row_SomeD)

subsection \<open>Erasing\<close>

lemma erased_below:
  assumes "keys_ok t" and "ranked rank t" and "((a, x), (u, v)) \<in> (below t)\<^sup>*" and "rank a < n"
  shows "opens w (snd (delete_subject_key t u v)) n a x = Inr None"
  using assms(3,4)
proof (induction "(a, x)" arbitrary: a x n rule: converse_rtrancl_induct)
  case base
  then show ?case by (cases n) (simp_all add: get_delete [OF assms(1)])
next
  case (step z)
  obtain n' where n: "n = Suc n'" using step.prems by (cases n) auto
  obtain r where r: "r \<in> set t" "k_key r = (a, x)" "child_of r z" using step.hyps(1) by (auto simp: below_def)
  obtain p where p: "row_wrapping r = Parent p" "(p_subject p, p_value p) = z"
    using child_of_parent [OF keys_okD(2) [OF assms(1) r(1)] r(3)] by blast
  have g: "get_subject_key t a x = Some \<lparr>wrapped = k_wrapped r, wrapping_of = Parent p\<rparr>"
    using find_row_keyed [OF keys_okD(1) [OF assms(1)] r(1)] r(2) p(1) by (simp add: get_subject_key_def)
  have "rank (p_subject p) < rank a" by (rule ranked_parent [OF assms(2) g]) simp
  then have "opens w (snd (delete_subject_key t u v)) n' (p_subject p) (p_value p) = Inr None"
    using step.hyps(3) [of "p_subject p" "p_value p" n'] p(2) step.prems n by simp
  then show ?case using g by (simp add: n get_delete [OF assms(1)] opens_row_def)
qed

lemma kept_beside:
  assumes "keys_ok t"
  shows "((a, x), (u, v)) \<notin> (below t)\<^sup>* \<Longrightarrow> opens w (snd (delete_subject_key t u v)) n a x = opens w t n a x"
proof (induction n arbitrary: a x)
  case (Suc n)
  have ne: "(a, x) \<noteq> (u, v)" using Suc.prems by auto
  show ?case
  proof (cases "get_subject_key t a x")
    case (Some row)
    have "opens_row w (opens w (snd (delete_subject_key t u v)) n) a x row = opens_row w (opens w t n) a x row"
    proof (cases "wrapping_of row")
      case (Parent p)
      have "((p_subject p, p_value p), (u, v)) \<notin> (below t)\<^sup>*"
        using below_parent [OF Some Parent] Suc.prems by (meson converse_rtrancl_into_rtrancl)
      from Suc.IH [OF this] show ?thesis by (simp add: opens_row_def Parent)
    qed (simp_all add: opens_row_def)
    then show ?thesis using Some ne by (auto simp: get_delete [OF assms])
  qed (use ne in \<open>simp add: get_delete [OF assms]\<close>)
qed simp

lemma decrypt_opens:
  assumes "undisturbed w" and "ks_cache s = None"
  shows "fst (decrypt_subject w a x field ct s) =
    bind_res (opens w (ks_table s) (MAX_SUBJECT_DEPTH + 1) a x)
      (\<lambda>found. Inr (case found of None \<Rightarrow> None | Some sec \<Rightarrow> plaintext_under (kw_cipher w) sec field ct))"
proof -
  obtain k where "load_secret w a x s = (opens w (ks_table s) (MAX_SUBJECT_DEPTH + 1) a x, s\<lparr>ks_turn := k\<rparr>)"
    using load_secret_opens [OF assms] by blast
  then show ?thesis
    by (cases "opens w (ks_table s) (MAX_SUBJECT_DEPTH + 1) a x")
      (simp_all add: decrypt_subject_def ks_simps del: opens.simps split: option.splits)
qed

text \<open>
  C23: erasing shreds the subtree and nothing else.  After an erase every subject at or below the erased
  one decrypts to nothing, whatever ciphertext and field are tried, and every other subject decrypts as
  before; the secret behind the tags of global uniqueness cannot be erased at all.
\<close>

theorem erase_shreds_subtree:
  assumes "sound_world w rank" and "ready rank s" and "u \<noteq> GLOBAL_SUBJECT"
  shows "(((a, x), (u, v)) \<in> (below (ks_table s))\<^sup>* \<longrightarrow>
      fst (decrypt_subject w a x field ct (snd (erase_subject w u v s))) = Inr None) \<and>
    (((a, x), (u, v)) \<notin> (below (ks_table s))\<^sup>* \<longrightarrow>
      fst (decrypt_subject w a x field ct (snd (erase_subject w u v s))) = fst (decrypt_subject w a x field ct s)) \<and>
    ready rank (snd (erase_subject w u v s)) \<and>
    erase_subject w GLOBAL_SUBJECT v s = (Inl ''the global uniqueness secret cannot be erased'', s)"
proof -
  note W = sound_worldD(1,4) [OF assms(1)]
  let ?t = "snd (delete_subject_key (ks_table s) u v)" and ?s = "snd (erase_subject w u v s)"
  have ok: "keys_ok (ks_table s)" "ranked rank (ks_table s)" "ks_cache s = None" using assms(2) by (simp_all add: ready_def)
  have s: "ks_table ?s = ?t" "ks_cache ?s = None"
    using ok(3) assms(3) by (simp_all add: erase_subject_def locked_undisturbed [OF W(1)] case_prod_unfold)
  have "keys_ok ?t" using keys_ok_apply [OF ok(1), of "Erase u v"] by simp
  moreover have "ranked rank ?t" using ok(2) by (auto simp: ranked_def delete_subject_key_def delete_where_def)
  moreover have "rank a < MAX_SUBJECT_DEPTH + 1" using W(2) [of a] by simp
  ultimately show ?thesis
    using s erased_below [OF ok(1,2) _ \<open>rank a < MAX_SUBJECT_DEPTH + 1\<close>] kept_beside [OF ok(1)]
    by (simp add: decrypt_opens [OF W(1) s(2)] decrypt_opens [OF W(1) ok(3)] ready_def
        erase_subject_def [of w GLOBAL_SUBJECT] fails_def del: opens.simps)
qed

subsection \<open>Adopting\<close>

lemma adopt_row:
  assumes "keys_ok t" and "get_subject_key t u v = Some row"
  defines "upd b p \<equiv> \<lparr>a_subject = u, a_value = v, a_wrapped = b, a_parent = p, a_expected = wrapped row\<rparr>"
  shows "fst (adopt_subject_key t (upd b p))"
    and "keys_ok (snd (adopt_subject_key t (upd b p)))"
    and "get_subject_key (snd (adopt_subject_key t (upd b p))) a x =
      (if (a, x) = (u, v) then Some \<lparr>wrapped = b, wrapping_of = Parent p\<rparr> else get_subject_key t a x)"
    and "ranked rank t \<Longrightarrow> rank (p_subject p) < rank u \<Longrightarrow> ranked rank (snd (adopt_subject_key t (upd b p)))"
proof -
  obtain r where r: "r \<in> set t" "k_key r = (u, v)" "find_row k_key (u, v) t = Some r" "k_wrapped r = wrapped row"
    using get_row [OF assms(2)] by (metis subject_key.select_convs(1))
  let ?P = "\<lambda>r. k_key r = (u, v) \<and> k_wrapped r = wrapped row"
  have "filter ?P t \<noteq> []" using r(1,2,4) by (auto simp: filter_empty_conv)
  then show "fst (adopt_subject_key t (upd b p))" by (simp add: adopt_subject_key_def upd_def Let_def count_where_def)
  show "keys_ok (snd (adopt_subject_key t (upd b p)))"
    using keys_ok_apply [OF assms(1), of "Adopt (upd b p)"] by simp
  show "get_subject_key (snd (adopt_subject_key t (upd b p))) a x =
      (if (a, x) = (u, v) then Some \<lparr>wrapped = b, wrapping_of = Parent p\<rparr> else get_subject_key t a x)"
    using r(3,4) find_row_SomeD [of k_key "(a, x)" t]
    by (cases "find_row k_key (a, x) t")
      (auto simp: get_subject_key_def adopt_subject_key_def upd_def Let_def find_row_update row_wrapping_def)
  show "ranked rank (snd (adopt_subject_key t (upd b p)))" if "ranked rank t" "rank (p_subject p) < rank u"
    using that by (auto simp: ranked_def adopt_subject_key_def upd_def Let_def update_where_def k_key_def)
qed

text \<open>A row rewrapped around the secret it held leaves every secret what it was.\<close>

lemma rewrapped_opens:
  assumes "ranked rank t'" and "\<And>s. rank s \<le> MAX_SUBJECT_DEPTH"
    and "\<And>a x. (a, x) \<noteq> (u, v) \<Longrightarrow> get_subject_key t' a x = get_subject_key t a x"
    and "\<And>n sec. opens w t n u v = Inr (Some sec) \<Longrightarrow> opens w t' (MAX_SUBJECT_DEPTH + 1) u v = Inr (Some sec)"
  shows "opens w t n a x = Inr (Some sec) \<Longrightarrow> opens w t' (MAX_SUBJECT_DEPTH + 1) a x = Inr (Some sec)"
proof (induction n arbitrary: a x sec)
  case (Suc n)
  show ?case
  proof (cases "(a, x) = (u, v)")
    case True
    then show ?thesis using assms(4) Suc.prems by blast
  next
    case False
    then obtain row where row: "get_subject_key t a x = Some row" "get_subject_key t' a x = Some row"
      "opens_row w (opens w t n) a x row = Inr (Some sec)"
      using Suc.prems assms(3) by (auto split: option.splits)
    have "opens_row w (opens w t' MAX_SUBJECT_DEPTH) a x row = Inr (Some sec)"
    proof (cases "wrapping_of row")
      case (Parent p)
      from opens_parent [OF row(3) this] obtain parent
        where par: "opens w t n (p_subject p) (p_value p) = Inr (Some parent)" .
      have "rank (p_subject p) < MAX_SUBJECT_DEPTH"
        using ranked_parent [OF assms(1) row(2) Parent] assms(2) [of a] by simp
      then have "opens w t' MAX_SUBJECT_DEPTH (p_subject p) (p_value p) = Inr (Some parent)"
        using Suc.IH [OF par] opens_depth [OF assms(1), of "p_subject p" MAX_SUBJECT_DEPTH "MAX_SUBJECT_DEPTH + 1"] by simp
      then show ?thesis using row(3) par by (simp add: opens_row_def Parent)
    qed (use row(3) in \<open>simp_all add: opens_row_def\<close>)
    then show ?thesis using row(2) by simp
  qed
qed simp

definition adopts_well :: "key_world \<Rightarrow> (string \<Rightarrow> nat) \<Rightarrow> string \<Rightarrow> string \<Rightarrow> keystore \<Rightarrow> (string + adopted) \<times> keystore \<Rightarrow> bool" where
  "adopts_well w rank u v s rs \<longleftrightarrow>
     ready rank (snd rs) \<and> fst rs \<noteq> Inr Undone \<and>
     (\<forall>n a x sec. opens w (ks_table s) n a x = Inr (Some sec) \<longrightarrow>
        opens w (ks_table (snd rs)) (MAX_SUBJECT_DEPTH + 1) a x = Inr (Some sec))"

lemma adopts_keeps:
  assumes "ready rank s'" and "keeps_readable w (ks_table s) (ks_table s')" and "r \<noteq> Inr Undone"
    and "\<And>s. rank s \<le> MAX_SUBJECT_DEPTH"
  shows "adopts_well w rank u v s (r, s')"
proof -
  have "opens w (ks_table s') (MAX_SUBJECT_DEPTH + 1) a x = Inr (Some sec)" if "opens w (ks_table s) n a x = Inr (Some sec)" for n a x sec
  proof -
    have "opens w (ks_table s') n a x = Inr (Some sec)" by (rule opens_keeps [OF assms(2) that])
    then have "opens w (ks_table s') (max n (MAX_SUBJECT_DEPTH + 1)) a x = Inr (Some sec)" by (rule opens_mono) simp
    moreover have "opens w (ks_table s') (max n (MAX_SUBJECT_DEPTH + 1)) a x = opens w (ks_table s') (MAX_SUBJECT_DEPTH + 1) a x"
      using assms(1) assms(4) [of a] by (intro opens_depth [where rank = rank]) (simp_all add: ready_def)
    ultimately show ?thesis by simp
  qed
  then show ?thesis using assms(1,3) by (simp add: adopts_well_def del: opens.simps)
qed

text \<open>The write, from the state the parent was minted in.\<close>

lemma adopt_write_moves:
  assumes "sound_world w rank" and "ready rank s" and "rank pu < rank u" and "get_subject_key (ks_table s) u v = Some row"
    and "opens w (ks_table s) (MAX_SUBJECT_DEPTH + 1) pu pv = Inr (Some parent)"
    and "opens w (ks_table s) (MAX_SUBJECT_DEPTH + 1) u v = Inr (Some secret)"
    and "wrap_key_under w (child_kek (kw_cipher w) parent) secret (child_aad u v pu pv) s = (Inr b, s')"
  shows "\<exists>s''. adopt_write w u v \<lparr>p_subject = pu, p_value = pv, p_fingerprint = parent_fingerprint (kw_cipher w) parent\<rparr>
      (wrapped row) secret b s' = (Inr Moved, s'') \<and>
    adopts_well w rank u v s (Inr Moved, s'') \<and> ((u, v), (pu, pv)) \<in> below (ks_table s'')"
proof -
  note W = sound_worldD [OF assms(1)]
  have s': "ks_table s' = ks_table s" "ready rank s'" using wrap_table [OF assms(7)] assms(2) by (simp_all add: ready_def)
  have ok: "keys_ok (ks_table s)" "ranked rank (ks_table s)" using assms(2) by (simp_all add: ready_def)
  let ?p = "\<lparr>p_subject = pu, p_value = pv, p_fingerprint = parent_fingerprint (kw_cipher w) parent\<rparr>"
  let ?upd = "\<lparr>a_subject = u, a_value = v, a_wrapped = b, a_parent = ?p, a_expected = wrapped row\<rparr>"
  note A = adopt_row [OF ok(1) assms(4), where b = b and p = ?p]
  define s4 where "s4 = s'\<lparr>ks_turn := ks_turn s' + 1, ks_table := snd (adopt_subject_key (ks_table s) ?upd)\<rparr>"
  have swap: "locked w (\<lambda>t. adopt_subject_key t ?upd) s' = (Inr True, s4)"
    using A(1) by (simp add: locked_undisturbed [OF W(1)] s'(1) s4_def case_prod_unfold)
  have T4: "get_subject_key (ks_table s4) a x =
      (if (a, x) = (u, v) then Some \<lparr>wrapped = b, wrapping_of = Parent ?p\<rparr> else get_subject_key (ks_table s) a x)" for a x
    using A(3) by (simp add: s4_def)
  have ready4: "ready rank s4" using A(2,4) ok(2) assms(3) s'(2) by (simp add: s4_def ready_def)
  have rk4: "ranked rank (ks_table s4)" using ready4 by (simp add: ready_def)
  have "opens w (ks_table s4) MAX_SUBJECT_DEPTH pu pv = opens w (ks_table s) MAX_SUBJECT_DEPTH pu pv"
    by (rule opens_below [OF ok(2) _ assms(3)]) (use T4 in auto)
  also have "\<dots> = opens w (ks_table s) (MAX_SUBJECT_DEPTH + 1) pu pv"
    using assms(3) W(4) [of u] by (intro opens_depth [OF ok(2)]) simp_all
  finally have here: "opens w (ks_table s4) (MAX_SUBJECT_DEPTH + 1) u v = Inr (Some secret)"
    using wrap_then_unwrap(1) [OF W(2) assms(7)] assms(5) T4 [of u v] by (simp add: opens_row_def)
  obtain k where L: "load_secret w u v s4 = (Inr (Some secret), s4\<lparr>ks_turn := k\<rparr>)"
    using load_secret_opens [OF W(1), of s4 u v] ready4 here by (auto simp: ready_def)
  have "opens w (ks_table s4) (MAX_SUBJECT_DEPTH + 1) a x = Inr (Some z)" if "opens w (ks_table s) n a x = Inr (Some z)" for n a x z
  proof (rule rewrapped_opens [OF rk4 W(4) _ _ that])
    show "get_subject_key (ks_table s4) c y = get_subject_key (ks_table s) c y" if "(c, y) \<noteq> (u, v)" for c y
      using that T4 [of c y] by auto
    show "opens w (ks_table s4) (MAX_SUBJECT_DEPTH + 1) u v = Inr (Some q)" if "opens w (ks_table s) m u v = Inr (Some q)" for m q
      using here opens_unique [OF that assms(6)] by simp
  qed
  then have "adopts_well w rank u v s (Inr Moved, s4\<lparr>ks_turn := k\<rparr>)" using ready4 by (simp add: adopts_well_def del: opens.simps)
  moreover have "((u, v), (pu, pv)) \<in> below (ks_table s4)"
    using below_parent [of "ks_table s4" u v] T4 [of u v] by fastforce
  ultimately show ?thesis using swap L by (simp add: adopt_write_def bind_ks_def ret_def)
qed

definition adoptable :: "key_world \<Rightarrow> key_table \<Rightarrow> string \<Rightarrow> string \<Rightarrow> (string \<times> string) list \<Rightarrow> bool" where
  "adoptable w t u v parents \<longleftrightarrow> able w t parents \<and>
     (\<exists>row i. get_subject_key t u v = Some row \<and> wrapping_of row = Master i) \<and>
     (\<exists>sec. opens w t (MAX_SUBJECT_DEPTH + 1) u v = Inr (Some sec))"

text \<open>
  C24: an adoption moves a key and keeps every secret.  On a store nobody else is changing, adopting a
  subject under its declared chain leaves every readable secret what it was, the adopted one and those
  wrapped under it included, is never taken back, and when it answers \<open>Moved\<close> the row hangs from the
  declared parent and still opens to the secret the root held.  It does answer \<open>Moved\<close> when the row is a
  root that opens, the system has entropy and no key above refuses to open.
\<close>

theorem adoption_keeps_secrets:
  assumes "sound_world w rank" and "ready rank s" and "declared_chain rank ((u, v) # (pu, pv) # rest)"
  shows "ready rank (snd (adopt_in w ((u, v) # (pu, pv) # rest) s)) \<and>
    fst (adopt_in w ((u, v) # (pu, pv) # rest) s) \<noteq> Inr Undone \<and>
    (opens w (ks_table s) n a x = Inr (Some sec) \<longrightarrow>
       opens w (ks_table (snd (adopt_in w ((u, v) # (pu, pv) # rest) s))) (MAX_SUBJECT_DEPTH + 1) a x = Inr (Some sec)) \<and>
    (fst (adopt_in w ((u, v) # (pu, pv) # rest) s) = Inr Moved \<longrightarrow>
       ((u, v), (pu, pv)) \<in> below (ks_table (snd (adopt_in w ((u, v) # (pu, pv) # rest) s))) \<and>
       (\<exists>sec. opens w (ks_table s) (MAX_SUBJECT_DEPTH + 1) u v = Inr (Some sec))) \<and>
    (adoptable w (ks_table s) u v ((pu, pv) # rest) \<longrightarrow>
       fst (adopt_in w ((u, v) # (pu, pv) # rest) s) = Inr Moved)"
proof -
  note W = sound_worldD [OF assms(1)]
  let ?chain = "(pu, pv) # rest" and ?run = "adopt_in w ((u, v) # (pu, pv) # rest) s" and ?T = "ks_table s"
  have goal: ?thesis if "adopts_well w rank u v s ?run"
    and "fst ?run = Inr Moved \<longrightarrow> ((u, v), (pu, pv)) \<in> below (ks_table (snd ?run)) \<and>
       (\<exists>sec. opens w ?T (MAX_SUBJECT_DEPTH + 1) u v = Inr (Some sec))"
    and "\<not> adoptable w ?T u v ?chain \<or> fst ?run = Inr Moved"
    using that by (auto simp: adopts_well_def simp del: opens.simps)
  have stays: ?thesis if "?run = (r, s')" "ready rank s'" "keeps_readable w ?T (ks_table s')" "r \<noteq> Inr Undone" "r \<noteq> Inr Moved" "\<not> adoptable w ?T u v ?chain" for r s'
    using that adopts_keeps [OF that(2-4) W(4)] by (intro goal) simp_all
  define s1 where "s1 = s\<lparr>ks_turn := Suc (ks_turn s)\<rparr>"
  have s1: "ready rank s1" "ks_table s1 = ?T" using assms(2) by (simp_all add: s1_def)
  note step = adopt_in_def bind_ks_def locked_read_undisturbed [OF W(1)] s1_def [symmetric] ret_def lift_def
  show ?thesis
  proof (cases "get_subject_key ?T u v")
    case None
    then show ?thesis using s1 by (intro stays [of "Inr Settled" s1]) (simp_all add: step adoptable_def)
  next
    case (Some row)
    show ?thesis
    proof (cases "wrapping_of row")
      case (Master i)
      let ?sec = "bind_res (master_for w i u) (\<lambda>master. unwrap_key (kw_cipher w) master (wrapped row))"
      show ?thesis
      proof (cases ?sec)
        case (Inl e)
        then have "opens w ?T (MAX_SUBJECT_DEPTH + 1) u v = Inl e"
          using Some Master by (cases "master_for w i u") (auto simp: opens_row_def)
        then show ?thesis using Inl s1 Some Master
          by (intro stays [of "Inl e" s1]) (simp_all add: step adoptable_def del: opens.simps)
      next
        case sec: (Inr secret)
        have opened: "opens w ?T (Suc n) u v = Inr (Some secret)" for n
          using sec Some Master by (auto simp: opens_row_def bind_res_Inr_iff)
        obtain r2 s2 where m: "mint_secret_in w ?chain s1 = (r2, s2)" by (metis prod.collapse)
        have M: "minted w rank ?chain s1 (r2, s2)"
          using mint_secret_sound [OF assms(1) _ s1(1), of ?chain] assms(3) by (simp add: m declared_chain_def)
        have s2: "ready rank s2" "keeps_readable w ?T (ks_table s2)" using M s1(2) by (simp_all add: minted_def)
        show ?thesis
        proof (cases "\<exists>parent. r2 = Inr (Some parent)")
          case False
          then have "(\<exists>e. r2 = Inl e) \<or> r2 = Inr None" by (metis obj_sumE option.exhaust)
          then have "\<exists>r. ?run = (r, s2) \<and> r \<noteq> Inr Undone \<and> r \<noteq> Inr Moved"
            using Some Master sec m by (auto simp: step)
          moreover have "\<not> adoptable w ?T u v ?chain"
          proof
            assume "adoptable w ?T u v ?chain"
            then have "able w (ks_table s1) ?chain" "?chain \<noteq> []" using s1(2) by (simp_all add: adoptable_def)
            then obtain sec s' where "mint_secret_in w ?chain s1 = (Inr (Some sec), s')"
              using mint_secret_answers [OF assms(1) _ s1(1), of ?chain] assms(3)
              by (auto simp: declared_chain_def simp del: opens.simps)
            then show False using m False by simp
          qed
          ultimately show ?thesis using stays s2 by blast
        next
          case True
          then obtain parent where r2: "r2 = Inr (Some parent)" by blast
          obtain r3 s3 where wr: "wrap_key_under w (child_kek (kw_cipher w) parent) secret (child_aad u v pu pv) s2 = (r3, s3)"
            by (metis prod.collapse)
          have s3: "ks_table s3 = ks_table s2" "ready rank s3" using wrap_table [OF wr] s2(1) by (simp_all add: ready_def)
          show ?thesis
          proof (cases r3)
            case (Inl e)
            moreover have "\<not> adoptable w ?T u v ?chain"
              using wrap_answers [of w "child_kek (kw_cipher w) parent" secret "child_aad u v pu pv" s2] wr Inl
              by (auto simp: adoptable_def able_def)
            ultimately show ?thesis using Some Master sec m r2 wr s3 s2(2) by (intro stays [of "Inl e" s3]) (simp_all add: step)
          next
            case b: (Inr b)
            have "rank pu < rank u" and "(u, v) \<notin> set ?chain" using assms(3) by (force simp: declared_chain_def)+
            moreover from this have "get_subject_key (ks_table s2) u v = Some row" using M Some s1(2) by (simp add: minted_def)
            moreover have "opens w (ks_table s2) (MAX_SUBJECT_DEPTH + 1) u v = Inr (Some secret)"
              using opens_keeps [OF s2(2) opened [of MAX_SUBJECT_DEPTH]] by (simp del: opens.simps)
            ultimately obtain s4 where R: "adopt_write w u v
                \<lparr>p_subject = pu, p_value = pv, p_fingerprint = parent_fingerprint (kw_cipher w) parent\<rparr>
                (wrapped row) secret b s3 = (Inr Moved, s4)" and A: "adopts_well w rank u v s2 (Inr Moved, s4)"
              and B: "((u, v), (pu, pv)) \<in> below (ks_table s4)"
              using adopt_write_moves [OF assms(1) s2(1) _ _ _ _ wr [unfolded b], of row] M r2
              by (auto simp: minted_def simp del: opens.simps)
            have "adopts_well w rank u v s (Inr Moved, s4)"
              using A opens_keeps [OF s2(2)] unfolding adopts_well_def by (simp del: opens.simps) blast
            moreover have "?run = (Inr Moved, s4)" using Some Master sec m r2 wr b R by (simp add: step)
            ultimately show ?thesis using B opened [of MAX_SUBJECT_DEPTH] by (intro goal) (auto simp del: opens.simps)
          qed
        qed
      qed
    qed (use s1 Some in \<open>intro stays [of "Inr Settled" s1]; simp add: step adoptable_def\<close>)+
  qed
qed

end
