(* ===== verification/Keystore_Rotate.thy ===== *)
theory Keystore_Rotate
  imports Keystore_Adopt
begin

section \<open>Rotating the master key\<close>

text \<open>A rotation rewraps every row that is not under the primary master, and changes no answer.\<close>

definition row_opens :: "key_world \<Rightarrow> subject_key \<Rightarrow> bytes \<Rightarrow> bool" where
  "row_opens w row sec \<longleftrightarrow>
     (\<exists>i mk. wrapping_of row = Master i \<and> fmlookup (m_keys (kw_masters w)) i = Some mk \<and>
        unwrap_key (kw_cipher w) mk (wrapped row) = Inr sec)"

definition same_secrets :: "key_world \<Rightarrow> key_table \<Rightarrow> key_table \<Rightarrow> bool" where
  "same_secrets w t t' \<longleftrightarrow>
     (\<forall>a x. rel_option (\<lambda>row row'. row = row' \<or> (\<exists>sec. row_opens w row sec \<and> row_opens w row' sec))
        (get_subject_key t a x) (get_subject_key t' a x))"

lemma same_secrets_refl [simp]: "same_secrets w t t"
  by (simp add: same_secrets_def option.rel_refl)

lemma row_opens_unique: "row_opens w row a \<Longrightarrow> row_opens w row b \<Longrightarrow> a = b"
  by (auto simp: row_opens_def)

lemma same_secrets_trans:
  assumes "same_secrets w t t'" and "same_secrets w t' t''"
  shows "same_secrets w t t''"
  unfolding same_secrets_def
proof (intro allI)
  fix a x
  show "rel_option (\<lambda>row row'. row = row' \<or> (\<exists>sec. row_opens w row sec \<and> row_opens w row' sec))
      (get_subject_key t a x) (get_subject_key t'' a x)"
    using assms [unfolded same_secrets_def, rule_format, of a x] row_opens_unique
    by (cases "get_subject_key t a x"; cases "get_subject_key t' a x"; cases "get_subject_key t'' a x") (auto, metis+)
qed

lemma row_opens_answer: "row_opens w row sec \<Longrightarrow> opens_row w load u v row = Inr (Some sec)"
  by (auto simp: row_opens_def opens_row_def master_for_def)

lemma same_secrets_opens: "same_secrets w t t' \<Longrightarrow> opens w t' n a x = opens w t n a x"
proof (induction n arbitrary: a x)
  case (Suc n)
  have "opens w t' n = opens w t n" using Suc by blast
  then show ?case
    using Suc.prems [unfolded same_secrets_def, rule_format, of a x] row_opens_answer
    by (cases "get_subject_key t a x"; cases "get_subject_key t' a x") auto
qed simp

subsection \<open>The updates\<close>

abbreviation update_key :: "rewrap_update \<Rightarrow> string \<times> string" where
  "update_key u \<equiv> (fst u, fst (snd u))"

fun update_for :: "key_world \<Rightarrow> key_table \<Rightarrow> rewrap_update \<Rightarrow> bool" where
  "update_for w t (field, v, b, new, old) \<longleftrightarrow>
     new = primary_id (kw_masters w) \<and>
     (\<exists>row sec. get_subject_key t field v = Some row \<and> wrapping_of row = Master old \<and> row_opens w row sec \<and>
        row_opens w \<lparr>wrapped = b, wrapping_of = Master new\<rparr> sec)"

lemma master_row: "k_master r = Some e \<longleftrightarrow> row_wrapping r = Master e"
  by (auto simp: row_wrapping_def split: option.splits)

lemma rewrap_one_get:
  "get_subject_key (snd (rewrap_one (s, v, b, m, e) (n, t))) a x =
    map_option (\<lambda>row. if (a, x) = (s, v) \<and> wrapping_of row = Master e then \<lparr>wrapped = b, wrapping_of = Master m\<rparr> else row)
      (get_subject_key t a x)"
  using find_row_SomeD [of k_key "(a, x)" t]
  by (cases "find_row k_key (a, x) t")
    (auto simp: rewrap_one_def Let_def get_subject_key_def find_row_update master_row row_wrapping_def)

lemma rewrap_all:
  "distinct (map update_key us) \<Longrightarrow> \<forall>u \<in> set us. update_for w t u \<Longrightarrow>
    same_secrets w t (snd (fold rewrap_one us (n, t))) \<and>
    (\<forall>a x. (a, x) \<notin> update_key ` set us \<longrightarrow> get_subject_key (snd (fold rewrap_one us (n, t))) a x = get_subject_key t a x) \<and>
    (\<forall>a x. (a, x) \<in> update_key ` set us \<longrightarrow>
       map_option wrapping_of (get_subject_key (snd (fold rewrap_one us (n, t))) a x) = Some (Master (primary_id (kw_masters w))))"
proof (induction us arbitrary: n t)
  case (Cons u us)
  obtain s v b m e where u: "u = (s, v, b, m, e)" by (cases u) auto
  obtain n' t' where r: "rewrap_one u (n, t) = (n', t')" by (metis prod.collapse)
  have G: "get_subject_key t' a x = map_option (\<lambda>row. if (a, x) = (s, v) \<and> wrapping_of row = Master e
      then \<lparr>wrapped = b, wrapping_of = Master m\<rparr> else row) (get_subject_key t a x)" for a x
    using rewrap_one_get [of s v b m e n t a x] r u by simp
  obtain row sec where row: "m = primary_id (kw_masters w)" "get_subject_key t s v = Some row" "wrapping_of row = Master e"
    "row_opens w row sec" "row_opens w \<lparr>wrapped = b, wrapping_of = Master m\<rparr> sec"
    using Cons.prems(2) u by auto
  have same: "same_secrets w t t'"
    unfolding same_secrets_def
  proof (intro allI)
    fix a x
    show "rel_option (\<lambda>row row'. row = row' \<or> (\<exists>sec. row_opens w row sec \<and> row_opens w row' sec))
        (get_subject_key t a x) (get_subject_key t' a x)"
      using row by (cases "get_subject_key t a x") (auto simp: G)
  qed
  have "\<forall>u' \<in> set us. update_for w t' u'"
  proof
    fix u' assume u': "u' \<in> set us"
    obtain s' v' b' m' e' where q: "u' = (s', v', b', m', e')" by (cases u') auto
    have "(s', v') \<noteq> (s, v)" using Cons.prems(1) u' by (force simp: u q)
    then have "get_subject_key t' s' v' = get_subject_key t s' v'" by (auto simp: G option.map_ident)
    moreover have "update_for w t u'" using Cons.prems(2) u' by simp
    ultimately show "update_for w t' u'" by (auto simp: q)
  qed
  from Cons.IH [OF _ this, of n'] Cons.prems(1)
  have IH: "same_secrets w t' (snd (fold rewrap_one us (n', t')))"
    "\<And>a x. (a, x) \<notin> update_key ` set us \<Longrightarrow> get_subject_key (snd (fold rewrap_one us (n', t'))) a x = get_subject_key t' a x"
    "\<And>a x. (a, x) \<in> update_key ` set us \<Longrightarrow>
       map_option wrapping_of (get_subject_key (snd (fold rewrap_one us (n', t'))) a x) = Some (Master (primary_id (kw_masters w)))"
    by simp_all
  have "get_subject_key (snd (fold rewrap_one us (n', t'))) a x = get_subject_key t a x"
    if "(a, x) \<notin> update_key ` set (u # us)" for a x
    using that IH(2) [of a x] by (auto simp: u G option.map_ident)
  moreover have "map_option wrapping_of (get_subject_key (snd (fold rewrap_one us (n', t'))) s v) = Some (Master (primary_id (kw_masters w)))"
    using IH(2,3) [of s v] row by (cases "(s, v) \<in> update_key ` set us") (simp_all add: G)
  ultimately show ?case using same_secrets_trans [OF same IH(1)] IH(3) r u by auto
qed simp

lemma all_subject_keys_mem:
  "(f, v, b, m) \<in> set (all_subject_keys t) \<longleftrightarrow>
    (\<exists>r \<in> set t. k_key r = (f, v) \<and> k_wrapped r = b \<and> row_wrapping r = Master m)"
proof -
  have "(f, v, b, m) \<in> set (all_subject_keys t) \<longleftrightarrow> (\<exists>r \<in> set t. k_key r = (f, v) \<and> k_wrapped r = b \<and> k_master r = Some m)"
    by (induction t) (auto simp: all_subject_keys_def map_filter_simps k_key_def split: option.splits)
  then show ?thesis by (simp add: master_row)
qed

lemma all_subject_keys_row:
  assumes "keys_ok t"
  shows "(f, v, b, m) \<in> set (all_subject_keys t) \<longleftrightarrow> get_subject_key t f v = Some \<lparr>wrapped = b, wrapping_of = Master m\<rparr>"
  using find_row_keyed [OF keys_okD(1) [OF assms]] find_row_SomeD [of k_key "(f, v)" t]
  unfolding all_subject_keys_mem get_subject_key_def by fastforce

lemma distinct_keys_of:
  assumes "keys_ok t"
  shows "distinct (map (\<lambda>(f, v, b, m). (f, v)) (all_subject_keys t))"
proof -
  have "map (\<lambda>(f, v, b, m). (f, v)) (all_subject_keys t) = map k_key (filter (\<lambda>r. k_master r \<noteq> None) t)"
    by (induction t) (auto simp: all_subject_keys_def List.map_filter_def k_key_def)
  then show ?thesis using keyed_filter [OF keys_okD(1) [OF assms]] by (simp add: keyed_def)
qed

lemma rewraps_updates:
  assumes "cipher_ok (kw_cipher w)" and "masters_ok (kw_masters w)"
  shows "rewraps w rows s = (r, s') \<Longrightarrow>
    ks_table s' = ks_table s \<and> ks_cache s' = ks_cache s \<and>
    (\<forall>us. r = Inr us \<longrightarrow>
      map update_key us = map (\<lambda>(f, v, b, m). (f, v)) (filter (\<lambda>(f, v, b, m). m \<noteq> primary_id (kw_masters w)) rows) \<and>
      (\<forall>u \<in> set us. \<exists>f v b b' m sec. u = (f, v, b', primary_id (kw_masters w), m) \<and> (f, v, b, m) \<in> set rows \<and>
         row_opens w \<lparr>wrapped = b, wrapping_of = Master m\<rparr> sec \<and>
         row_opens w \<lparr>wrapped = b', wrapping_of = Master (primary_id (kw_masters w))\<rparr> sec))"
proof (induction rows arbitrary: s r s')
  case Nil
  then show ?case by (auto simp: ret_def)
next
  case (Cons row rows)
  obtain f v b m where row: "row = (f, v, b, m)" by (cases row) auto
  show ?case
  proof (cases "m = primary_id (kw_masters w)")
    case True
    then have "rewraps w rows s = (r, s')" using Cons.prems row by simp
    from Cons.IH [OF this] show ?thesis using True row by fastforce
  next
    case False
    show ?thesis
    proof (cases "fmlookup (m_keys (kw_masters w)) m")
      case None
      then show ?thesis using Cons.prems False row by (auto simp: ks_simps)
    next
      case mk: (Some mk)
      show ?thesis
      proof (cases "unwrap_key (kw_cipher w) mk b")
        case (Inl e)
        then show ?thesis using Cons.prems False row mk by (auto simp: ks_simps)
      next
        case sec: (Inr sec)
        obtain r1 s1 where wr: "wrap_key w (primary_key (kw_masters w)) sec s = (r1, s1)" by (metis prod.collapse)
        have T: "ks_table s1 = ks_table s" "ks_cache s1 = ks_cache s" using wrap_table [OF wr [unfolded wrap_key_def]] by simp_all
        show ?thesis
        proof (cases r1)
          case (Inl e)
          then show ?thesis using Cons.prems False row mk sec wr T by (auto simp: ks_simps)
        next
          case (Inr b')
          obtain r2 s2 where rest: "rewraps w rows s1 = (r2, s2)" by (metis prod.collapse)
          note IH = Cons.IH [OF rest]
          have out: "s' = s2" "r = map_sum id ((#) (f, v, b', primary_id (kw_masters w), m)) r2"
            using Cons.prems False row mk sec wr Inr rest by (auto simp: ks_simps split: sum.splits)
          have o1: "row_opens w \<lparr>wrapped = b, wrapping_of = Master m\<rparr> sec" using mk sec by (simp add: row_opens_def)
          have "unwrap_key (kw_cipher w) (primary_key (kw_masters w)) b' = Inr sec"
            using wrap_then_unwrap(1) [OF assms(1) wr [unfolded Inr wrap_key_def]] by (simp add: unwrap_key_def)
          then have o2: "row_opens w \<lparr>wrapped = b', wrapping_of = Master (primary_id (kw_masters w))\<rparr> sec"
            using assms(2) by (auto simp: row_opens_def masters_ok_def primary_key_def)
          show ?thesis
          proof (cases r2)
            case (Inl e)
            then show ?thesis using IH out T by simp
          next
            case (Inr us)
            then show ?thesis using IH out T o1 o2 False row by fastforce
          qed
        qed
      qed
    qed
  qed
qed

lemma rotated_table:
  assumes "undisturbed w" and "cipher_ok (kw_cipher w)" and "masters_ok (kw_masters w)" and "keys_ok (ks_table s)"
    and "rotate_masters w s = (Inr n, s1)"
  shows "same_secrets w (ks_table s) (ks_table s1) \<and> ks_cache s1 = ks_cache s \<and> keys_ok (ks_table s1) \<and>
    (\<forall>a x row i. get_subject_key (ks_table s1) a x = Some row \<and> wrapping_of row = Master i \<longrightarrow> i = primary_id (kw_masters w))"
proof -
  let ?t = "ks_table s" and ?p = "primary_id (kw_masters w)"
  define s0 where "s0 = s\<lparr>ks_turn := Suc (ks_turn s)\<rparr>"
  obtain us s2 where us: "rewraps w (all_subject_keys ?t) s0 = (Inr us, s2)"
    and out: "(if us = [] then ret 0 else locked w (\<lambda>t. rewrap_subject_keys t us)) s2 = (Inr n, s1)"
    using assms(5) by (auto simp: rotate_masters_def bind_ks_def locked_read_undisturbed [OF assms(1)] s0_def split: sum.splits prod.splits)
  have T: "ks_table s2 = ?t" "ks_cache s2 = ks_cache s"
    and keys: "map update_key us = map (\<lambda>(f, v, b, m). (f, v)) (filter (\<lambda>(f, v, b, m). m \<noteq> ?p) (all_subject_keys ?t))"
    and each: "\<And>u. u \<in> set us \<Longrightarrow> \<exists>f v b b' m sec. u = (f, v, b', ?p, m) \<and> (f, v, b, m) \<in> set (all_subject_keys ?t) \<and>
         row_opens w \<lparr>wrapped = b, wrapping_of = Master m\<rparr> sec \<and> row_opens w \<lparr>wrapped = b', wrapping_of = Master ?p\<rparr> sec"
    using rewraps_updates [OF assms(2,3) us] by (simp_all add: s0_def)
  have "ks_table s1 = snd (fold rewrap_one us (0, ?t))" and cache: "ks_cache s1 = ks_cache s"
    using out T by (auto simp: locked_undisturbed [OF assms(1)] ret_def rewrap_subject_keys_def split: if_splits prod.splits)
  moreover from this have "keys_ok (ks_table s1)" using keys_ok_apply [OF assms(4), of "Rewrap us"] by (simp add: rewrap_subject_keys_def)
  moreover have "update_for w ?t u" if "u \<in> set us" for u
  proof -
    from each [OF that] obtain f v b b' m sec where u: "u = (f, v, b', ?p, m)" "(f, v, b, m) \<in> set (all_subject_keys ?t)"
      "row_opens w \<lparr>wrapped = b, wrapping_of = Master m\<rparr> sec" "row_opens w \<lparr>wrapped = b', wrapping_of = Master ?p\<rparr> sec"
      by blast
    then show ?thesis using all_subject_keys_row [OF assms(4), of f v b m] by auto
  qed
  moreover have "distinct (map update_key us)"
    unfolding keys by (rule distinct_map_filter [OF distinct_keys_of [OF assms(4)]])
  ultimately have ok: "keys_ok (ks_table s1)" and R: "same_secrets w ?t (ks_table s1)"
    "\<And>a x. (a, x) \<notin> update_key ` set us \<Longrightarrow> get_subject_key (ks_table s1) a x = get_subject_key ?t a x"
    "\<And>a x. (a, x) \<in> update_key ` set us \<Longrightarrow> map_option wrapping_of (get_subject_key (ks_table s1) a x) = Some (Master ?p)"
    using rewrap_all [of us w ?t 0] by auto
  have "i = ?p" if row: "get_subject_key (ks_table s1) a x = Some row" "wrapping_of row = Master i" for a x row i
  proof (rule ccontr)
    assume i: "i \<noteq> ?p"
    then have "(a, x) \<notin> update_key ` set us" using R(3) [of a x] row by auto
    then have "get_subject_key ?t a x = Some row" using R(2) row(1) by simp
    then have "(a, x, wrapped row, i) \<in> set (all_subject_keys ?t)" using all_subject_keys_row [OF assms(4)] row(2) by auto
    then have "(a, x) \<in> set (map update_key us)" unfolding keys using i by force
    then show False using \<open>(a, x) \<notin> update_key ` set us\<close> by (simp only: set_map)
  qed
  then show ?thesis using R(1) cache ok by blast
qed

text \<open>Every root row opens under a configured master.\<close>

definition roots_open :: "key_world \<Rightarrow> key_table \<Rightarrow> bool" where
  "roots_open w t \<longleftrightarrow>
     (\<forall>(f, v, b, m) \<in> set (all_subject_keys t). \<exists>sec. row_opens w \<lparr>wrapped = b, wrapping_of = Master m\<rparr> sec)"

lemma rewraps_answers:
  assumes "entropy_ok w"
  shows "\<forall>(f, v, b, m) \<in> set rows. \<exists>sec. row_opens w \<lparr>wrapped = b, wrapping_of = Master m\<rparr> sec \<Longrightarrow>
    \<exists>us s'. rewraps w rows s = (Inr us, s')"
proof (induction rows arbitrary: s)
  case (Cons row rows)
  obtain f v b m where row: "row = (f, v, b, m)" by (cases row) auto
  then obtain sec mk where sec: "fmlookup (m_keys (kw_masters w)) m = Some mk" "unwrap_key (kw_cipher w) mk b = Inr sec"
    using Cons.prems by (auto simp: row_opens_def)
  obtain b' s1 where wr: "wrap_key w (primary_key (kw_masters w)) sec s = (Inr b', s1)"
    using wrap_answers [OF assms] unfolding wrap_key_def by blast
  have "\<exists>us s'. rewraps w rows s0 = (Inr us, s')" for s0 using Cons by simp
  then obtain us s2 us' s3 where "rewraps w rows s1 = (Inr us, s2)" "rewraps w rows s = (Inr us', s3)" by meson
  then show ?case using sec wr by (simp add: row ks_simps)
qed (simp add: ret_def)

lemma rotate_answers:
  assumes "undisturbed w" and "entropy_ok w" and "roots_open w (ks_table s)"
  shows "\<exists>n s1. rotate_masters w s = (Inr n, s1)"
proof -
  define s0 where "s0 = s\<lparr>ks_turn := Suc (ks_turn s)\<rparr>"
  obtain us s2 where "rewraps w (all_subject_keys (ks_table s)) s0 = (Inr us, s2)"
    using rewraps_answers [OF assms(2)] assms(3) unfolding roots_open_def by blast
  then show ?thesis
    by (auto simp: rotate_masters_def bind_ks_def locked_read_undisturbed [OF assms(1)] s0_def ret_def
        locked_undisturbed [OF assms(1)] split: prod.splits)
qed

text \<open>
  C25: a rotation moves every root key and no secret.  On a store nobody else is changing, a rotation that
  answers leaves every load, at any depth, with the answer it had, and every row that hangs from a master
  hangs from the primary: the previous masters can be taken out of the configuration, and the check at
  boot passes.  It answers when every root key opens under a configured master and the system has entropy.
\<close>

theorem rotation_keeps_secrets:
  assumes "undisturbed w" and "cipher_ok (kw_cipher w)" and "masters_ok (kw_masters w)" and "keys_ok (ks_table s)"
    and "rotate_masters w s = (r, s1)"
  shows "(entropy_ok w \<and> roots_open w (ks_table s) \<longrightarrow> isl r = False) \<and>
    (isl r = False \<longrightarrow>
      opens w (ks_table s1) m u v = opens w (ks_table s) m u v \<and>
      (\<forall>i \<in> set (distinct_master_key_ids (ks_table s1)). i = primary_id (kw_masters w)) \<and>
      fst (verify_masters_present w s1) = Inr ())"
proof (intro conjI [of "_ \<longrightarrow> _"] impI)
  show "isl r = False" if "entropy_ok w \<and> roots_open w (ks_table s)"
    using rotate_answers [OF assms(1)] that assms(5) by fastforce
next
  assume "isl r = False"
  then obtain n where "r = Inr n" by (cases r) auto
  note R = rotated_table [OF assms(1-4) assms(5) [unfolded this]]
  have ids: "i = primary_id (kw_masters w)" if "i \<in> set (distinct_master_key_ids (ks_table s1))" for i
  proof -
    from that obtain r where r: "r \<in> set (ks_table s1)" "k_master r = Some i"
      by (auto simp: distinct_master_key_ids_def List.map_filter_def)
    then have "get_subject_key (ks_table s1) (k_subject r) (k_value r) = Some \<lparr>wrapped = k_wrapped r, wrapping_of = Master i\<rparr>"
      using find_row_keyed [OF keys_okD(1), of "ks_table s1" r] R by (auto simp: get_subject_key_def k_key_def master_row)
    then show ?thesis using R by fastforce
  qed
  then have "filter (\<lambda>i. fmlookup (m_keys (kw_masters w)) i = None) (distinct_master_key_ids (ks_table s1)) = []"
    using assms(3) by (auto simp: filter_empty_conv masters_ok_def)
  then have "fst (verify_masters_present w s1) = Inr ()"
    by (simp add: verify_masters_present_def bind_ks_def locked_read_undisturbed [OF assms(1)] ret_def)
  then show "opens w (ks_table s1) m u v = opens w (ks_table s) m u v \<and>
      (\<forall>i \<in> set (distinct_master_key_ids (ks_table s1)). i = primary_id (kw_masters w)) \<and>
      fst (verify_masters_present w s1) = Inr ()"
    using R ids same_secrets_opens by blast
qed

end
