(* ===== verification/Keystore_Examples.thy ===== *)
theory Keystore_Examples
  imports Keystore_Rotate
begin

section \<open>The key store on concrete tables\<close>

text \<open>
  A cipher that keeps its promises (it writes the key and the associated data before the plaintext and
  checks them on the way back), two masters, and a subject \<open>user\<close> declared under \<open>org\<close>.
\<close>

definition marked :: "bytes \<Rightarrow> bytes \<Rightarrow> bytes option" where
  "marked mark b = (if take (length mark) b = mark then Some (drop (length mark) b) else None)"

definition toy_cipher :: cipher where
  "toy_cipher =
     \<lparr>c_random = (\<lambda>n. Inr (replicate 64 (char_of n))),
      c_gcm_seal = (\<lambda>k n a m. ''x'' @ k @ n @ a @ m),
      c_gcm_open = (\<lambda>k n a b. marked (''x'' @ k @ n @ a) b),
      c_siv_seal = (\<lambda>k a m. k @ a @ m),
      c_siv_open = (\<lambda>k a b. marked (k @ a) b),
      c_b64 = id,
      c_unb64 = Some,
      c_utf8 = (\<lambda>b. True),
      c_sha = (\<lambda>b. take 2 (rev b))\<rparr>"

lemma toy_cipher_ok [simp]: "cipher_ok toy_cipher"
  by (auto simp: cipher_ok_def toy_cipher_def marked_def SIV_KEY_LEN_def)

definition toy_world :: "string \<Rightarrow> string list \<Rightarrow> key_world" where
  "toy_world primary previous =
     \<lparr>kw_cipher = toy_cipher,
      kw_masters = \<lparr>primary_id = primary, m_keys = fmap_of_list (map (\<lambda>i. (i, i @ i)) (primary # previous))\<rparr>,
      kw_others = (\<lambda>n t. t), kw_fault = (\<lambda>n. None)\<rparr>"

abbreviation toy :: key_world where "toy \<equiv> toy_world ''a'' []"
abbreviation toy2 :: key_world where "toy2 \<equiv> toy_world ''b'' [''a'']"

definition toy_rank :: "string \<Rightarrow> nat" where
  "toy_rank s = (if s = ''user'' then 1 else 0)"

lemma toy_undisturbed [simp]: "undisturbed (toy_world p q)"
  by (simp add: undisturbed_def toy_world_def)

lemma toy_masters_ok [simp]: "masters_ok (kw_masters (toy_world p q))"
  by (simp add: toy_world_def masters_ok_def fmlookup_of_list)

lemma toy_cipher_of [simp]: "kw_cipher (toy_world p q) = toy_cipher"
  by (simp add: toy_world_def)

lemma toy_sound [simp]: "sound_world (toy_world p q) toy_rank"
  by (simp add: sound_world_def toy_rank_def MAX_SUBJECT_DEPTH_def)

definition fresh_store :: keystore where
  "fresh_store = \<lparr>ks_table = [], ks_turn = 0, ks_entropy = 0, ks_cache = None\<rparr>"

lemma fresh_ready [simp]: "ready toy_rank fresh_store"
  by (simp add: ready_def fresh_store_def keys_ok_def keyed_def ranked_def)

abbreviation user :: "string \<Rightarrow> string \<times> string" where "user v \<equiv> (''user'', v)"
abbreviation org :: "string \<times> string" where "org \<equiv> (''org'', ''o1'')"

lemma toy_chains [simp]:
  "declared_chain toy_rank [user v, org]" "declared_chain toy_rank [user v]" "declared_chain toy_rank [org]"
  by (simp_all add: declared_chain_def toy_rank_def)

subsection \<open>Sealing\<close>

lemma fresh_able: "able (toy_world p q) (ks_table fresh_store) chain"
  by (auto simp: able_def entropy_ok_def fresh_store_def get_subject_key_def find_row_def toy_cipher_def)

abbreviation sealing_u1 :: "(string + string) \<times> keystore" where
  "sealing_u1 \<equiv> encrypt_subject_in toy [user ''u1'', org] ''mail'' ''hi'' fresh_store"

abbreviation further :: "sealing list" where
  "further \<equiv> [([user ''u2'', org], ''mail'', ''yo''), ([user ''u1''], ''name'', ''Ann'')]"

theorem sealed_reads_back_witness:
  "\<exists>ct. fst sealing_u1 = Inr ct \<and>
    fst (decrypt_subject toy ''user'' ''u1'' ''mail'' ct (seal_all toy further (snd sealing_u1))) = Inr (Some ''hi'') \<and>
    fst (row_decrypt toy ''user'' ''u1'' ''mail'' ct (row_decryptor (seal_all toy further (snd sealing_u1)))) = Inr (Some ''hi'')"
proof -
  have utf8: "c_utf8 (kw_cipher toy) ''hi''" by (simp only: toy_cipher_of) (simp add: toy_cipher_def)
  have chains: "\<forall>x \<in> set further. declared_chain toy_rank (fst x)" by simp
  have table: "ks_table (row_decryptor s) = ks_table s" for s by (simp add: row_decryptor_def)
  note B = sealed_reads_back [OF toy_sound fresh_ready toy_chains(1) prod.collapse [symmetric] utf8 chains cache_ok_new table]
  obtain ct where "fst sealing_u1 = Inr ct" using B [THEN conjunct1] fresh_able by blast
  then show ?thesis using B [THEN conjunct2] by blast
qed

subsection \<open>A table\<close>

text \<open>Two users of one organisation, and one of another.\<close>

definition secret_no :: "nat \<Rightarrow> bytes" where
  "secret_no n = replicate 64 (char_of n)"

definition toy_wrap :: "bytes \<Rightarrow> bytes \<Rightarrow> bytes \<Rightarrow> bytes" where
  "toy_wrap key aad sec = replicate 12 CHR ''n'' @ c_gcm_seal toy_cipher key (replicate 12 CHR ''n'') aad sec"

lemma toy_unwrap [simp]: "unwrap_key_under toy_cipher key (toy_wrap key aad sec) aad = Inr sec"
  using cipher_okD(2) [OF toy_cipher_ok] by (simp add: toy_wrap_def unwrap_key_under_def WRAP_NONCE_LEN_def cipher_okD(1))

definition org_row :: "string \<Rightarrow> nat \<Rightarrow> key_row" where
  "org_row o1 n = \<lparr>k_subject = ''org'', k_value = o1, k_wrapped = toy_wrap ''aa'' [] (secret_no n),
     k_master = Some ''a'', k_parent_subject = None, k_parent_value = None, k_fingerprint = None\<rparr>"

definition user_row :: "string \<Rightarrow> string \<Rightarrow> nat \<Rightarrow> nat \<Rightarrow> key_row" where
  "user_row u o1 p n = \<lparr>k_subject = ''user'', k_value = u,
     k_wrapped = toy_wrap (child_kek toy_cipher (secret_no p)) (child_aad ''user'' u ''org'' o1) (secret_no n),
     k_master = None, k_parent_subject = Some ''org'', k_parent_value = Some o1,
     k_fingerprint = Some (parent_fingerprint toy_cipher (secret_no p))\<rparr>"

lemmas toy_rows = org_row_def user_row_def k_key_def

definition with_table :: "key_table \<Rightarrow> keystore" where
  "with_table t = fresh_store\<lparr>ks_table := t\<rparr>"

definition two_orgs :: key_table where
  "two_orgs = [org_row ''o1'' 1, user_row ''u1'' ''o1'' 1 2, user_row ''u2'' ''o1'' 1 3, org_row ''o2'' 4, user_row ''u3'' ''o2'' 4 5]"

lemma two_orgs_ready: "ready toy_rank (with_table two_orgs)"
  by (simp add: ready_def with_table_def fresh_store_def two_orgs_def toy_rows keys_ok_def keyed_def check_ok_def
      ranked_def toy_rank_def)

lemma below_set:
  "below t = set (List.map_filter (\<lambda>r. case (k_parent_subject r, k_parent_value r) of
     (Some a, Some x) \<Rightarrow> Some (k_key r, (a, x)) | _ \<Rightarrow> None) t)"
  unfolding below_def child_of_def List.map_filter_def
  by (force split: option.splits)

lemma two_orgs_below:
  "below two_orgs = {(user ''u1'', org), (user ''u2'', org), (user ''u3'', (''org'', ''o2''))}"
  by (simp add: below_set two_orgs_def toy_rows map_filter_simps)

lemma opens_org: "find_row k_key (''org'', v) t = Some (org_row v n) \<Longrightarrow> opens toy t (Suc m) ''org'' v = Inr (Some (secret_no n))"
  by (simp add: get_subject_key_def org_row_def opens_row_def row_wrapping_def master_for_def toy_world_def
      fmlookup_of_list unwrap_key_def)

lemma opens_user:
  "find_row k_key (''user'', u) t = Some (user_row u v p n) \<Longrightarrow> find_row k_key (''org'', v) t = Some (org_row v p) \<Longrightarrow>
    opens toy t (Suc (Suc m)) ''user'' u = Inr (Some (secret_no n))"
  by (simp add: get_subject_key_def [of _ "''user''"] user_row_def row_wrapping_def opens_row_def
      opens_org del: opens.simps add: opens.simps(2) [of _ _ "Suc m" "''user''"])

definition kept_mail :: string where
  "kept_mail = c_b64 toy_cipher (c_siv_seal toy_cipher (secret_no 5) (associated_data ''mail'') ''ho'')"

theorem erase_shreds_subtree_witness:
  "fst (decrypt_subject toy ''user'' ''u1'' ''mail'' kept_mail (snd (erase_subject toy ''org'' ''o1'' (with_table two_orgs)))) = Inr None \<and>
   fst (decrypt_subject toy ''user'' ''u3'' ''mail'' kept_mail
     (snd (erase_subject toy ''org'' ''o1'' (with_table two_orgs)))) = Inr (Some ''ho'')"
proof -
  have T: "ks_table (with_table t) = t" "ks_cache (with_table t) = None" for t by (simp_all add: with_table_def fresh_store_def)
  have in1: "((''user'', ''u1''), (''org'', ''o1'')) \<in> (below (ks_table (with_table two_orgs)))\<^sup>*"
    by (rule r_into_rtrancl) (simp add: T two_orgs_below)
  have notin: "((''user'', ''u3''), (''org'', ''o1'')) \<notin> (below (ks_table (with_table two_orgs)))\<^sup>*"
    unfolding T two_orgs_below by (auto elim: converse_rtranclE)
  have u: "''org'' \<noteq> GLOBAL_SUBJECT" by (simp add: GLOBAL_SUBJECT_def)
  note E = erase_shreds_subtree [OF toy_sound two_orgs_ready u, where v = "''o1''"]
  have "opens toy two_orgs (MAX_SUBJECT_DEPTH + 1) ''user'' ''u3'' = Inr (Some (secret_no 5))"
    unfolding MAX_SUBJECT_DEPTH_def
    using opens_user [where t = two_orgs and u = "''u3''" and v = "''o2''" and p = 4 and n = 5 and m = 31]
    by (simp add: two_orgs_def toy_rows find_row_def)
  moreover have "encrypt_with toy_cipher (secret_no 5) ''mail'' ''ho'' = Inr kept_mail"
    by (simp add: encrypt_with_def kept_mail_def secret_no_def SIV_KEY_LEN_def)
  then have "plaintext_under toy_cipher (secret_no 5) ''mail'' kept_mail = Some ''ho''"
    by (rule decrypt_encrypt [OF toy_cipher_ok]) (simp add: toy_cipher_def)
  ultimately have "fst (decrypt_subject toy ''user'' ''u3'' ''mail'' kept_mail (with_table two_orgs)) = Inr (Some ''ho'')"
    by (simp add: decrypt_opens T del: opens.simps)
  then show ?thesis
    using E [THEN conjunct1, rule_format, OF in1] E [THEN conjunct2, THEN conjunct1, rule_format, OF notin] by simp
qed

subsection \<open>Adopting\<close>

text \<open>A user sealed as a root, before its subject declared a parent, and the organisation.\<close>

definition lone_row :: key_row where
  "lone_row = \<lparr>k_subject = ''user'', k_value = ''u1'', k_wrapped = toy_wrap ''aa'' [] (secret_no 2),
     k_master = Some ''a'', k_parent_subject = None, k_parent_value = None, k_fingerprint = None\<rparr>"

definition lone :: key_table where
  "lone = [org_row ''o1'' 1, lone_row]"

lemma lone_ready: "ready toy_rank (with_table lone)"
  by (simp add: ready_def with_table_def fresh_store_def lone_def lone_row_def toy_rows keys_ok_def keyed_def check_ok_def
      ranked_def toy_rank_def)

lemma lone_opens:
  "opens (toy_world p q) lone (Suc m) ''user'' ''u1'' = Inr (Some (secret_no 2))"
  if "(p, q) = (''a'', []) \<or> (p, q) = (''b'', [''a''])"
  using that
  by (auto simp: get_subject_key_def lone_row_def lone_def toy_rows find_row_def opens_row_def row_wrapping_def master_for_def
      toy_world_def fmlookup_of_list unwrap_key_def)

theorem adoption_keeps_secrets_witness:
  "fst (adopt_in toy [user ''u1'', org] (with_table lone)) = Inr Moved \<and>
   ((''user'', ''u1''), (''org'', ''o1'')) \<in> below (ks_table (snd (adopt_in toy [user ''u1'', org] (with_table lone)))) \<and>
   opens toy (ks_table (snd (adopt_in toy [user ''u1'', org] (with_table lone)))) (MAX_SUBJECT_DEPTH + 1) ''user'' ''u1'' =
     Inr (Some (secret_no 2))"
proof -
  have T: "ks_table (with_table lone) = lone" by (simp add: with_table_def)
  have u1: "opens toy lone (MAX_SUBJECT_DEPTH + 1) ''user'' ''u1'' = Inr (Some (secret_no 2))"
    using lone_opens by (simp del: opens.simps)
  have "opens toy lone (MAX_SUBJECT_DEPTH + 1) ''org'' ''o1'' = Inr (Some (secret_no 1))"
    using opens_org [where t = lone and v = "''o1''" and n = 1] by (simp add: lone_def toy_rows find_row_def del: opens.simps)
  then have "able toy lone [org]"
    by (simp add: able_def entropy_ok_def toy_cipher_def secret_no_def SIV_KEY_LEN_def del: opens.simps)
  moreover have "get_subject_key lone ''user'' ''u1'' = Some \<lparr>wrapped = toy_wrap ''aa'' [] (secret_no 2), wrapping_of = Master ''a''\<rparr>"
    by (simp add: get_subject_key_def lone_def lone_row_def toy_rows find_row_def row_wrapping_def)
  ultimately have "adoptable toy (ks_table (with_table lone)) ''user'' ''u1'' [org]"
    using u1 by (simp add: adoptable_def T del: opens.simps)
  then show ?thesis
    using adoption_keeps_secrets [OF toy_sound lone_ready toy_chains(1),
        where n = "MAX_SUBJECT_DEPTH + 1" and a = "''user''" and x = "''u1''" and sec = "secret_no 2"] u1
    unfolding T by blast
qed

subsection \<open>Rotating\<close>

theorem rotation_keeps_secrets_witness:
  "\<exists>n. fst (rotate_masters toy2 (with_table lone)) = Inr n \<and>
    opens toy2 (ks_table (snd (rotate_masters toy2 (with_table lone)))) (MAX_SUBJECT_DEPTH + 1) ''user'' ''u1'' = Inr (Some (secret_no 2)) \<and>
    fst (verify_masters_present toy2 (snd (rotate_masters toy2 (with_table lone)))) = Inr ()"
proof -
  have T: "ks_table (with_table lone) = lone" by (simp add: with_table_def)
  have cip: "cipher_ok (kw_cipher toy2)" by (simp only: toy_cipher_of toy_cipher_ok)
  have ok: "keys_ok (ks_table (with_table lone))" using lone_ready by (simp add: ready_def)
  note R = rotation_keeps_secrets [OF toy_undisturbed cip toy_masters_ok ok prod.collapse [symmetric],
      where m = "MAX_SUBJECT_DEPTH + 1" and u = "''user''" and v = "''u1''"]
  have opens2: "\<exists>sec. row_opens toy2 \<lparr>wrapped = toy_wrap ''aa'' [] (secret_no i), wrapping_of = Master ''a''\<rparr> sec" for i
    by (simp add: row_opens_def toy_world_def fmlookup_of_list unwrap_key_def)
  have "entropy_ok toy2" by (simp add: entropy_ok_def toy_cipher_def)
  moreover have "roots_open toy2 (ks_table (with_table lone))"
    unfolding T roots_open_def
    by (simp add: all_subject_keys_def lone_def lone_row_def org_row_def map_filter_simps opens2)
  ultimately obtain n where "fst (rotate_masters toy2 (with_table lone)) = Inr n"
    using R [THEN conjunct1] by (cases "fst (rotate_masters toy2 (with_table lone))") auto
  moreover have "opens toy2 lone (MAX_SUBJECT_DEPTH + 1) ''user'' ''u1'' = Inr (Some (secret_no 2))"
    using lone_opens by (simp del: opens.simps)
  ultimately show ?thesis using R [THEN conjunct2] unfolding T by simp
qed

subsection \<open>What reachability does not see\<close>

text \<open>
  An organisation was erased and then written to again, so its row holds a new secret.  The user sealed
  under the old one cannot be read any more, but the store answers that it is reachable: the walk of
  \<open>subject_key_reachable\<close> follows the parent pointers and not the fingerprint beside them.
\<close>

definition regrown :: key_table where
  "regrown = [user_row ''u1'' ''o1'' 1 2, org_row ''o1'' 9]"

lemma stale_generation_reachable:
  "keys_ok regrown" "subject_key_reachable regrown ''user'' ''u1''"
  "fst (load_secret toy ''user'' ''u1'' (with_table regrown)) = Inr None"
proof -
  show "keys_ok regrown" by (simp add: regrown_def toy_rows keys_ok_def keyed_def check_ok_def)
  moreover have "anchored regrown (k_key (user_row ''u1'' ''o1'' 1 2))"
    by (rule anchored.child [OF _ _ anchored.root [of "org_row ''o1'' 9"]]) (simp_all add: regrown_def toy_rows child_of_def)
  then have "anchored regrown (''user'', ''u1'')" by (simp add: toy_rows)
  ultimately show "subject_key_reachable regrown ''user'' ''u1''" by (simp add: reachable_iff_anchored GLOBAL_SUBJECT_def)
  show "fst (load_secret toy ''user'' ''u1'' (with_table regrown)) = Inr None"
  proof -
    have gens: "parent_fingerprint toy_cipher (secret_no 1) \<noteq> parent_fingerprint toy_cipher (secret_no 9)"
      by (simp add: parent_fingerprint_def sha256_hex_inj toy_cipher_def secret_no_def)
    have up: "opens toy regrown (Suc m) ''org'' ''o1'' = Inr (Some (secret_no 9))" for m
      by (rule opens_org) (simp add: regrown_def toy_rows find_row_def)
    have "opens toy regrown (Suc (Suc m)) ''user'' ''u1'' = Inr None" for m
      using gens up [of m]
      by (simp add: get_subject_key_def [of _ "''user''"] regrown_def user_row_def find_row_def k_key_def row_wrapping_def opens_row_def
          del: opens.simps add: opens.simps(2) [of _ _ "Suc m" "''user''"])
    from this [of 31] show ?thesis
      using load_secret_opens [OF toy_undisturbed [of "''a''" "[]"], of "with_table regrown" "''user''" "''u1''"]
      by (auto simp: with_table_def fresh_store_def MAX_SUBJECT_DEPTH_def simp del: opens.simps)
  qed
qed

end
