(* ===== verification/Command_Examples.thy ===== *)
theory Command_Examples
  imports Command_Once Lowering_Sound Keystore_Examples
begin

section \<open>Concrete requests\<close>

text \<open>
  A wire, a log and a language that meet the contracts the properties assume, and the properties applied
  to runs over them.
\<close>

subsection \<open>A wire\<close>

text \<open>A text is its length in ones, a zero and the text; a value opens with a letter and an object lists its entries.\<close>

definition put_str :: "string \<Rightarrow> bytes" where
  "put_str s = replicate (length s) CHR ''1'' @ CHR ''0'' # s"

definition take_str :: "bytes \<Rightarrow> string \<times> bytes" where
  "take_str b =
     (let n = length (takeWhile (\<lambda>c. c = CHR ''1'') b); body = drop (n + 1) b in (take n body, drop n body))"

lemma takeWhile_ones: "takeWhile (\<lambda>c. c = CHR ''1'') (replicate n CHR ''1'' @ CHR ''0'' # b) = replicate n CHR ''1''"
  by (induction n) simp_all

lemma take_put_str [simp]: "take_str (put_str s @ b) = (s, b)"
  by (simp add: take_str_def put_str_def takeWhile_ones Let_def)

fun put_json :: "json \<Rightarrow> bytes" where
  "put_json JNull = ''z''"
| "put_json (JBool flag) = (if flag then ''t'' else ''f'')"
| "put_json (JNum number) = CHR ''n'' # put_str number"
| "put_json (JStr s) = CHR ''s'' # put_str s"
| "put_json (JArr items) = CHR ''a'' # concat (map (\<lambda>v. CHR '','' # put_json v) items) @ '';''"
| "put_json (JObj members) = CHR ''o'' # concat (map (\<lambda>(k, v). CHR '','' # put_str k @ put_json v) members) @ '';''"

primrec take_items :: "(bytes \<Rightarrow> ('a \<times> bytes) option) \<Rightarrow> nat \<Rightarrow> bytes \<Rightarrow> ('a list \<times> bytes) option" where
  "take_items p 0 b = None"
| "take_items p (Suc n) b =
     (case b of
        [] \<Rightarrow> None
      | c # cs \<Rightarrow>
          if c = CHR '','' then
            (case p cs of
               None \<Rightarrow> None
             | Some (x, cs) \<Rightarrow> map_option (\<lambda>(xs, cs). (x # xs, cs)) (take_items p n cs))
          else Some ([], cs))"

definition take_member :: "(bytes \<Rightarrow> (json \<times> bytes) option) \<Rightarrow> bytes \<Rightarrow> ((string \<times> json) \<times> bytes) option" where
  "take_member p b = (case take_str b of (k, rest) \<Rightarrow> map_option (\<lambda>(v, rest). ((k, v), rest)) (p rest))"

primrec take_json :: "nat \<Rightarrow> bytes \<Rightarrow> (json \<times> bytes) option" where
  "take_json 0 b = None"
| "take_json (Suc n) b =
     (case b of
        [] \<Rightarrow> None
      | c # cs \<Rightarrow>
          if c = CHR ''z'' then Some (JNull, cs)
          else if c = CHR ''t'' then Some (JBool True, cs)
          else if c = CHR ''f'' then Some (JBool False, cs)
          else if c = CHR ''n'' then Some (map_prod JNum id (take_str cs))
          else if c = CHR ''s'' then Some (map_prod JStr id (take_str cs))
          else if c = CHR ''a'' then map_option (map_prod JArr id) (take_items (take_json n) (length cs) cs)
          else map_option (map_prod JObj id) (take_items (take_member (take_json n)) (length cs) cs))"

lemma take_items_put:
  assumes "\<And>x b. x \<in> set xs \<Longrightarrow> p (f x @ b) = Some (x, b)" and "length xs < n"
  shows "take_items p n (concat (map (\<lambda>x. CHR '','' # f x) xs) @ CHR '';'' # b) = Some (xs, b)"
  using assms
proof (induction xs arbitrary: n)
  case Nil
  then show ?case by (cases n) simp_all
next
  case (Cons x xs)
  obtain k where k: "n = Suc k" using Cons.prems(2) by (cases n) auto
  have "take_items p k (concat (map (\<lambda>x. CHR '','' # f x) xs) @ CHR '';'' # b) = Some (xs, b)"
    using Cons.prems k by (intro Cons.IH) auto
  then show ?case using Cons.prems(1) k by simp
qed

lemma length_items: "length xs \<le> length (concat (map (\<lambda>x. CHR '','' # f x) xs))"
  by (induction xs) auto

lemma length_item: "x \<in> set xs \<Longrightarrow> length (f x) < length (concat (map (\<lambda>x. CHR '','' # f x) xs))"
  by (induction xs) auto

lemma put_json_members:
  "put_json (JObj members) = CHR ''o'' # concat (map (\<lambda>m. CHR '','' # put_str (fst m) @ put_json (snd m)) members) @ '';''"
  by (simp add: case_prod_unfold)

lemma take_put_json: "length (put_json v) \<le> n \<Longrightarrow> take_json n (put_json v @ b) = Some (v, b)"
proof (induction v arbitrary: n b)
  case (JArr items)
  obtain k where k: "n = Suc k" using JArr.prems by (cases n) auto
  have each: "take_json k (put_json v @ c) = Some (v, c)" if "v \<in> set items" for v c
    using JArr.IH [OF that, of k c] length_item [OF that, of put_json] JArr.prems k by simp
  have "take_items (take_json k) (length (concat (map (\<lambda>v. CHR '','' # put_json v) items) @ CHR '';'' # b))
      (concat (map (\<lambda>v. CHR '','' # put_json v) items) @ CHR '';'' # b) = Some (items, b)"
    by (rule take_items_put) (use each length_items [of items put_json] in auto)
  then show ?case by (simp add: k)
next
  case (JObj members)
  obtain k where k: "n = Suc k" using JObj.prems by (cases n) auto
  let ?f = "\<lambda>m. put_str (fst m) @ put_json (snd m)"
  have each: "take_member (take_json k) (?f m @ c) = Some (m, c)" if m: "m \<in> set members" for m c
  proof -
    have "snd m \<in> Basic_BNFs.snds m" by (cases m) simp
    then have "take_json k (put_json (snd m) @ c) = Some (snd m, c)"
      using JObj.IH [OF m, of "snd m" k c] length_item [OF m, of ?f] JObj.prems k by (simp add: put_json_members del: put_json.simps)
    then show ?thesis by (simp add: take_member_def)
  qed
  have "take_items (take_member (take_json k)) (length (concat (map (\<lambda>m. CHR '','' # ?f m) members) @ CHR '';'' # b))
      (concat (map (\<lambda>m. CHR '','' # ?f m) members) @ CHR '';'' # b) = Some (members, b)"
    by (rule take_items_put) (use each length_items [of members ?f] in auto)
  then show ?case by (simp add: k put_json_members del: put_json.simps)
next
  case (JBool flag)
  then show ?case by (cases n; cases flag) auto
next
  case JNull
  then show ?case by (cases n) simp_all
next
  case (JNum x)
  then show ?case by (cases n) simp_all
next
  case (JStr x)
  then show ?case by (cases n) simp_all
qed

definition toy_wire :: wire where
  "toy_wire = \<lparr>w_object = (\<lambda>es. put_json (JObj es)),
     w_entries = (\<lambda>b. case take_json (length b) b of Some (JObj es, []) \<Rightarrow> Inr es | _ \<Rightarrow> Inl ''expected an object''),
     w_uuid = (\<lambda>s. Some s)\<rparr>"


lemma toy_wire_ok: "wire_ok toy_wire"
proof -
  have "take_json (length (put_json (JObj es))) (put_json (JObj es)) = Some (JObj es, [])" for es
    using take_put_json [OF order_refl, of "JObj es" "[]"] by simp
  then show ?thesis by (simp add: wire_ok_def toy_wire_def del: put_json.simps)
qed

subsection \<open>A log and a language\<close>

definition toy_append :: "tlog \<Rightarrow> tevent list \<Rightarrow> append_condition \<Rightarrow> append_error option" where
  "toy_append log es c =
     (if (case ac_exists c of None \<Rightarrow> False | Some q \<Rightarrow> list_ex (query_matches q) log) then Some (Conflict Existence)
      else if hits log (ac_boundary c) (ac_after c) \<noteq> [] then Some (Conflict Boundary)
      else None)"

definition toy_tephra :: tephra where
  "toy_tephra = \<lparr>tp_tag = Inr, tp_tags = (\<lambda>ts. Inr (sort (remdups ts))), tp_type = Inr,
     tp_event = (\<lambda>t ts d. Inr \<lparr>te_type = t, te_tags = ts, te_data = d\<rparr>),
     tp_read = (\<lambda>log q after limit. map Inr ((case limit of None \<Rightarrow> id | Some n \<Rightarrow> take n) (hits log q after))),
     tp_append = toy_append\<rparr>"

lemma toy_tephra_ok: "tephra_ok toy_tephra"
  by (auto simp: tephra_ok_def toy_tephra_def toy_append_def violates_def list_ex_iff split: if_splits option.splits)

definition toy_api :: "string hk_api" where
  "toy_api = \<lparr>hv_json = (\<lambda>v. case v of V_Other s \<Rightarrow> HStr s | _ \<Rightarrow> HNull), hv_text = (\<lambda>v. case v of V_Other s \<Rightarrow> s | _ \<Rightarrow> []),
     hv_is_number = (\<lambda>s. s \<noteq> []), hv_document = put_json, hv_rfc3339 = (\<lambda>micros. Some (int_str micros)),
     hv_timestamp = (\<lambda>s. None), hv_new_id = (\<lambda>n. CHR ''u'' # nat_str n)\<rparr>"

definition placed :: event_def where
  "placed = \<lparr>ed_event_type = ''Placed'',
     ed_fields = [(''order'', \<lparr>fm_kind = Text None, fm_indexed = True, fm_sealed_under = None, fm_identifies = None\<rparr>)]\<rparr>"

definition toy_events :: "(string, event_def) fmap" where
  "toy_events = fmupd ''Placed'' placed fmempty"

definition toy_cfg :: "string \<Rightarrow> string option \<Rightarrow> string option option \<Rightarrow> host_cfg" where
  "toy_cfg caused tag call = \<lparr>hc_events = toy_events, hc_keystore = False,
     hc_ctx = \<lparr>cx_correlation_id = ''c'', cx_causation_id = caused, cx_triggering_event_id = None\<rparr>,
     hc_stamp = Wall ''noon'', hc_idem_tag = tag, hc_call = call, hc_writing = True, hc_sealed = False\<rparr>"

definition quiet_world :: run_world where
  "quiet_world = \<lparr>rw_keys = toy, rw_others = (\<lambda>n log. log)\<rparr>"

definition toy_commands :: "(string, command_def) fmap" where
  "toy_commands = fmupd ''Place'' \<lparr>cd_params = [], cd_reads = [True]\<rparr> fmempty"

definition toy_place :: "string \<Rightarrow> (string \<times> string hk_value) list \<Rightarrow> string session" where
  "toy_place name args =
     Appends [\<lparr>he_path = [''Placed''], he_fields = fmupd ''order'' (V_Other ''o1'') fmempty\<rparr>] \<lparr>cn_after = 0, cn_slices = []\<rparr>
       (\<lambda>r. case r of Inl e \<Rightarrow> Refused e | Inr _ \<Rightarrow> Finished O_Ok)"

definition toy_start :: run_state where
  "toy_start = \<lparr>rs_log = [], rs_turn = 0, rs_keys = fresh_store, rs_appended = None, rs_emitted = [],
     rs_unavailable = None, rs_duplicated = False\<rparr>"

abbreviation toy_tag :: string where "toy_tag \<equiv> ''_hekla_idem:k''"

abbreviation toy_request :: "host_cfg \<Rightarrow> run_state \<Rightarrow> (string + outcome) \<times> run_state" where
  "toy_request cfg \<equiv>
     run_command quiet_world toy_api toy_wire toy_tephra (\<lambda>j t. Inl ''unused'') toy_commands toy_place cfg 3 ''Place'' (JObj [])"

abbreviation toy_keyed :: "string \<Rightarrow> host_cfg" where "toy_keyed caused \<equiv> toy_cfg caused (Some toy_tag) None"

definition toy_emitted :: emitted where
  "toy_emitted = \<lparr>em_event_type = ''Placed'', em_data = JObj [(''order'', JStr ''o1'')], em_tags = [(''order'', Some ''o1'')]\<rparr>"

definition toy_stored :: "host_cfg \<Rightarrow> string \<Rightarrow> tevent" where
  "toy_stored cfg i = \<lparr>te_type = ''Placed'', te_tags = sort (remdups (''order:o1'' # extra_tags cfg)),
     te_data = encode_event toy_wire (envelope_for (hc_ctx cfg) (i, ''noon'')) (JObj [(''order'', JStr ''o1'')])\<rparr>"

lemmas toy_defs = toy_tephra_def toy_api_def placed_def toy_events_def toy_cfg_def quiet_world_def toy_commands_def
  toy_place_def toy_start_def toy_emitted_def toy_stored_def

lemmas run_defs = run_command_def bind_args_def host_append_def store_writer_def current_log_def Let_def lower_def
  bind_ks_def lift_def ret_def lower_field_def value_json_def build_tags_def stamped_def guarded_def query_of_def idem_item_def
  host_idempotency_tag_def commit_def fresh_run_def settle_def

lemma traverse_Inr [simp]: "traverse Inr xs = Inr xs"
  by (induction xs) simp_all

lemma toy_lower:
  "lower w toy_api toy_wire toy_tephra (toy_cfg caused tag call) \<lparr>he_path = [''Placed''], he_fields = fmupd ''order'' (V_Other ''o1'') fmempty\<rparr> p s =
     (Inr (toy_stored (toy_cfg caused tag call) (CHR ''u'' # nat_str (ks_entropy s)), toy_emitted), s\<lparr>ks_entropy := ks_entropy s + 1\<rparr>)"
  by (simp add: run_defs toy_defs event_type_def tag_string_def)


lemma hits_nothing [simp]: "hits log (Query_Items []) n = []"
  by (simp add: hits_def filter_empty_conv)

abbreviation toy_event :: "string hk_event" where
  "toy_event \<equiv> \<lparr>he_path = [''Placed''], he_fields = fmupd ''order'' (V_Other ''o1'') fmempty\<rparr>"

abbreviation toy_cond :: "string hk_condition" where "toy_cond \<equiv> \<lparr>cn_after = 0, cn_slices = []\<rparr>"

definition toy_dcb :: "host_cfg \<Rightarrow> append_condition" where
  "toy_dcb cfg = \<lparr>ac_boundary = Query_Items [], ac_after = 0, ac_exists = map_option tag_query (host_idempotency_tag cfg)\<rparr>"

lemma toy_host_append:
  assumes "cfg = toy_cfg caused tag call"
  shows "host_append quiet_world toy_api toy_wire toy_tephra cfg [toy_event] toy_cond s =
    commit quiet_world toy_tephra cfg (length (rs_log s)) 0 (toy_dcb cfg)
      [(toy_stored cfg (CHR ''u'' # nat_str (ks_entropy (rs_keys s))), toy_emitted)]
      (s\<lparr>rs_turn := rs_turn s + 1, rs_keys := (rs_keys s)\<lparr>ks_entropy := ks_entropy (rs_keys s) + 1\<rparr>\<rparr>)"
proof -
  have w: "rw_others quiet_world n log = log" for n log by (simp add: quiet_world_def)
  have low: "lower_all w toy_api toy_wire toy_tephra cfg [toy_event] p k =
    (Inr [(toy_stored cfg (CHR ''u'' # nat_str (ks_entropy k)), toy_emitted)], k\<lparr>ks_entropy := ks_entropy k + 1\<rparr>)" for w p k
    by (simp add: assms toy_lower bind_ks_def ret_def)
  have g: "guarded toy_api toy_tephra cfg toy_cond = Inr (toy_dcb cfg)"
    by (cases "host_idempotency_tag cfg") (simp_all add: toy_dcb_def guarded_def query_of_def idem_item_def toy_tephra_def tag_query_def)
  have c: "\<not> hc_sealed cfg" "hc_writing cfg" by (simp_all add: assms toy_cfg_def)
  show ?thesis by (simp add: host_append_def Let_def current_log_def w low g c store_writer_def del: lower_all.simps)
qed

text \<open>An append whose guard finds nothing lands; one whose guard fires is told so.\<close>

definition landed :: "host_cfg \<Rightarrow> run_state \<Rightarrow> run_state" where
  "landed cfg s = s\<lparr>rs_log := rs_log s @ [toy_stored cfg (CHR ''u'' # nat_str (ks_entropy (rs_keys s)))],
     rs_turn := rs_turn s + 2, rs_keys := (rs_keys s)\<lparr>ks_entropy := ks_entropy (rs_keys s) + 1\<rparr>,
     rs_appended := Some (length (rs_log s) + 1, length (rs_log s) + 1), rs_emitted := [toy_emitted]\<rparr>"

lemma toy_append_free:
  assumes "\<forall>t. host_idempotency_tag cfg = Some t \<longrightarrow> tagged t (rs_log s) = []" and "cfg = toy_cfg caused tag call"
  shows "host_append quiet_world toy_api toy_wire toy_tephra cfg [toy_event] toy_cond s = (Inr (), landed cfg s)"
proof -
  have "tp_append toy_tephra (rs_log s) es (toy_dcb cfg) = None" for es
    using assms(1) by (auto simp: toy_tephra_def toy_append_def toy_dcb_def tagged_none list_ex_iff split: option.splits)
  moreover have "hc_stamp cfg \<noteq> Pinned" by (simp add: assms(2) toy_cfg_def)
  ultimately show ?thesis
    by (simp add: toy_host_append [OF assms(2)] commit_def Let_def current_log_def landed_def) (simp add: quiet_world_def)
qed

lemma toy_append_taken:
  assumes "host_idempotency_tag cfg = Some t" and "tagged t (rs_log s) \<noteq> []" and "cfg = toy_cfg caused tag call"
  shows "host_append quiet_world toy_api toy_wire toy_tephra cfg [toy_event] toy_cond s =
    (Inl (Host ''this request already committed''), s\<lparr>rs_turn := rs_turn s + 2,
       rs_keys := (rs_keys s)\<lparr>ks_entropy := ks_entropy (rs_keys s) + 1\<rparr>, rs_duplicated := True\<rparr>)"
proof -
  have "tp_append toy_tephra (rs_log s) es (toy_dcb cfg) = Some (Conflict Existence)" for es
    using assms(1,2) by (auto simp: toy_tephra_def toy_append_def toy_dcb_def tagged_none list_ex_iff)
  then show ?thesis
    by (simp add: toy_host_append [OF assms(3)] commit_def Let_def current_log_def) (simp add: quiet_world_def)
qed


subsection \<open>The seam of the examples\<close>

lemma toy_seam: "seam_ok toy_tephra toy_wire toy_api (toy_cfg caused (Some toy_tag) call)"
    "seam_ok toy_tephra toy_wire toy_api (toy_cfg caused None call)"
proof -
  have "ids_known toy_wire toy_api ctx" for ctx by (simp add: ids_known_def toy_wire_def)
  moreover have "defs_ok toy_events"
    by (auto simp: defs_ok_def toy_events_def placed_def field_name_def starts_with_def RESERVED_TAG_PREFIX_def split: if_splits)
  ultimately show "seam_ok toy_tephra toy_wire toy_api (toy_cfg caused (Some toy_tag) call)"
    "seam_ok toy_tephra toy_wire toy_api (toy_cfg caused None call)"
    by (simp_all add: seam_ok_def toy_tephra_ok toy_wire_ok toy_cfg_def reserved_tags_def starts_with_def RESERVED_TAG_PREFIX_def)
qed

lemma quiet_keeps: "others_keep tag quiet_world" "others_keep_out tag quiet_world"
  by (simp_all add: others_keep_def others_keep_out_def quiet_world_def)

lemma toy_reads_clean: "\<forall>x \<in> set (tp_read toy_tephra log q after None). \<not> isl x"
  by (simp add: toy_tephra_def)

lemma toy_idem_item: "idem_item toy_tephra tag = Inr \<lparr>qi_types = [], qi_tags = [tag]\<rparr>"
  by (simp add: idem_item_def toy_tephra_def)

lemma toy_run_place:
  "run_session quiet_world toy_api toy_wire toy_tephra cfg n (toy_place name args) s =
     (case host_append quiet_world toy_api toy_wire toy_tephra cfg [toy_event] toy_cond s of
        (Inl e, s) \<Rightarrow> (Inl e, s) | (Inr _, s) \<Rightarrow> (Inr O_Ok, s))"
  by (cases "host_append quiet_world toy_api toy_wire toy_tephra cfg [toy_event] toy_cond s")
    (simp add: toy_place_def split: sum.splits)

abbreviation first_run :: "(string + outcome) \<times> run_state" where
  "first_run \<equiv> toy_request (toy_keyed ''r1'') toy_start"

lemma first_run_is:
  "first_run = (Inr (Committed [toy_emitted] (Some (1, 1))), landed (toy_keyed ''r1'') (fresh_run toy_start))"
proof -
  have "tagged t (rs_log (fresh_run toy_start)) = []" for t by (simp add: fresh_run_def toy_start_def tagged_def)
  then show ?thesis
    by (simp add: run_command_def toy_commands_def bind_args_def toy_run_place toy_append_free [OF _ refl] settle_def)
      (simp add: landed_def fresh_run_def toy_start_def)
qed

lemma first_tagged: "tagged toy_tag (rs_log (snd first_run)) = [(1, toy_stored (toy_keyed ''r1'') (CHR ''u'' # nat_str 0))]"
  unfolding first_run_is
  by (simp add: landed_def fresh_run_def toy_start_def tagged_def toy_stored_def extra_tags_def toy_cfg_def fresh_store_def)

theorem committed_request_recovers_witness:
  "\<exists>r. find_committed_outcome toy_tephra toy_wire toy_events toy_tag (rs_log (snd first_run)) = Inr (Some r) \<and>
     rc_positions r = (1, 1) \<and> map re_event_type (rc_events r) = [''Placed''] \<and>
     recovered_body r = success_body (hc_ctx (toy_keyed ''r1'')) (Some (1, 1)) [toy_emitted] toy_events"
proof -
  have run: "first_run = (Inr (Committed [toy_emitted] (Some (1, 1))), snd first_run)" by (simp add: first_run_is)
  have tag: "hc_idem_tag (toy_keyed ''r1'') = Some toy_tag" "hc_events (toy_keyed ''r1'') = toy_events" by (simp_all add: toy_cfg_def)
  have "map em_event_type [toy_emitted] = [''Placed'']" by (simp add: toy_emitted_def)
  then show ?thesis
    using committed_request_recovers [OF run toy_seam(1) tag(1) quiet_keeps(1) refl toy_idem_item toy_reads_clean]
    by (simp only: tag)
qed


lemma toy_request_taken:
  assumes "tagged t (rs_log s) \<noteq> []" and "find_committed_outcome toy_tephra toy_wire toy_events t (rs_log s) = Inr (Some r)"
  shows "fst (toy_request (toy_cfg caused (Some t) None) s) = Inr (AlreadyCommitted r)"
proof -
  let ?cfg = "toy_cfg caused (Some t) None"
  have c: "hc_idem_tag ?cfg = Some t" "host_idempotency_tag ?cfg = Some t" "hc_events ?cfg = toy_events"
    by (simp_all add: toy_cfg_def host_idempotency_tag_def)
  have s: "rs_log (fresh_run s) = rs_log s" "rs_unavailable (fresh_run s) = None" by (simp_all add: fresh_run_def)
  have w: "rw_others quiet_world n log = log" for n log by (simp add: quiet_world_def)
  have cmd: "fmlookup toy_commands ''Place'' = Some \<lparr>cd_params = [], cd_reads = [True]\<rparr>" by (simp add: toy_commands_def)
  have "host_append quiet_world toy_api toy_wire toy_tephra ?cfg [toy_event] toy_cond (fresh_run s) =
    (Inl (Host ''this request already committed''), (fresh_run s)\<lparr>rs_turn := rs_turn (fresh_run s) + 2,
       rs_keys := (rs_keys (fresh_run s))\<lparr>ks_entropy := ks_entropy (rs_keys (fresh_run s)) + 1\<rparr>, rs_duplicated := True\<rparr>)"
    using assms(1) s by (intro toy_append_taken [OF c(2) _ refl]) simp
  then show ?thesis
    using assms(2) s by (simp add: run_command_def cmd bind_args_def toy_run_place settle_def c current_log_def Let_def w)
qed

abbreviation second_run :: "(string + outcome) \<times> run_state" where
  "second_run \<equiv> toy_request (toy_keyed ''r2'') (snd first_run)"

theorem keyed_request_commits_once_witness:
  "tagged toy_tag (rs_log (snd second_run)) = [(1, toy_stored (toy_keyed ''r1'') (CHR ''u'' # nat_str 0))] \<and>
   (\<exists>r. fst second_run = Inr (AlreadyCommitted r) \<and>
      recovered_body r = success_body (hc_ctx (toy_keyed ''r1'')) (Some (1, 1)) [toy_emitted] toy_events)"
proof -
  let ?cfg = "toy_keyed ''r1''" and ?cfg2 = "toy_keyed ''r2''"
  have run: "first_run = (Inr (Committed [toy_emitted] (Some (1, 1))), snd first_run)" by (simp add: first_run_is)
  have cfgs: "hc_idem_tag ?cfg = Some toy_tag" "hc_idem_tag ?cfg2 = Some toy_tag" "hc_events ?cfg2 = hc_events ?cfg"
    "hc_events ?cfg = toy_events" "hc_stamp ?cfg2 = Wall ''noon''" by (simp_all add: toy_cfg_def)
  have cmd: "fmlookup toy_commands ''Place'' = Some \<lparr>cd_params = [], cd_reads = [True]\<rparr>" by (simp add: toy_commands_def)
  have again: "second_run = (fst second_run, snd second_run)" by simp
  from keyed_request_commits_once [OF run toy_seam(1) cfgs(1) quiet_keeps(1) again cfgs(2,3,5) quiet_keeps(1) refl cmd]
  obtain found where once: "tagged toy_tag (rs_log (snd second_run)) = tagged toy_tag (rs_log (snd first_run))"
    and body: "recovered_body found = success_body (hc_ctx ?cfg) (Some (1, 1)) [toy_emitted] (hc_events ?cfg)"
    and out: "\<And>out. fst second_run = Inr out \<Longrightarrow> replay_outcome (\<exists>r \<in> set (cd_reads \<lparr>cd_params = [], cd_reads = [True]\<rparr>). r) found out \<or>
        (\<exists>m. bind_args toy_api (\<lambda>j t. Inl ''unused'') \<lparr>cd_params = [], cd_reads = [True]\<rparr> (JObj []) = Inl m \<and> out = InvalidInput m)"
    by blast
  obtain start xs where block: "xs \<noteq> []" "tagged toy_tag (rs_log (snd first_run)) = enumerate (start + 1) (map fst xs)"
    "written toy_api toy_wire ?cfg xs"
    by (rule keyed_block_of [OF run toy_seam(1) cfgs(1) quiet_keeps(1)])
  have known: "ids_known toy_wire toy_api (hc_ctx ?cfg)" "hc_stamp ?cfg = Wall ''noon''"
    by (simp_all add: ids_known_def toy_wire_def toy_cfg_def)
  obtain r where r: "find_committed_outcome toy_tephra toy_wire toy_events toy_tag (rs_log (snd first_run)) = Inr (Some r)"
    using recovers_block [OF toy_tephra_ok toy_wire_ok known block(3,1,2) toy_idem_item toy_reads_clean] cfgs(4) by simp
  have "fst second_run = Inr (AlreadyCommitted r)"
    by (rule toy_request_taken [OF _ r]) (simp only: first_tagged, simp)
  then show ?thesis using once body out [of "AlreadyCommitted r"] first_tagged cfgs(4) by auto
qed


subsection \<open>An invoke and its replay\<close>

text \<open>
  An effect whose process died between the append and the journal write runs the same call again, under
  the same tag: the event is in the log twice.
\<close>

definition call_tag :: string where
  "call_tag = idempotency_tag (\<lambda>b. b) ''welcome'' ''7:k:0''"

definition invoke_cfg :: host_cfg where
  "invoke_cfg = toy_cfg ''r1'' None (Some (Some call_tag))"

abbreviation invoke_once :: "run_state \<Rightarrow> run_state" where
  "invoke_once s \<equiv>
     snd (run_session quiet_world toy_api toy_wire toy_tephra invoke_cfg 3 (toy_place ''Place'' []) s)"

lemma invoke_appends:
  assumes "tagged call_tag (rs_log s) = []"
  shows "rs_log (invoke_once s) = rs_log s @ [toy_stored invoke_cfg (CHR ''u'' # nat_str (ks_entropy (rs_keys s)))]"
proof -
  have "host_idempotency_tag invoke_cfg = Some call_tag"
    by (simp add: host_idempotency_tag_def invoke_cfg_def toy_cfg_def)
  then show ?thesis
    using assms by (simp add: toy_run_place toy_append_free [OF _ invoke_cfg_def]) (simp add: landed_def)
qed

theorem invoke_guard_never_fires_witness:
  "tagged call_tag (rs_log (invoke_once (invoke_once toy_start))) = [] \<and> \<not> rs_duplicated (invoke_once (invoke_once toy_start)) \<and>
   map te_type (rs_log (invoke_once (invoke_once toy_start))) = [''Placed'', ''Placed'']"
proof -
  have seam: "seam_ok toy_tephra toy_wire toy_api invoke_cfg" by (simp add: invoke_cfg_def toy_seam(2))
  have cfg: "hc_idem_tag invoke_cfg = None" "hc_call invoke_cfg = Some (Some call_tag)"
    by (simp_all add: invoke_cfg_def toy_cfg_def)
  note never = invoke_guard_never_fires [OF seam cfg(1) call_tag_def cfg(2) quiet_keeps(2)]
  have start: "tagged call_tag (rs_log toy_start) = []" "\<not> rs_duplicated toy_start" by (simp_all add: toy_start_def tagged_def)
  have one: "tagged call_tag (rs_log (invoke_once toy_start)) = []" "\<not> rs_duplicated (invoke_once toy_start)"
    using never [OF start] by blast+
  have "rs_log (invoke_once (invoke_once toy_start)) =
      rs_log toy_start @ [toy_stored invoke_cfg (CHR ''u'' # nat_str (ks_entropy (rs_keys toy_start)))] @
      [toy_stored invoke_cfg (CHR ''u'' # nat_str (ks_entropy (rs_keys (invoke_once toy_start))))]"
    unfolding invoke_appends [OF one(1)] invoke_appends [OF start(1)] by simp
  moreover have "rs_log toy_start = []" by (simp add: toy_start_def)
  ultimately have "map te_type (rs_log (invoke_once (invoke_once toy_start))) = [''Placed'', ''Placed'']"
    by (simp add: toy_stored_def)
  then show ?thesis using never [OF one] by blast
qed

subsection \<open>Answers and envelopes\<close>

definition toy_invoked :: invoked_api where
  "toy_invoked = \<lparr>iv_ok = (\<lambda>r. r = Invoked_Ok),
     iv_code = (\<lambda>r. case r of Invoked_Reject c m \<Rightarrow> Some c | _ \<Rightarrow> None),
     iv_message = (\<lambda>r. case r of Invoked_Reject c m \<Rightarrow> Some m | Invoked_Invalid m \<Rightarrow> Some m | _ \<Rightarrow> None)\<rparr>"

lemma toy_invoked_ok: "invoked_api_ok toy_invoked"
  by (auto simp: invoked_api_ok_def toy_invoked_def)

definition toy_answer :: answer_recorded where
  "toy_answer = Response 200 (HObj [(''key'', HSecret ''s3cret'' ''***''), (''n'', HNum ''1'')])"

theorem recorded_answer_reads_back_witness:
  "decode_recorded (snd (encode_recorded (\<lambda>s. True) toy_invoked toy_answer)) =
     Response 200 (HObj [(''key'', HStr ''***''), (''n'', HNum ''1'')]) \<and>
   decode_recorded (snd (encode_recorded (\<lambda>s. True) toy_invoked (Was_Invoked (Invoked_Reject ''taken'' ''no'')))) =
     Was_Invoked (Invoked_Reject ''taken'' ''no'')"
proof -
  have r: "recordable toy_answer" "recordable (Was_Invoked (Invoked_Reject ''taken'' ''no''))" by (simp_all add: toy_answer_def)
  have "read_back (\<lambda>s. True) toy_answer = Response 200 (HObj [(''key'', HStr ''***''), (''n'', HNum ''1'')])"
    by (simp add: toy_answer_def)
  then show ?thesis
    using recorded_answer_reads_back [OF toy_invoked_ok r(1), of "\<lambda>s. True"]
      recorded_answer_reads_back [OF toy_invoked_ok r(2), of "\<lambda>s. True"] by simp
qed

definition toy_envelope :: envelope where
  "toy_envelope = \<lparr>e_event_id = ''u1'', e_timestamp = ''noon'', e_correlation_id = ''c'', e_causation_id = ''r'',
     e_triggering_event_id = Some ''u0''\<rparr>"

definition twice_data :: bytes where
  "twice_data = put_json (JObj (stored_entries toy_envelope JNull @ [(''data'', JBool True)]))"

theorem envelope_reads_one_way_witness:
  "decode_event toy_wire (encode_event toy_wire toy_envelope JNull) = Inr (toy_envelope, JNull) \<and>
   decode_event toy_wire twice_data \<noteq> Inr (toy_envelope, JBool True)"
proof -
  have ids: "ids_ok toy_wire toy_envelope" by (simp add: ids_ok_def toy_wire_def)
  have "w_entries toy_wire twice_data = Inr (stored_entries toy_envelope JNull @ [(''data'', JBool True)])"
    using take_put_json [OF order_refl, of "JObj (stored_entries toy_envelope JNull @ [(''data'', JBool True)])" "[]"]
    by (simp add: twice_data_def toy_wire_def del: put_json.simps)
  moreover have "\<not> reads_as toy_wire (stored_entries toy_envelope JNull @ [(''data'', JBool True)]) toy_envelope (JBool True)"
    by (simp add: reads_as_def stored_entries_def toy_envelope_def)
  ultimately show ?thesis
    using envelope_reads_one_way [OF toy_wire_ok ids, of JNull twice_data toy_envelope "JBool True"] by auto
qed


subsection \<open>A declared event with a sealed field\<close>

definition toy_parents :: subjects where
  "toy_parents = fmupd ''user'' ''org'' fmempty"

definition plain_field :: "string \<Rightarrow> hk_type \<Rightarrow> ir_field" where
  "plain_field name ty = \<lparr>if_name = name, if_ty = ty, if_max_len = None, if_indexed = False, if_subject = None\<rparr>"

definition joined_decl :: ir_event where
  "joined_decl = \<lparr>ie_path = [''Joined''],
     ie_fields = [plain_field ''user_id'' (T_Subject ''user'' T_String), plain_field ''org_id'' (T_Subject ''org'' T_String),
       (plain_field ''mail'' (T_Sealed T_String ''user''))\<lparr>if_subject := Some ''user_id''\<rparr>]\<rparr>"

fun toy_subject :: "hk_type \<Rightarrow> string option" where
  "toy_subject (T_Sealed _ s) = Some s"
| "toy_subject _ = None"

abbreviation joined_def :: event_def where
  "joined_def \<equiv> event_def_of toy_subject (\<lambda>_. None) toy_parents joined_decl"

definition mail_seal :: seal where
  "mail_seal = \<lparr>sl_chain = [(''user'', ''user_id''), (''org'', ''org_id'')]\<rparr>"

definition mail_meta :: field_meta where
  "mail_meta = \<lparr>fm_kind = Text None, fm_indexed = False, fm_sealed_under = Some mail_seal, fm_identifies = None\<rparr>"

lemma toy_parents_ranked: "parents_ranked toy_rank toy_parents"
  by (auto simp: parents_ranked_def toy_parents_def toy_rank_def split: if_splits)

lemma joined_fields:
  "ed_fields joined_def =
    [(''user_id'', \<lparr>fm_kind = Text None, fm_indexed = False, fm_sealed_under = None, fm_identifies = Some ''user''\<rparr>),
     (''org_id'', \<lparr>fm_kind = Text None, fm_indexed = False, fm_sealed_under = None, fm_identifies = Some ''org''\<rparr>),
     (''mail'', mail_meta)]"
  by (simp add: event_def_of_def joined_decl_def plain_field_def seal_chain_def ancestors_def toy_parents_def carries_def
      mail_meta_def mail_seal_def fcard.rep_eq)

theorem declared_seals_well_formed_witness:
  "declared_chain toy_rank [(''user'', ''u1''), (''org'', ''o1'')] \<and>
   seal_resolve mail_seal (\<lambda>f. if f = ''user_id'' then Some ''u1'' else Some ''o1'') = Some [(''user'', ''u1''), (''org'', ''o1'')] \<and>
   ancestors toy_parents ''user'' = [''org'']"
proof -
  have r: "seal_resolve mail_seal (\<lambda>f. if f = ''user_id'' then Some ''u1'' else Some ''o1'') = Some [(''user'', ''u1''), (''org'', ''o1'')]"
    by (simp add: seal_resolve_def mail_seal_def)
  have f: "(''mail'', mail_meta) \<in> set (ed_fields joined_def)" "fm_sealed_under mail_meta = Some mail_seal"
    by (simp_all add: joined_fields mail_meta_def)
  have "ancestors toy_parents ''user'' = [''org'']" by (simp add: ancestors_def toy_parents_def fcard.rep_eq)
  then show ?thesis using declared_seals_well_formed [OF toy_parents_ranked f r] r by blast
qed

definition joined_cfg :: host_cfg where
  "joined_cfg = (toy_cfg ''r1'' None None)\<lparr>hc_events := fmupd ''Joined'' joined_def fmempty, hc_keystore := True\<rparr>"

definition joined_event :: "string hk_event" where
  "joined_event = \<lparr>he_path = [''Joined''],
     he_fields = fmap_of_list [(''user_id'', V_Other ''u1''), (''org_id'', V_Other ''o1''), (''mail'', V_Other ''hi'')]\<rparr>"

lemma joined_ids: "subject_ids toy_api joined_def joined_event = fmap_of_list [(''mail'', ''hi''), (''org_id'', ''o1''), (''user_id'', ''u1'')]"
  by (simp add: subject_ids_def joined_fields joined_event_def fmlookup_of_list plaintext_scalar_def value_json_def toy_api_def)

lemma joined_event_fields [simp]:
  "fmlookup (he_fields joined_event) ''user_id'' = Some (V_Other ''u1'')"
  "fmlookup (he_fields joined_event) ''org_id'' = Some (V_Other ''o1'')"
  "fmlookup (he_fields joined_event) ''mail'' = Some (V_Other ''hi'')"
  "he_path joined_event = [''Joined'']"
  by (simp_all add: joined_event_def fmlookup_of_list)

lemma toy_value [simp]: "value_json toy_api (V_Other x) = JStr x"
  by (simp add: value_json_def toy_api_def)

lemma joined_lower_fields:
  assumes "encrypt_subject_in toy [user ''u1'', org] ''mail'' ''hi'' fresh_store = (Inr ct, s)"
  shows "lower_fields toy toy_api True ''Joined'' (subject_ids toy_api joined_def joined_event) joined_event
      (ed_fields joined_def) ([], []) fresh_store =
    (Inr ([(''mail'', JStr ct), (''org_id'', JStr ''o1''), (''user_id'', JStr ''u1'')], []), s)"
proof -
  have chain: "seal_resolve mail_seal (fmlookup (subject_ids toy_api joined_def joined_event)) = Some [user ''u1'', org]"
    unfolding joined_ids by (simp add: seal_resolve_def mail_seal_def fmlookup_of_list)
  have stored: "stored_seal toy toy_api [user ''u1'', org] ''mail'' (Text None) (V_Other ''hi'') (JStr ''hi'') fresh_store = (Inr ct, s)"
    using assms by (simp add: stored_seal_def seal_text_def)
  let ?ids = "subject_ids toy_api joined_def joined_event"
  have mail: "lower_field toy toy_api True ''Joined'' ?ids joined_event (''mail'', mail_meta) (m, []) fresh_store =
      (Inr (map_insert ''mail'' (JStr ct) m, []), s)" for m
    by (simp add: lower_field_def mail_meta_def chain stored bind_ks_def ret_def)
  have plain: "lower_field toy toy_api True ''Joined'' ?ids joined_event
      (name, \<lparr>fm_kind = Text None, fm_indexed = False, fm_sealed_under = None, fm_identifies = i\<rparr>) (m, []) s =
      (Inr (map_insert name (JStr v) m, []), s)"
    if "fmlookup (he_fields joined_event) name = Some (V_Other v)" for name i m s v
    using that by (simp add: lower_field_def ret_def)
  show ?thesis
    unfolding joined_fields by (simp add: mail plain bind_ks_def ret_def)
qed

lemma joined_lowers: "\<exists>x s. lower toy toy_api toy_wire toy_tephra joined_cfg joined_event 0 fresh_store = (Inr x, s)"
proof -
  obtain r s where e: "encrypt_subject_in toy [user ''u1'', org] ''mail'' ''hi'' fresh_store = (r, s)" by (metis surj_pair)
  then obtain ct where r: "r = Inr ct"
    using encrypt_answers [OF toy_sound toy_chains(1) fresh_ready fresh_able e] by blast
  have c: "fmlookup (hc_events joined_cfg) ''Joined'' = Some joined_def" "hc_keystore joined_cfg" "hc_stamp joined_cfg = Wall ''noon''"
    by (simp_all add: joined_cfg_def toy_cfg_def)
  show ?thesis
    by (simp add: lower_def Let_def event_type_def c joined_lower_fields [OF e [unfolded r]] bind_ks_def lift_def build_tags_def ret_def)
      (simp add: toy_tephra_def bind_ks_def lift_def ret_def stamped_def)
qed


end
