(* ===== verification/Entities.thy ===== *)
theory Entities
  imports Schema
begin

section \<open>Entities as tables (src/schema.rs, src/read_model.rs)\<close>

text \<open>
  An entity a projector declares becomes a table: its columns, its indexes and the checks a project must
  pass before it loads.  \<open>ir_entity\<close> has what the conversion reads of heklang's declaration.
\<close>

record index_def =
  ix_name :: string
  ix_columns :: "string list"

record entity_def =
  en_name :: string
  en_key :: string
  en_fields :: "(string \<times> field_meta) list"
  en_indexes :: "index_def list"

definition plain_meta :: "field_kind \<Rightarrow> field_meta" where
  "plain_meta kind = \<lparr>fm_kind = kind, fm_indexed = True, fm_sealed_under = None, fm_identifies = None\<rparr>"

definition meta_nullable :: "field_meta \<Rightarrow> bool" where
  "meta_nullable meta = kind_nullable (fm_kind meta)"

definition column_meta :: "entity_def \<Rightarrow> string \<Rightarrow> field_meta option" where
  "column_meta entity name = map_option snd (find (\<lambda>f. fst f = name) (en_fields entity))"

subsection \<open>Data definition\<close>

definition quote_ident :: "string \<Rightarrow> string" where
  "quote_ident name = [CHR 0x22] @ concat (map (\<lambda>c. if c = CHR 0x22 then [CHR 0x22, CHR 0x22] else [c]) name) @ [CHR 0x22]"

definition column_list :: "entity_def \<Rightarrow> string" where
  "column_list entity = joined '', '' (map (\<lambda>(name, _). quote_ident name) (en_fields entity))"

definition create_table_sql :: "entity_def \<Rightarrow> string" where
  "create_table_sql entity =
     ''CREATE TABLE IF NOT EXISTS '' @ quote_ident (en_name entity) @ '' ('' @ [CHR 0x0A] @
     joined ('','' @ [CHR 0x0A])
       (map (\<lambda>(name, meta).
          ''  '' @ quote_ident name @ '' '' @ field_sql_type meta @
          (if name = en_key entity then '' PRIMARY KEY'' else []) @
          (if meta_nullable meta then [] else '' NOT NULL'')) (en_fields entity)) @
     [CHR 0x0A] @ '')''"

definition index_name :: "entity_def \<Rightarrow> string \<Rightarrow> string" where
  "index_name entity declared = en_name entity @ ''_'' @ declared"

definition index_columns :: "entity_def \<Rightarrow> index_def \<Rightarrow> string list" where
  "index_columns entity ix = (if en_key entity \<in> set (ix_columns ix) then ix_columns ix else ix_columns ix @ [en_key entity])"

definition create_index_sql :: "entity_def \<Rightarrow> string list" where
  "create_index_sql entity =
     map (\<lambda>ix. ''CREATE INDEX IF NOT EXISTS '' @ quote_ident (index_name entity (ix_name ix)) @ '' ON '' @
       quote_ident (en_name entity) @ '' ('' @ joined '', '' (map quote_ident (index_columns entity ix)) @ '')'')
       (en_indexes entity)"

subsection \<open>What loads\<close>

definition char_in :: "char \<Rightarrow> char \<Rightarrow> char \<Rightarrow> bool" where
  "char_in first final c \<longleftrightarrow> first \<le> c \<and> c \<le> final"

definition is_ascii_alphabetic :: "char \<Rightarrow> bool" where
  "is_ascii_alphabetic c \<longleftrightarrow> char_in (CHR ''A'') (CHR ''Z'') c \<or> char_in (CHR ''a'') (CHR ''z'') c"

definition is_sql_identifier :: "string \<Rightarrow> bool" where
  "is_sql_identifier name \<longleftrightarrow>
     (case name of
        [] \<Rightarrow> False
      | c # cs \<Rightarrow> (is_ascii_alphabetic c \<or> c = CHR ''_'') \<and>
          (\<forall>d \<in> set cs. is_ascii_alphabetic d \<or> is_digit d \<or> d = CHR ''_''))"

definition RESERVED_QUERY_PARAMS :: "string list" where
  "RESERVED_QUERY_PARAMS = [''limit'', ''cursor'', ''after'', ''timeout_ms'', ''order_by'']"

definition filterable_fields :: "entity_def \<Rightarrow> string list" where
  "filterable_fields entity = en_key entity # concat (map ix_columns (en_indexes entity))"

fun kind_debug :: "field_kind \<Rightarrow> string" where
  "kind_debug (Text None) = ''Text { max_length: None }''"
| "kind_debug (Text (Some n)) = ''Text { max_length: Some('' @ nat_str n @ '') }''"
| "kind_debug I64 = ''I64''"
| "kind_debug Bool = ''Bool''"
| "kind_debug Uuid = ''Uuid''"
| "kind_debug Timestamp = ''Timestamp''"
| "kind_debug (Money scale) = ''Money { scale: '' @ nat_str scale @ '' }''"
| "kind_debug Json_Kind = ''Json''"
| "kind_debug (OneOf vs) = ''OneOf(['' @ joined '', '' (map (\<lambda>v. [CHR 0x22] @ v @ [CHR 0x22]) vs) @ ''])''"
| "kind_debug (Optional k) = ''Optional('' @ kind_debug k @ '')''"

definition entity_error :: "entity_def \<Rightarrow> string \<Rightarrow> string" where
  "entity_error entity why = ''entity '' @ quoted (en_name entity) @ '': '' @ why"

definition identifier_text :: string where
  "identifier_text = '' must be ascii letters, digits and underscores, starting with a letter or underscore''"

definition index_problem :: "entity_def \<Rightarrow> index_def \<Rightarrow> string option" where
  "index_problem entity ix =
     (if \<not> is_sql_identifier (ix_name ix)
      then Some (entity_error entity (''index name '' @ quoted (ix_name ix) @ identifier_text))
      else if ix_name ix = en_key entity
      then Some (entity_error entity (''the index over ('' @ joined '', '' (ix_columns ix) @ '') is named '' @ quoted (ix_name ix) @
             '', which is also the key column, so `order_by='' @ ix_name ix @ ''` could mean either; rename the key''))
      else None)"

definition key_problem :: "entity_def \<Rightarrow> string option" where
  "key_problem entity =
     (case column_meta entity (en_key entity) of
        None \<Rightarrow> Some (entity_error entity (''key '' @ quoted (en_key entity) @ '' is not a declared field''))
      | Some meta \<Rightarrow>
          if meta_nullable meta then Some (entity_error entity (''key '' @ quoted (en_key entity) @ '' may not be optional''))
          else if \<not> is_keyable (fm_kind meta)
          then Some (entity_error entity (''key '' @ quoted (en_key entity) @ '' must be an orderable scalar, not '' @
                 kind_debug (kind_base (fm_kind meta))))
          else if fm_sealed_under meta \<noteq> None
          then Some (entity_error entity (''key '' @ quoted (en_key entity) @
                 '' may not be subject-encrypted (the key is a plaintext cursor)''))
          else None)"

definition seal_problem :: "entity_def \<Rightarrow> string \<times> field_meta \<Rightarrow> string option" where
  "seal_problem entity f =
     (case f of (name, meta) \<Rightarrow>
        case fm_sealed_under meta of
          None \<Rightarrow> None
        | Some s \<Rightarrow>
            if list_ex (\<lambda>(_, other). fm_identifies other = Some (seal_subject s)) (en_fields entity) then None
            else Some (entity_error entity (''column '' @ quoted name @ '' is sealed under '' @ quoted (seal_subject s) @
                   '', but no column of this entity holds a '' @ quoted (seal_subject s) @ ''; add one so the key can be found'')))"

definition index_column_problem :: "entity_def \<Rightarrow> index_def \<Rightarrow> string \<Rightarrow> string option" where
  "index_column_problem entity ix col =
     (case column_meta entity col of
        None \<Rightarrow> Some (entity_error entity (''index '' @ quoted (ix_name ix) @ '' references unknown field '' @ quoted col))
      | Some meta \<Rightarrow>
          if fm_sealed_under meta \<noteq> None
          then Some (entity_error entity (''index '' @ quoted (ix_name ix) @ '' covers subject-encrypted column '' @ quoted col @
                 ''; filter by the plaintext subject id instead''))
          else None)"

definition reserved_problem :: "entity_def \<Rightarrow> string \<Rightarrow> string option" where
  "reserved_problem entity field =
     (if field \<in> set RESERVED_QUERY_PARAMS
      then Some (entity_error entity (''filterable field '' @ quoted field @
             '' collides with a reserved read query param (one of: '' @ joined '', '' RESERVED_QUERY_PARAMS @ '')''))
      else None)"

primrec first_some :: "('a \<Rightarrow> 'b option) \<Rightarrow> 'a list \<Rightarrow> 'b option" where
  "first_some f [] = None"
| "first_some f (x # xs) = (case f x of None \<Rightarrow> first_some f xs | Some y \<Rightarrow> Some y)"

definition validate_entity :: "entity_def \<Rightarrow> string + unit" where
  "validate_entity entity =
     (if \<not> is_sql_identifier (en_name entity) then Inl (entity_error entity (''table name'' @ identifier_text))
      else
        case first_some (\<lambda>problem. problem)
               [first_some (index_problem entity) (en_indexes entity),
                key_problem entity,
                first_some (seal_problem entity) (en_fields entity),
                first_some (\<lambda>ix. first_some (index_column_problem entity ix) (ix_columns ix)) (en_indexes entity),
                first_some (reserved_problem entity) (filterable_fields entity)] of
          Some why \<Rightarrow> Inl why
        | None \<Rightarrow> Inr ())"

subsection \<open>From the declaration\<close>

record ir_entity =
  in_name :: string
  in_fields :: "ir_field list"
  in_keys :: "string list"
  in_indexes :: "string list list"

definition entity_id_column :: "ir_entity \<Rightarrow> string \<Rightarrow> string" where
  "entity_id_column def subject =
     (case find (\<lambda>f. identified_subject (if_ty f) = Some subject) (in_fields def) of
        None \<Rightarrow> subject
      | Some f \<Rightarrow> if_name f)"

definition entity_of ::
  "(hk_type \<Rightarrow> string option) \<Rightarrow> (string \<Rightarrow> string list option) \<Rightarrow> ir_entity \<Rightarrow> entity_def" where
  "entity_of ty_subject variants def =
     (let key = (case in_keys def of [] \<Rightarrow> [] | k # _ \<Rightarrow> k) in
      \<lparr>en_name = in_name def, en_key = key,
       en_fields = map (\<lambda>f. (if_name f,
         \<lparr>fm_kind = bounded (kind_of variants (if_ty f)) (if_max_len f),
          fm_indexed = (if_name f = key \<or> list_ex (\<lambda>ix. if_name f \<in> set ix) (in_indexes def)),
          fm_sealed_under = map_option (\<lambda>subject. \<lparr>sl_chain = [(subject, entity_id_column def subject)]\<rparr>) (ty_subject (if_ty f)),
          fm_identifies = identified_subject (if_ty f)\<rparr>)) (in_fields def),
       en_indexes = map (\<lambda>ix. \<lparr>ix_name = ''by_'' @ joined ''_'' ix, ix_columns = ix\<rparr>) (in_indexes def)\<rparr>)"

definition unservable_key :: "ir_entity \<Rightarrow> string option" where
  "unservable_key def =
     (if 1 < length (in_keys def)
      then Some (''entity '' @ quoted (in_name def) @ '': its key is ('' @ joined '', '' (in_keys def) @
             ''), and a read model here is keyed on one column'')
      else None)"

definition id_field_of :: "(string, event_def) fmap \<Rightarrow> string \<Rightarrow> string option" where
  "id_field_of events subject =
     (let spellings = remdups (concat (map (\<lambda>(_, def). map fst (filter (\<lambda>(_, meta). fm_identifies meta = Some subject) (ed_fields def)))
        (sorted_list_of_fmap events)))
      in case spellings of [one] \<Rightarrow> Some one | _ \<Rightarrow> None)"

subsection \<open>What a loaded entity satisfies\<close>

lemma first_some_None_iff: "first_some f xs = None \<longleftrightarrow> (\<forall>x \<in> set xs. f x = None)"
  by (induction xs) (auto split: option.splits)

lemma column_meta_mem: "column_meta entity c = Some meta \<Longrightarrow> (c, meta) \<in> set (en_fields entity)"
  unfolding column_meta_def find_Some_iff map_option_eq_Some by (metis nth_mem prod.collapse)

lemma column_meta_None_iff: "column_meta entity c = None \<longleftrightarrow> c \<notin> fst ` set (en_fields entity)"
  by (auto simp: column_meta_def find_None_iff image_iff)

lemma valid_entity_iff:
  "validate_entity entity = Inr () \<longleftrightarrow>
     is_sql_identifier (en_name entity) \<and>
     (\<forall>ix \<in> set (en_indexes entity). is_sql_identifier (ix_name ix) \<and> ix_name ix \<noteq> en_key entity) \<and>
     (\<exists>meta. column_meta entity (en_key entity) = Some meta \<and> \<not> meta_nullable meta \<and> is_keyable (fm_kind meta) \<and>
        fm_sealed_under meta = None) \<and>
     (\<forall>f \<in> set (en_fields entity). \<forall>s. fm_sealed_under (snd f) = Some s \<longrightarrow>
        (\<exists>g \<in> set (en_fields entity). fm_identifies (snd g) = Some (seal_subject s))) \<and>
     (\<forall>ix \<in> set (en_indexes entity). \<forall>c \<in> set (ix_columns ix). \<exists>meta. column_meta entity c = Some meta \<and> fm_sealed_under meta = None) \<and>
     set (filterable_fields entity) \<inter> set RESERVED_QUERY_PARAMS = {}"
proof -
  have ix: "index_problem entity ix = None \<longleftrightarrow> is_sql_identifier (ix_name ix) \<and> ix_name ix \<noteq> en_key entity" for ix
    by (simp add: index_problem_def)
  have key: "key_problem entity = None \<longleftrightarrow> (\<exists>meta. column_meta entity (en_key entity) = Some meta \<and> \<not> meta_nullable meta \<and>
      is_keyable (fm_kind meta) \<and> fm_sealed_under meta = None)"
    by (auto simp: key_problem_def split: option.splits)
  have seal: "seal_problem entity f = None \<longleftrightarrow> (\<forall>s. fm_sealed_under (snd f) = Some s \<longrightarrow>
      (\<exists>g \<in> set (en_fields entity). fm_identifies (snd g) = Some (seal_subject s)))" for f
    by (cases f; cases "fm_sealed_under (snd f)") (simp_all add: seal_problem_def list_ex_iff split_beta)
  have col: "index_column_problem entity ix c = None \<longleftrightarrow> (\<exists>meta. column_meta entity c = Some meta \<and> fm_sealed_under meta = None)" for ix c
    by (auto simp: index_column_problem_def split: option.splits)
  have res: "reserved_problem entity c = None \<longleftrightarrow> c \<notin> set RESERVED_QUERY_PARAMS" for c
    by (simp add: reserved_problem_def)
  have all: "validate_entity entity = Inr () \<longleftrightarrow> is_sql_identifier (en_name entity) \<and>
      first_some (index_problem entity) (en_indexes entity) = None \<and> key_problem entity = None \<and>
      first_some (seal_problem entity) (en_fields entity) = None \<and>
      first_some (\<lambda>ix. first_some (index_column_problem entity ix) (ix_columns ix)) (en_indexes entity) = None \<and>
      first_some (reserved_problem entity) (filterable_fields entity) = None"
    by (auto simp: validate_entity_def simp del: first_some.simps split: option.splits) (auto split: option.splits)
  show ?thesis
    unfolding all first_some_None_iff ix key seal col res by auto
qed

end
