(* ===== verification/Cells.thy ===== *)
theory Cells
  imports Entities
begin

section \<open>Cells of a read model (src/read_model.rs, src/heklang_host.rs, src/read_api.rs)\<close>

text \<open>
  How a JSON value is stored in a column, read back from it and bound from the text of a request.  Reading
  and writing RFC 3339, the calendar, serde's text of a document and the integer SQLite's numeric affinity
  reads in a text are the fields of \<open>cell_api\<close>.  A \<open>SReal\<close> carries what serde makes of the float; no
  statement binds one.
\<close>

datatype sql_value = SNull | SInteger int | SReal json | SText string | SBlob

record civil =
  cv_year :: nat
  cv_month :: nat
  cv_day :: nat
  cv_hour :: nat
  cv_minute :: nat
  cv_second :: nat
  cv_micros :: nat

record cell_api =
  ca_timestamp :: "string \<Rightarrow> int option"
  ca_rfc3339 :: "int \<Rightarrow> string option"
  ca_civil :: "int \<Rightarrow> civil option"
  ca_write :: "json \<Rightarrow> string"
  ca_read :: "string \<Rightarrow> json option"
  ca_numeric :: "string \<Rightarrow> int option"

subsection \<open>Timestamps\<close>

text \<open>\<open>ca_civil\<close> answers nothing outside the years 0 to 9999, as \<open>stored_timestamp\<close> does.\<close>

definition padded :: "nat \<Rightarrow> nat \<Rightarrow> string" where
  "padded width n = replicate (width - length (nat_str n)) CHR ''0'' @ nat_str n"

definition stored_timestamp :: "cell_api \<Rightarrow> int \<Rightarrow> string option" where
  "stored_timestamp api micros =
     map_option (\<lambda>c. padded 4 (cv_year c) @ ''-'' @ padded 2 (cv_month c) @ ''-'' @ padded 2 (cv_day c) @ ''T'' @
       padded 2 (cv_hour c) @ '':'' @ padded 2 (cv_minute c) @ '':'' @ padded 2 (cv_second c) @ ''.'' @
       padded 6 (cv_micros c) @ ''Z'') (ca_civil api micros)"

definition served_timestamp :: "cell_api \<Rightarrow> string \<Rightarrow> string option" where
  "served_timestamp api s = Option.bind (ca_timestamp api s) (ca_rfc3339 api)"

subsection \<open>Forms of a value\<close>

definition column_form :: "cell_api \<Rightarrow> field_kind \<Rightarrow> json \<Rightarrow> json" where
  "column_form api kind v =
     (case (kind_base kind, v) of
        (Timestamp, JNum number) \<Rightarrow>
          (case Option.bind (json_i64 v) (ca_rfc3339 api) of None \<Rightarrow> v | Some s \<Rightarrow> JStr s)
      | _ \<Rightarrow> v)"

definition stored_form :: "cell_api \<Rightarrow> field_kind \<Rightarrow> json \<Rightarrow> json" where
  "stored_form api kind v =
     (let put = (\<lambda>micros. case Option.bind micros (stored_timestamp api) of None \<Rightarrow> v | Some s \<Rightarrow> JStr s) in
      case (kind_base kind, v) of
        (Timestamp, JNum number) \<Rightarrow> put (json_i64 v)
      | (Timestamp, JStr s) \<Rightarrow> put (ca_timestamp api s)
      | _ \<Rightarrow> column_form api kind v)"

definition wire_form :: "cell_api \<Rightarrow> field_kind \<Rightarrow> json \<Rightarrow> json" where
  "wire_form api kind v =
     (case (kind_base kind, v) of
        (Timestamp, JStr s) \<Rightarrow> (case ca_timestamp api s of None \<Rightarrow> v | Some micros \<Rightarrow> JNum (int_str micros))
      | _ \<Rightarrow> v)"

definition unsealed_json :: "cell_api \<Rightarrow> field_kind \<Rightarrow> string \<Rightarrow> json" where
  "unsealed_json api kind s =
     (if kind_base kind \<in> {I64, Timestamp} then (case parse_i64 s of None \<Rightarrow> JStr s | Some i \<Rightarrow> JNum (int_str i))
      else if kind_base kind = Bool \<and> s = ''true'' then JBool True
      else if kind_base kind = Bool \<and> s = ''false'' then JBool False
      else if kind_base kind = Json_Kind then (case ca_read api s of None \<Rightarrow> JStr s | Some v \<Rightarrow> v)
      else JStr s)"

definition typed_from_string :: "cell_api \<Rightarrow> field_kind \<Rightarrow> string \<Rightarrow> json" where
  "typed_from_string api kind s =
     (if kind_base kind = I64 then (case parse_i64 s of None \<Rightarrow> JStr s | Some i \<Rightarrow> JNum (int_str i))
      else if kind_base kind = Bool then (if s = ''true'' then JBool True else if s = ''false'' then JBool False else JStr s)
      else if kind_base kind = Json_Kind then (case ca_read api s of None \<Rightarrow> JStr s | Some v \<Rightarrow> v)
      else JStr s)"

subsection \<open>Binding and reading back\<close>

definition to_sql :: "cell_api \<Rightarrow> field_meta \<Rightarrow> json \<Rightarrow> string + sql_value" where
  "to_sql api meta v =
     (if v = JNull then Inr SNull
      else if fm_sealed_under meta \<noteq> None
      then map_sum id SText (ok_or (json_str v) ''a subject-scoped column stores ciphertext text'')
      else
        case kind_base (fm_kind meta) of
          Bool \<Rightarrow>
            map_sum id SInteger
              (ok_or (case json_bool v of Some b \<Rightarrow> Some (if b then 1 else 0) | None \<Rightarrow> json_i64 v) ''expected a boolean'')
        | I64 \<Rightarrow> map_sum id SInteger (ok_or (json_i64 v) ''expected an integer'')
        | Json_Kind \<Rightarrow> Inr (SText (ca_write api v))
        | Optional _ \<Rightarrow> Inl ''panic: base() strips Optional''
        | _ \<Rightarrow> map_sum id SText (ok_or (json_str v) ''expected a string''))"

definition coerce_value :: "cell_api \<Rightarrow> field_kind \<Rightarrow> string \<Rightarrow> string + sql_value" where
  "coerce_value api kind raw =
     (case kind_base kind of
        Bool \<Rightarrow>
          if raw = ''true'' \<or> raw = ''1'' then Inr (SInteger 1)
          else if raw = ''false'' \<or> raw = ''0'' then Inr (SInteger 0)
          else Inl ''expected a boolean (`true` or `false`)''
      | I64 \<Rightarrow> map_sum id SInteger (ok_or (parse_i64 raw) ''expected an integer'')
      | Timestamp \<Rightarrow>
          map_sum id SText (ok_or (Option.bind (ca_timestamp api raw) (stored_timestamp api))
            ''expected an RFC 3339 timestamp with an offset'')
      | _ \<Rightarrow> Inr (SText raw))"

definition bind_or_text :: "cell_api \<Rightarrow> field_kind \<Rightarrow> string \<Rightarrow> sql_value" where
  "bind_or_text api kind raw = (case coerce_value api kind raw of Inl _ \<Rightarrow> SText raw | Inr v \<Rightarrow> v)"

definition from_sql :: "cell_api \<Rightarrow> field_meta \<Rightarrow> sql_value \<Rightarrow> json" where
  "from_sql api meta v =
     (if fm_sealed_under meta \<noteq> None then (case v of SText s \<Rightarrow> JStr s | _ \<Rightarrow> JNull)
      else
        case v of
          SNull \<Rightarrow> JNull
        | SInteger i \<Rightarrow> if kind_base (fm_kind meta) = Bool then JBool (i \<noteq> 0) else JNum (int_str i)
        | SReal number \<Rightarrow> number
        | SText s \<Rightarrow>
            (case kind_base (fm_kind meta) of
               Json_Kind \<Rightarrow> (case ca_read api s of None \<Rightarrow> JStr s | Some v \<Rightarrow> v)
             | Timestamp \<Rightarrow> JStr (case served_timestamp api s of None \<Rightarrow> s | Some t \<Rightarrow> t)
             | _ \<Rightarrow> JStr s)
        | SBlob \<Rightarrow> JNull)"

text \<open>A row as it is stored: the cells in the order of the declared fields.\<close>

type_synonym sql_row = "sql_value list"

definition row_to_json :: "cell_api \<Rightarrow> entity_def \<Rightarrow> sql_row \<Rightarrow> json" where
  "row_to_json api entity row =
     JObj (fold (\<lambda>((name, meta), cell) obj.
             let v = from_sql api meta cell in if v = JNull then obj else map_insert name v obj)
           (zip (en_fields entity) row) [])"

fun scalar_string :: "json \<Rightarrow> string option" where
  "scalar_string (JStr s) = Some s"
| "scalar_string (JNum number) = Some number"
| "scalar_string _ = None"

subsection \<open>Byte order is the instant's order\<close>

lemma length_nat_str: "n < 10 ^ width \<Longrightarrow> 0 < width \<Longrightarrow> length (nat_str n) \<le> width"
proof (induction width arbitrary: n)
  case (Suc w)
  show ?case
  proof (cases "n < 10")
    case True
    then show ?thesis by (simp add: nat_str.simps [of n])
  next
    case False
    then have "0 < w" using Suc.prems by (cases w) auto
    then have "length (nat_str (n div 10)) \<le> w" using Suc.prems(1) by (intro Suc.IH) auto
    then show ?thesis using False by (simp add: nat_str.simps [of n])
  qed
qed simp

lemma padded_length: "n < 10 ^ width \<Longrightarrow> 0 < width \<Longrightarrow> length (padded width n) = width"
  using length_nat_str [of n width] by (simp add: padded_def)

lemma padded_Suc:
  assumes "n < 10 ^ Suc w" and "0 < w"
  shows "padded (Suc w) n = padded w (n div 10) @ [digit_char (n mod 10)]"
proof (cases "n < 10")
  case True
  have zero: "digit_char 0 = CHR ''0''" by code_simp
  have one: "nat_str n = [digit_char n]" "nat_str 0 = [CHR ''0'']"
    using True by (simp_all add: nat_str.simps [of n] nat_str.simps [of 0] zero)
  have "replicate w CHR ''0'' = replicate (w - 1) CHR ''0'' @ [CHR ''0'']"
    using assms(2) by (cases w) (simp_all add: replicate_append_same)
  then show ?thesis using True by (simp add: padded_def one)
next
  case False
  then show ?thesis by (simp add: padded_def nat_str.simps [of n])
qed

lemma digit_less: "a < 10 \<Longrightarrow> b < 10 \<Longrightarrow> digit_char a < digit_char b \<longleftrightarrow> a < b"
  using of_char_digit [of a] of_char_digit [of b] by (simp add: less_char_def)

lemma append_less:
  fixes xs ys :: string
  assumes "length xs = length ys"
  shows "xs @ as < ys @ bs \<longleftrightarrow> xs < ys \<or> xs = ys \<and> as < bs"
  using assms by (induction xs ys rule: list_induct2) auto

lemma padded_less:
  "0 < width \<Longrightarrow> a < 10 ^ width \<Longrightarrow> b < 10 ^ width \<Longrightarrow> padded width a < padded width b \<longleftrightarrow> a < b"
proof (induction width arbitrary: a b)
  case (Suc w)
  show ?case
  proof (cases "w = 0")
    case True
    then show ?thesis using Suc.prems by (simp add: padded_def nat_str.simps [of a] nat_str.simps [of b] digit_less)
  next
    case False
    then have w: "0 < w" by simp
    have small: "a div 10 < 10 ^ w" "b div 10 < 10 ^ w" using Suc.prems by auto
    have "padded (Suc w) a < padded (Suc w) b \<longleftrightarrow>
        padded w (a div 10) < padded w (b div 10) \<or> padded w (a div 10) = padded w (b div 10) \<and> digit_char (a mod 10) < digit_char (b mod 10)"
      using padded_length [OF small(1) w] padded_length [OF small(2) w] Suc.prems w
      by (simp add: padded_Suc append_less)
    also have "padded w (a div 10) = padded w (b div 10) \<longleftrightarrow> a div 10 = b div 10"
      using Suc.IH [OF w small] Suc.IH [OF w small(2) small(1)] by (metis less_irrefl linorder_neqE)
    finally have "padded (Suc w) a < padded (Suc w) b \<longleftrightarrow> a div 10 < b div 10 \<or> a div 10 = b div 10 \<and> a mod 10 < b mod 10"
      using Suc.IH [OF w small] by (simp add: digit_less)
    also have "\<dots> \<longleftrightarrow> 10 * (a div 10) + a mod 10 < 10 * (b div 10) + b mod 10"
      using mod_less_divisor [of 10 a] mod_less_divisor [of 10 b] by linarith
    finally show ?thesis by simp
  qed
qed simp

text \<open>What the calendar promises: fields of fixed width, and civil time in the order of instants.\<close>

definition civil_fields :: "civil \<Rightarrow> nat list" where
  "civil_fields c = [cv_year c, cv_month c, cv_day c, cv_hour c, cv_minute c, cv_second c, cv_micros c]"

definition civil_ok :: "cell_api \<Rightarrow> bool" where
  "civil_ok api \<longleftrightarrow>
     (\<forall>m c. ca_civil api m = Some c \<longrightarrow> cv_year c < 10000 \<and> cv_month c < 100 \<and> cv_day c < 100 \<and> cv_hour c < 100 \<and>
        cv_minute c < 100 \<and> cv_second c < 100 \<and> cv_micros c < 1000000) \<and>
     (\<forall>m n c d. ca_civil api m = Some c \<and> ca_civil api n = Some d \<longrightarrow> (m < n \<longleftrightarrow> civil_fields c < civil_fields d))"

lemma padded_eq: "0 < width \<Longrightarrow> a < 10 ^ width \<Longrightarrow> b < 10 ^ width \<Longrightarrow> padded width a = padded width b \<longleftrightarrow> a = b"
  using padded_less [of width a b] padded_less [of width b a] by (metis less_irrefl linorder_neqE)

lemma padded_append_less:
  assumes "0 < width" and "a < 10 ^ width" and "b < 10 ^ width"
  shows "padded width a @ c # as < padded width b @ c # bs \<longleftrightarrow> a < b \<or> a = b \<and> as < bs"
  using assms by (simp add: append_less padded_length padded_less padded_eq)

text \<open>The bytes of two stored timestamps compare as their instants do, whatever fractions they have.\<close>

lemma stored_timestamps_compare_as_time:
  assumes "civil_ok api" and "stored_timestamp api m = Some s" and "stored_timestamp api n = Some t"
  shows "s < t \<longleftrightarrow> m < n"
proof -
  obtain c d where c: "ca_civil api m = Some c" and d: "ca_civil api n = Some d"
    using assms(2,3) by (auto simp: stored_timestamp_def)
  have bounds: "cv_year x < 10 ^ 4" "cv_month x < 10 ^ 2" "cv_day x < 10 ^ 2" "cv_hour x < 10 ^ 2" "cv_minute x < 10 ^ 2"
      "cv_second x < 10 ^ 2" "cv_micros x < 10 ^ 6" if "x \<in> {c, d}" for x
    using that c d assms(1) unfolding civil_ok_def by auto
  have "s < t \<longleftrightarrow> civil_fields c < civil_fields d"
    using assms(2,3) c d bounds [of c] bounds [of d]
    by (auto simp: stored_timestamp_def civil_fields_def padded_append_less)
  also have "\<dots> \<longleftrightarrow> m < n" using assms(1) c d unfolding civil_ok_def by blast
  finally show ?thesis .
qed

end
