(* ===== verification/Read_Filter.thy ===== *)
theory Read_Filter
  imports Cells
begin

section \<open>What a read may ask (src/read_api.rs, src/server.rs)\<close>

text \<open>
  The filter, the ordering and the cursor of a scan: how a query string is read as one, which declared
  index serves it, and the refusals of \<open>read_scan\<close>.  A query string arrives as the pairs of a map, its
  names distinct; base64url and serde of a cursor are the fields of \<open>cursor_api\<close>.
\<close>

datatype bound = Inclusive | Exclusive

record scan_range =
  rg_lower :: "(bound \<times> string) option"
  rg_upper :: "(bound \<times> string) option"

record scan_filter =
  fl_equals :: "(string \<times> string) list"
  fl_range :: "(string \<times> scan_range) option"

record scan_order =
  or_index :: "string option"
  or_descending :: bool

record scan_cursor =
  cu_ordering :: string
  cu_values :: "string list"

record scan_query =
  qu_filter :: scan_filter
  qu_order :: scan_order
  qu_cursor :: "scan_cursor option"
  qu_limit :: nat

datatype access = Key_Access | Index_Access string

definition no_range :: scan_range where
  "no_range = \<lparr>rg_lower = None, rg_upper = None\<rparr>"

definition no_filter :: scan_filter where
  "no_filter = \<lparr>fl_equals = [], fl_range = None\<rparr>"

definition key_order :: scan_order where
  "key_order = \<lparr>or_index = None, or_descending = False\<rparr>"

definition query_all :: "nat \<Rightarrow> scan_query" where
  "query_all limit = \<lparr>qu_filter = no_filter, qu_order = key_order, qu_cursor = None, qu_limit = limit\<rparr>"

definition find_entity :: "entity_def list \<Rightarrow> string \<Rightarrow> entity_def option" where
  "find_entity entities name = find (\<lambda>entity. en_name entity = name) entities"

definition is_filterable :: "entity_def \<Rightarrow> string \<Rightarrow> bool" where
  "is_filterable entity field \<longleftrightarrow> field \<in> set (filterable_fields entity)"

fun bound_operator :: "bound \<Rightarrow> bool \<Rightarrow> string" where
  "bound_operator Inclusive True = ''>=''"
| "bound_operator Exclusive True = ''>''"
| "bound_operator Inclusive False = ''<=''"
| "bound_operator Exclusive False = ''<''"

definition RANGE_OPERATORS :: "(string \<times> bool \<times> bound) list" where
  "RANGE_OPERATORS =
     [(''gte'', True, Inclusive), (''gt'', True, Exclusive), (''lte'', False, Inclusive), (''lt'', False, Exclusive)]"

definition opt_list :: "'a option \<Rightarrow> 'a list" where
  "opt_list x = (case x of None \<Rightarrow> [] | Some y \<Rightarrow> [y])"

definition range_bounds :: "scan_range \<Rightarrow> (bound \<times> string) list" where
  "range_bounds r = opt_list (rg_lower r) @ opt_list (rg_upper r)"

definition filter_is_empty :: "scan_filter \<Rightarrow> bool" where
  "filter_is_empty fl \<longleftrightarrow> fl_equals fl = [] \<and> fl_range fl = None"

definition range_column :: "scan_filter \<Rightarrow> string option" where
  "range_column fl = map_option fst (fl_range fl)"

definition filter_columns :: "scan_filter \<Rightarrow> string list" where
  "filter_columns fl = map fst (fl_equals fl) @ opt_list (range_column fl)"

subsection \<open>The index that serves\<close>

definition index_named :: "entity_def \<Rightarrow> string \<Rightarrow> index_def option" where
  "index_named entity name = find (\<lambda>ix. ix_name ix = name) (en_indexes entity)"

definition serves :: "index_def \<Rightarrow> scan_filter \<Rightarrow> bool" where
  "serves ix fl \<longleftrightarrow>
     (let equals = map fst (fl_equals fl); n = length equals in
      n \<le> length (ix_columns ix) \<and>
      (\<forall>c \<in> set equals. c \<in> set (take n (ix_columns ix))) \<and>
      (case range_column fl of
         None \<Rightarrow> True
       | Some c \<Rightarrow> n < length (ix_columns ix) \<and> ix_columns ix ! n = c))"

text \<open>\<open>min_by_key\<close> keeps the first of equal keys.\<close>

fun least_by :: "('a \<Rightarrow> nat) \<Rightarrow> 'a list \<Rightarrow> 'a option" where
  "least_by f [] = None"
| "least_by f (x # xs) =
     (case least_by f xs of None \<Rightarrow> Some x | Some y \<Rightarrow> if f y < f x then Some y else Some x)"

definition choose_for_key_order :: "entity_def \<Rightarrow> scan_filter \<Rightarrow> access option" where
  "choose_for_key_order entity fl =
     (if (\<forall>c \<in> set (map fst (fl_equals fl)). c = en_key entity) \<and>
         (case range_column fl of None \<Rightarrow> True | Some c \<Rightarrow> c = en_key entity)
      then Some Key_Access
      else map_option (\<lambda>ix. Index_Access (ix_name ix))
             (least_by (\<lambda>ix. length (ix_columns ix)) (filter (\<lambda>ix. serves ix fl) (en_indexes entity))))"

definition choose_index :: "entity_def \<Rightarrow> scan_filter \<Rightarrow> scan_order \<Rightarrow> access option" where
  "choose_index entity fl order =
     (case or_index order of
        Some name \<Rightarrow>
          (case index_named entity name of
             None \<Rightarrow> None
           | Some ix \<Rightarrow> if serves ix fl then Some (Index_Access (ix_name ix)) else None)
      | None \<Rightarrow> choose_for_key_order entity fl)"

definition filter_context :: "string \<Rightarrow> string \<Rightarrow> string" where
  "filter_context field why = ''filter '' @ quoted field @ '': '' @ why"

definition check_value :: "cell_api \<Rightarrow> field_kind \<Rightarrow> string \<Rightarrow> string \<Rightarrow> string + unit" where
  "check_value api kind field v = map_err (filter_context field) (bind_res (coerce_value api kind v) (\<lambda>_. Inr ()))"

definition check_equal :: "cell_api \<Rightarrow> entity_def \<Rightarrow> string \<times> string \<Rightarrow> string + unit" where
  "check_equal api entity pair =
     (case column_meta entity (fst pair) of
        None \<Rightarrow> Inr ()
      | Some meta \<Rightarrow> check_value api (fm_kind meta) (fst pair) (snd pair))"

definition check_range :: "cell_api \<Rightarrow> entity_def \<Rightarrow> string \<times> scan_range \<Rightarrow> string + unit" where
  "check_range api entity rng =
     (case column_meta entity (fst rng) of
        None \<Rightarrow> Inr ()
      | Some meta \<Rightarrow>
          if \<not> is_comparable (kind_base (fm_kind meta))
          then Inl (''filter '' @ quoted (fst rng) @ '' is '' @ describe (fm_kind meta) @
                 '', which has no order a range could use; filter it for equality instead'')
          else bind_res (traverse (\<lambda>b. check_value api (fm_kind meta) (fst rng) (snd b)) (range_bounds (snd rng)))
                 (\<lambda>_. Inr ()))"

definition check_filter :: "cell_api \<Rightarrow> entity_def \<Rightarrow> scan_filter \<Rightarrow> string + unit" where
  "check_filter api entity fl =
     bind_res (traverse (check_equal api entity) (fl_equals fl)) (\<lambda>_.
       case fl_range fl of None \<Rightarrow> Inr () | Some rng \<Rightarrow> check_range api entity rng)"

subsection \<open>Orderings\<close>

definition order_token :: "entity_def \<Rightarrow> scan_order \<Rightarrow> string" where
  "order_token entity order =
     (if or_descending order then ''-'' else []) @ (case or_index order of None \<Rightarrow> en_key entity | Some name \<Rightarrow> name)"

definition order_columns :: "entity_def \<Rightarrow> scan_order \<Rightarrow> string list" where
  "order_columns entity order =
     (case or_index order of
        None \<Rightarrow> [en_key entity]
      | Some name \<Rightarrow>
          (case index_named entity name of None \<Rightarrow> [en_key entity] | Some ix \<Rightarrow> index_columns entity ix))"

definition parse_order :: "entity_def \<Rightarrow> string \<Rightarrow> string + scan_order" where
  "parse_order entity raw =
     (let (descending, name) = (case raw of c # rest \<Rightarrow> if c = CHR ''-'' then (True, rest) else (False, raw) | [] \<Rightarrow> (False, raw))
      in if list_ex (\<lambda>ix. ix_name ix = name) (en_indexes entity)
         then Inr \<lparr>or_index = Some name, or_descending = descending\<rparr>
         else if name = en_key entity then Inr \<lparr>or_index = None, or_descending = descending\<rparr>
         else Inl (quoted name @ '' is not an ordering of entity '' @ quoted (en_name entity) @ ''; order by one of '' @
                joined '', '' (map ix_name (en_indexes entity) @ [en_key entity]) @
                '', each optionally prefixed with `-` to reverse it''))"

definition ordering_column_problem :: "entity_def \<Rightarrow> index_def \<Rightarrow> string \<Rightarrow> string option" where
  "ordering_column_problem entity ix column =
     (let why = ''index '' @ quoted (ix_name ix) @ '' cannot order rows: '' in
      case column_meta entity column of
        None \<Rightarrow> Some (why @ ''it names '' @ quoted column @ '', which entity '' @ quoted (en_name entity) @ '' does not declare'')
      | Some meta \<Rightarrow>
          if meta_nullable meta
          then Some (why @ quoted column @ '' is optional, and a row-value comparison against NULL matches nothing, so a page boundary would drop every row whose '' @
                 quoted column @ '' is absent. It stays filterable.'')
          else if \<not> is_comparable (kind_base (fm_kind meta))
          then Some (why @ quoted column @ '' is '' @ describe (fm_kind meta) @
                 '', which has no order an ordering could use. It stays filterable.'')
          else None)"

definition ordering_problem :: "entity_def \<Rightarrow> index_def \<Rightarrow> string option" where
  "ordering_problem entity ix = first_some (ordering_column_problem entity ix) (ix_columns ix)"

subsection \<open>Reading a query string\<close>

record filter_problem =
  fp_code :: string
  fp_message :: string

definition unindexed :: "string \<Rightarrow> filter_problem" where
  "unindexed message = \<lparr>fp_code = ''unindexed_filter'', fp_message = message\<rparr>"

definition invalid :: "string \<Rightarrow> filter_problem" where
  "invalid message = \<lparr>fp_code = ''invalid_input'', fp_message = message\<rparr>"

definition range_operator_list :: string where
  "range_operator_list = joined '', '' (map (\<lambda>(name, _). CHR ''.'' # name) RANGE_OPERATORS)"

definition split_dot :: "string \<Rightarrow> (string \<times> string) option" where
  "split_dot name =
     (case dropWhile (\<lambda>c. c \<noteq> CHR ''.'') name of
        [] \<Rightarrow> None
      | _ # rest \<Rightarrow> Some (takeWhile (\<lambda>c. c \<noteq> CHR ''.'') name, rest))"

definition parse_range ::
  "scan_filter \<Rightarrow> string \<Rightarrow> string \<Rightarrow> string \<Rightarrow> filter_problem + scan_filter" where
  "parse_range fl column operator v =
     (case find (\<lambda>(name, _). name = operator) RANGE_OPERATORS of
        None \<Rightarrow>
          Inl (invalid (''unknown filter operator `.'' @ operator @ ''`; the range operators are '' @ range_operator_list))
      | Some (_, lower, b) \<Rightarrow>
          (let (over, r) = (case fl_range fl of None \<Rightarrow> (column, no_range) | Some rng \<Rightarrow> rng) in
           if over \<noteq> column
           then Inl (unindexed (''a scan ranges over one column, and '' @ quoted over @ '' and '' @ quoted column @
                  '' are two; range over whichever comes later in the index and filter the other for equality''))
           else if (if lower then rg_lower r else rg_upper r) \<noteq> None
           then Inl (invalid (''filter '' @ quoted column @ '' has two '' @ (if lower then ''lower'' else ''upper'') @ '' bounds''))
           else Inr (fl\<lparr>fl_range := Some (over,
                  if lower then r\<lparr>rg_lower := Some (b, v)\<rparr> else r\<lparr>rg_upper := Some (b, v)\<rparr>)\<rparr>)))"

definition parse_param :: "entity_def \<Rightarrow> scan_filter \<Rightarrow> string \<times> string \<Rightarrow> filter_problem + scan_filter" where
  "parse_param entity fl param =
     (let (column, operator) =
            (case split_dot (fst param) of Some (column, operator) \<Rightarrow> (column, Some operator) | None \<Rightarrow> (fst param, None))
      in if \<not> is_filterable entity column
         then Inl (unindexed
                (if column \<in> set (map fst (en_fields entity))
                 then ''filter field '' @ quoted column @ '' is not indexed; declare an index on it, or on it and the columns it is asked with''
                 else ''filter field '' @ quoted column @ '' is not a column of entity '' @ quoted (en_name entity)))
         else
           case operator of
             None \<Rightarrow> Inr (fl\<lparr>fl_equals := fl_equals fl @ [(column, snd param)]\<rparr>)
           | Some operator \<Rightarrow> parse_range fl column operator (snd param))"

primrec parse_params :: "entity_def \<Rightarrow> scan_filter \<Rightarrow> (string \<times> string) list \<Rightarrow> filter_problem + scan_filter" where
  "parse_params entity fl [] = Inr fl"
| "parse_params entity fl (param # params) = bind_res (parse_param entity fl param) (\<lambda>fl. parse_params entity fl params)"

definition parse_filter :: "entity_def \<Rightarrow> (string \<times> string) list \<Rightarrow> filter_problem + scan_filter" where
  "parse_filter entity params =
     bind_res (parse_params entity no_filter params) (\<lambda>fl.
       case fl_range fl of
         None \<Rightarrow> Inr fl
       | Some (over, _) \<Rightarrow>
           if over \<in> set (map fst (fl_equals fl))
           then Inl (invalid (''filter '' @ quoted over @ '' is given as both an equality and a range''))
           else Inr fl)"

definition no_index_for :: "entity_def \<Rightarrow> scan_filter \<Rightarrow> scan_order \<Rightarrow> string" where
  "no_index_for entity fl order =
     (let asked = joined '', '' (filter_columns fl) in
      case or_index order of
        Some name \<Rightarrow>
          ''filter on ('' @ asked @ '') is not a prefix of '' @ quoted name @ '' ('' @
          (case index_named entity name of None \<Rightarrow> [] | Some ix \<Rightarrow> joined '', '' (ix_columns ix)) @
          ''), and `order_by='' @ order_token entity order @
          ''` asks for the rows in that index's order, so no other index can serve it. Filter on a prefix of '' @
          quoted name @ '', or drop the ordering.''
      | None \<Rightarrow>
          ''filter on ('' @ asked @ '') is not a prefix of any declared index: '' @
          (if en_indexes entity = []
           then quoted (en_name entity) @ '' declares no index, so its key '' @ quoted (en_key entity) @ '' is the only column a filter can reach''
           else quoted (en_name entity) @ '' declares '' @
             joined '', '' (map (\<lambda>ix. ''index ('' @ joined '', '' (ix_columns ix) @ '')'') (en_indexes entity))) @
          ''. A filter is equality on an index's leading columns, optionally with a range on the column after them.'')"

subsection \<open>The checks of a scan\<close>

record cursor_api =
  cr_encode :: "scan_cursor \<Rightarrow> string"
  cr_decode :: "string \<Rightarrow> scan_cursor option"

definition DEFAULT_LIMIT :: nat where
  "DEFAULT_LIMIT = 50"

definition MAX_LIMIT :: nat where
  "MAX_LIMIT = 500"

definition parse_u64 :: "string \<Rightarrow> nat option" where
  "parse_u64 s =
     (case parse_digits (case s of c # cs \<Rightarrow> if c = CHR ''+'' then cs else s | [] \<Rightarrow> []) of
        None \<Rightarrow> None
      | Some n \<Rightarrow> if n < 2 ^ 64 then Some n else None)"

record scan_params =
  sp_raw :: "(string \<times> string) list"
  sp_limit :: nat
  sp_cursor :: "string option"
  sp_order_by :: "string option"

definition scan_param :: "scan_params \<Rightarrow> string \<times> string \<Rightarrow> filter_problem + scan_params" where
  "scan_param sp param =
     (if fst param = ''limit''
      then (case parse_u64 (snd param) of
              Some n \<Rightarrow> Inr (sp\<lparr>sp_limit := max 1 (min n MAX_LIMIT)\<rparr>)
            | None \<Rightarrow> Inl (invalid ''limit must be a positive integer''))
      else if fst param = ''cursor'' then Inr (sp\<lparr>sp_cursor := Some (snd param)\<rparr>)
      else if fst param = ''order_by'' then Inr (sp\<lparr>sp_order_by := Some (snd param)\<rparr>)
      else if fst param \<in> set RESERVED_QUERY_PARAMS then Inr sp
      else Inr (sp\<lparr>sp_raw := sp_raw sp @ [param]\<rparr>))"

primrec scan_params_of :: "scan_params \<Rightarrow> (string \<times> string) list \<Rightarrow> filter_problem + scan_params" where
  "scan_params_of sp [] = Inr sp"
| "scan_params_of sp (param # params) = bind_res (scan_param sp param) (\<lambda>sp. scan_params_of sp params)"

definition no_params :: scan_params where
  "no_params = \<lparr>sp_raw = [], sp_limit = DEFAULT_LIMIT, sp_cursor = None, sp_order_by = None\<rparr>"

definition scan_order_of :: "entity_def \<Rightarrow> string option \<Rightarrow> filter_problem + scan_order" where
  "scan_order_of entity order_by =
     (case order_by of None \<Rightarrow> Inr key_order | Some raw \<Rightarrow> map_err invalid (parse_order entity raw))"

definition order_refused :: "entity_def \<Rightarrow> scan_order \<Rightarrow> string option" where
  "order_refused entity order =
     (case Option.bind (or_index order) (index_named entity) of
        None \<Rightarrow> None
      | Some ix \<Rightarrow> ordering_problem entity ix)"

definition check_cursor :: "entity_def \<Rightarrow> scan_order \<Rightarrow> scan_cursor \<Rightarrow> filter_problem + unit" where
  "check_cursor entity order cursor =
     (let taken = order_token entity order; width = length (order_columns entity order) in
      if cu_ordering cursor \<noteq> taken
      then Inl (invalid (''this cursor was taken over `order_by='' @ cu_ordering cursor @ ''` and this request asks for `order_by='' @
             taken @ ''`; start the new ordering from its first page''))
      else if length (cu_values cursor) \<noteq> width
      then Inl (invalid (''this cursor carries '' @ nat_str (length (cu_values cursor)) @ '' value(s) and `order_by='' @ taken @
             ''` now orders on '' @ nat_str width @ ''; the entity's declaration changed under it, so start from its first page''))
      else Inr ())"

definition scan_cursor_of :: "cursor_api \<Rightarrow> entity_def \<Rightarrow> scan_order \<Rightarrow> string option \<Rightarrow> filter_problem + scan_cursor option" where
  "scan_cursor_of capi entity order raw =
     (case raw of
        None \<Rightarrow> Inr None
      | Some raw \<Rightarrow>
          bind_res (ok_or (cr_decode capi raw) (invalid ''cursor is not valid'')) (\<lambda>cursor.
          bind_res (check_cursor entity order cursor) (\<lambda>_. Inr (Some cursor))))"

definition scan_request ::
  "cell_api \<Rightarrow> cursor_api \<Rightarrow> entity_def \<Rightarrow> (string \<times> string) list \<Rightarrow> filter_problem + scan_query" where
  "scan_request api capi entity params =
     bind_res (scan_params_of no_params params) (\<lambda>sp.
     bind_res (parse_filter entity (sort (sp_raw sp))) (\<lambda>fl.
     bind_res (scan_order_of entity (sp_order_by sp)) (\<lambda>order.
     case order_refused entity order of
       Some why \<Rightarrow> Inl (invalid why)
     | None \<Rightarrow>
         if choose_index entity fl order = None then Inl (unindexed (no_index_for entity fl order))
         else
           bind_res (map_err invalid (check_filter api entity fl)) (\<lambda>_.
           bind_res (scan_cursor_of capi entity order (sp_cursor sp)) (\<lambda>cursor.
             Inr \<lparr>qu_filter = fl, qu_order = order, qu_cursor = cursor, qu_limit = sp_limit sp\<rparr>)))))"

end
