(* ===== verification/Read_Model.thy ===== *)
theory Read_Model
  imports Read_Filter
begin

section \<open>The read model of a projector (src/read_model.rs)\<close>

text \<open>
  One table per entity, a row the list of its cells in the order of the declared fields, beside the
  checkpoint and the definition hash.  A transaction is a value of the state that replaces it on commit.
  The statements are SQLite's: \<open>INSERT OR REPLACE\<close>, \<open>UPDATE\<close> and \<open>DELETE\<close> by key with its constraints,
  and a \<open>SELECT\<close> with its filter, row-value comparison, ordering and limit.  A table of another shape
  than its entity is not modelled: a projector is read only once its model has the declared shape.
\<close>

record read_model =
  rm_format :: int
  rm_position :: int
  rm_definition :: "string option"
  rm_tables :: "string \<Rightarrow> sql_row list option"
  rm_indexes :: "string \<Rightarrow> string list option"

datatype entity_op = Put string | Patch string string | Delete string

definition FORMAT :: int where
  "FORMAT = 1"

definition empty_model :: read_model where
  "empty_model = \<lparr>rm_format = FORMAT, rm_position = 0, rm_definition = None, rm_tables = Map.empty, rm_indexes = Map.empty\<rparr>"

subsection \<open>Opening\<close>

definition reformat :: "read_model \<Rightarrow> read_model" where
  "reformat rm = (if rm_format rm = FORMAT then rm else empty_model)"

definition drop_reshaped_indexes :: "entity_def \<Rightarrow> read_model \<Rightarrow> read_model" where
  "drop_reshaped_indexes entity rm =
     fold (\<lambda>ix rm.
        let name = index_name entity (ix_name ix) in
        case rm_indexes rm name of
          None \<Rightarrow> rm
        | Some live \<Rightarrow> if live = index_columns entity ix then rm else rm\<lparr>rm_indexes := (rm_indexes rm)(name := None)\<rparr>)
       (en_indexes entity) rm"

definition create_table :: "entity_def \<Rightarrow> read_model \<Rightarrow> read_model" where
  "create_table entity rm =
     (if rm_tables rm (en_name entity) = None then rm\<lparr>rm_tables := (rm_tables rm)(en_name entity \<mapsto> [])\<rparr> else rm)"

definition create_indexes :: "entity_def \<Rightarrow> read_model \<Rightarrow> read_model" where
  "create_indexes entity rm =
     fold (\<lambda>ix rm.
        let name = index_name entity (ix_name ix) in
        if rm_indexes rm name = None then rm\<lparr>rm_indexes := (rm_indexes rm)(name \<mapsto> index_columns entity ix)\<rparr> else rm)
       (en_indexes entity) rm"

definition open_model :: "entity_def list \<Rightarrow> read_model \<Rightarrow> read_model" where
  "open_model entities rm =
     fold (\<lambda>entity rm. create_indexes entity (drop_reshaped_indexes entity (create_table entity rm))) entities (reformat rm)"

subsection \<open>The checkpoint\<close>

definition read_checkpoint :: "read_model \<Rightarrow> nat" where
  "read_checkpoint rm = as_u64 (rm_position rm)"

definition write_checkpoint :: "nat \<Rightarrow> read_model \<Rightarrow> read_model" where
  "write_checkpoint position rm = rm\<lparr>rm_position := as_i64 position\<rparr>"

definition set_definition :: "string \<Rightarrow> read_model \<Rightarrow> read_model" where
  "set_definition hash rm = rm\<lparr>rm_definition := Some hash\<rparr>"

subsection \<open>Comparisons\<close>

definition cell_of :: "entity_def \<Rightarrow> sql_row \<Rightarrow> string \<Rightarrow> sql_value" where
  "cell_of entity row name = (case map_of (zip (map fst (en_fields entity)) row) name of None \<Rightarrow> SNull | Some cell \<Rightarrow> cell)"

definition row_key :: "entity_def \<Rightarrow> sql_row \<Rightarrow> sql_value" where
  "row_key entity row = cell_of entity row (en_key entity)"

text \<open>SQLite orders NULL before integers, integers before texts, and texts by their bytes.\<close>

fun cell_rank :: "sql_value \<Rightarrow> nat \<times> int \<times> string" where
  "cell_rank SNull = (0, 0, [])"
| "cell_rank (SInteger i) = (1, i, [])"
| "cell_rank (SReal _) = (1, 0, [])"
| "cell_rank (SText s) = (2, 0, s)"
| "cell_rank SBlob = (3, 0, [])"

definition compared :: "cell_api \<Rightarrow> field_meta \<Rightarrow> sql_value \<Rightarrow> sql_value" where
  "compared api meta v =
     (case v of
        SText s \<Rightarrow>
          if field_sql_type meta = ''INTEGER'' then (case ca_numeric api s of None \<Rightarrow> v | Some i \<Rightarrow> SInteger i) else v
      | SInteger i \<Rightarrow> if field_sql_type meta = ''TEXT'' then SText (int_str i) else v
      | _ \<Rightarrow> v)"

definition bind_column :: "cell_api \<Rightarrow> entity_def \<Rightarrow> string \<Rightarrow> string \<Rightarrow> sql_value" where
  "bind_column api entity column raw =
     (case column_meta entity column of None \<Rightarrow> SText raw | Some meta \<Rightarrow> bind_or_text api (fm_kind meta) raw)"

definition bound_value :: "cell_api \<Rightarrow> entity_def \<Rightarrow> string \<Rightarrow> string \<Rightarrow> sql_value" where
  "bound_value api entity column raw =
     (let v = bind_column api entity column raw in
      case column_meta entity column of None \<Rightarrow> v | Some meta \<Rightarrow> compared api meta v)"

definition sql_eq :: "sql_value \<Rightarrow> sql_value \<Rightarrow> bool" where
  "sql_eq x y \<longleftrightarrow> x \<noteq> SNull \<and> y \<noteq> SNull \<and> cell_rank x = cell_rank y"

definition sql_less :: "sql_value \<Rightarrow> sql_value \<Rightarrow> bool" where
  "sql_less x y \<longleftrightarrow> x \<noteq> SNull \<and> y \<noteq> SNull \<and> cell_rank x < cell_rank y"

fun sql_bound :: "bound \<Rightarrow> bool \<Rightarrow> sql_value \<Rightarrow> sql_value \<Rightarrow> bool" where
  "sql_bound Inclusive True cell v \<longleftrightarrow> sql_less v cell \<or> sql_eq v cell"
| "sql_bound Exclusive True cell v \<longleftrightarrow> sql_less v cell"
| "sql_bound Inclusive False cell v \<longleftrightarrow> sql_less cell v \<or> sql_eq cell v"
| "sql_bound Exclusive False cell v \<longleftrightarrow> sql_less cell v"

text \<open>A row-value comparison decides at the first unequal component, and a NULL before that decides nothing.\<close>

fun row_after :: "bool \<Rightarrow> sql_value list \<Rightarrow> sql_value list \<Rightarrow> bool" where
  "row_after descending (x # xs) (y # ys) \<longleftrightarrow>
     (if descending then sql_less x y else sql_less y x) \<or> sql_eq x y \<and> row_after descending xs ys"
| "row_after descending _ _ \<longleftrightarrow> False"

subsection \<open>Writing a row\<close>

definition column_context :: "string \<Rightarrow> string \<Rightarrow> string" where
  "column_context name why = ''column '' @ quoted name @ '': '' @ why"

definition put_cell :: "cell_api \<Rightarrow> json \<Rightarrow> string \<times> field_meta \<Rightarrow> string + sql_value" where
  "put_cell api obj f =
     map_err (column_context (fst f))
       (to_sql api (snd f) (case json_get obj (fst f) of None \<Rightarrow> JNull | Some v \<Rightarrow> v))"

definition not_null_error :: "entity_def \<Rightarrow> sql_row \<Rightarrow> string option" where
  "not_null_error entity row =
     first_some (\<lambda>((name, meta), cell). if cell = SNull \<and> \<not> meta_nullable meta
         then Some (''NOT NULL constraint failed: '' @ en_name entity @ ''.'' @ name) else None) (zip (en_fields entity) row)"

definition rows_of :: "entity_def \<Rightarrow> read_model \<Rightarrow> string + sql_row list" where
  "rows_of entity rm = ok_or (rm_tables rm (en_name entity)) (''no such table: '' @ en_name entity)"

definition with_rows :: "entity_def \<Rightarrow> sql_row list \<Rightarrow> read_model \<Rightarrow> read_model" where
  "with_rows entity rows rm = rm\<lparr>rm_tables := (rm_tables rm)(en_name entity \<mapsto> rows)\<rparr>"

definition insert_or_replace :: "entity_def \<Rightarrow> sql_row \<Rightarrow> sql_row list \<Rightarrow> sql_row list" where
  "insert_or_replace entity row rows = filter (\<lambda>r. \<not> sql_eq (row_key entity r) (row_key entity row)) rows @ [row]"

definition apply_put :: "cell_api \<Rightarrow> entity_def \<Rightarrow> string \<Rightarrow> read_model \<Rightarrow> string + read_model" where
  "apply_put api entity row_json rm =
     bind_res (ok_or (ca_read api row_json) ''not JSON'') (\<lambda>obj.
     case obj of
       JObj _ \<Rightarrow>
         bind_res (traverse (put_cell api obj) (en_fields entity)) (\<lambda>row.
         bind_res (rows_of entity rm) (\<lambda>rows.
         case not_null_error entity row of
           Some why \<Rightarrow> Inl why
         | None \<Rightarrow> Inr (with_rows entity (insert_or_replace entity row rows) rm)))
     | _ \<Rightarrow> Inl ''put row is not a JSON object'')"

definition patch_cell :: "cell_api \<Rightarrow> json \<Rightarrow> string \<times> field_meta \<Rightarrow> string + (string \<times> sql_value) option" where
  "patch_cell api obj f =
     (case json_get obj (fst f) of
        None \<Rightarrow> Inr None
      | Some v \<Rightarrow> map_sum (column_context (fst f)) (\<lambda>cell. Some (fst f, cell)) (to_sql api (snd f) v))"

definition assign :: "entity_def \<Rightarrow> (string \<times> sql_value) list \<Rightarrow> sql_row \<Rightarrow> sql_row" where
  "assign entity changes row =
     map (\<lambda>(name, cell). case map_of changes name of None \<Rightarrow> cell | Some v \<Rightarrow> v) (zip (map fst (en_fields entity)) row)"

definition row_of_key :: "cell_api \<Rightarrow> entity_def \<Rightarrow> string \<Rightarrow> sql_row \<Rightarrow> bool" where
  "row_of_key api entity key row \<longleftrightarrow> sql_eq (row_key entity row) (bound_value api entity (en_key entity) key)"

definition update_rows ::
  "cell_api \<Rightarrow> entity_def \<Rightarrow> (string \<times> sql_value) list \<Rightarrow> string \<Rightarrow> sql_row list \<Rightarrow> string + sql_row list" where
  "update_rows api entity changes key rows =
     (let hit = filter (row_of_key api entity key) rows;
          kept = filter (\<lambda>r. \<not> row_of_key api entity key r) rows;
          changed = map (assign entity changes) hit in
      case first_some (not_null_error entity) changed of
        Some why \<Rightarrow> Inl why
      | None \<Rightarrow>
          if \<exists>r \<in> set changed. \<exists>k \<in> set kept. sql_eq (row_key entity r) (row_key entity k)
          then Inl (''UNIQUE constraint failed: '' @ en_name entity @ ''.'' @ en_key entity)
          else Inr (map (\<lambda>r. if row_of_key api entity key r then assign entity changes r else r) rows))"

definition apply_patch :: "cell_api \<Rightarrow> entity_def \<Rightarrow> string \<Rightarrow> string \<Rightarrow> read_model \<Rightarrow> string + read_model" where
  "apply_patch api entity key changes rm =
     bind_res (ok_or (ca_read api changes) ''not JSON'') (\<lambda>obj.
     case obj of
       JObj _ \<Rightarrow>
         bind_res (traverse (patch_cell api obj) (en_fields entity)) (\<lambda>cells.
         let assignments = concat (map opt_list cells) in
         if assignments = [] then Inr rm
         else
           bind_res (rows_of entity rm) (\<lambda>rows.
           bind_res (update_rows api entity assignments key rows) (\<lambda>rows. Inr (with_rows entity rows rm))))
     | _ \<Rightarrow> Inl ''patch changes are not a JSON object'')"

definition apply_delete :: "cell_api \<Rightarrow> entity_def \<Rightarrow> string \<Rightarrow> read_model \<Rightarrow> string + read_model" where
  "apply_delete api entity key rm =
     bind_res (rows_of entity rm) (\<lambda>rows. Inr (with_rows entity (filter (\<lambda>r. \<not> row_of_key api entity key r) rows) rm))"

fun apply_one :: "cell_api \<Rightarrow> entity_def \<Rightarrow> entity_op \<Rightarrow> read_model \<Rightarrow> string + read_model" where
  "apply_one api entity (Put row_json) rm = apply_put api entity row_json rm"
| "apply_one api entity (Patch key changes) rm = apply_patch api entity key changes rm"
| "apply_one api entity (Delete key) rm = apply_delete api entity key rm"

subsection \<open>Reading rows\<close>

definition count_rows :: "entity_def \<Rightarrow> read_model \<Rightarrow> string + nat" where
  "count_rows entity rm = map_sum id length (rows_of entity rm)"

definition get_row :: "cell_api \<Rightarrow> entity_def \<Rightarrow> string \<Rightarrow> read_model \<Rightarrow> string + json option" where
  "get_row api entity key rm =
     map_sum id (\<lambda>rows. map_option (row_to_json api entity) (find (row_of_key api entity key) rows)) (rows_of entity rm)"

definition range_holds :: "cell_api \<Rightarrow> entity_def \<Rightarrow> string \<times> scan_range \<Rightarrow> sql_row \<Rightarrow> bool" where
  "range_holds api entity rng row \<longleftrightarrow>
     (let cell = cell_of entity row (fst rng);
          holds = (\<lambda>lower b. case b of None \<Rightarrow> True
            | Some (kind, v) \<Rightarrow> sql_bound kind lower cell (bound_value api entity (fst rng) v)) in
      holds True (rg_lower (snd rng)) \<and> holds False (rg_upper (snd rng)))"

definition matches :: "cell_api \<Rightarrow> entity_def \<Rightarrow> scan_filter \<Rightarrow> sql_row \<Rightarrow> bool" where
  "matches api entity fl row \<longleftrightarrow>
     (\<forall>p \<in> set (fl_equals fl). sql_eq (cell_of entity row (fst p)) (bound_value api entity (fst p) (snd p))) \<and>
     (case fl_range fl of None \<Rightarrow> True | Some rng \<Rightarrow> range_holds api entity rng row)"

definition order_cells :: "entity_def \<Rightarrow> scan_order \<Rightarrow> sql_row \<Rightarrow> sql_value list" where
  "order_cells entity order row = map (cell_of entity row) (order_columns entity order)"

definition usable_cursor :: "entity_def \<Rightarrow> scan_query \<Rightarrow> string list option" where
  "usable_cursor entity query =
     (case qu_cursor query of
        None \<Rightarrow> None
      | Some cursor \<Rightarrow>
          if length (cu_values cursor) = length (order_columns entity (qu_order query)) then Some (cu_values cursor) else None)"

definition cursor_values :: "cell_api \<Rightarrow> entity_def \<Rightarrow> scan_query \<Rightarrow> sql_value list option" where
  "cursor_values api entity query =
     map_option (\<lambda>vs. map2 (bound_value api entity) (order_columns entity (qu_order query)) vs) (usable_cursor entity query)"

definition after_cursor :: "cell_api \<Rightarrow> entity_def \<Rightarrow> scan_query \<Rightarrow> sql_row \<Rightarrow> bool" where
  "after_cursor api entity query row \<longleftrightarrow>
     (case cursor_values api entity query of
        None \<Rightarrow> True
      | Some values \<Rightarrow> row_after (or_descending (qu_order query)) (order_cells entity (qu_order query) row) values)"

definition ordered_rows :: "entity_def \<Rightarrow> scan_order \<Rightarrow> sql_row list \<Rightarrow> sql_row list" where
  "ordered_rows entity order rows =
     (let sorted = sort_key (\<lambda>row. map cell_rank (order_cells entity order row)) rows in
      if or_descending order then rev sorted else sorted)"

definition index_pinned :: "entity_def \<Rightarrow> access \<Rightarrow> read_model \<Rightarrow> string + unit" where
  "index_pinned entity path rm =
     (case path of
        Key_Access \<Rightarrow> Inr ()
      | Index_Access name \<Rightarrow>
          if rm_indexes rm (index_name entity name) = None
          then Inl (''no such index: '' @ index_name entity name) else Inr ())"

definition mentioned :: "entity_def \<Rightarrow> scan_query \<Rightarrow> string list" where
  "mentioned entity query = filter_columns (qu_filter query) @ order_columns entity (qu_order query)"

definition select_rows :: "cell_api \<Rightarrow> entity_def \<Rightarrow> scan_query \<Rightarrow> read_model \<Rightarrow> string + sql_row list" where
  "select_rows api entity query rm =
     bind_res (ok_or (choose_index entity (qu_filter query) (qu_order query))
        (''no declared index on '' @ quoted (en_name entity) @ '' serves this filter'')) (\<lambda>path.
     bind_res (rows_of entity rm) (\<lambda>rows.
     bind_res (index_pinned entity path rm) (\<lambda>_.
     case find (\<lambda>c. column_meta entity c = None) (mentioned entity query) of
       Some c \<Rightarrow> Inl (''no such column: '' @ c)
     | None \<Rightarrow>
         Inr (take (qu_limit query)
           (ordered_rows entity (qu_order query)
             (filter (\<lambda>row. matches api entity (qu_filter query) row \<and> after_cursor api entity query row) rows))))))"

definition scan_rows :: "cell_api \<Rightarrow> entity_def \<Rightarrow> scan_query \<Rightarrow> read_model \<Rightarrow> string + json list" where
  "scan_rows api entity query rm = map_sum id (map (row_to_json api entity)) (select_rows api entity query rm)"

subsection \<open>The text of a scan\<close>

definition scan_clauses :: "entity_def \<Rightarrow> scan_query \<Rightarrow> string list" where
  "scan_clauses entity query =
     map (\<lambda>(column, _). quote_ident column @ '' = ?'') (fl_equals (qu_filter query)) @
     (case fl_range (qu_filter query) of
        None \<Rightarrow> []
      | Some (column, r) \<Rightarrow>
          map (\<lambda>(b, _). quote_ident column @ '' '' @ bound_operator b True @ '' ?'') (opt_list (rg_lower r)) @
          map (\<lambda>(b, _). quote_ident column @ '' '' @ bound_operator b False @ '' ?'') (opt_list (rg_upper r))) @
     (if usable_cursor entity query = None then []
      else
        (let ordering = order_columns entity (qu_order query) in
         [''('' @ joined '', '' (map quote_ident ordering) @ '') '' @
          (if or_descending (qu_order query) then ''<'' else ''>'') @ '' ('' @ joined '', '' (map (\<lambda>_. ''?'') ordering) @ '')'']))"

definition scan_sql :: "entity_def \<Rightarrow> scan_query \<Rightarrow> access \<Rightarrow> string" where
  "scan_sql entity query path =
     ''SELECT '' @ column_list entity @ '' FROM '' @ quote_ident (en_name entity) @
     (case path of Key_Access \<Rightarrow> [] | Index_Access name \<Rightarrow> '' INDEXED BY '' @ quote_ident (index_name entity name)) @
     (if scan_clauses entity query = [] then [] else '' WHERE '' @ joined '' AND '' (scan_clauses entity query)) @
     '' ORDER BY '' @
     joined '', '' (map (\<lambda>c. quote_ident c @ (if or_descending (qu_order query) then '' DESC'' else []))
       (order_columns entity (qu_order query))) @ '' LIMIT ?''"

definition filter_binds :: "cell_api \<Rightarrow> entity_def \<Rightarrow> scan_filter \<Rightarrow> sql_value list" where
  "filter_binds api entity fl =
     map (\<lambda>(column, v). bind_column api entity column v) (fl_equals fl) @
     (case fl_range fl of
        None \<Rightarrow> []
      | Some (column, r) \<Rightarrow> map (\<lambda>(_, v). bind_column api entity column v) (range_bounds r))"

definition cursor_binds :: "cell_api \<Rightarrow> entity_def \<Rightarrow> scan_query \<Rightarrow> sql_value list" where
  "cursor_binds api entity query =
     (case usable_cursor entity query of
        None \<Rightarrow> []
      | Some values \<Rightarrow> map2 (bind_column api entity) (order_columns entity (qu_order query)) values)"

definition scan_binds :: "cell_api \<Rightarrow> entity_def \<Rightarrow> scan_query \<Rightarrow> sql_value list" where
  "scan_binds api entity query =
     filter_binds api entity (qu_filter query) @ cursor_binds api entity query @ [SInteger (as_i64 (qu_limit query))]"

end
