(* ===== verification/Read_Page.thy ===== *)
theory Read_Page
  imports Read_Model Keystore
begin

section \<open>Serving rows (src/read_api.rs, src/server.rs)\<close>

text \<open>
  One row by key and one page of a scan: the cursor that resumes after a page, and the decryption of its
  sealed columns.  \<open>follow\<close> is a client that asks for the next page until there is none.
\<close>

subsection \<open>Decrypting a row\<close>

record revealed =
  rv_decrypted :: nat
  rv_stale :: nat

definition ks_context :: "string \<Rightarrow> 'a ks \<Rightarrow> 'a ks" where
  "ks_context why m s = (case m s of (r, s) \<Rightarrow> (map_err (\<lambda>e. why @ '': '' @ e) r, s))"

type_synonym members = "(string \<times> json) list"

definition remove_member :: "string \<Rightarrow> members \<Rightarrow> members" where
  "remove_member name obj = filter (\<lambda>(k, _). k \<noteq> name) obj"

definition decrypt_column ::
  "cell_api \<Rightarrow> key_world \<Rightarrow> string \<times> field_meta \<Rightarrow> members \<times> revealed \<Rightarrow> (members \<times> revealed) ks" where
  "decrypt_column api w f acc =
     (case (f, acc) of ((name, meta), (obj, tally)) \<Rightarrow>
      case fm_sealed_under meta of
        None \<Rightarrow> ret acc
      | Some seal \<Rightarrow>
          (case Option.bind (map_of obj name) json_str of
             None \<Rightarrow> ret acc
           | Some ciphertext \<Rightarrow>
               (case Option.bind (map_of obj (seal_id_field seal)) scalar_to_string of
                  None \<Rightarrow> ret (remove_member name obj, tally)
                | Some v \<Rightarrow>
                    bind_ks (ks_context (''decrypting column '' @ quoted name)
                       (row_decrypt w (seal_subject seal) v name ciphertext)) (\<lambda>plaintext.
                    case plaintext of
                      Some s \<Rightarrow>
                        ret (map_insert name (typed_from_string api (fm_kind meta) s) obj,
                             tally\<lparr>rv_decrypted := Suc (rv_decrypted tally)\<rparr>)
                    | None \<Rightarrow>
                        (\<lambda>s. ret (remove_member name obj,
                           if key_present s (seal_subject seal) v = Some True
                           then tally\<lparr>rv_stale := Suc (rv_stale tally)\<rparr> else tally) s)))))"

primrec decrypt_columns ::
  "cell_api \<Rightarrow> key_world \<Rightarrow> (string \<times> field_meta) list \<Rightarrow> members \<times> revealed \<Rightarrow> (members \<times> revealed) ks" where
  "decrypt_columns api w [] acc = ret acc"
| "decrypt_columns api w (f # fs) acc = bind_ks (decrypt_column api w f acc) (decrypt_columns api w fs)"

definition decrypt_row ::
  "cell_api \<Rightarrow> key_world \<Rightarrow> entity_def \<Rightarrow> json \<times> revealed \<Rightarrow> (json \<times> revealed) ks" where
  "decrypt_row api w entity acc =
     (case acc of
        (JObj obj, tally) \<Rightarrow>
          bind_ks (decrypt_columns api w (en_fields entity) (obj, tally)) (\<lambda>(obj, tally). ret (JObj obj, tally))
      | _ \<Rightarrow> ret acc)"

primrec decrypt_rows :: "cell_api \<Rightarrow> key_world \<Rightarrow> entity_def \<Rightarrow> json list \<Rightarrow> json list ks" where
  "decrypt_rows api w entity [] = ret []"
| "decrypt_rows api w entity (row # rows) =
     bind_ks (decrypt_row api w entity (row, \<lparr>rv_decrypted = 0, rv_stale = 0\<rparr>)) (\<lambda>(row, _).
     bind_ks (decrypt_rows api w entity rows) (\<lambda>rows. ret (row # rows)))"

text \<open>A runtime without a master key has no key store, and then serves what is stored.\<close>

type_synonym keys_at = "(key_world \<times> keystore) option"

definition revealed_rows :: "cell_api \<Rightarrow> keys_at \<Rightarrow> entity_def \<Rightarrow> json list \<Rightarrow> string + json list" where
  "revealed_rows api keys entity rows =
     (case keys of None \<Rightarrow> Inr rows | Some (w, s) \<Rightarrow> fst (decrypt_rows api w entity rows (row_decryptor s)))"

subsection \<open>One row and one page\<close>

definition get_one :: "cell_api \<Rightarrow> keys_at \<Rightarrow> entity_def \<Rightarrow> string \<Rightarrow> read_model \<Rightarrow> string + json option \<times> nat" where
  "get_one api keys entity key rm =
     bind_res (get_row api entity key rm) (\<lambda>item.
     bind_res (revealed_rows api keys entity (opt_list item)) (\<lambda>rows.
       Inr (case rows of [] \<Rightarrow> None | row # _ \<Rightarrow> Some row, read_checkpoint rm)))"

definition cursor_value :: "json \<Rightarrow> string \<Rightarrow> string + string" where
  "cursor_value row column =
     ok_or (Option.bind (json_get row column) scalar_string)
       (''cannot describe where this page ended: ordering column '' @ quoted column @ '' is not a scalar in this row'')"

definition cursor_at :: "cursor_api \<Rightarrow> entity_def \<Rightarrow> scan_query \<Rightarrow> json \<Rightarrow> string + string" where
  "cursor_at capi entity query row =
     map_sum id (\<lambda>vs. cr_encode capi \<lparr>cu_ordering = order_token entity (qu_order query), cu_values = vs\<rparr>)
       (traverse (cursor_value row) (order_columns entity (qu_order query)))"

record page =
  pg_items :: "json list"
  pg_next :: "string option"
  pg_position :: nat

definition scan_page ::
  "cell_api \<Rightarrow> cursor_api \<Rightarrow> keys_at \<Rightarrow> entity_def \<Rightarrow> scan_query \<Rightarrow> read_model \<Rightarrow> string + page" where
  "scan_page api capi keys entity query rm =
     bind_res (scan_rows api entity (query\<lparr>qu_limit := qu_limit query + 1\<rparr>) rm) (\<lambda>items.
     bind_res (if qu_limit query < length items
               then (case rev (take (qu_limit query) items) of
                       [] \<Rightarrow> Inr None
                     | row # _ \<Rightarrow> map_sum id Some (cursor_at capi entity query row))
               else Inr None) (\<lambda>next_cursor.
     bind_res (revealed_rows api keys entity (take (qu_limit query) items)) (\<lambda>items.
       Inr \<lparr>pg_items = items, pg_next = next_cursor, pg_position = read_checkpoint rm\<rparr>)))"

datatype scan_answer = Refused filter_problem | Failed string | Served page

definition read_scan ::
  "cell_api \<Rightarrow> cursor_api \<Rightarrow> keys_at \<Rightarrow> entity_def \<Rightarrow> (string \<times> string) list \<Rightarrow> read_model \<Rightarrow> scan_answer" where
  "read_scan api capi keys entity params rm =
     (case scan_request api capi entity params of
        Inl problem \<Rightarrow> Refused problem
      | Inr query \<Rightarrow>
          (case scan_page api capi keys entity query rm of Inl why \<Rightarrow> Failed why | Inr page \<Rightarrow> Served page))"

subsection \<open>A client that follows the cursors\<close>

definition with_cursor :: "(string \<times> string) list \<Rightarrow> string \<Rightarrow> (string \<times> string) list" where
  "with_cursor params cursor = (''cursor'', cursor) # filter (\<lambda>p. fst p \<noteq> ''cursor'') params"

primrec follow ::
  "cell_api \<Rightarrow> cursor_api \<Rightarrow> keys_at \<Rightarrow> entity_def \<Rightarrow> read_model \<Rightarrow> nat \<Rightarrow> (string \<times> string) list \<Rightarrow> page list option" where
  "follow api capi keys entity rm 0 params = None"
| "follow api capi keys entity rm (Suc n) params =
     (case read_scan api capi keys entity params rm of
        Served page \<Rightarrow>
          (case pg_next page of
             None \<Rightarrow> Some [page]
           | Some cursor \<Rightarrow> map_option ((#) page) (follow api capi keys entity rm n (with_cursor params cursor)))
      | _ \<Rightarrow> None)"

end
