(* ===== verification/Read_Order.thy ===== *)
theory Read_Order
  imports Read_Page
begin

section \<open>Rows in an order\<close>

text \<open>
  What a stored table satisfies, that the text a page ends on binds back to the cell it was read from, and
  that resuming after a row takes what follows it in the order.
\<close>

subsection \<open>Well-formed tables\<close>

definition i64_range :: "int \<Rightarrow> bool" where
  "i64_range i \<longleftrightarrow> - (2 ^ 63) \<le> i \<and> i < 2 ^ 63"

definition cell_typed :: "field_meta \<Rightarrow> sql_value \<Rightarrow> bool" where
  "cell_typed meta cell \<longleftrightarrow>
     (case cell of
        SNull \<Rightarrow> meta_nullable meta
      | SInteger i \<Rightarrow> fm_sealed_under meta = None \<and> kind_base (fm_kind meta) \<in> {I64, Bool} \<and> i64_range i
      | SText s \<Rightarrow> fm_sealed_under meta \<noteq> None \<or> kind_base (fm_kind meta) \<notin> {I64, Bool}
      | _ \<Rightarrow> False)"

definition row_typed :: "entity_def \<Rightarrow> sql_row \<Rightarrow> bool" where
  "row_typed entity row \<longleftrightarrow> list_all2 (\<lambda>f cell. cell_typed (snd f) cell) (en_fields entity) row"

definition table_ok :: "entity_def \<Rightarrow> sql_row list \<Rightarrow> bool" where
  "table_ok entity rows \<longleftrightarrow> (\<forall>row \<in> set rows. row_typed entity row) \<and> distinct (map (row_key entity) rows)"

definition entity_ok :: "entity_def \<Rightarrow> bool" where
  "entity_ok entity \<longleftrightarrow> validate_entity entity = Inr () \<and> distinct (map fst (en_fields entity))"

text \<open>What the time library promises: each spelling it writes reads back, and both exist for the same instants.\<close>

definition calendar_ok :: "cell_api \<Rightarrow> bool" where
  "calendar_ok api \<longleftrightarrow>
     (\<forall>m s. stored_timestamp api m = Some s \<longrightarrow> ca_timestamp api s = Some m) \<and>
     (\<forall>m s. ca_rfc3339 api m = Some s \<longrightarrow> ca_timestamp api s = Some m) \<and>
     (\<forall>m. ca_rfc3339 api m = None \<longleftrightarrow> ca_civil api m = None)"

definition canonical_text :: "cell_api \<Rightarrow> string \<Rightarrow> bool" where
  "canonical_text api s \<longleftrightarrow> (case ca_timestamp api s of None \<Rightarrow> True | Some m \<Rightarrow> stored_timestamp api m \<in> {None, Some s})"

definition cell_canonical :: "cell_api \<Rightarrow> field_meta \<Rightarrow> sql_value \<Rightarrow> bool" where
  "cell_canonical api meta cell \<longleftrightarrow>
     (case cell of
        SText s \<Rightarrow> fm_sealed_under meta = None \<and> kind_base (fm_kind meta) = Timestamp \<longrightarrow> canonical_text api s
      | _ \<Rightarrow> True)"

definition row_canonical :: "cell_api \<Rightarrow> entity_def \<Rightarrow> sql_row \<Rightarrow> bool" where
  "row_canonical api entity row \<longleftrightarrow> list_all2 (\<lambda>f cell. cell_canonical api (snd f) cell) (en_fields entity) row"

lemma calendar_okD:
  assumes "calendar_ok api"
  shows "stored_timestamp api m = Some s \<Longrightarrow> ca_timestamp api s = Some m"
    and "ca_rfc3339 api m = Some s \<Longrightarrow> ca_timestamp api s = Some m"
    and "ca_rfc3339 api m = None \<longleftrightarrow> stored_timestamp api m = None"
  using assms unfolding calendar_ok_def by (auto simp: stored_timestamp_def)

text \<open>The text served of a stored instant binds back to it.\<close>

lemma served_rebinds:
  assumes "calendar_ok api" and "canonical_text api s"
  shows "bind_or_text api Timestamp (case served_timestamp api s of None \<Rightarrow> s | Some t \<Rightarrow> t) = SText s"
proof (cases "ca_timestamp api s")
  case None
  then show ?thesis by (simp add: served_timestamp_def bind_or_text_def coerce_value_def)
next
  case (Some m)
  then have st: "stored_timestamp api m \<in> {None, Some s}" using assms(2) by (simp add: canonical_text_def)
  show ?thesis
  proof (cases "ca_rfc3339 api m")
    case None
    then have "stored_timestamp api m = None" using calendar_okD(3) [OF assms(1)] by blast
    then show ?thesis using Some None by (simp add: served_timestamp_def bind_or_text_def coerce_value_def)
  next
    case (Some t)
    then have "stored_timestamp api m = Some s" "ca_timestamp api t = Some m"
      using st calendar_okD(2,3) [OF assms(1)] by force+
    then show ?thesis using Some \<open>ca_timestamp api s = Some m\<close>
      by (simp add: served_timestamp_def bind_or_text_def coerce_value_def)
  qed
qed

subsection \<open>Cells of a row\<close>

lemma column_meta_map_of: "column_meta entity c = map_of (en_fields entity) c"
proof -
  have "map_option snd (find (\<lambda>f. fst f = c) fs) = map_of fs c" for fs :: "(string \<times> field_meta) list"
    by (induction fs) auto
  then show ?thesis by (simp add: column_meta_def)
qed

lemma column_cell:
  assumes "list_all2 P (en_fields entity) row" and "column_meta entity c = Some meta"
  shows "P (c, meta) (cell_of entity row c) \<or> \<not> distinct (map fst (en_fields entity))"
proof -
  have "map_of fs c = Some meta \<Longrightarrow> distinct (map fst fs) \<Longrightarrow> list_all2 P fs row \<Longrightarrow>
      \<exists>cell. map_of (zip (map fst fs) row) c = Some cell \<and> P (c, meta) cell" for fs
  proof (induction fs arbitrary: row)
    case (Cons f fs)
    obtain cell cells where "row = cell # cells" using Cons.prems(3) by (auto simp: list_all2_Cons1)
    then show ?case using Cons by (cases f) (auto split: if_splits)
  qed simp
  then show ?thesis using assms unfolding cell_of_def column_meta_map_of by fastforce
qed

lemma cell_of_typed:
  assumes "row_typed entity row" and "column_meta entity c = Some meta" and "distinct (map fst (en_fields entity))"
  shows "cell_typed meta (cell_of entity row c)"
  using column_cell [OF assms(1) [unfolded row_typed_def] assms(2)] assms(3) by simp

lemma cell_of_canonical:
  assumes "row_canonical api entity row" and "column_meta entity c = Some meta" and "distinct (map fst (en_fields entity))"
  shows "cell_canonical api meta (cell_of entity row c)"
  using column_cell [OF assms(1) [unfolded row_canonical_def] assms(2)] assms(3) by simp

lemma row_to_json_get:
  assumes "length row = length (en_fields entity)" and "distinct (map fst (en_fields entity))"
    and "column_meta entity c = Some meta"
  shows "json_get (row_to_json api entity row) c =
    (let v = from_sql api meta (cell_of entity row c) in if v = JNull then None else Some v)"
proof -
  define step where "step = (\<lambda>((name :: string, meta), cell) obj.
      let v = from_sql api meta cell in if v = JNull then obj else map_insert name v obj)"
  have absent: "c \<notin> fst ` set fs \<Longrightarrow> map_of (fold step (zip fs cells) obj) c = map_of obj c" for fs cells obj
  proof (induction fs arbitrary: cells obj)
    case (Cons f fs)
    then show ?case by (cases f; cases cells) (auto simp: step_def Let_def map_of_map_insert)
  qed simp
  have "length cells = length fs \<Longrightarrow> distinct (map fst fs) \<Longrightarrow> map_of fs c = Some meta \<Longrightarrow> c \<notin> fst ` set obj \<Longrightarrow>
      map_of (fold step (zip fs cells) obj) c =
        (let v = from_sql api meta (case map_of (zip (map fst fs) cells) c of None \<Rightarrow> SNull | Some cell \<Rightarrow> cell)
         in if v = JNull then None else Some v)" for fs cells and obj :: members
  proof (induction fs arbitrary: cells obj)
    case (Cons f fs)
    obtain cell cs where cells: "cells = cell # cs" using Cons.prems(1) by (cases cells) auto
    obtain name m where f: "f = (name, m)" by (cases f)
    show ?case
    proof (cases "name = c")
      case True
      then have "c \<notin> fst ` set fs" "m = meta" using Cons.prems(2,3) f by auto
      moreover have "map_of obj c = None" using Cons.prems(4) by (simp add: map_of_eq_None_iff)
      ultimately show ?thesis
        using True absent by (simp add: f cells step_def Let_def map_of_map_insert)
    next
      case False
      then have m: "map_of fs c = Some meta" using Cons.prems(3) f by simp
      have "c \<notin> fst ` set (step (f, cell) obj)" using Cons.prems(4) False
        by (simp add: f step_def Let_def fst_map_insert)
      then show ?thesis using Cons.IH [OF _ _ m, of cs "step (f, cell) obj"] Cons.prems(1,2) False by (simp add: f cells)
    qed
  qed simp
  from this [of row "en_fields entity" "[]"] show ?thesis
    using assms by (simp add: row_to_json_def cell_of_def column_meta_map_of step_def)
qed

text \<open>Columns an ordering can use: their cell is served as a scalar, and that scalar binds back to the cell.\<close>

definition orderable :: "field_meta \<Rightarrow> bool" where
  "orderable meta \<longleftrightarrow> \<not> meta_nullable meta \<and> is_keyable (kind_base (fm_kind meta)) \<and> fm_sealed_under meta = None"

lemma orderable_base: "orderable meta \<Longrightarrow> kind_base (fm_kind meta) = fm_kind meta"
  by (cases "fm_kind meta") (auto simp: orderable_def meta_nullable_def)

lemma orderable_rebinds:
  assumes "orderable meta" and "cell_typed meta cell" and "cell_canonical api meta cell" and "calendar_ok api"
  obtains s where "scalar_string (from_sql api meta cell) = Some s"
    and "compared api meta (bind_or_text api (fm_kind meta) s) = cell"
    and "from_sql api meta cell \<noteq> JNull" and "cell \<noteq> SNull"
proof -
  note base = orderable_base [OF assms(1)]
  have plain: "fm_sealed_under meta = None" and key: "is_keyable (fm_kind meta)" and nn: "\<not> meta_nullable meta"
    using assms(1) base by (simp_all add: orderable_def)
  show thesis
  proof (cases "fm_kind meta = I64")
    case True
    then obtain i where i: "cell = SInteger i" "i64_range i"
      using assms(2) base plain nn by (auto simp: cell_typed_def split: sql_value.splits)
    have "from_sql api meta cell = JNum (int_str i)" using i True plain by (simp add: from_sql_def)
    moreover have "compared api meta (bind_or_text api (fm_kind meta) (int_str i)) = cell"
      using i True plain
      by (simp add: bind_or_text_def coerce_value_def parse_i64_int_str i64_range_def compared_def field_sql_type_def)
    ultimately show thesis using that [of "int_str i"] i by simp
  next
    case False
    have no_bool: "fm_kind meta \<noteq> Bool" "fm_kind meta \<noteq> Json_Kind" using key by auto
    then obtain s where s: "cell = SText s"
      using assms(2) base plain nn False by (auto simp: cell_typed_def split: sql_value.splits)
    have sql: "field_sql_type meta = ''TEXT''" using key False plain by (cases "fm_kind meta") (auto simp: field_sql_type_def)
    show thesis
    proof (cases "fm_kind meta = Timestamp")
      case True
      let ?t = "case served_timestamp api s of None \<Rightarrow> s | Some t \<Rightarrow> t"
      have "canonical_text api s" using assms(3) s plain True base by (simp add: cell_canonical_def)
      from served_rebinds [OF assms(4) this] have "bind_or_text api (fm_kind meta) ?t = SText s" using True by simp
      moreover have "from_sql api meta cell = JStr ?t" using s True plain by (simp add: from_sql_def)
      ultimately show thesis using that [of ?t] s sql by (simp add: compared_def)
    next
      case nt: False
      have "from_sql api meta cell = JStr s" "bind_or_text api (fm_kind meta) s = SText s"
        using s nt plain key False by (cases "fm_kind meta"; simp add: from_sql_def bind_or_text_def coerce_value_def)+
      then show thesis using that [of s] s sql by (simp add: compared_def)
    qed
  qed
qed

subsection \<open>Strict orders\<close>

lemma filter_after_drop:
  assumes "sorted_wrt R (map f xs)" and "i < length xs" and "\<And>x. \<not> R x x" and "\<And>x y. R x y \<Longrightarrow> \<not> R y x"
  shows "filter (\<lambda>x. R (f (xs ! i)) (f x)) xs = drop (Suc i) xs"
proof -
  have split: "filter P xs = filter P (take (Suc i) xs) @ filter P (drop (Suc i) xs)" for P
    by (metis append_take_drop_id filter_append)
  have "\<not> R (f (xs ! i)) (f x)" if mem: "x \<in> set (take (Suc i) xs)" for x
  proof -
    obtain j where len: "j < length (take (Suc i) xs)" and "take (Suc i) xs ! j = x"
      using mem unfolding in_set_conv_nth by blast
    then have "j < Suc i" by (metis length_take min_less_iff_conj)
    then have "x = xs ! j" using \<open>take (Suc i) xs ! j = x\<close> nth_take by metis
    have "j \<le> i" using \<open>j < Suc i\<close> by simp
    show ?thesis
    proof (cases "j = i")
      case True
      then show ?thesis using assms(3) \<open>x = xs ! j\<close> by simp
    next
      case False
      then have "R (map f xs ! j) (map f xs ! i)"
        using assms(2) \<open>j \<le> i\<close> by (intro sorted_wrt_nth_less [OF assms(1)]) auto
      then have "R (f x) (f (xs ! i))" using assms(2) \<open>j \<le> i\<close> \<open>x = xs ! j\<close> by simp
      then show ?thesis by (rule assms(4))
    qed
  qed
  then have none: "filter (\<lambda>x. R (f (xs ! i)) (f x)) (take (Suc i) xs) = []" by (auto simp: filter_empty_conv)
  have "R (f (xs ! i)) (f x)" if mem: "x \<in> set (drop (Suc i) xs)" for x
  proof -
    obtain j where len: "j < length xs - Suc i" and x: "x = xs ! (Suc i + j)"
      using mem unfolding in_set_conv_nth length_drop by (metis Suc_leI assms(2) nth_drop)
    have "R (map f xs ! i) (map f xs ! (Suc i + j))" using len by (intro sorted_wrt_nth_less [OF assms(1)]) auto
    then show ?thesis using len x assms(2) by simp
  qed
  then have "filter (\<lambda>x. R (f (xs ! i)) (f x)) (drop (Suc i) xs) = drop (Suc i) xs" by (simp add: filter_id_conv)
  then show ?thesis using split [of "\<lambda>x. R (f (xs ! i)) (f x)"] none by simp
qed

lemma row_after_rank:
  assumes "length xs = length ys" and "SNull \<notin> set xs" and "SNull \<notin> set ys"
  shows "row_after descending xs ys \<longleftrightarrow>
    (if descending then map cell_rank xs < map cell_rank ys else map cell_rank ys < map cell_rank xs)"
  using assms by (induction xs ys rule: list_induct2) (auto simp: sql_less_def sql_eq_def)

lemma sort_strict:
  fixes f :: "'a \<Rightarrow> 'b::linorder"
  assumes "distinct (map f xs)"
  shows "sorted_wrt (<) (map f (sort_key f xs))"
proof -
  have "distinct (map f (sort_key f xs))"
    using assms by (metis distinct_map distinct_sort set_sort)
  then show ?thesis using strict_sorted_iff [of "map f (sort_key f xs)"] by simp
qed

end
