(* ===== verification/Read_Follow.thy ===== *)
theory Read_Follow
  imports Read_Order
begin

section \<open>The pages of a scan\<close>

text \<open>
  A client that follows the cursors of a scan reads every row the filter matches, once, in the order it asked
  for, and no page is refused on the way.
\<close>

definition listing :: "cell_api \<Rightarrow> entity_def \<Rightarrow> scan_query \<Rightarrow> sql_row list \<Rightarrow> json list" where
  "listing api entity query rows =
     map (row_to_json api entity)
       (ordered_rows entity (qu_order query) (filter (matches api entity (qu_filter query)) rows))"

text \<open>A read model as \<open>ReadModel::open\<close> leaves it for the entity.\<close>

definition model_ready :: "entity_def \<Rightarrow> sql_row list \<Rightarrow> read_model \<Rightarrow> bool" where
  "model_ready entity rows rm \<longleftrightarrow>
     rm_tables rm (en_name entity) = Some rows \<and>
     (\<forall>ix \<in> set (en_indexes entity). rm_indexes rm (index_name entity (ix_name ix)) = Some (index_columns entity ix))"

subsection \<open>What an accepted request has\<close>

lemma parse_range_columns:
  assumes "parse_range fl column operator v = Inr fl'"
  shows "fl_equals fl' = fl_equals fl \<and> (\<exists>r. fl_range fl' = Some (column, r))"
proof (cases "find (\<lambda>(name, _). name = operator) RANGE_OPERATORS")
  case (Some op)
  then show ?thesis
    using assms by (cases op; cases "fl_range fl") (auto simp: parse_range_def Let_def no_range_def split: if_splits)
qed (use assms in \<open>simp add: parse_range_def\<close>)

lemma parse_param_columns:
  assumes "parse_param entity fl param = Inr fl'"
  obtains c where "is_filterable entity c" and "set (filter_columns fl') \<subseteq> insert c (set (filter_columns fl))"
proof (cases "split_dot (fst param)")
  case None
  then have "is_filterable entity (fst param)" "set (filter_columns fl') = insert (fst param) (set (filter_columns fl))"
    using assms by (auto simp: parse_param_def filter_columns_def range_column_def image_iff Bex_def split: if_splits)
  then show thesis using that by blast
next
  case (Some co)
  then have "is_filterable entity (fst co)" "parse_range fl (fst co) (snd co) (snd param) = Inr fl'"
    using assms by (auto simp: parse_param_def Let_def split_beta split: if_splits)
  moreover have "set (filter_columns fl') \<subseteq> insert (fst co) (set (filter_columns fl))"
    using parse_range_columns [OF calculation(2)] by (auto simp: filter_columns_def range_column_def opt_list_def)
  ultimately show thesis using that by blast
qed

lemma parse_params_filterable:
  "parse_params entity fl params = Inr fl' \<Longrightarrow> \<forall>c \<in> set (filter_columns fl). is_filterable entity c \<Longrightarrow>
     \<forall>c \<in> set (filter_columns fl'). is_filterable entity c"
proof (induction params arbitrary: fl)
  case (Cons param params)
  then obtain fl1 where fl1: "parse_param entity fl param = Inr fl1" "parse_params entity fl1 params = Inr fl'"
    by (auto simp: bind_res_Inr_iff)
  then have "\<forall>c \<in> set (filter_columns fl1). is_filterable entity c"
    using Cons.prems(2) by (metis parse_param_columns insert_iff subset_iff)
  then show ?case by (rule Cons.IH [OF fl1(2)])
qed simp

lemma parse_filter_filterable:
  "parse_filter entity params = Inr fl \<Longrightarrow> \<forall>c \<in> set (filter_columns fl). is_filterable entity c"
proof -
  assume "parse_filter entity params = Inr fl"
  then have "parse_params entity no_filter params = Inr fl"
    by (auto simp: parse_filter_def bind_res_Inr_iff split: option.splits if_splits)
  then show ?thesis by (rule parse_params_filterable) (simp add: filter_columns_def no_filter_def range_column_def opt_list_def)
qed

lemma scan_requestD:
  assumes "scan_request api capi entity params = Inr q"
  shows "order_refused entity (qu_order q) = None" and "choose_index entity (qu_filter q) (qu_order q) \<noteq> None"
    and "\<forall>c \<in> set (filter_columns (qu_filter q)). is_filterable entity c"
    and "check_filter api entity (qu_filter q) = Inr ()"
  using assms
  by (auto simp: scan_request_def bind_res_Inr_iff map_err_Inr_iff dest!: parse_filter_filterable split: option.splits if_splits)

text \<open>The next page's request differs in its cursor only.\<close>

lemma scan_param_cursor:
  "fst param \<noteq> ''cursor'' \<Longrightarrow> scan_param acc param = Inr acc' \<Longrightarrow>
     scan_param (acc\<lparr>sp_cursor := cursor\<rparr>) param = Inr (acc'\<lparr>sp_cursor := cursor\<rparr>)"
  by (auto simp: scan_param_def split: if_splits option.splits)

lemma scan_params_cursor:
  "scan_params_of acc params = Inr sp \<Longrightarrow>
     scan_params_of (acc\<lparr>sp_cursor := cursor\<rparr>) (filter (\<lambda>p. fst p \<noteq> ''cursor'') params) = Inr (sp\<lparr>sp_cursor := cursor\<rparr>)"
proof (induction params arbitrary: acc)
  case (Cons param params)
  obtain acc' where acc': "scan_param acc param = Inr acc'" "scan_params_of acc' params = Inr sp"
    using Cons.prems by (auto simp: bind_res_Inr_iff)
  show ?case
  proof (cases "fst param = ''cursor''")
    case True
    then have "acc' = acc\<lparr>sp_cursor := Some (snd param)\<rparr>" using acc'(1) by (simp add: scan_param_def)
    then show ?thesis using Cons.IH [OF acc'(2)] True by simp
  next
    case False
    then show ?thesis using Cons.IH [OF acc'(2)] scan_param_cursor [OF False acc'(1)] by simp
  qed
qed simp

definition cursor_api_ok :: "cursor_api \<Rightarrow> bool" where
  "cursor_api_ok capi \<longleftrightarrow> (\<forall>cursor. cr_decode capi (cr_encode capi cursor) = Some cursor)"

lemma next_request:
  assumes "scan_request api capi entity params = Inr q" and "cursor_api_ok capi"
    and "cu_ordering cursor = order_token entity (qu_order q)"
    and "length (cu_values cursor) = length (order_columns entity (qu_order q))"
  shows "scan_request api capi entity (with_cursor params (cr_encode capi cursor)) = Inr (q\<lparr>qu_cursor := Some cursor\<rparr>)"
proof -
  obtain sp where sp: "scan_params_of no_params params = Inr sp" using assms(1) by (auto simp: scan_request_def bind_res_Inr_iff)
  have "scan_params_of no_params (with_cursor params (cr_encode capi cursor)) = Inr (sp\<lparr>sp_cursor := Some (cr_encode capi cursor)\<rparr>)"
    using scan_params_cursor [OF sp, of "Some (cr_encode capi cursor)"] by (simp add: with_cursor_def scan_param_def)
  moreover have "check_cursor entity (qu_order q) cursor = Inr ()" using assms(3,4) by (simp add: check_cursor_def)
  ultimately show ?thesis
    using assms(1,2) sp
    by (auto simp: scan_request_def bind_res_Inr_iff cursor_api_ok_def scan_cursor_of_def split: option.splits if_splits)
qed

subsection \<open>Reading a row back as a position\<close>

lemma key_in_order: "en_key entity \<in> set (order_columns entity order)"
  by (auto simp: order_columns_def index_columns_def split: option.splits)

lemma entity_okD:
  assumes "entity_ok entity"
  shows "distinct (map fst (en_fields entity))"
    and "\<exists>meta. column_meta entity (en_key entity) = Some meta \<and> orderable meta"
    and "ix \<in> set (en_indexes entity) \<Longrightarrow> c \<in> set (ix_columns ix) \<Longrightarrow>
      \<exists>meta. column_meta entity c = Some meta \<and> fm_sealed_under meta = None"
    and "is_filterable entity c \<Longrightarrow> column_meta entity c \<noteq> None"
proof -
  have valid: "validate_entity entity = Inr ()" and dist: "distinct (map fst (en_fields entity))"
    using assms by (simp_all add: entity_ok_def)
  show "distinct (map fst (en_fields entity))" by (rule dist)
  obtain meta where key: "column_meta entity (en_key entity) = Some meta" "\<not> meta_nullable meta" "is_keyable (fm_kind meta)"
      "fm_sealed_under meta = None"
    using valid unfolding valid_entity_iff by blast
  then have "orderable meta" by (cases "fm_kind meta") (auto simp: orderable_def meta_nullable_def)
  then show "\<exists>meta. column_meta entity (en_key entity) = Some meta \<and> orderable meta" using key by blast
  show index: "\<exists>meta. column_meta entity c = Some meta \<and> fm_sealed_under meta = None"
    if "ix \<in> set (en_indexes entity)" "c \<in> set (ix_columns ix)" for ix c
    using valid that unfolding valid_entity_iff by blast
  show "is_filterable entity c \<Longrightarrow> column_meta entity c \<noteq> None"
    using index key(1) by (force simp: is_filterable_def filterable_fields_def)
qed

lemma index_named_mem: "index_named entity name = Some ix \<Longrightarrow> ix \<in> set (en_indexes entity) \<and> ix_name ix = name"
  by (auto simp: index_named_def find_Some_iff)

lemma order_columns_orderable:
  assumes "entity_ok entity" and "order_refused entity order = None" and "choose_index entity fl order \<noteq> None"
    and "c \<in> set (order_columns entity order)"
  shows "\<exists>meta. column_meta entity c = Some meta \<and> orderable meta"
proof (cases "c = en_key entity")
  case True
  then show ?thesis using entity_okD(2) [OF assms(1)] by simp
next
  case False
  then obtain name ix where ix: "or_index order = Some name" "index_named entity name = Some ix" "c \<in> set (ix_columns ix)"
    using assms(4) by (auto simp: order_columns_def index_columns_def split: option.splits if_splits)
  then have "ordering_column_problem entity ix c = None"
    using assms(2) by (simp add: order_refused_def ordering_problem_def first_some_None_iff)
  moreover obtain meta where meta: "column_meta entity c = Some meta" "fm_sealed_under meta = None"
    using entity_okD(3) [OF assms(1) _ ix(3)] index_named_mem [OF ix(2)] by blast
  ultimately show ?thesis by (auto simp: ordering_column_problem_def orderable_def is_comparable_def Let_def split: if_splits)
qed

text \<open>The values a cursor records of a row bind back to the cells the ordering compares.\<close>

lemma cursor_values_of_row:
  assumes "entity_ok entity" and "row_typed entity row" and "row_canonical api entity row" and "calendar_ok api"
    and "\<forall>c \<in> set cols. \<exists>meta. column_meta entity c = Some meta \<and> orderable meta"
  shows "\<exists>vs. traverse (cursor_value (row_to_json api entity row)) cols = Inr vs \<and>
    map2 (bound_value api entity) cols vs = map (cell_of entity row) cols \<and>
    SNull \<notin> set (map (cell_of entity row) cols)"
  using assms(5)
proof (induction cols)
  case (Cons c cols)
  obtain meta where meta: "column_meta entity c = Some meta" "orderable meta" using Cons.prems by auto
  note dist = entity_okD(1) [OF assms(1)]
  obtain s where s: "scalar_string (from_sql api meta (cell_of entity row c)) = Some s"
      "compared api meta (bind_or_text api (fm_kind meta) s) = cell_of entity row c"
      "from_sql api meta (cell_of entity row c) \<noteq> JNull" "cell_of entity row c \<noteq> SNull"
    using orderable_rebinds [OF meta(2) cell_of_typed [OF assms(2) meta(1) dist] cell_of_canonical [OF assms(3) meta(1) dist] assms(4)]
    by blast
  have len: "length row = length (en_fields entity)" using assms(2) by (simp add: row_typed_def list_all2_lengthD)
  have "cursor_value (row_to_json api entity row) c = Inr s"
    using s(1,3) row_to_json_get [OF len dist meta(1)] by (simp add: cursor_value_def Let_def)
  moreover have "bound_value api entity c s = cell_of entity row c"
    using s(2) meta(1) by (simp add: bound_value_def bind_column_def)
  moreover obtain vs where "traverse (cursor_value (row_to_json api entity row)) cols = Inr vs"
      "map2 (bound_value api entity) cols vs = map (cell_of entity row) cols" "SNull \<notin> set (map (cell_of entity row) cols)"
    using Cons by auto
  ultimately show ?case using s(4) by auto
qed simp

subsection \<open>A page is a slice of the listing\<close>

definition matched_rows :: "cell_api \<Rightarrow> entity_def \<Rightarrow> scan_query \<Rightarrow> sql_row list \<Rightarrow> sql_row list" where
  "matched_rows api entity query rows = ordered_rows entity (qu_order query) (filter (matches api entity (qu_filter query)) rows)"

lemma listing_map: "listing api entity query rows = map (row_to_json api entity) (matched_rows api entity query rows)"
  by (simp add: listing_def matched_rows_def)

definition rank_less :: "scan_order \<Rightarrow> (nat \<times> int \<times> string) list \<Rightarrow> (nat \<times> int \<times> string) list \<Rightarrow> bool" where
  "rank_less order xs ys \<longleftrightarrow> (if or_descending order then ys < xs else xs < ys)"

definition order_rank :: "entity_def \<Rightarrow> scan_order \<Rightarrow> sql_row \<Rightarrow> (nat \<times> int \<times> string) list" where
  "order_rank entity order row = map cell_rank (order_cells entity order row)"

lemma cell_rank_inj: "cell_typed meta x \<Longrightarrow> cell_typed meta y \<Longrightarrow> cell_rank x = cell_rank y \<Longrightarrow> x = y"
  by (cases x; cases y) (auto simp: cell_typed_def)

lemma order_rank_distinct:
  assumes "entity_ok entity" and "table_ok entity rows"
  shows "distinct (map (order_rank entity order) (filter P rows))"
proof -
  have dist: "distinct (map (row_key entity) rows)" and typed: "\<forall>row \<in> set rows. row_typed entity row"
    using assms(2) by (simp_all add: table_ok_def)
  obtain meta where meta: "column_meta entity (en_key entity) = Some meta" using entity_okD(2) [OF assms(1)] by blast
  have "row_key entity r = row_key entity r'"
    if "r \<in> set rows" "r' \<in> set rows" "order_rank entity order r = order_rank entity order r'" for r r'
  proof -
    have "cell_rank (row_key entity r) = cell_rank (row_key entity r')"
      using that(3) key_in_order [of entity order] by (simp add: order_rank_def order_cells_def row_key_def)
    then show ?thesis
      using that(1,2) typed cell_of_typed [OF _ meta entity_okD(1) [OF assms(1)]] cell_rank_inj
      unfolding row_key_def by blast
  qed
  then have "inj_on (order_rank entity order) (set rows)" using dist unfolding distinct_map inj_on_def by blast
  moreover have "distinct rows" using dist by (simp add: distinct_map)
  ultimately show ?thesis by (auto simp: distinct_map inj_on_def)
qed

lemma ordered_rows_sorted:
  assumes "entity_ok entity" and "table_ok entity rows"
  shows "sorted_wrt (rank_less order) (map (order_rank entity order) (ordered_rows entity order (filter P rows)))"
proof -
  have f: "(\<lambda>row. map cell_rank (order_cells entity order row)) = order_rank entity order"
    by (rule ext) (simp add: order_rank_def)
  have "sorted_wrt (<) (map (order_rank entity order) (sort_key (order_rank entity order) (filter P rows)))"
    by (rule sort_strict [OF order_rank_distinct [OF assms]])
  then show ?thesis
    by (simp add: ordered_rows_def f rank_less_def [abs_def] rev_map [symmetric] sorted_wrt_rev Let_def)
qed

lemma ordered_rows_filter: "ordered_rows entity order (filter P rows) = filter P (ordered_rows entity order rows)"
  by (simp add: ordered_rows_def Let_def filter_sort [symmetric] rev_filter)

lemma set_ordered_rows [simp]: "set (ordered_rows entity order rows) = set rows"
  by (simp add: ordered_rows_def Let_def)

lemma length_ordered_rows [simp]: "length (ordered_rows entity order rows) = length rows"
  by (simp add: ordered_rows_def Let_def)

text \<open>What a served request of a ready model rests on.\<close>

definition scannable :: "cell_api \<Rightarrow> entity_def \<Rightarrow> scan_query \<Rightarrow> sql_row list \<Rightarrow> read_model \<Rightarrow> bool" where
  "scannable api entity query rows rm \<longleftrightarrow>
     entity_ok entity \<and> calendar_ok api \<and> table_ok entity rows \<and> (\<forall>row \<in> set rows. row_canonical api entity row) \<and>
     model_ready entity rows rm \<and> order_refused entity (qu_order query) = None \<and>
     choose_index entity (qu_filter query) (qu_order query) \<noteq> None \<and>
     (\<forall>c \<in> set (filter_columns (qu_filter query)). is_filterable entity c)"

lemma scannable_columns:
  assumes "scannable api entity query rows rm"
  shows "\<forall>c \<in> set (order_columns entity (qu_order query)). \<exists>meta. column_meta entity c = Some meta \<and> orderable meta"
    and "\<forall>c \<in> set (mentioned entity query). column_meta entity c \<noteq> None"
proof -
  have ok: "entity_ok entity" "order_refused entity (qu_order query) = None"
      "choose_index entity (qu_filter query) (qu_order query) \<noteq> None"
      "\<forall>c \<in> set (filter_columns (qu_filter query)). is_filterable entity c"
    using assms unfolding scannable_def by blast+
  show cols: "\<forall>c \<in> set (order_columns entity (qu_order query)). \<exists>meta. column_meta entity c = Some meta \<and> orderable meta"
    by (intro ballI order_columns_orderable [OF ok(1-3)])
  show "\<forall>c \<in> set (mentioned entity query). column_meta entity c \<noteq> None"
  proof
    fix c assume "c \<in> set (mentioned entity query)"
    then consider "c \<in> set (filter_columns (qu_filter query))" | "c \<in> set (order_columns entity (qu_order query))"
      by (auto simp: mentioned_def)
    then show "column_meta entity c \<noteq> None" by cases (use ok(4) entity_okD(4) [OF ok(1)] cols in auto)
  qed
qed

lemma min_by_key_mem: "least_by f xs = Some x \<Longrightarrow> x \<in> set xs"
  by (induction xs arbitrary: x) (auto split: option.splits if_splits)

lemma choose_index_declared:
  "choose_index entity fl order = Some (Index_Access name) \<Longrightarrow> \<exists>ix \<in> set (en_indexes entity). ix_name ix = name"
  by (auto simp: choose_index_def choose_for_key_order_def dest!: min_by_key_mem index_named_mem split: option.splits if_splits)

lemma select_rows_eq:
  assumes "scannable api entity query rows rm"
  shows "select_rows api entity query rm =
    Inr (take (qu_limit query) (filter (after_cursor api entity query) (matched_rows api entity query rows)))"
proof -
  obtain path where path: "choose_index entity (qu_filter query) (qu_order query) = Some path"
    using assms by (auto simp: scannable_def)
  have "index_pinned entity path rm = Inr ()"
  proof (cases path)
    case (Index_Access name)
    then obtain ix where "ix \<in> set (en_indexes entity)" "ix_name ix = name" using path choose_index_declared by blast
    then show ?thesis using assms Index_Access by (auto simp: scannable_def model_ready_def index_pinned_def)
  qed (simp add: index_pinned_def)
  moreover have "find (\<lambda>c. column_meta entity c = None) (mentioned entity query) = None"
    using scannable_columns(2) [OF assms] by (simp add: find_None_iff)
  moreover have "rows_of entity rm = Inr rows" using assms by (simp add: scannable_def model_ready_def rows_of_def)
  moreover have "filter (\<lambda>row. matches api entity (qu_filter query) row \<and> after_cursor api entity query row) rows =
      filter (after_cursor api entity query) (filter (matches api entity (qu_filter query)) rows)"
    by (simp add: conj_commute)
  ultimately show ?thesis
    using path by (simp add: select_rows_def matched_rows_def ordered_rows_filter)
qed

text \<open>The cursor recorded of a row resumes right after it.\<close>

lemma resume_after:
  assumes "scannable api entity query rows rm" and "i < length (matched_rows api entity query rows)"
    and "traverse (cursor_value (row_to_json api entity (matched_rows api entity query rows ! i)))
      (order_columns entity (qu_order query)) = Inr vs"
    and "qu_cursor query' = Some \<lparr>cu_ordering = token, cu_values = vs\<rparr>" and "qu_order query' = qu_order query"
  shows "filter (after_cursor api entity query') (matched_rows api entity query rows) =
    drop (Suc i) (matched_rows api entity query rows)"
proof -
  define rs where "rs = matched_rows api entity query rows"
  define order where "order = qu_order query"
  let ?cols = "order_columns entity order"
  have ok: "entity_ok entity" "table_ok entity rows" "calendar_ok api" and canon: "\<forall>row \<in> set rows. row_canonical api entity row"
    using assms(1) by (simp_all add: scannable_def)
  have cols: "\<forall>c \<in> set ?cols. \<exists>meta. column_meta entity c = Some meta \<and> orderable meta"
    using scannable_columns(1) [OF assms(1)] by (simp add: order_def)
  have sub: "set rs \<subseteq> set rows" by (auto simp: rs_def matched_rows_def)
  have row: "SNull \<notin> set (map (cell_of entity r) ?cols) \<and> (\<exists>vs. traverse (cursor_value (row_to_json api entity r)) ?cols = Inr vs \<and>
      map2 (bound_value api entity) ?cols vs = map (cell_of entity r) ?cols)" if "r \<in> set rs" for r
    using cursor_values_of_row [OF ok(1) _ _ ok(3) cols, of r] that sub canon ok(2) by (auto simp: table_ok_def)
  have here: "rs ! i \<in> set rs" using assms(2) by (simp add: rs_def)
  have vs: "map2 (bound_value api entity) ?cols vs = map (cell_of entity (rs ! i)) ?cols"
    using row [OF here] assms(3) by (auto simp: rs_def order_def)
  have width: "length vs = length ?cols" using assms(3) by (simp add: traverse_Inr_iff list_all2_lengthD order_def)
  have resume: "after_cursor api entity query' r \<longleftrightarrow> rank_less order (order_rank entity order (rs ! i)) (order_rank entity order r)"
    if "r \<in> set rs" for r
  proof -
    have cv: "cursor_values api entity query' = Some (order_cells entity order (rs ! i))"
      using assms(4,5) vs width by (simp add: cursor_values_def usable_cursor_def order_cells_def order_def)
    have "row_after (or_descending order) (order_cells entity order r) (order_cells entity order (rs ! i)) \<longleftrightarrow>
        rank_less order (order_rank entity order (rs ! i)) (order_rank entity order r)"
      using row [OF that] row [OF here] by (subst row_after_rank) (auto simp: rank_less_def order_rank_def order_cells_def)
    then show ?thesis using cv assms(5) by (simp add: after_cursor_def order_def)
  qed
  have "filter (after_cursor api entity query') rs =
      filter (\<lambda>r. rank_less order (order_rank entity order (rs ! i)) (order_rank entity order r)) rs"
    using resume by (auto intro: filter_cong)
  also have "\<dots> = drop (Suc i) rs"
  proof (rule filter_after_drop [where R = "rank_less order" and f = "order_rank entity order"])
    show "sorted_wrt (rank_less order) (map (order_rank entity order) rs)"
      unfolding rs_def matched_rows_def order_def by (rule ordered_rows_sorted [OF ok(1,2)])
  qed (use assms(2) in \<open>auto simp: rs_def rank_less_def split: if_splits\<close>)
  finally show ?thesis by (simp add: rs_def)
qed

subsection \<open>Following the cursors\<close>

definition at_offset :: "cell_api \<Rightarrow> entity_def \<Rightarrow> scan_query \<Rightarrow> sql_row list \<Rightarrow> nat \<Rightarrow> bool" where
  "at_offset api entity query rows offset \<longleftrightarrow>
     filter (after_cursor api entity query) (matched_rows api entity query rows) =
     drop offset (matched_rows api entity query rows)"

lemma at_start: "qu_cursor query = None \<Longrightarrow> at_offset api entity query rows 0"
  by (simp add: at_offset_def after_cursor_def cursor_values_def usable_cursor_def)

lemma scannable_update [simp]:
  "scannable api entity (query\<lparr>qu_cursor := cursor\<rparr>) rows rm = scannable api entity query rows rm"
  "scannable api entity (query\<lparr>qu_limit := limit\<rparr>) rows rm = scannable api entity query rows rm"
  by (simp_all add: scannable_def)

lemma matched_rows_update [simp]:
  "matched_rows api entity (query\<lparr>qu_cursor := cursor\<rparr>) rows = matched_rows api entity query rows"
  "matched_rows api entity (query\<lparr>qu_limit := limit\<rparr>) rows = matched_rows api entity query rows"
  by (simp_all add: matched_rows_def)

lemma cursor_values_limit [simp]: "cursor_values api entity (query\<lparr>qu_limit := limit\<rparr>) = cursor_values api entity query"
  by (cases "qu_cursor query") (simp_all add: cursor_values_def usable_cursor_def)

lemma after_cursor_limit [simp]: "after_cursor api entity (query\<lparr>qu_limit := limit\<rparr>) = after_cursor api entity query"
  by (rule ext; cases "cursor_values api entity query") (simp_all add: after_cursor_def)

text \<open>One page from an offset: its rows, and the cursor of the offset after it while rows remain.\<close>

lemma page_at_offset:
  assumes "scannable api entity query rows rm" and "at_offset api entity query rows offset" and "0 < qu_limit query"
  defines "rest \<equiv> drop offset (matched_rows api entity query rows)"
  obtains next_cursor where
    "scan_page api capi None entity query rm =
       Inr \<lparr>pg_items = map (row_to_json api entity) (take (qu_limit query) rest), pg_next = next_cursor,
         pg_position = read_checkpoint rm\<rparr>"
    and "length rest \<le> qu_limit query \<Longrightarrow> next_cursor = None"
    and "qu_limit query < length rest \<Longrightarrow> \<exists>cursor. next_cursor = Some (cr_encode capi cursor) \<and>
      cu_ordering cursor = order_token entity (qu_order query) \<and>
      length (cu_values cursor) = length (order_columns entity (qu_order query)) \<and>
      at_offset api entity (query\<lparr>qu_cursor := Some cursor\<rparr>) rows (offset + qu_limit query)"
proof -
  let ?limit = "qu_limit query"
  have rows: "select_rows api entity (query\<lparr>qu_limit := ?limit + 1\<rparr>) rm = Inr (take (?limit + 1) rest)"
    using select_rows_eq [of api entity "query\<lparr>qu_limit := ?limit + 1\<rparr>" rows rm] assms(1,2) by (simp add: at_offset_def rest_def)
  show thesis
  proof (cases "?limit < length rest")
    case False
    then have "scan_page api capi None entity query rm =
       Inr \<lparr>pg_items = map (row_to_json api entity) (take ?limit rest), pg_next = None, pg_position = read_checkpoint rm\<rparr>"
      using rows by (simp add: scan_page_def scan_rows_def revealed_rows_def)
    then show thesis using that [of None] False by simp
  next
    case True
    let ?i = "offset + ?limit - 1"
    let ?row = "matched_rows api entity query rows ! ?i"
    have i: "?i < length (matched_rows api entity query rows)" using True assms(3) by (simp add: rest_def)
    have last: "rev (take ?limit rest) = ?row # rev (take (?limit - 1) rest)"
    proof -
      have "take ?limit rest = take (?limit - 1) rest @ [rest ! (?limit - 1)]"
        using True assms(3) take_Suc_conv_app_nth [of "?limit - 1" rest] by simp
      moreover have "rest ! (?limit - 1) = ?row" using True assms(3) by (simp add: rest_def)
      ultimately show ?thesis by simp
    qed
    have ok: "entity_ok entity" "calendar_ok api" and row: "?row \<in> set rows"
      using assms(1) nth_mem [OF i] by (auto simp: scannable_def matched_rows_def)
    obtain vs where vs: "traverse (cursor_value (row_to_json api entity ?row)) (order_columns entity (qu_order query)) = Inr vs"
      using cursor_values_of_row [OF ok(1) _ _ ok(2) scannable_columns(1) [OF assms(1)], of ?row] row assms(1)
      by (auto simp: scannable_def table_ok_def)
    define cursor where "cursor = \<lparr>cu_ordering = order_token entity (qu_order query), cu_values = vs\<rparr>"
    have "scan_page api capi None entity query rm =
       Inr \<lparr>pg_items = map (row_to_json api entity) (take ?limit rest), pg_next = Some (cr_encode capi cursor),
         pg_position = read_checkpoint rm\<rparr>"
      using rows True last vs
      by (simp add: scan_page_def scan_rows_def revealed_rows_def cursor_at_def cursor_def take_map rev_map min_def)
    moreover have "length vs = length (order_columns entity (qu_order query))"
      using vs by (simp add: traverse_Inr_iff list_all2_lengthD)
    moreover have "at_offset api entity (query\<lparr>qu_cursor := Some cursor\<rparr>) rows (offset + ?limit)"
      using resume_after [OF assms(1) i vs, of "query\<lparr>qu_cursor := Some cursor\<rparr>"] assms(3)
      by (simp add: at_offset_def cursor_def)
    moreover have "cu_ordering cursor = order_token entity (qu_order query)" "cu_values cursor = vs" by (simp_all add: cursor_def)
    ultimately show thesis using that [of "Some (cr_encode capi cursor)"] True by simp blast
  qed
qed

lemma follow_from:
  assumes "scan_request api capi entity params = Inr query" and "scannable api entity query rows rm"
    and "cursor_api_ok capi" and "at_offset api entity query rows offset" and "0 < qu_limit query"
    and "length (matched_rows api entity query rows) - offset < n"
  shows "\<exists>pages. follow api capi None entity rm n params = Some pages \<and>
    concat (map pg_items pages) = map (row_to_json api entity) (drop offset (matched_rows api entity query rows)) \<and>
    (\<forall>page \<in> set pages. length (pg_items page) \<le> qu_limit query)"
  using assms
proof (induction n arbitrary: params query offset)
  case (Suc n)
  let ?rest = "drop offset (matched_rows api entity query rows)"
  obtain next_cursor where page: "scan_page api capi None entity query rm =
       Inr \<lparr>pg_items = map (row_to_json api entity) (take (qu_limit query) ?rest), pg_next = next_cursor,
         pg_position = read_checkpoint rm\<rparr>"
    and fin: "length ?rest \<le> qu_limit query \<Longrightarrow> next_cursor = None"
    and more: "qu_limit query < length ?rest \<Longrightarrow> \<exists>cursor. next_cursor = Some (cr_encode capi cursor) \<and>
      cu_ordering cursor = order_token entity (qu_order query) \<and>
      length (cu_values cursor) = length (order_columns entity (qu_order query)) \<and>
      at_offset api entity (query\<lparr>qu_cursor := Some cursor\<rparr>) rows (offset + qu_limit query)"
    by (rule page_at_offset [OF Suc.prems(2,4,5), where capi = capi]) blast
  have answer: "read_scan api capi None entity params rm = Served
      \<lparr>pg_items = map (row_to_json api entity) (take (qu_limit query) ?rest), pg_next = next_cursor,
         pg_position = read_checkpoint rm\<rparr>"
    using Suc.prems(1) page by (simp add: read_scan_def)
  show ?case
  proof (cases "qu_limit query < length ?rest")
    case False
    then show ?thesis using answer fin by simp
  next
    case True
    then obtain cursor where cursor: "next_cursor = Some (cr_encode capi cursor)"
        "cu_ordering cursor = order_token entity (qu_order query)"
        "length (cu_values cursor) = length (order_columns entity (qu_order query))"
        "at_offset api entity (query\<lparr>qu_cursor := Some cursor\<rparr>) rows (offset + qu_limit query)"
      using more by blast
    let ?query = "query\<lparr>qu_cursor := Some cursor\<rparr>" and ?params = "with_cursor params (cr_encode capi cursor)"
    have "\<exists>pages. follow api capi None entity rm n ?params = Some pages \<and>
        concat (map pg_items pages) = map (row_to_json api entity) (drop (offset + qu_limit query) (matched_rows api entity ?query rows)) \<and>
        (\<forall>page \<in> set pages. length (pg_items page) \<le> qu_limit ?query)"
      using Suc.prems(2,3,5,6) cursor(4) True
      by (intro Suc.IH next_request [OF Suc.prems(1,3) cursor(2,3)]) auto
    then obtain pages where pages: "follow api capi None entity rm n ?params = Some pages"
        "concat (map pg_items pages) = map (row_to_json api entity) (drop (offset + qu_limit query) (matched_rows api entity query rows))"
        "\<forall>page \<in> set pages. length (pg_items page) \<le> qu_limit query"
      by auto
    have "take (qu_limit query) ?rest @ drop (offset + qu_limit query) (matched_rows api entity query rows) = ?rest"
      by (metis add.commute append_take_drop_id drop_drop)
    then show ?thesis using answer cursor(1) pages by (simp flip: map_append)
  qed
qed simp

subsection \<open>The whole scan\<close>

lemma scan_params_limit: "scan_params_of acc params = Inr sp \<Longrightarrow> 0 < sp_limit acc \<Longrightarrow> 0 < sp_limit sp"
  by (induction params arbitrary: acc) (fastforce simp: bind_res_Inr_iff scan_param_def split: if_splits option.splits)+

lemma scan_request_limit: "scan_request api capi entity params = Inr query \<Longrightarrow> 0 < qu_limit query"
proof -
  assume "scan_request api capi entity params = Inr query"
  then obtain sp where "scan_params_of no_params params = Inr sp" "qu_limit query = sp_limit sp"
    by (auto simp: scan_request_def bind_res_Inr_iff split: option.splits if_splits)
  then show ?thesis using scan_params_limit [of no_params] by (simp add: no_params_def DEFAULT_LIMIT_def)
qed

text \<open>
  C33: A scan served in pages is the whole scan.  Whatever a client asks of a ready read model without a
  cursor, if the first page is not refused then following the cursors ends, no later page is refused or
  fails, each page is at most as long as the limit, and the pages together are exactly the rows that match
  the filter, in the order asked for, each once.
\<close>

theorem pages_cover_the_scan:
  assumes "entity_ok entity" and "calendar_ok api" and "cursor_api_ok capi" and "table_ok entity rows"
    and "\<forall>row \<in> set rows. row_canonical api entity row" and "model_ready entity rows rm"
    and "scan_request api capi entity params = Inr query" and "qu_cursor query = None" and "length rows < n"
  shows "\<exists>pages. follow api capi None entity rm n params = Some pages \<and>
    concat (map pg_items pages) = listing api entity query rows \<and>
    (\<forall>page \<in> set pages. length (pg_items page) \<le> qu_limit query)"
proof -
  have "scannable api entity query rows rm"
    using assms(1,2,4-6) scan_requestD [OF assms(7)] by (simp add: scannable_def)
  moreover have "length (matched_rows api entity query rows) - 0 < n"
    using le_less_trans [OF length_filter_le assms(9)] by (simp add: matched_rows_def)
  ultimately show ?thesis
    using follow_from [OF assms(7) _ assms(3) at_start [OF assms(8)] scan_request_limit [OF assms(7)]]
    by (simp add: listing_map)
qed

end
