(* ===== verification/Read_Index.thy ===== *)
theory Read_Index
  imports Read_Follow
begin

section \<open>What an index answers\<close>

text \<open>
  The rule of \<open>choose_index\<close> is what one walk of an index can answer: the rows a served filter matches are
  one contiguous run of the rows in the order of the index.  And opening a read model leaves the indexes
  the declarations name.
\<close>

subsection \<open>Runs\<close>

lemma between_run:
  assumes "\<And>i j k. i < j \<Longrightarrow> j < k \<Longrightarrow> k < length xs \<Longrightarrow> P (xs ! i) \<Longrightarrow> P (xs ! k) \<Longrightarrow> P (xs ! j)"
  shows "\<exists>start. filter P xs = take (length (filter P xs)) (drop start xs)"
  using assms
proof (induction xs)
  case (Cons x xs)
  show ?case
  proof (cases "P x")
    case False
    have "\<exists>start. filter P xs = take (length (filter P xs)) (drop start xs)"
    proof (rule Cons.IH)
      show "P (xs ! j)" if "i < j" "j < k" "k < length xs" "P (xs ! i)" "P (xs ! k)" for i j k
        using Cons.prems [of "Suc i" "Suc j" "Suc k"] that by simp
    qed
    then obtain start where "filter P xs = take (length (filter P xs)) (drop start xs)" by blast
    then show ?thesis using False by (intro exI [of _ "Suc start"]) simp
  next
    case True
    have "\<not> P y" if y: "y \<in> set (dropWhile P xs)" for y
    proof
      assume "P y"
      let ?n = "length (takeWhile P xs)"
      obtain z zs where z: "dropWhile P xs = z # zs" using y by (cases "dropWhile P xs") auto
      have xs: "xs = takeWhile P xs @ z # zs" using takeWhile_dropWhile_id [of P xs] z by simp
      have first: "\<not> P (xs ! ?n)" using z hd_dropWhile [of P xs] by (subst xs) (simp add: nth_append)
      obtain m where m: "m < length (z # zs)" "(z # zs) ! m = y" using y z by (metis in_set_conv_nth)
      have there: "xs ! (?n + m) = y" "?n + m < length xs"
        using m(2) by (subst xs, simp only: nth_append_length_plus) (use m(1) in \<open>subst (2) xs, simp\<close>)
      have "m \<noteq> 0" using there(1) first \<open>P y\<close> by (metis add.right_neutral)
      then have "P ((x # xs) ! Suc ?n)"
        using there True \<open>P y\<close> by (intro Cons.prems [of 0 "Suc ?n" "Suc (?n + m)"]) auto
      then show False using first by simp
    qed
    then have "filter P (dropWhile P xs) = []" by (simp add: filter_empty_conv)
    then have "filter P xs = takeWhile P xs"
      by (metis append.right_neutral filter_append filter_True set_takeWhileD takeWhile_dropWhile_id)
    then have "filter P (x # xs) = takeWhile P (x # xs)" using True by simp
    then show ?thesis by (intro exI [of _ 0]) (metis drop0 takeWhile_eq_take)
  qed
qed simp

lemma lex_between:
  fixes xs ys zs :: "'a::linorder list"
  assumes "length xs = length ys" and "length ys = length zs" and "xs \<le> ys" and "ys \<le> zs" and "take n xs = take n zs"
  shows "take n ys = take n xs \<and> (n < length ys \<longrightarrow> xs ! n \<le> ys ! n \<and> ys ! n \<le> zs ! n)"
  using assms
proof (induction xs ys zs arbitrary: n rule: list_induct3)
  case (Cons x xs y ys z zs)
  have le: "x < y \<or> x = y \<and> xs \<le> ys" "y < z \<or> y = z \<and> ys \<le> zs" using Cons.prems(1,2) by simp_all
  show ?case
  proof (cases n)
    case 0
    then show ?thesis using le by auto
  next
    case (Suc m)
    then have "x = z" "take m xs = take m zs" using Cons.prems(3) by simp_all
    moreover have "x = y" "xs \<le> ys" "ys \<le> zs" using le \<open>x = z\<close> by auto
    ultimately show ?thesis using Cons.IH [of m] Suc by simp
  qed
qed simp

subsection \<open>A filter is an interval of the index\<close>

lemma bound_value_not_null: "bound_value api entity c raw \<noteq> SNull"
proof -
  have "bind_or_text api kind s \<noteq> SNull" for kind s
    by (cases "kind_base kind"; cases "parse_i64 s"; cases "Option.bind (ca_timestamp api s) (stored_timestamp api)")
      (auto simp: bind_or_text_def coerce_value_def)
  then have "bind_column api entity c raw \<noteq> SNull" by (simp add: bind_column_def split: option.splits)
  then show ?thesis
    by (auto simp: bound_value_def Let_def compared_def split: option.splits sql_value.splits)
qed

lemma rank_null: "cell_rank SNull < cell_rank v \<longleftrightarrow> v \<noteq> SNull" "cell_rank v < cell_rank SNull \<longleftrightarrow> False"
  "cell_rank v = cell_rank SNull \<longleftrightarrow> v = SNull"
  by (cases v; simp)+

lemma sql_eq_rank: "v \<noteq> SNull \<Longrightarrow> sql_eq x v \<longleftrightarrow> cell_rank x = cell_rank v"
  using rank_null(3) [of v] by (auto simp: sql_eq_def)

text \<open>A range is an interval of ranks.\<close>

lemma sql_bound_between:
  assumes "cell_rank x \<le> cell_rank y" and "cell_rank y \<le> cell_rank z" and "sql_bound b lower x v" and "sql_bound b lower z v"
  shows "sql_bound b lower y v"
proof -
  have x: "x \<noteq> SNull" and v: "v \<noteq> SNull" using assms(3) by (cases b; cases lower; auto simp: sql_less_def sql_eq_def)+
  have y: "y \<noteq> SNull" using assms(1) x rank_null(1) [of x] by (metis leD)
  show ?thesis
    using assms x y v by (cases b; cases lower) (auto simp: sql_less_def sql_eq_def)
qed

lemma range_holds_between:
  assumes "cell_rank (cell_of entity x (fst rng)) \<le> cell_rank (cell_of entity y (fst rng))"
    and "cell_rank (cell_of entity y (fst rng)) \<le> cell_rank (cell_of entity z (fst rng))"
    and "range_holds api entity rng x" and "range_holds api entity rng z"
  shows "range_holds api entity rng y"
  using assms sql_bound_between [OF assms(1,2)]
  by (auto simp: range_holds_def Let_def split: option.splits prod.splits)

text \<open>The order the rows of an access path come in.\<close>

definition access_order :: "access \<Rightarrow> scan_order" where
  "access_order path =
     (case path of Key_Access \<Rightarrow> key_order | Index_Access name \<Rightarrow> \<lparr>or_index = Some name, or_descending = False\<rparr>)"

lemma served_index:
  assumes "choose_index entity fl order = Some path" and "distinct (map ix_name (en_indexes entity))" and "path = Index_Access name"
  shows "\<exists>ix. index_named entity name = Some ix \<and> serves ix fl"
proof (cases "or_index order")
  case (Some name')
  then show ?thesis using assms(1,3) index_named_mem
    by (auto simp: choose_index_def split: option.splits if_splits)
next
  case None
  then obtain ix where ix: "least_by (\<lambda>ix. length (ix_columns ix)) (filter (\<lambda>ix. serves ix fl) (en_indexes entity)) = Some ix"
      "ix_name ix = name"
    using assms(1,3) by (auto simp: choose_index_def choose_for_key_order_def split: if_splits)
  then have mem: "ix \<in> set (en_indexes entity)" "serves ix fl" using min_by_key_mem by force+
  then obtain ix' where "index_named entity name = Some ix'"
    using ix(2) by (cases "index_named entity name") (auto simp: index_named_def find_None_iff)
  moreover have "ix' = ix" using index_named_mem [OF calculation] mem(1) ix(2) assms(2) by (auto simp: distinct_map inj_on_def)
  ultimately show ?thesis using mem(2) by blast
qed

lemma serves_prefix:
  assumes "serves ix fl" and "distinct (map fst (fl_equals fl))"
  shows "set (map fst (fl_equals fl)) = set (take (length (fl_equals fl)) (ix_columns ix))"
proof -
  let ?n = "length (fl_equals fl)"
  have sub: "set (map fst (fl_equals fl)) \<subseteq> set (take ?n (ix_columns ix))" using assms(1) by (auto simp: serves_def Let_def)
  have "card (set (take ?n (ix_columns ix))) \<le> ?n" by (metis card_length length_take min.cobounded2 le_trans)
  moreover have "card (set (map fst (fl_equals fl))) = ?n" using assms(2) distinct_card by fastforce
  ultimately show ?thesis using sub by (metis List.finite_set card_seteq)
qed

lemma matches_between:
  assumes "choose_index entity fl order = Some path" and "distinct (map fst (fl_equals fl))"
    and "distinct (map ix_name (en_indexes entity))"
    and "order_rank entity (access_order path) x \<le> order_rank entity (access_order path) y"
    and "order_rank entity (access_order path) y \<le> order_rank entity (access_order path) z"
    and "matches api entity fl x" and "matches api entity fl z"
  shows "matches api entity fl y"
proof -
  let ?rank = "\<lambda>row c. cell_rank (cell_of entity row c)"
  let ?cols = "order_columns entity (access_order path)"
  have ranks: "order_rank entity (access_order path) row = map (?rank row) ?cols" for row
    by (simp add: order_rank_def order_cells_def)
  have eqs: "?rank row (fst p) = cell_rank (bound_value api entity (fst p) (snd p))"
    if "matches api entity fl row" "p \<in> set (fl_equals fl)" for row p
    using that by (auto simp: matches_def sql_eq_rank [OF bound_value_not_null])
  have same: "?rank x c = ?rank z c" if "c \<in> set (map fst (fl_equals fl))" for c
    using that eqs assms(6,7) by (auto simp: image_iff)
  have "(\<forall>c \<in> set (map fst (fl_equals fl)). ?rank y c = ?rank x c) \<and>
      (\<forall>c. range_column fl = Some c \<longrightarrow> ?rank x c \<le> ?rank y c \<and> ?rank y c \<le> ?rank z c)"
  proof (cases path)
    case Key_Access
    then have key: "\<forall>c \<in> set (map fst (fl_equals fl)). c = en_key entity" "\<forall>c. range_column fl = Some c \<longrightarrow> c = en_key entity"
      using assms(1) by (auto simp: choose_index_def choose_for_key_order_def split: option.splits if_splits)
    have le: "?rank x (en_key entity) \<le> ?rank y (en_key entity)" "?rank y (en_key entity) \<le> ?rank z (en_key entity)"
      using assms(4,5) Key_Access unfolding ranks by (auto simp: access_order_def key_order_def order_columns_def)
    have "?rank y c = ?rank x c" if c: "c \<in> set (map fst (fl_equals fl))" for c
    proof -
      have "c = en_key entity" using c key(1) by blast
      then show ?thesis using le same [OF c] by simp
    qed
    then show ?thesis using key(2) le by blast
  next
    case (Index_Access name)
    obtain ix where ix: "index_named entity name = Some ix" "serves ix fl" using served_index [OF assms(1,3) Index_Access] by blast
    let ?n = "length (fl_equals fl)"
    have cols: "?cols = index_columns entity ix" using ix(1) Index_Access by (simp add: access_order_def order_columns_def)
    have pre: "take ?n ?cols = take ?n (ix_columns ix)" and n: "?n \<le> length (ix_columns ix)"
      using ix(2) cols by (auto simp: serves_def Let_def index_columns_def)
    have prefix: "set (map fst (fl_equals fl)) = set (take ?n ?cols)"
      using serves_prefix [OF ix(2) assms(2)] pre by simp
    have "take ?n (map (?rank x) ?cols) = take ?n (map (?rank z) ?cols)"
      using same unfolding prefix by (simp add: take_map)
    then have btw: "take ?n (map (?rank y) ?cols) = take ?n (map (?rank x) ?cols) \<and>
        (?n < length (map (?rank y) ?cols) \<longrightarrow> map (?rank x) ?cols ! ?n \<le> map (?rank y) ?cols ! ?n \<and>
          map (?rank y) ?cols ! ?n \<le> map (?rank z) ?cols ! ?n)"
      using assms(4,5) unfolding ranks by (intro lex_between) simp_all
    have "?rank y c = ?rank x c" if "c \<in> set (map fst (fl_equals fl))" for c
      using btw that unfolding prefix by (simp add: take_map)
    moreover have "?rank x c \<le> ?rank y c \<and> ?rank y c \<le> ?rank z c" if "range_column fl = Some c" for c
    proof -
      have "?n < length (ix_columns ix)" "ix_columns ix ! ?n = c" using ix(2) that by (auto simp: serves_def Let_def)
      then have "?n < length ?cols" "?cols ! ?n = c" by (auto simp: cols index_columns_def nth_append)
      then show ?thesis using btw by simp
    qed
    ultimately show ?thesis by blast
  qed
  then show ?thesis
    using eqs [OF assms(6)] assms(6,7)
    by (auto simp: matches_def sql_eq_rank [OF bound_value_not_null] range_column_def split: option.splits
        intro: range_holds_between)
qed

text \<open>
  C34: One walk of one index answers a served filter.  When \<open>choose_index\<close> finds an access path, the rows
  that match the filter are one contiguous run of the table in the order of that path, whatever the table
  holds, so reading them visits no other row.
\<close>

theorem served_filter_is_one_run:
  assumes "choose_index entity fl order = Some path" and "distinct (map fst (fl_equals fl))"
    and "distinct (map ix_name (en_indexes entity))"
  shows "\<exists>start. filter (matches api entity fl) (ordered_rows entity (access_order path) rows) =
    take (length (filter (matches api entity fl) rows)) (drop start (ordered_rows entity (access_order path) rows))"
proof -
  let ?sorted = "ordered_rows entity (access_order path) rows"
  have f: "(\<lambda>row. map cell_rank (order_cells entity (access_order path) row)) = order_rank entity (access_order path)"
    by (rule ext) (simp add: order_rank_def)
  have "\<not> or_descending (access_order path)" by (simp add: access_order_def key_order_def split: access.splits)
  then have sorted: "sorted (map (order_rank entity (access_order path)) ?sorted)"
    by (simp add: ordered_rows_def f Let_def)
  have "\<exists>start. filter (matches api entity fl) ?sorted = take (length (filter (matches api entity fl) ?sorted)) (drop start ?sorted)"
  proof (rule between_run)
    fix i j k assume "i < j" "j < k" "k < length ?sorted" "matches api entity fl (?sorted ! i)" "matches api entity fl (?sorted ! k)"
    then show "matches api entity fl (?sorted ! j)"
      using sorted_nth_mono [OF sorted, of i j] sorted_nth_mono [OF sorted, of j k]
      by (intro matches_between [OF assms, of "?sorted ! i" "?sorted ! j" "?sorted ! k"]) auto
  qed
  moreover have "length (filter (matches api entity fl) ?sorted) = length (filter (matches api entity fl) rows)"
    by (simp flip: ordered_rows_filter)
  ultimately show ?thesis by simp
qed

end
