(* ===== verification/Read_Write.thy ===== *)
theory Read_Write
  imports Read_Follow
begin

section \<open>What the writes of a projector leave\<close>

text \<open>
  A table is a map from key to row: what \<open>put\<close>, \<open>patch\<close> and \<open>delete\<close> do to it is what they do to the map,
  and every cell keeps the type its column declares.
\<close>

definition table_map :: "entity_def \<Rightarrow> sql_row list \<Rightarrow> sql_value \<Rightarrow> sql_row option" where
  "table_map entity rows = map_of (map (\<lambda>row. (row_key entity row, row)) rows)"

definition put_row :: "cell_api \<Rightarrow> entity_def \<Rightarrow> string \<Rightarrow> string + sql_row" where
  "put_row api entity row_json =
     bind_res (ok_or (ca_read api row_json) ''not JSON'') (\<lambda>obj. traverse (put_cell api obj) (en_fields entity))"

definition patch_assignments :: "cell_api \<Rightarrow> entity_def \<Rightarrow> string \<Rightarrow> string + (string \<times> sql_value) list" where
  "patch_assignments api entity changes =
     bind_res (ok_or (ca_read api changes) ''not JSON'') (\<lambda>obj.
       map_sum id (\<lambda>cells. concat (map opt_list cells)) (traverse (patch_cell api obj) (en_fields entity)))"

subsection \<open>Typed cells\<close>

lemma parse_i64_range: "parse_i64 s = Some i \<Longrightarrow> i64_range i"
  by (auto simp: parse_i64_def i64_range_def split: option.splits if_splits)

lemma json_i64_range: "json_i64 v = Some i \<Longrightarrow> i64_range i"
  by (cases v) (auto intro: parse_i64_range)

lemma to_sql_typed:
  assumes "to_sql api meta v = Inr cell" and "cell \<noteq> SNull"
  shows "cell_typed meta cell"
proof (cases "fm_sealed_under meta = None \<and> v \<noteq> JNull")
  case True
  then show ?thesis
    using assms json_i64_range [of v]
    by (cases "kind_base (fm_kind meta)"; cases "json_i64 v"; cases "json_str v"; cases "json_bool v")
      (auto simp: to_sql_def cell_typed_def i64_range_def split: if_splits)
next
  case False
  then show ?thesis using assms by (cases "json_str v") (auto simp: to_sql_def cell_typed_def split: if_splits)
qed

lemma not_null_row:
  assumes "not_null_error entity row = None" and "length row = length (en_fields entity)"
    and "list_all2 (\<lambda>f cell. cell = SNull \<or> cell_typed (snd f) cell) (en_fields entity) row"
  shows "row_typed entity row"
proof -
  have "cell_typed (snd f) cell" if "(f, cell) \<in> set (zip (en_fields entity) row)" for f cell
  proof (cases "cell = SNull")
    case True
    then have "meta_nullable (snd f)"
      using assms(1) that bspec [of "set (zip (en_fields entity) row)" _ "(f, cell)"]
      by (cases f) (auto simp: not_null_error_def first_some_None_iff split: if_splits)
    then show ?thesis using True by (simp add: cell_typed_def)
  next
    case False
    then show ?thesis using assms(3) that by (auto simp: list_all2_iff)
  qed
  then show ?thesis using assms(2) by (auto simp: row_typed_def list_all2_iff)
qed

lemma put_row_typed:
  assumes "put_row api entity row_json = Inr row" and "not_null_error entity row = None"
  shows "row_typed entity row"
proof -
  obtain obj where "traverse (put_cell api obj) (en_fields entity) = Inr row"
    using assms(1) by (auto simp: put_row_def bind_res_Inr_iff)
  then have all: "list_all2 (\<lambda>f cell. put_cell api obj f = Inr cell) (en_fields entity) row" by (simp add: traverse_Inr_iff)
  then have "list_all2 (\<lambda>f cell. cell = SNull \<or> cell_typed (snd f) cell) (en_fields entity) row"
    by (rule list_all2_mono) (auto simp: put_cell_def map_err_Inr_iff dest: to_sql_typed)
  then show ?thesis using not_null_row [OF assms(2)] all by (simp add: list_all2_lengthD)
qed

subsection \<open>Keys\<close>

definition plain_cell :: "sql_value \<Rightarrow> bool" where
  "plain_cell v \<longleftrightarrow> (case v of SInteger _ \<Rightarrow> True | SText _ \<Rightarrow> True | _ \<Rightarrow> False)"

lemma sql_eq_plain: "plain_cell x \<Longrightarrow> plain_cell y \<Longrightarrow> sql_eq x y \<longleftrightarrow> x = y"
  by (cases x; cases y) (auto simp: plain_cell_def sql_eq_def)

lemma bound_value_plain: "plain_cell (bound_value api entity c raw)"
proof -
  have "plain_cell (bind_or_text api kind s)" for kind s
    by (cases "kind_base kind"; cases "parse_i64 s"; cases "Option.bind (ca_timestamp api s) (stored_timestamp api)")
      (auto simp: bind_or_text_def coerce_value_def plain_cell_def)
  then have "plain_cell (bind_column api entity c raw)" by (simp add: bind_column_def plain_cell_def split: option.splits)
  then show ?thesis
    by (auto simp: bound_value_def Let_def compared_def plain_cell_def split: option.splits sql_value.splits)
qed

lemma row_key_plain:
  assumes "entity_ok entity" and "row_typed entity row"
  shows "plain_cell (row_key entity row)"
proof -
  obtain meta where meta: "column_meta entity (en_key entity) = Some meta" "orderable meta" using entity_okD(2) [OF assms(1)] by blast
  have "cell_typed meta (row_key entity row)"
    unfolding row_key_def by (rule cell_of_typed [OF assms(2) meta(1) entity_okD(1) [OF assms(1)]])
  then show ?thesis using meta(2) by (auto simp: plain_cell_def cell_typed_def orderable_def split: sql_value.splits)
qed

lemma row_of_key_iff:
  assumes "entity_ok entity" and "row_typed entity row"
  shows "row_of_key api entity key row \<longleftrightarrow> row_key entity row = bound_value api entity (en_key entity) key"
  by (simp add: row_of_key_def sql_eq_plain [OF row_key_plain [OF assms] bound_value_plain])

lemma table_map_Some:
  assumes "distinct (map (row_key entity) rows)"
  shows "table_map entity rows k = Some row \<longleftrightarrow> row \<in> set rows \<and> row_key entity row = k"
proof -
  have "distinct (map fst (map (\<lambda>row. (row_key entity row, row)) rows))" using assms by (simp add: comp_def)
  then show ?thesis by (auto simp: table_map_def)
qed

lemma map_option_eqI: "(\<And>y. m k = Some y \<longleftrightarrow> n k = Some y) \<Longrightarrow> m k = n k"
  by (cases "n k") (metis option.exhaust, metis)

subsection \<open>Put and delete\<close>

lemma put_rows:
  assumes "entity_ok entity" and "table_ok entity rows" and "row_typed entity row"
  shows "table_ok entity (insert_or_replace entity row rows)"
    and "table_map entity (insert_or_replace entity row rows) = (table_map entity rows)(row_key entity row \<mapsto> row)"
proof -
  have eq: "sql_eq (row_key entity r) (row_key entity row) \<longleftrightarrow> row_key entity r = row_key entity row" if "r \<in> set rows" for r
    using that assms(2) by (intro sql_eq_plain row_key_plain [OF assms(1)] assms(3)) (simp add: table_ok_def)
  have kept: "insert_or_replace entity row rows = filter (\<lambda>r. row_key entity r \<noteq> row_key entity row) rows @ [row]"
    using eq by (auto simp: insert_or_replace_def intro: filter_cong)
  have dist: "distinct (map (row_key entity) rows)" using assms(2) by (simp add: table_ok_def)
  then have "distinct (map (row_key entity) (filter (\<lambda>r. row_key entity r \<noteq> row_key entity row) rows))" by (rule distinct_map_filter)
  then show ok: "table_ok entity (insert_or_replace entity row rows)"
    using assms(2,3) unfolding kept by (auto simp: table_ok_def)
  have dist': "distinct (map (row_key entity) (insert_or_replace entity row rows))" using ok by (simp add: table_ok_def)
  show "table_map entity (insert_or_replace entity row rows) = (table_map entity rows)(row_key entity row \<mapsto> row)"
    unfolding kept by (rule ext, rule map_option_eqI)
      (auto simp: table_map_Some [OF dist' [unfolded kept]] table_map_Some [OF dist] fun_upd_def)
qed

lemma delete_rows:
  fixes api :: cell_api and key :: string
  assumes "entity_ok entity" and "table_ok entity rows"
  defines "rows' \<equiv> filter (\<lambda>r. \<not> row_of_key api entity key r) rows"
  shows "table_ok entity rows'"
    and "table_map entity rows' = (table_map entity rows)(bound_value api entity (en_key entity) key := None)"
proof -
  have kept: "rows' = filter (\<lambda>r. row_key entity r \<noteq> bound_value api entity (en_key entity) key) rows"
    using row_of_key_iff [OF assms(1)] assms(2) by (auto simp: rows'_def table_ok_def intro: filter_cong)
  have dist: "distinct (map (row_key entity) rows)" using assms(2) by (simp add: table_ok_def)
  then show ok: "table_ok entity rows'" using assms(2) unfolding kept by (auto simp: table_ok_def distinct_map_filter)
  then have dist': "distinct (map (row_key entity) rows')" by (simp add: table_ok_def)
  show "table_map entity rows' = (table_map entity rows)(bound_value api entity (en_key entity) key := None)"
    unfolding kept by (rule ext, rule map_option_eqI) (auto simp: table_map_Some [OF dist' [unfolded kept]] table_map_Some [OF dist] fun_upd_def)
qed

subsection \<open>Patch\<close>

lemma list_all2_mem: "list_all2 P xs ys \<Longrightarrow> y \<in> set ys \<Longrightarrow> \<exists>x \<in> set xs. P x y"
  by (induction rule: list_all2_induct) auto

lemma patch_assignments_typed:
  assumes "patch_assignments api entity changes = Inr assignments" and "map_of assignments c = Some cell" and "cell \<noteq> SNull"
    and "distinct (map fst (en_fields entity))" and "(c, meta) \<in> set (en_fields entity)"
  shows "cell_typed meta cell"
proof -
  obtain obj cells where cells: "list_all2 (\<lambda>f x. patch_cell api obj f = Inr x) (en_fields entity) cells"
      "assignments = concat (map opt_list cells)"
    using assms(1) by (auto simp: patch_assignments_def bind_res_Inr_iff map_sum_id_Inr_iff traverse_Inr_iff)
  then obtain x where "x \<in> set cells" "(c, cell) \<in> set (opt_list x)" using map_of_SomeD [OF assms(2)] by auto
  then have "Some (c, cell) \<in> set cells" by (cases x) (auto simp: opt_list_def)
  then obtain f where f: "f \<in> set (en_fields entity)" "patch_cell api obj f = Inr (Some (c, cell))"
    using list_all2_mem [OF cells(1)] by blast
  then obtain v where "to_sql api (snd f) v = Inr cell" "fst f = c"
    by (cases "json_get obj (fst f)"; cases "to_sql api (snd f) (the (json_get obj (fst f)))") (auto simp: patch_cell_def)
  moreover have "snd f = meta"
    using f(1) \<open>fst f = c\<close> assms(4,5) by (metis eq_key_imp_eq_value prod.collapse)
  ultimately show ?thesis using to_sql_typed assms(3) by blast
qed

lemma assign_typed:
  assumes "patch_assignments api entity changes = Inr assignments" and "row_typed entity row"
    and "distinct (map fst (en_fields entity))" and "not_null_error entity (assign entity assignments row) = None"
  shows "row_typed entity (assign entity assignments row)"
proof (rule not_null_row [OF assms(4)])
  have len: "length row = length (en_fields entity)" using assms(2) by (simp add: row_typed_def list_all2_lengthD)
  then show "length (assign entity assignments row) = length (en_fields entity)" by (simp add: assign_def)
  show "list_all2 (\<lambda>f cell. cell = SNull \<or> cell_typed (snd f) cell) (en_fields entity) (assign entity assignments row)"
    unfolding list_all2_conv_all_nth
  proof (intro conjI allI impI)
    fix i assume i: "i < length (en_fields entity)"
    obtain c meta where f: "en_fields entity ! i = (c, meta)" by fastforce
    then have mem: "(c, meta) \<in> set (en_fields entity)" using i by (metis nth_mem)
    have "cell_typed meta (row ! i)" using assms(2) i f by (auto simp: row_typed_def list_all2_conv_all_nth)
    then show "assign entity assignments row ! i = SNull \<or>
        cell_typed (snd (en_fields entity ! i)) (assign entity assignments row ! i)"
      using patch_assignments_typed [OF assms(1) _ _ assms(3) mem] i f len by (auto simp: assign_def split: option.splits)
  qed (use len in \<open>simp add: assign_def\<close>)
qed

text \<open>An update hits at most one row, keeps its place, and moves its key only where no other row has it.\<close>

lemma update_rows_table:
  assumes "entity_ok entity" and "table_ok entity rows" and "patch_assignments api entity changes = Inr assignments"
    and "update_rows api entity assignments key rows = Inr rows'"
  defines "k \<equiv> bound_value api entity (en_key entity) key"
  shows "table_ok entity rows' \<and> table_map entity rows' =
    (case table_map entity rows k of
       None \<Rightarrow> table_map entity rows
     | Some row \<Rightarrow> (table_map entity rows)(k := None, row_key entity (assign entity assignments row) \<mapsto> assign entity assignments row))"
proof -
  have typed: "\<forall>row \<in> set rows. row_typed entity row" and dist: "distinct (map (row_key entity) rows)"
    using assms(2) by (simp_all add: table_ok_def)
  have hit: "row_of_key api entity key r \<longleftrightarrow> row_key entity r = k" if "r \<in> set rows" for r
    using row_of_key_iff [OF assms(1)] typed that by (simp add: k_def)
  have filt: "filter (row_of_key api entity key) rows = filter (\<lambda>r. row_key entity r = k) rows"
      "filter (\<lambda>r. \<not> row_of_key api entity key r) rows = filter (\<lambda>r. row_key entity r \<noteq> k) rows"
    using hit by (auto intro: filter_cong)
  have rows': "rows' = map (\<lambda>r. if row_key entity r = k then assign entity assignments r else r) rows"
    using assms(4) hit by (auto simp: update_rows_def Let_def split: option.splits if_splits)
  show ?thesis
  proof (cases "table_map entity rows k")
    case None
    then have "\<forall>r \<in> set rows. row_key entity r \<noteq> k" using table_map_Some [OF dist] by (metis option.distinct(1))
    then have "rows' = rows" unfolding rows' by (auto intro: map_idI)
    then show ?thesis using None assms(2) by simp
  next
    case (Some row)
    let ?row = "assign entity assignments row"
    have row: "row \<in> set rows" "row_key entity row = k" using Some table_map_Some [OF dist] by auto
    then obtain us vs where split: "rows = us @ row # vs" by (metis split_list)
    have "row_key entity row \<notin> row_key entity ` set (us @ vs)" using dist unfolding split by (simp add: image_Un)
    then have others: "\<forall>r \<in> set (us @ vs). row_key entity r \<noteq> k" using row(2) by (metis image_eqI)
    then have rows'_split: "rows' = us @ ?row # vs" unfolding rows' split by (simp add: row(2) map_idI)
    have "filter (\<lambda>r. row_key entity r = k) rows = [row]" "filter (\<lambda>r. row_key entity r \<noteq> k) rows = us @ vs"
      using others by (auto simp: split row(2) filter_empty_conv filter_id_conv)
    then have null: "not_null_error entity ?row = None"
      and fresh: "\<forall>r \<in> set (us @ vs). \<not> sql_eq (row_key entity ?row) (row_key entity r)"
      using assms(4) by (auto simp: update_rows_def Let_def filt split: option.splits if_splits)
    have new: "row_typed entity ?row"
      using assign_typed [OF assms(3) _ entity_okD(1) [OF assms(1)] null] typed row(1) by simp
    have "\<forall>r \<in> set (us @ vs). row_key entity r \<noteq> row_key entity ?row"
      using fresh typed row_key_plain [OF assms(1)] new sql_eq_plain by (metis Un_iff set_append split list.set_intros(2) insert_iff list.simps(15))
    then have ok: "table_ok entity rows'"
      using assms(2) new by (auto simp: table_ok_def rows'_split split)
    then have dist': "distinct (map (row_key entity) rows')" by (simp add: table_ok_def)
    have "table_map entity rows' = (table_map entity rows)(k := None, row_key entity ?row \<mapsto> ?row)"
      unfolding rows'_split split by (rule ext, rule map_option_eqI)
        (use others \<open>\<forall>r \<in> set (us @ vs). row_key entity r \<noteq> row_key entity ?row\<close> row(2) in
          \<open>auto simp: table_map_Some [OF dist' [unfolded rows'_split]] table_map_Some [OF dist [unfolded split]] fun_upd_def\<close>)
    then show ?thesis using ok Some by simp
  qed
qed

subsection \<open>A table is a map\<close>

fun map_after :: "cell_api \<Rightarrow> entity_def \<Rightarrow> entity_op \<Rightarrow> (sql_value \<Rightarrow> sql_row option) \<Rightarrow> sql_value \<Rightarrow> sql_row option" where
  "map_after api entity (Put row_json) m =
     (case put_row api entity row_json of Inl _ \<Rightarrow> m | Inr row \<Rightarrow> m(row_key entity row \<mapsto> row))"
| "map_after api entity (Patch key changes) m =
     (case patch_assignments api entity changes of
        Inl _ \<Rightarrow> m
      | Inr assignments \<Rightarrow>
          if assignments = [] then m
          else
            let k = bound_value api entity (en_key entity) key in
            (case m k of
               None \<Rightarrow> m
             | Some row \<Rightarrow> m(k := None, row_key entity (assign entity assignments row) \<mapsto> assign entity assignments row)))"
| "map_after api entity (Delete key) m = m(bound_value api entity (en_key entity) key := None)"

lemma with_rows_self: "rm_tables rm (en_name entity) = Some rows \<Longrightarrow> with_rows entity rows rm = rm"
  by (cases rm) (simp add: with_rows_def fun_upd_idem)

lemma get_row_map:
  assumes "entity_ok entity" and "rm_tables rm (en_name entity) = Some rows" and "table_ok entity rows"
  shows "get_row api entity key rm =
    Inr (map_option (row_to_json api entity) (table_map entity rows (bound_value api entity (en_key entity) key)))"
proof -
  have "find (row_of_key api entity key) rs = table_map entity rs (bound_value api entity (en_key entity) key)"
    if "\<forall>r \<in> set rs. row_typed entity r" for rs
    using that row_of_key_iff [OF assms(1)] by (induction rs) (auto simp: table_map_def)
  then show ?thesis using assms(2,3) by (simp add: get_row_def rows_of_def table_ok_def)
qed

text \<open>
  C35: The writes of a read model are those of a map from key to row.  A write that succeeds leaves a table
  whose cells have their declared types and whose keys are distinct, whose map is the one the write
  describes (a put replaces, a patch changes one row and may move its key, a delete removes), leaves every
  other table, index and the checkpoint as they were, and a read of any key then answers from that map.
\<close>

theorem writes_refine_a_map:
  assumes "entity_ok entity" and "rm_tables rm (en_name entity) = Some rows" and "table_ok entity rows"
    and "apply_one api entity stmt rm = Inr rm'"
  shows "\<exists>rows'. rm' = with_rows entity rows' rm \<and> table_ok entity rows' \<and>
    table_map entity rows' = map_after api entity stmt (table_map entity rows) \<and>
    (\<forall>key. get_row api entity key rm' = Inr (map_option (row_to_json api entity)
       (map_after api entity stmt (table_map entity rows) (bound_value api entity (en_key entity) key))))"
proof -
  have rows: "rows_of entity rm = Inr rows" using assms(2) by (simp add: rows_of_def)
  have "\<exists>rows'. rm' = with_rows entity rows' rm \<and> table_ok entity rows' \<and>
      table_map entity rows' = map_after api entity stmt (table_map entity rows)"
  proof (cases stmt)
    case (Put row_json)
    then obtain obj where obj: "ca_read api row_json = Some obj" "apply_put api entity row_json rm = Inr rm'"
      using assms(4) by (cases "ca_read api row_json") (auto simp: apply_put_def)
    then obtain row where put: "put_row api entity row_json = Inr row" "not_null_error entity row = None"
        "rm' = with_rows entity (insert_or_replace entity row rows) rm"
      using rows by (cases obj) (auto simp: apply_put_def put_row_def bind_res_Inr_iff split: option.splits)
    then show ?thesis using put_rows [OF assms(1,3) put_row_typed [OF put(1,2)]] Put by auto
  next
    case (Patch key changes)
    then obtain obj where obj: "ca_read api changes = Some obj" "apply_patch api entity key changes rm = Inr rm'"
      using assms(4) by (cases "ca_read api changes") (auto simp: apply_patch_def)
    then obtain cells where cells: "traverse (patch_cell api obj) (en_fields entity) = Inr cells"
      by (cases obj) (auto simp: apply_patch_def bind_res_Inr_iff)
    define assignments where "assignments = concat (map opt_list cells)"
    have changes: "patch_assignments api entity changes = Inr assignments"
      using obj(1) cells by (simp add: patch_assignments_def assignments_def)
    have rm': "if assignments = [] then rm' = rm
        else \<exists>rows'. update_rows api entity assignments key rows = Inr rows' \<and> rm' = with_rows entity rows' rm"
      using obj cells rows by (cases obj) (auto simp: apply_patch_def bind_res_Inr_iff Let_def assignments_def split: if_splits)
    show ?thesis
    proof (cases "assignments = []")
      case True
      then show ?thesis using changes rm' Patch assms(2,3) with_rows_self [OF assms(2)] by (intro exI [of _ rows]) simp
    next
      case False
      then obtain rows' where "update_rows api entity assignments key rows = Inr rows'" "rm' = with_rows entity rows' rm"
        using rm' by auto
      then show ?thesis
        using update_rows_table [OF assms(1,3) changes] changes Patch False by (auto simp: Let_def split: option.splits)
    qed
  next
    case (Delete key)
    then show ?thesis
      using assms(4) rows delete_rows [OF assms(1,3)] by (auto simp: apply_delete_def)
  qed
  then obtain rows' where rows': "rm' = with_rows entity rows' rm" "table_ok entity rows'"
      "table_map entity rows' = map_after api entity stmt (table_map entity rows)" by blast
  moreover have "rm_tables rm' (en_name entity) = Some rows'" by (simp add: rows'(1) with_rows_def)
  ultimately show ?thesis using get_row_map [OF assms(1)] by metis
qed

subsection \<open>Opening\<close>

definition the_default :: "'a \<Rightarrow> 'a option \<Rightarrow> 'a" where
  "the_default d x = (case x of None \<Rightarrow> d | Some y \<Rightarrow> y)"

definition index_names :: "entity_def \<Rightarrow> string list" where
  "index_names entity = map (\<lambda>ix. index_name entity (ix_name ix)) (en_indexes entity)"

definition prepare_entity :: "entity_def \<Rightarrow> read_model \<Rightarrow> read_model" where
  "prepare_entity entity rm = create_indexes entity (drop_reshaped_indexes entity (create_table entity rm))"

definition entity_ready :: "entity_def \<Rightarrow> read_model \<Rightarrow> bool" where
  "entity_ready entity rm \<longleftrightarrow> (\<exists>rows. model_ready entity rows rm)"

lemma open_model_prepare: "open_model entities rm = fold prepare_entity entities (reformat rm)"
  by (simp add: open_model_def prepare_entity_def [abs_def])

definition drop_reshaped :: "entity_def \<Rightarrow> index_def \<Rightarrow> read_model \<Rightarrow> read_model" where
  "drop_reshaped entity ix rm =
     (let name = index_name entity (ix_name ix) in
      case rm_indexes rm name of
        None \<Rightarrow> rm
      | Some live \<Rightarrow> if live = index_columns entity ix then rm else rm\<lparr>rm_indexes := (rm_indexes rm)(name := None)\<rparr>)"

definition create_one :: "entity_def \<Rightarrow> index_def \<Rightarrow> read_model \<Rightarrow> read_model" where
  "create_one entity ix rm =
     (let name = index_name entity (ix_name ix) in
      if rm_indexes rm name = None then rm\<lparr>rm_indexes := (rm_indexes rm)(name \<mapsto> index_columns entity ix)\<rparr> else rm)"

lemma folded_indexes:
  "drop_reshaped_indexes entity rm = fold (drop_reshaped entity) (en_indexes entity) rm"
  "create_indexes entity rm = fold (create_one entity) (en_indexes entity) rm"
  by (simp_all add: drop_reshaped_indexes_def create_indexes_def drop_reshaped_def [abs_def] create_one_def [abs_def])

lemma drop_reshaped_step:
  "rm_tables (drop_reshaped entity ix rm) = rm_tables rm"
  "rm_position (drop_reshaped entity ix rm) = rm_position rm"
  "rm_indexes (drop_reshaped entity ix rm) (index_name entity (ix_name ix)) \<in> {None, Some (index_columns entity ix)}"
  "name \<noteq> index_name entity (ix_name ix) \<Longrightarrow> rm_indexes (drop_reshaped entity ix rm) name = rm_indexes rm name"
  by (auto simp: drop_reshaped_def Let_def split: option.splits)

lemma create_one_step:
  "rm_tables (create_one entity ix rm) = rm_tables rm"
  "rm_position (create_one entity ix rm) = rm_position rm"
  "rm_indexes rm (index_name entity (ix_name ix)) \<in> {None, Some (index_columns entity ix)} \<Longrightarrow>
     rm_indexes (create_one entity ix rm) (index_name entity (ix_name ix)) = Some (index_columns entity ix)"
  "name \<noteq> index_name entity (ix_name ix) \<Longrightarrow> rm_indexes (create_one entity ix rm) name = rm_indexes rm name"
  by (auto simp: create_one_def Let_def)

text \<open>Folding a step that settles the name it is about, and no other, settles every name when they are distinct.\<close>

lemma fold_settles:
  fixes indexes :: "'s \<Rightarrow> 'n \<Rightarrow> 'v"
  assumes "\<And>x s. x \<in> set xs \<Longrightarrow> Q x (indexes s (name x)) \<Longrightarrow> R x (indexes (f x s) (name x))"
    and "\<And>x s n. n \<noteq> name x \<Longrightarrow> indexes (f x s) n = indexes s n"
    and "distinct (map name xs)" and "\<forall>x \<in> set xs. Q x (indexes s (name x))"
  shows "(\<forall>x \<in> set xs. R x (indexes (fold f xs s) (name x))) \<and>
    (\<forall>n. n \<notin> name ` set xs \<longrightarrow> indexes (fold f xs s) n = indexes s n)"
  using assms(1,3,4)
proof (induction xs arbitrary: s)
  case (Cons x xs)
  have fresh: "name x \<notin> name ` set xs" using Cons.prems(2) by auto
  have "\<forall>y \<in> set xs. Q y (indexes (f x s) (name y))"
    using Cons.prems(3) fresh assms(2) by (metis image_eqI list.set_intros(2))
  then have IH: "(\<forall>y \<in> set xs. R y (indexes (fold f xs (f x s)) (name y))) \<and>
      (\<forall>n. n \<notin> name ` set xs \<longrightarrow> indexes (fold f xs (f x s)) n = indexes (f x s) n)"
    using Cons.prems(1,2) by (intro Cons.IH) auto
  have "R x (indexes (f x s) (name x))" using Cons.prems(1,3) by simp
  then show ?case using IH fresh assms(2) by auto
qed simp

lemma fold_same: "(\<And>x s. g (f x s) = g s) \<Longrightarrow> g (fold f xs s) = g s"
  by (induction xs arbitrary: s) auto

lemma prepare_entity_effect:
  assumes "distinct (index_names entity)"
  shows "ix \<in> set (en_indexes entity) \<Longrightarrow>
      rm_indexes (prepare_entity entity rm) (index_name entity (ix_name ix)) = Some (index_columns entity ix)"
    and "name \<notin> set (index_names entity) \<Longrightarrow> rm_indexes (prepare_entity entity rm) name = rm_indexes rm name"
    and "rm_tables (prepare_entity entity rm) = (\<lambda>name. if name = en_name entity \<and> rm_tables rm name = None then Some [] else rm_tables rm name)"
    and "rm_position (prepare_entity entity rm) = rm_position rm"
proof -
  let ?nm = "\<lambda>ix. index_name entity (ix_name ix)" and ?cols = "index_columns entity"
  let ?a = "create_table entity rm"
  let ?b = "drop_reshaped_indexes entity ?a"
  have dist: "distinct (map ?nm (en_indexes entity))" using assms by (simp add: index_names_def)
  have a: "rm_indexes ?a = rm_indexes rm" "rm_position ?a = rm_position rm" by (simp_all add: create_table_def)
  have b: "(\<forall>ix \<in> set (en_indexes entity). rm_indexes ?b (?nm ix) \<in> {None, Some (?cols ix)}) \<and>
      (\<forall>n. n \<notin> ?nm ` set (en_indexes entity) \<longrightarrow> rm_indexes ?b n = rm_indexes ?a n)"
    unfolding folded_indexes
    by (rule fold_settles [where Q = "\<lambda>_ _. True" and R = "\<lambda>ix v. v \<in> {None, Some (?cols ix)}"])
      (use dist drop_reshaped_step(3) in \<open>auto simp: drop_reshaped_step(4)\<close>)
  have c: "(\<forall>ix \<in> set (en_indexes entity). rm_indexes (create_indexes entity ?b) (?nm ix) = Some (?cols ix)) \<and>
      (\<forall>n. n \<notin> ?nm ` set (en_indexes entity) \<longrightarrow> rm_indexes (create_indexes entity ?b) n = rm_indexes ?b n)"
    unfolding folded_indexes(2)
    by (rule fold_settles [where Q = "\<lambda>ix v. v \<in> {None, Some (?cols ix)}" and R = "\<lambda>ix v. v = Some (?cols ix)"])
      (use dist b create_one_step(3) in \<open>auto simp: create_one_step(4)\<close>)
  have same: "rm_tables (create_indexes entity ?b) = rm_tables ?a" "rm_position (create_indexes entity ?b) = rm_position ?a"
    by (simp_all add: folded_indexes fold_same [of rm_tables] fold_same [of rm_position] drop_reshaped_step create_one_step)
  show "ix \<in> set (en_indexes entity) \<Longrightarrow> rm_indexes (prepare_entity entity rm) (?nm ix) = Some (?cols ix)"
    using c by (simp add: prepare_entity_def)
  show "name \<notin> set (index_names entity) \<Longrightarrow> rm_indexes (prepare_entity entity rm) name = rm_indexes rm name"
    using b c a(1) by (simp add: prepare_entity_def index_names_def)
  show "rm_tables (prepare_entity entity rm) = (\<lambda>name. if name = en_name entity \<and> rm_tables rm name = None then Some [] else rm_tables rm name)"
    unfolding prepare_entity_def same(1) by (rule ext) (auto simp: create_table_def)
  show "rm_position (prepare_entity entity rm) = rm_position rm" using same(2) a(2) by (simp add: prepare_entity_def)
qed

text \<open>
  Opening a read model prepares it for every declared entity.  When the generated index names are
  distinct, every entity has its table and each of its indexes with exactly the columns its declaration
  generates, a reshaped one included; rows written in the current format are kept with the checkpoint, and
  a model of another format comes up empty at position zero, to be replayed.
\<close>

theorem opening_prepares_every_table:
  assumes "distinct (concat (map index_names entities))" and "entity \<in> set entities"
  shows "entity_ready entity (open_model entities rm) \<and>
    (if rm_format rm = FORMAT
     then rm_tables (open_model entities rm) (en_name entity) = Some (the_default [] (rm_tables rm (en_name entity))) \<and>
       read_checkpoint (open_model entities rm) = read_checkpoint rm
     else rm_tables (open_model entities rm) (en_name entity) = Some [] \<and> read_checkpoint (open_model entities rm) = 0)"
proof -
  have "rm_tables (fold prepare_entity es r) (en_name entity) = Some (the_default [] (rm_tables r (en_name entity))) \<and>
      (\<forall>ix \<in> set (en_indexes entity).
         rm_indexes (fold prepare_entity es r) (index_name entity (ix_name ix)) = Some (index_columns entity ix)) \<and>
      rm_position (fold prepare_entity es r) = rm_position r"
    if "distinct (concat (map index_names es))" "entity \<in> set es" for es r
    using that
  proof (induction es arbitrary: r)
    case (Cons e es)
    have dist: "distinct (index_names e)" "distinct (concat (map index_names es))" using Cons.prems(1) by auto
    note effect = prepare_entity_effect [OF dist(1)]
    have pos: "rm_position (fold prepare_entity es r') = rm_position r'" for r'
      using dist(2) by (induction es arbitrary: r') (auto simp: prepare_entity_effect(4))
    have kept: "(\<forall>n. n \<notin> set (concat (map index_names es)) \<longrightarrow> rm_indexes (fold prepare_entity es r') n = rm_indexes r' n) \<and>
        (\<forall>n rows. rm_tables r' n = Some rows \<longrightarrow> rm_tables (fold prepare_entity es r') n = Some rows)" for r'
      using dist(2) by (induction es arbitrary: r') (auto simp: prepare_entity_effect(2,3))
    show ?case
    proof (cases "entity \<in> set es")
      case True
      have "the_default [] (rm_tables (prepare_entity e r) (en_name entity)) = the_default [] (rm_tables r (en_name entity))"
        unfolding effect(3) by (cases "rm_tables r (en_name entity)") (auto simp: the_default_def)
      then show ?thesis using Cons.IH [OF dist(2) True, of "prepare_entity e r"] effect(4) by simp
    next
      case False
      then have e: "e = entity" using Cons.prems(2) by simp
      have fresh: "index_name entity (ix_name ix) \<notin> set (concat (map index_names es))" if "ix \<in> set (en_indexes entity)" for ix
      proof -
        have "index_name entity (ix_name ix) \<in> set (index_names e)" using that e by (auto simp: index_names_def)
        then show ?thesis using Cons.prems(1) by auto
      qed
      have "rm_tables (prepare_entity e r) (en_name entity) = Some (the_default [] (rm_tables r (en_name entity)))"
        unfolding effect(3) unfolding e by (cases "rm_tables r (en_name entity)") (simp_all add: the_default_def)
      then show ?thesis using kept [of "prepare_entity e r"] pos fresh effect(1,4) e by simp
    qed
  qed simp
  from this [OF assms, of "reformat rm"] show ?thesis
    by (auto simp: open_model_prepare entity_ready_def model_ready_def read_checkpoint_def reformat_def empty_model_def the_default_def as_u64_def)
qed

end
