(* ===== verification/Projection.thy ===== *)
theory Projection
  imports Read_Write Lowering Keystore_Props
begin

section \<open>Rows a projector writes (src/heklang_host.rs)\<close>

text \<open>
  \<open>RowWriter\<close>: how a projector's handler puts, reads and deletes a row of its read model.  A sealed column is
  stored as ciphertext under a key that already exists, or NULL where there is none, and a plain one in the
  form the read API compares.  heklang's reading of JSON and of unsealed text as a value, and its text of a
  key, are the fields of \<open>value_api\<close>; the hash set of \<open>Shredded\<close> is the set of the pairs it hashes.
\<close>

record ('v, 'k) value_api =
  va_from_json :: "json \<Rightarrow> hk_type \<Rightarrow> string + 'v hk_value"
  va_from_sealed :: "string \<Rightarrow> hk_type \<Rightarrow> string + 'v hk_value"
  va_key_text :: "'k \<Rightarrow> string"

type_synonym 'v hk_row = "(string, 'v hk_value) fmap"

record shredded =
  sh_writes :: nat
  sh_seen :: "(string \<times> string) set"

definition shredded_subjects :: "shredded \<Rightarrow> nat" where
  "shredded_subjects sh = card (sh_seen sh)"

definition shredded_record :: "string \<times> string \<Rightarrow> shredded \<Rightarrow> shredded" where
  "shredded_record pair sh = sh\<lparr>sh_writes := Suc (sh_writes sh), sh_seen := insert pair (sh_seen sh)\<rparr>"

text \<open>The tables a writer knows by name, the declared fields behind them, and its key store if it has one.\<close>

record row_writer =
  wr_table :: "string \<Rightarrow> entity_def option"
  wr_declared :: "string \<Rightarrow> ir_field list option"
  wr_keys :: "key_world option"

definition not_declared :: "string \<Rightarrow> string" where
  "not_declared entity = ''entity '' @ quoted entity @ '' is not declared''"

definition key_text :: "('v, 'k) value_api \<Rightarrow> 'k list \<Rightarrow> string + string" where
  "key_text va key =
     (case key of
        [one] \<Rightarrow> Inr (va_key_text va one)
      | _ \<Rightarrow> Inl (''a read model is keyed on one column, and this key has '' @ nat_str (length key)))"

subsection \<open>Putting a row\<close>

definition row_ids :: "'v hk_api \<Rightarrow> 'v hk_row \<Rightarrow> string \<Rightarrow> string option" where
  "row_ids api row name = Option.bind (fmlookup row name) (plaintext_scalar api)"

type_synonym drops = "(string \<times> string) list"

definition no_master_text :: "string \<Rightarrow> seal \<Rightarrow> string" where
  "no_master_text name seal =
     ''column '' @ quoted name @ '' is sealed under '' @ quoted (seal_subject seal) @ '' but no master key is configured''"

definition no_id_text :: "seal \<Rightarrow> string" where
  "no_id_text seal = ''row has no '' @ quoted (seal_id_field seal) @ '' to file '' @ quoted (seal_subject seal) @ '''s key under''"

definition put_content ::
  "key_world \<Rightarrow> cell_api \<Rightarrow> field_kind \<Rightarrow> 'v hk_value \<Rightarrow> json \<Rightarrow> ((string \<times> string) + json) ks" where
  "put_content w capi kind v doc =
     (case peeled v of
        V_Sealed field subject i content \<Rightarrow>
          bind_ks (decrypt_subject w subject i field content) (\<lambda>plaintext.
            ret (case plaintext of Some s \<Rightarrow> Inr (unsealed_json capi kind s) | None \<Rightarrow> Inl (subject, i)))
      | _ \<Rightarrow> ret (Inr doc))"

definition put_sealed ::
  "key_world \<Rightarrow> 'v hk_api \<Rightarrow> cell_api \<Rightarrow> seal \<Rightarrow> string \<Rightarrow> string \<Rightarrow> field_kind \<Rightarrow> 'v hk_value \<Rightarrow> json \<Rightarrow>
    (json \<times> drops) ks" where
  "put_sealed w api capi seal name subject_value kind v doc =
     bind_ks (put_content w capi kind v doc) (\<lambda>content.
       case content of
         Inl dropped \<Rightarrow> ret (JNull, [dropped])
       | Inr doc \<Rightarrow>
           bind_ks (encrypt_subject_existing w (seal_subject seal) subject_value name
               (seal_text api kind (column_form capi kind doc))) (\<lambda>sealed.
             ret (case sealed of
                    Some ciphertext \<Rightarrow> (JStr ciphertext, [])
                  | None \<Rightarrow> (JNull, [(seal_subject seal, subject_value)]))))"

definition put_column ::
  "row_writer \<Rightarrow> 'v hk_api \<Rightarrow> cell_api \<Rightarrow> 'v hk_row \<Rightarrow> string \<times> field_meta \<Rightarrow> members \<times> drops \<Rightarrow> (members \<times> drops) ks" where
  "put_column rw api capi row f acc =
     (case (f, acc) of ((name, meta), (stored, dropped)) \<Rightarrow>
      case fmlookup row name of
        None \<Rightarrow> ret acc
      | Some v \<Rightarrow>
          let doc = value_json api v in
          case (if doc = JNull then None else fm_sealed_under meta) of
            None \<Rightarrow> ret (map_insert name (stored_form capi (fm_kind meta) doc) stored, dropped)
          | Some seal \<Rightarrow>
              (case wr_keys rw of
                 None \<Rightarrow> fails (no_master_text name seal)
               | Some w \<Rightarrow>
                   (case row_ids api row (seal_id_field seal) of
                      None \<Rightarrow> fails (no_id_text seal)
                    | Some v_id \<Rightarrow>
                        bind_ks (put_sealed w api capi seal name v_id (fm_kind meta) v doc) (\<lambda>(content, drops).
                          ret (map_insert name content stored, dropped @ drops)))))"

primrec put_columns ::
  "row_writer \<Rightarrow> 'v hk_api \<Rightarrow> cell_api \<Rightarrow> 'v hk_row \<Rightarrow> (string \<times> field_meta) list \<Rightarrow> members \<times> drops \<Rightarrow> (members \<times> drops) ks" where
  "put_columns rw api capi row [] acc = ret acc"
| "put_columns rw api capi row (f # fs) acc = bind_ks (put_column rw api capi row f acc) (put_columns rw api capi row fs)"

definition row_put ::
  "row_writer \<Rightarrow> 'v hk_api \<Rightarrow> cell_api \<Rightarrow> string \<Rightarrow> 'v hk_row \<Rightarrow> read_model \<Rightarrow> shredded option \<Rightarrow>
    (read_model \<times> shredded option) ks" where
  "row_put rw api capi entity row rm sh =
     (case wr_table rw entity of
        None \<Rightarrow> fails (not_declared entity)
      | Some table \<Rightarrow>
          bind_ks (put_columns rw api capi row (en_fields table) ([], [])) (\<lambda>(stored, dropped).
          bind_ks (lift (map_err (\<lambda>why. ''applying a write to entity '' @ quoted entity @ '': '' @ why)
              (apply_one capi table (Put (ca_write capi (JObj stored))) rm))) (\<lambda>rm.
            ret (rm, map_option (fold shredded_record dropped) sh))))"

definition row_delete ::
  "row_writer \<Rightarrow> ('v, 'k) value_api \<Rightarrow> cell_api \<Rightarrow> string \<Rightarrow> 'k list \<Rightarrow> read_model \<Rightarrow> string + read_model" where
  "row_delete rw va capi entity key rm =
     bind_res (ok_or (wr_table rw entity) (not_declared entity)) (\<lambda>table.
     bind_res (key_text va key) (\<lambda>key. apply_one capi table (Delete key) rm))"

subsection \<open>Reading a row back for a handler\<close>

definition decrypt_field ::
  "row_writer \<Rightarrow> cell_api \<Rightarrow> json \<Rightarrow> seal \<Rightarrow> string \<Rightarrow> json \<Rightarrow> string option ks" where
  "decrypt_field rw capi row seal field stored =
     (case wr_keys rw of
        None \<Rightarrow> fails (no_master_text field seal)
      | Some w \<Rightarrow>
          (case json_str stored of
             None \<Rightarrow> ret (Some (case scalar_to_string stored of Some s \<Rightarrow> s | None \<Rightarrow> ca_write capi stored))
           | Some ciphertext \<Rightarrow>
               (case Option.bind (json_get row (seal_id_field seal)) scalar_to_string of
                  None \<Rightarrow> fails (no_id_text seal)
                | Some v \<Rightarrow> decrypt_subject w (seal_subject seal) v field ciphertext)))"

definition sealed_column ::
  "('v, 'k) value_api \<Rightarrow> cell_api \<Rightarrow> hk_type \<Rightarrow> field_kind option \<Rightarrow> string \<Rightarrow> string + 'v hk_value" where
  "sealed_column va capi declared kind plaintext =
     (let (content, optional) = (case declared of T_Opt inner \<Rightarrow> (inner, True) | _ \<Rightarrow> (declared, False));
          content = (case content of T_Sealed inner _ \<Rightarrow> inner | _ \<Rightarrow> content);
          plain = (if map_option kind_base kind = Some Timestamp
                   then (case ca_timestamp capi plaintext of None \<Rightarrow> plaintext | Some micros \<Rightarrow> int_str micros)
                   else plaintext) in
      map_sum id (\<lambda>read. if optional then V_Opt (Some read) else read) (va_from_sealed va plain content))"

definition row_field ::
  "row_writer \<Rightarrow> ('v, 'k) value_api \<Rightarrow> cell_api \<Rightarrow> entity_def \<Rightarrow> json \<Rightarrow> ir_field \<Rightarrow> 'v hk_value ks" where
  "row_field rw va capi table stored field =
     (let meta = column_meta table (if_name field) in
      case json_get stored (if_name field) of
        None \<Rightarrow> lift (va_from_json va JNull (if_ty field))
      | Some raw \<Rightarrow>
          (case Option.bind meta fm_sealed_under of
             Some seal \<Rightarrow>
               bind_ks (decrypt_field rw capi stored seal (if_name field) raw) (\<lambda>plaintext.
                 lift (case plaintext of
                         Some s \<Rightarrow> sealed_column va capi (if_ty field) (map_option fm_kind meta) s
                       | None \<Rightarrow> va_from_json va JNull (if_ty field)))
           | None \<Rightarrow>
               lift (va_from_json va (case meta of Some meta \<Rightarrow> wire_form capi (fm_kind meta) raw | None \<Rightarrow> raw) (if_ty field))))"

primrec row_fields ::
  "row_writer \<Rightarrow> ('v, 'k) value_api \<Rightarrow> cell_api \<Rightarrow> entity_def \<Rightarrow> json \<Rightarrow> ir_field list \<Rightarrow> 'v hk_row \<Rightarrow> 'v hk_row ks" where
  "row_fields rw va capi table stored [] row = ret row"
| "row_fields rw va capi table stored (f # fs) row =
     bind_ks (row_field rw va capi table stored f) (\<lambda>v. row_fields rw va capi table stored fs (fmupd (if_name f) v row))"

definition row_read ::
  "row_writer \<Rightarrow> ('v, 'k) value_api \<Rightarrow> cell_api \<Rightarrow> string \<Rightarrow> 'k list \<Rightarrow> read_model \<Rightarrow> 'v hk_row option ks" where
  "row_read rw va capi entity key rm =
     (case (wr_table rw entity, wr_declared rw entity) of
        (Some table, Some declared) \<Rightarrow>
          bind_ks (lift (bind_res (key_text va key) (\<lambda>key. get_row capi table key rm))) (\<lambda>found.
            case found of
              None \<Rightarrow> ret None
            | Some stored \<Rightarrow> bind_ks (row_fields rw va capi table stored declared fmempty) (\<lambda>row. ret (Some row)))
      | _ \<Rightarrow> fails (not_declared entity))"

end
