(* ===== verification/Projection_Sound.thy ===== *)
theory Projection_Sound
  imports Projection
begin

section \<open>What a projection does to keys and reads back\<close>

subsection \<open>Computations that leave the key table alone\<close>

definition reads_only :: "'a ks \<Rightarrow> bool" where
  "reads_only m \<longleftrightarrow> (\<forall>s. ks_cache s = None \<longrightarrow> ks_table (snd (m s)) = ks_table s \<and> ks_cache (snd (m s)) = None)"

lemma reads_only_basic [intro]: "reads_only (ret x)" "reads_only (fails e)" "reads_only (lift r)"
  by (simp_all add: reads_only_def ks_simps split: sum.splits)

lemma reads_only_bind [intro]: "reads_only m \<Longrightarrow> (\<And>x. reads_only (f x)) \<Longrightarrow> reads_only (bind_ks m f)"
  unfolding reads_only_def
proof (intro allI impI)
  fix s :: keystore
  assume m: "\<forall>s. ks_cache s = None \<longrightarrow> ks_table (snd (m s)) = ks_table s \<and> ks_cache (snd (m s)) = None"
    and f: "\<And>x. \<forall>s. ks_cache s = None \<longrightarrow> ks_table (snd (f x s)) = ks_table s \<and> ks_cache (snd (f x s)) = None"
    and s: "ks_cache s = None"
  obtain r s1 where r: "m s = (r, s1)" by fastforce
  then have s1: "ks_table s1 = ks_table s" "ks_cache s1 = None" using m s by (metis snd_conv)+
  show "ks_table (snd (bind_ks m f s)) = ks_table s \<and> ks_cache (snd (bind_ks m f s)) = None"
    using f s1 r by (cases r) (simp_all add: bind_ks_def)
qed

lemma reads_only_load: "undisturbed w \<Longrightarrow> reads_only (load_secret w u v)"
  unfolding reads_only_def
proof (intro allI impI)
  fix s :: keystore assume "undisturbed w" "ks_cache s = None"
  from load_secret_opens [OF this, of u v]
  show "ks_table (snd (load_secret w u v s)) = ks_table s \<and> ks_cache (snd (load_secret w u v s)) = None"
    using \<open>ks_cache s = None\<close> by auto
qed

lemma reads_only_crypt:
  assumes "undisturbed w"
  shows "reads_only (decrypt_subject w u v field ct)" "reads_only (encrypt_subject_existing w u v field plaintext)"
  unfolding decrypt_subject_def encrypt_subject_existing_def
  by (auto intro!: reads_only_bind reads_only_load [OF assms] split: option.splits)

lemma reads_only_put:
  assumes "\<forall>w. wr_keys rw = Some w \<longrightarrow> undisturbed w"
  shows "reads_only (put_columns rw api capi row fs acc)"
proof (induction fs arbitrary: acc)
  case (Cons f fs)
  have content: "reads_only (put_content w capi kind v doc)" if "undisturbed w" for w kind v doc
    using reads_only_crypt(1) [OF that] by (auto simp: put_content_def split: hk_value.splits)
  have sealed: "reads_only (put_sealed w api capi seal name v_id kind v doc)" if "undisturbed w" for w seal name v_id kind v doc
    unfolding put_sealed_def
    by (rule reads_only_bind [OF content [OF that]]) (auto intro!: reads_only_bind reads_only_crypt(2) [OF that] split: sum.splits)
  have "reads_only (put_column rw api capi row f acc)"
    using assms by (auto simp: put_column_def Let_def split: prod.splits option.splits intro!: reads_only_bind sealed)
  then show ?case using Cons.IH by auto
qed auto

lemma reads_only_row_fields:
  assumes "\<forall>w. wr_keys rw = Some w \<longrightarrow> undisturbed w"
  shows "reads_only (row_fields rw va capi table stored fs row)"
proof (induction fs arbitrary: row)
  case (Cons f fs)
  have "reads_only (decrypt_field rw capi stored seal name raw)" for seal name raw
    using assms reads_only_crypt(1) by (auto simp: decrypt_field_def split: option.splits)
  then have "reads_only (row_field rw va capi table stored f)"
    by (auto simp: row_field_def Let_def split: option.splits)
  then show ?case using Cons.IH by auto
qed auto

text \<open>
  C36: A projection never mints a key.  Whatever a handler puts or reads, whether the write succeeds or fails
  and whichever subjects have been erased, the table of subject keys is afterwards what it was: replaying a
  log over an erased subject cannot bring back a key under which its content would be readable.
\<close>

theorem projection_never_mints:
  assumes "\<forall>w. wr_keys rw = Some w \<longrightarrow> undisturbed w" and "ks_cache s = None"
  shows "ks_table (snd (row_put rw api capi entity row rm sh s)) = ks_table s \<and>
    ks_table (snd (row_read rw va capi entity key rm s)) = ks_table s"
proof -
  have "reads_only (row_put rw api capi entity row rm sh)"
    unfolding row_put_def by (auto intro!: reads_only_bind reads_only_put [OF assms(1)] split: option.splits)
  moreover have "reads_only (row_read rw va capi entity key rm)"
    unfolding row_read_def by (auto intro!: reads_only_bind reads_only_row_fields [OF assms(1)] split: option.splits)
  ultimately show ?thesis using assms(2) by (simp add: reads_only_def)
qed

subsection \<open>A sealed column is served as it was written\<close>

definition column_shaped :: "'v hk_api \<Rightarrow> cell_api \<Rightarrow> field_kind \<Rightarrow> json \<Rightarrow> bool" where
  "column_shaped api capi kind doc \<longleftrightarrow>
     (case kind_base kind of
        I64 \<Rightarrow> (\<exists>i. doc = JNum (int_str i) \<and> i64_range i)
      | Bool \<Rightarrow> (\<exists>b. doc = JBool b)
      | Timestamp \<Rightarrow> (\<exists>s. doc = JStr s) \<or> (\<exists>i t. doc = JNum (int_str i) \<and> i64_range i \<and> ca_rfc3339 capi i = Some t)
      | Json_Kind \<Rightarrow> ca_read capi (hv_document api doc) = Some doc
      | Optional _ \<Rightarrow> False
      | _ \<Rightarrow> (\<exists>s. doc = JStr s))"

lemma column_text_reads_back:
  assumes "column_shaped api capi kind doc"
  shows "typed_from_string capi kind (seal_text api kind (column_form capi kind doc)) = column_form capi kind doc"
proof (cases "kind_base kind")
  case Timestamp
  then consider s where "doc = JStr s" | i t where "doc = JNum (int_str i)" "i64_range i" "ca_rfc3339 capi i = Some t"
    using assms by (auto simp: column_shaped_def)
  then show ?thesis
    by cases (use Timestamp in \<open>simp_all add: typed_from_string_def seal_text_def column_form_def i64_range_def parse_i64_int_str\<close>)
qed (use assms in \<open>auto simp: column_shaped_def typed_from_string_def seal_text_def column_form_def parse_i64_int_str i64_range_def split: if_splits\<close>)


subsection \<open>Projected rows can be paged\<close>

text \<open>A document reads back as what was written, when it reads back.\<close>

definition documents_ok :: "cell_api \<Rightarrow> bool" where
  "documents_ok capi \<longleftrightarrow> (\<forall>v doc. ca_read capi (ca_write capi v) = Some doc \<longrightarrow> doc = v)"

lemma stored_form_canonical:
  assumes "calendar_ok capi" and "kind_base kind = Timestamp" and "stored_form capi kind doc = JStr s"
  shows "canonical_text capi s"
proof -
  have st: "stored_timestamp capi m = Some t \<Longrightarrow> canonical_text capi t" for m t
    using calendar_okD(1) [OF assms(1)] by (simp add: canonical_text_def)
  show ?thesis
  proof (cases doc)
    case (JNum number)
    then show ?thesis using assms(2,3) st
      by (cases "json_i64 doc"; cases "Option.bind (json_i64 doc) (stored_timestamp capi)") (auto simp: stored_form_def)
  next
    case (JStr t)
    then show ?thesis using assms(2,3) st
      by (cases "ca_timestamp capi t"; cases "Option.bind (ca_timestamp capi t) (stored_timestamp capi)")
        (auto simp: stored_form_def canonical_text_def)
  qed (use assms(2,3) in \<open>simp_all add: stored_form_def column_form_def\<close>)
qed

definition members_stored :: "cell_api \<Rightarrow> (string \<times> field_meta) list \<Rightarrow> members \<Rightarrow> bool" where
  "members_stored capi fs stored \<longleftrightarrow>
     (\<forall>name meta v. (name, meta) \<in> set fs \<and> fm_sealed_under meta = None \<and> map_of stored name = Some v \<longrightarrow>
        (\<exists>doc. v = stored_form capi (fm_kind meta) doc))"

lemma put_column_stored:
  assumes "put_column rw api capi row f acc s = (Inr acc', s')" and "f \<in> set fs" and "distinct (map fst fs)"
    and "members_stored capi fs (fst acc)"
  shows "members_stored capi fs (fst acc')"
proof -
  obtain name meta stored dropped where f: "f = (name, meta)" and acc: "acc = (stored, dropped)" by fastforce
  have other: "members_stored capi fs (map_insert name v stored)"
    if "fm_sealed_under meta = None \<longrightarrow> (\<exists>doc. v = stored_form capi (fm_kind meta) doc)" for v
  proof -
    have "meta' = meta" if "(name, meta') \<in> set fs" for meta'
      using that assms(2,3) f by (metis eq_key_imp_eq_value)
    then show ?thesis using assms(4) that acc by (auto simp: members_stored_def map_of_map_insert)
  qed
  show ?thesis
  proof (cases "fmlookup row name")
    case None
    then show ?thesis using assms(1,4) f acc by (simp add: put_column_def ret_def)
  next
    case (Some v)
    show ?thesis
    proof (cases "if value_json api v = JNull then None else fm_sealed_under meta")
      case None
      then have "fst acc' = map_insert name (stored_form capi (fm_kind meta) (value_json api v)) stored"
        using assms(1) Some f acc by (auto simp: put_column_def Let_def ret_def)
      then show ?thesis using other by auto
    next
      case (Some seal)
      then have "\<exists>content. fst acc' = map_insert name content stored"
        using assms(1) \<open>fmlookup row name = Some v\<close> f acc
        by (auto simp: put_column_def Let_def fails_def ret_def split: option.splits dest!: bind_ks_InrD) blast
      then show ?thesis using other Some by (auto split: if_splits)
    qed
  qed
qed

lemma put_columns_stored:
  "put_columns rw api capi row gs acc s = (Inr acc', s') \<Longrightarrow> set gs \<subseteq> set fs \<Longrightarrow> distinct (map fst fs) \<Longrightarrow>
     members_stored capi fs (fst acc) \<Longrightarrow> members_stored capi fs (fst acc')"
proof (induction gs arbitrary: acc s)
  case (Cons g gs)
  obtain acc1 s1 where step: "put_column rw api capi row g acc s = (Inr acc1, s1)"
      "put_columns rw api capi row gs acc1 s1 = (Inr acc', s')"
    using Cons.prems(1) by (auto dest!: bind_ks_InrD)
  show ?case
    using Cons.prems(2,3) put_column_stored [OF step(1) _ Cons.prems(3,4)] by (intro Cons.IH [OF step(2)]) auto
qed (simp add: ret_def)

lemma put_row_canonical:
  assumes "calendar_ok capi" and "members_stored capi (en_fields entity) stored"
    and "traverse (put_cell capi (JObj stored)) (en_fields entity) = Inr row"
  shows "row_canonical capi entity row"
proof -
  have "cell_canonical capi (snd f) cell"
    if "f \<in> set (en_fields entity)" "put_cell capi (JObj stored) f = Inr cell" for f cell
  proof (cases "fm_sealed_under (snd f) = None \<and> kind_base (fm_kind (snd f)) = Timestamp \<and> (\<exists>t. cell = SText t)")
    case True
    then obtain t where t: "cell = SText t" by blast
    then have v: "map_of stored (fst f) = Some (JStr t)"
      using that(2) True
      by (cases "map_of stored (fst f)"; cases "the (map_of stored (fst f))") (auto simp: put_cell_def map_err_Inr_iff to_sql_def)
    moreover have "(fst f, snd f) \<in> set (en_fields entity)" using that(1) by simp
    ultimately obtain doc where "JStr t = stored_form capi (fm_kind (snd f)) doc"
      using assms(2) True unfolding members_stored_def by blast
    then show ?thesis using stored_form_canonical [OF assms(1), of "fm_kind (snd f)" doc t] True t by (simp add: cell_canonical_def)
  next
    case False
    then show ?thesis by (auto simp: cell_canonical_def split: sql_value.splits)
  qed
  then show ?thesis
    using list_all2_mono [OF assms(3) [unfolded traverse_Inr_iff]] unfolding row_canonical_def
    by (metis (mono_tags, lifting) assms(3) list_all2_conv_all_nth nth_mem traverse_Inr_iff)
qed

text \<open>
  C38: What a projection writes can be paged.  A row put by a handler, whatever values it holds and whichever
  spelling its timestamps have, leaves a table whose cells have their declared types, whose keys are
  distinct and whose timestamps have the one spelling that compares as time, which is all that serving it in
  pages rests on.
\<close>

theorem projected_table_can_be_paged:
  assumes "entity_ok table" and "calendar_ok capi" and "documents_ok capi" and "wr_table rw entity = Some table"
    and "rm_tables rm (en_name table) = Some before" and "table_ok table before" and "\<forall>r \<in> set before. row_canonical capi table r"
    and "row_put rw api capi entity row rm sh s = (Inr (rm', sh'), s')"
  shows "\<exists>landed_rows. rm' = with_rows table landed_rows rm \<and> table_ok table landed_rows \<and> (\<forall>r \<in> set landed_rows. row_canonical capi table r)"
proof -
  obtain stored dropped s1 where cols: "put_columns rw api capi row (en_fields table) ([], []) s = (Inr (stored, dropped), s1)"
    and put: "apply_one capi table (Put (ca_write capi (JObj stored))) rm = Inr rm'"
    using assms(4,8) by (auto simp: row_put_def lift_def ret_def map_err_Inr_iff dest!: bind_ks_InrD)
  have "members_stored capi (en_fields table) stored"
    using put_columns_stored [OF cols subset_refl entity_okD(1) [OF assms(1)]] by (simp add: members_stored_def)
  then have canon: "row_canonical capi table r" if r: "put_row capi table (ca_write capi (JObj stored)) = Inr r" for r
  proof -
    obtain doc where "ca_read capi (ca_write capi (JObj stored)) = Some doc" "traverse (put_cell capi doc) (en_fields table) = Inr r"
      using r by (auto simp: put_row_def bind_res_Inr_iff ok_or_Inr_iff)
    then have "traverse (put_cell capi (JObj stored)) (en_fields table) = Inr r"
      using assms(3) by (auto simp: documents_ok_def)
    then show ?thesis by (rule put_row_canonical [OF assms(2) \<open>members_stored capi (en_fields table) stored\<close>])
  qed
  have tab: "rows_of table rm = Inr before" using assms(5) by (simp add: rows_of_def)
  obtain doc where doc: "ca_read capi (ca_write capi (JObj stored)) = Some doc" "apply_put capi table (ca_write capi (JObj stored)) rm = Inr rm'"
    using put by (cases "ca_read capi (ca_write capi (JObj stored))") (auto simp: apply_put_def)
  then obtain r where r: "put_row capi table (ca_write capi (JObj stored)) = Inr r" "not_null_error table r = None"
      "rm' = with_rows table (insert_or_replace table r before) rm"
    using tab by (cases doc) (auto simp: apply_put_def put_row_def bind_res_Inr_iff split: option.splits)
  have "table_ok table (insert_or_replace table r before)" by (rule put_rows(1) [OF assms(1,6) put_row_typed [OF r(1,2)]])
  moreover have "\<forall>x \<in> set (insert_or_replace table r before). row_canonical capi table x"
    using assms(7) canon [OF r(1)] by (auto simp: insert_or_replace_def)
  ultimately show ?thesis using r(3) by blast
qed

end
