(* ===== verification/Verify.thy ===== *)
theory Verify
  imports Read_Page Read_Write Effect_Replay Envelope
begin

section \<open>Checking a stopped project (src/verify.rs)\<close>

text \<open>
  The comparison of a live read model with one rebuilt from the log, and the sweep that replays recorded
  invocations.  The rebuilt model, the event a position holds and what a replay of it comes to are arguments:
  they are the projector's run, the store's read and \<open>Effect_Replay.replay\<close>.
\<close>

record skip_counts =
  sk_effect_edited :: nat
  sk_subject_erased :: nat
  sk_no_journal :: nat
  sk_operator_skipped :: nat
  sk_unreadable :: nat
  sk_reclaimed :: nat
  sk_event_missing :: nat
  sk_collapsed :: nat

definition no_skips :: skip_counts where
  "no_skips = \<lparr>sk_effect_edited = 0, sk_subject_erased = 0, sk_no_journal = 0, sk_operator_skipped = 0, sk_unreadable = 0,
     sk_reclaimed = 0, sk_event_missing = 0, sk_collapsed = 0\<rparr>"

definition skips_total :: "skip_counts \<Rightarrow> nat" where
  "skips_total sk = sk_effect_edited sk + sk_subject_erased sk + sk_no_journal sk + sk_operator_skipped sk +
     sk_unreadable sk + sk_reclaimed sk + sk_event_missing sk + sk_collapsed sk"

record report =
  rp_violations :: "violation list"
  rp_projectors_checked :: nat
  rp_invocations_checked :: nat
  rp_skipped :: skip_counts

definition new_report :: report where
  "new_report = \<lparr>rp_violations = [], rp_projectors_checked = 0, rp_invocations_checked = 0, rp_skipped = no_skips\<rparr>"

definition is_clean :: "report \<Rightarrow> bool" where
  "is_clean rp \<longleftrightarrow> rp_violations rp = []"

definition absorb :: "violation list \<Rightarrow> report \<Rightarrow> report" where
  "absorb vs rp = rp\<lparr>rp_violations := rp_violations rp @ vs\<rparr>"

definition report_text :: "report \<Rightarrow> string" where
  "report_text rp =
     (let sk = rp_skipped rp in
      ''checked '' @ nat_str (rp_projectors_checked rp) @ '' projector(s) and '' @ nat_str (rp_invocations_checked rp) @
      '' invocation(s); skipped '' @ nat_str (skips_total sk) @ '' ('' @ nat_str (sk_effect_edited sk) @ '' edited, '' @
      nat_str (sk_subject_erased sk) @ '' erased, '' @ nat_str (sk_no_journal sk) @ '' without a journal, '' @
      nat_str (sk_operator_skipped sk) @ '' skipped by an operator, '' @ nat_str (sk_unreadable sk) @ '' unreadable, '' @
      nat_str (sk_reclaimed sk) @ '' reclaimed, '' @ nat_str (sk_event_missing sk) @ '' without their event, '' @
      nat_str (sk_collapsed sk) @ '' collapsed)'' @ [CHR 0x0A] @
      (if rp_violations rp = [] then ''ok: no violations''
       else concat (map (\<lambda>v. ''violation: '' @ violation_text v @ [CHR 0x0A]) (rp_violations rp)) @
         ''failed: '' @ nat_str (length (rp_violations rp)) @ '' violation(s)''))"

subsection \<open>Comparing one entity\<close>

definition key_of_row :: "cell_api \<Rightarrow> entity_def \<Rightarrow> json \<Rightarrow> string" where
  "key_of_row api entity row =
     (case json_get row (en_key entity) of None \<Rightarrow> [] | Some (JStr s) \<Rightarrow> s | Some other \<Rightarrow> ca_write api other)"

definition keyed_rows :: "cell_api \<Rightarrow> entity_def \<Rightarrow> json list \<Rightarrow> (string \<times> json) list" where
  "keyed_rows api entity row_list = sort_key fst (map (\<lambda>row. (key_of_row api entity row, row)) row_list)"

definition drop_column ::
  "key_world \<Rightarrow> members \<Rightarrow> string \<times> field_meta \<Rightarrow> members \<times> keystore \<Rightarrow> members \<times> keystore" where
  "drop_column w original f acc =
     (case (f, acc) of ((name, meta), (obj, s)) \<Rightarrow>
      case fm_sealed_under meta of
        None \<Rightarrow> acc
      | Some seal \<Rightarrow>
          (case (Option.bind (map_of original (seal_id_field seal)) scalar_to_string, Option.bind (map_of original name) json_str) of
             (Some v, Some ciphertext) \<Rightarrow>
               (case row_decrypt w (seal_subject seal) v name ciphertext s of
                  (Inr (Some _), s) \<Rightarrow> (obj, s)
                | (_, s) \<Rightarrow> (remove_member name obj, s))
           | _ \<Rightarrow> acc))"

definition drop_shredded :: "entity_def \<Rightarrow> key_world \<Rightarrow> json \<times> keystore \<Rightarrow> json \<times> keystore" where
  "drop_shredded entity w acc =
     (case acc of
        (JObj obj, s) \<Rightarrow> (case fold (drop_column w obj) (en_fields entity) (obj, s) of (obj, s) \<Rightarrow> (JObj obj, s))
      | _ \<Rightarrow> acc)"

primrec drop_rows ::
  "entity_def \<Rightarrow> key_world \<Rightarrow> (string \<times> json) list \<Rightarrow> keystore \<Rightarrow> (string \<times> json) list \<times> keystore" where
  "drop_rows entity w [] s = ([], s)"
| "drop_rows entity w (kr # krs) s =
     (case drop_shredded entity w (snd kr, s) of (row, s) \<Rightarrow>
      case drop_rows entity w krs s of (krs, s) \<Rightarrow> ((fst kr, row) # krs, s))"

definition readable_rows ::
  "entity_def \<Rightarrow> keys_at \<Rightarrow> (string \<times> json) list \<Rightarrow> (string \<times> json) list \<Rightarrow> (string \<times> json) list \<times> (string \<times> json) list" where
  "readable_rows entity keys ls rs =
     (case keys of
        None \<Rightarrow> (ls, rs)
      | Some (w, s) \<Rightarrow>
          (case drop_rows entity w ls (row_decryptor s) of (ls, s) \<Rightarrow> (ls, fst (drop_rows entity w rs s))))"

fun merge_join :: "cell_api \<Rightarrow> (string \<times> json) list \<Rightarrow> (string \<times> json) list \<Rightarrow> (string \<times> mismatch) list" where
  "merge_join api ((lk, live) # ls) ((rk, rebuilt) # rs) =
     (if lk = rk
      then (if live = rebuilt then [] else [(lk, Differs (ca_write api live) (ca_write api rebuilt))]) @ merge_join api ls rs
      else if lk < rk then (lk, OnlyLive (ca_write api live)) # merge_join api ls ((rk, rebuilt) # rs)
      else (rk, OnlyRebuilt (ca_write api rebuilt)) # merge_join api ((lk, live) # ls) rs)"
| "merge_join api ls [] = map (\<lambda>(k, row). (k, OnlyLive (ca_write api row))) ls"
| "merge_join api [] rs = map (\<lambda>(k, row). (k, OnlyRebuilt (ca_write api row))) rs"

definition all_rows :: "cell_api \<Rightarrow> entity_def \<Rightarrow> read_model \<Rightarrow> string + json list" where
  "all_rows api entity rm = scan_rows api entity (query_all (2 ^ 63 - 1)) rm"

definition compare_entity ::
  "cell_api \<Rightarrow> string \<Rightarrow> entity_def \<Rightarrow> read_model \<Rightarrow> read_model \<Rightarrow> keys_at \<Rightarrow> string + violation list" where
  "compare_entity api projector entity live rebuilt keys =
     bind_res (all_rows api entity live) (\<lambda>live_rows.
     bind_res (all_rows api entity rebuilt) (\<lambda>rebuilt_rows.
       let (ls, rs) = readable_rows entity keys (keyed_rows api entity live_rows) (keyed_rows api entity rebuilt_rows) in
       Inr (map (\<lambda>(key, detail). RebuildMismatch projector (en_name entity) key detail) (merge_join api ls rs))))"

primrec rebuild_equivalence ::
  "cell_api \<Rightarrow> string \<Rightarrow> entity_def list \<Rightarrow> read_model \<Rightarrow> read_model \<Rightarrow> keys_at \<Rightarrow> string + violation list" where
  "rebuild_equivalence api projector [] live rebuilt keys = Inr []"
| "rebuild_equivalence api projector (entity # entities) live rebuilt keys =
     bind_res (compare_entity api projector entity live rebuilt keys) (\<lambda>vs.
     bind_res (rebuild_equivalence api projector entities live rebuilt keys) (\<lambda>ws. Inr (vs @ ws)))"

subsection \<open>Sweeping an effect\<close>

record terminal =
  tm_position :: nat
  tm_script_hash :: string
  tm_collapsed_from :: "nat option"

text \<open>
  \<open>delivered\<close>: the events of the effect's types in log order from the start of the oldest range, each with the
  arm and lane it belongs to, or nothing where no arm handles its type.
\<close>

definition folded_into :: "(nat \<times> nat option) list \<Rightarrow> (nat \<times> nat) option" where
  "folded_into ranges =
     (case [f. (p, Some f) \<leftarrow> ranges] of
        [] \<Rightarrow> None
      | f # fs \<Rightarrow> Some (foldr min fs f, foldr max [p. (p, Some f) \<leftarrow> ranges] 0))"

definition collapse_step ::
  "(nat \<Rightarrow> nat option option) \<Rightarrow> nat \<times> 'g option \<Rightarrow> ('g \<Rightarrow> nat list) \<times> nat \<Rightarrow> ('g \<Rightarrow> nat list) \<times> nat" where
  "collapse_step invocation event acc =
     (case (event, acc) of ((position, arm_lane), (pending, counted)) \<Rightarrow>
      case arm_lane of
        None \<Rightarrow> acc
      | Some g \<Rightarrow>
          (case invocation position of
             Some (Some oldest) \<Rightarrow> (pending(g := []), counted + length (filter (\<lambda>seen. oldest \<le> seen) (pending g)))
           | Some None \<Rightarrow> (pending(g := []), counted)
           | None \<Rightarrow> (pending(g := pending g @ [position]), counted)))"

definition collapsed_positions ::
  "string \<Rightarrow> terminal list \<Rightarrow> (nat \<times> 'g option) list \<Rightarrow> nat" where
  "collapsed_positions hash terminals delivered =
     (let ranges = [(tm_position t, tm_collapsed_from t). t \<leftarrow> terminals, tm_script_hash t = hash] in
      case folded_into ranges of
        None \<Rightarrow> 0
      | Some (oldest, newest) \<Rightarrow>
          snd (fold (collapse_step (map_of (rev ranges)))
             (takeWhile (\<lambda>(position, _). position \<le> newest) (filter (\<lambda>(position, _). oldest \<le> position) delivered))
             (\<lambda>_. [], 0)))"

definition skip_for :: "uncovered \<Rightarrow> skip_counts \<Rightarrow> skip_counts" where
  "skip_for u sk =
     (case u of
        U_NoJournal \<Rightarrow> sk\<lparr>sk_no_journal := Suc (sk_no_journal sk)\<rparr>
      | U_OperatorSkipped \<Rightarrow> sk\<lparr>sk_operator_skipped := Suc (sk_operator_skipped sk)\<rparr>
      | U_Unreadable \<Rightarrow> sk\<lparr>sk_unreadable := Suc (sk_unreadable sk)\<rparr>
      | U_SubjectErased \<Rightarrow> sk\<lparr>sk_subject_erased := Suc (sk_subject_erased sk)\<rparr>
      | U_Reclaimed \<Rightarrow> sk\<lparr>sk_reclaimed := Suc (sk_reclaimed sk)\<rparr>)"

definition sweep_one ::
  "wire \<Rightarrow> string \<Rightarrow> string \<Rightarrow> (nat \<Rightarrow> string + bytes option) \<Rightarrow> (nat \<Rightarrow> replayed) \<Rightarrow> terminal \<Rightarrow> report \<Rightarrow> string + report" where
  "sweep_one io name hash event_at outcome t rp =
     (if tm_script_hash t \<noteq> hash
      then Inr (rp\<lparr>rp_skipped := (rp_skipped rp)\<lparr>sk_effect_edited := Suc (sk_effect_edited (rp_skipped rp))\<rparr>\<rparr>)
      else
        bind_res (event_at (tm_position t)) (\<lambda>found.
        case found of
          None \<Rightarrow> Inr (rp\<lparr>rp_skipped := (rp_skipped rp)\<lparr>sk_event_missing := Suc (sk_event_missing (rp_skipped rp))\<rparr>\<rparr>)
        | Some data \<Rightarrow>
            bind_res (map_err (\<lambda>e. ''reading the event effect '' @ quoted name @ '' ran at '' @ nat_str (tm_position t) @ '': '' @ e)
                (decode_event io data)) (\<lambda>_.
              let outcome = outcome (tm_position t);
                  rp = (case uncovered_by outcome of
                          None \<Rightarrow> rp\<lparr>rp_invocations_checked := Suc (rp_invocations_checked rp)\<rparr>
                        | Some u \<Rightarrow> rp\<lparr>rp_skipped := skip_for u (rp_skipped rp)\<rparr>) in
              Inr (absorb (opt_list (violation_of outcome name (tm_position t))) rp))))"

primrec sweep_each ::
  "wire \<Rightarrow> string \<Rightarrow> string \<Rightarrow> (nat \<Rightarrow> string + bytes option) \<Rightarrow> (nat \<Rightarrow> replayed) \<Rightarrow> terminal list \<Rightarrow> report \<Rightarrow> string + report" where
  "sweep_each io name hash event_at outcome [] rp = Inr rp"
| "sweep_each io name hash event_at outcome (t # ts) rp =
     bind_res (sweep_one io name hash event_at outcome t rp) (sweep_each io name hash event_at outcome ts)"

definition sweep_effect ::
  "wire \<Rightarrow> string \<Rightarrow> string \<Rightarrow> (nat \<Rightarrow> string + bytes option) \<Rightarrow> (nat \<Rightarrow> replayed) \<Rightarrow> (nat \<times> 'g option) list \<Rightarrow>
    terminal list \<Rightarrow> report \<Rightarrow> string + report" where
  "sweep_effect io name hash event_at outcome delivered terminals rp =
     (let counted = collapsed_positions hash terminals delivered in
      sweep_each io name hash event_at outcome terminals
        (rp\<lparr>rp_skipped := (rp_skipped rp)\<lparr>sk_collapsed := sk_collapsed (rp_skipped rp) + counted\<rparr>\<rparr>))"

end
