(* ===== verification/Verify_Sound.thy ===== *)
theory Verify_Sound
  imports Verify Read_Follow
begin

section \<open>What the checks report\<close>

subsection \<open>The merge join\<close>

definition disagreement :: "cell_api \<Rightarrow> (string \<Rightarrow> json option) \<Rightarrow> (string \<Rightarrow> json option) \<Rightarrow> string \<Rightarrow> mismatch option" where
  "disagreement api live rebuilt k =
     (case (live k, rebuilt k) of
        (Some l, Some r) \<Rightarrow> if l = r then None else Some (Differs (ca_write api l) (ca_write api r))
      | (Some l, None) \<Rightarrow> Some (OnlyLive (ca_write api l))
      | (None, Some r) \<Rightarrow> Some (OnlyRebuilt (ca_write api r))
      | (None, None) \<Rightarrow> None)"

abbreviation key_ordered :: "(string \<times> 'a) list \<Rightarrow> bool" where
  "key_ordered m \<equiv> sorted_wrt (<) (map fst m)"

lemma key_ordered_absent: "key_ordered ((k, v) # m) \<Longrightarrow> j \<le> k \<Longrightarrow> map_of m j = None"
  by (force simp: map_of_eq_None_iff)

lemma merge_join_keys: "fst ` set (merge_join api ls rs) \<subseteq> fst ` set ls \<union> fst ` set rs"
proof (induction api ls rs rule: merge_join.induct)
  case (1 api lk live ls rk rebuilt rs)
  consider "lk = rk" | "lk < rk" | "rk < lk" by (rule linorder_cases)
  then show ?case
  proof cases
    case 1
    then show ?thesis using "1.IH"(1) by auto
  next
    case 2
    then show ?thesis using "1.IH"(2) by auto
  next
    case 3
    then show ?thesis using "1.IH"(3) by auto
  qed
qed (simp_all add: image_image split_beta)

lemma map_of_only: "map_of (map (\<lambda>(k, row). (k, f row)) m) k = map_option f (map_of m k)"
  by (induction m) auto

lemma merge_join_disagreement:
  "key_ordered ls \<Longrightarrow> key_ordered rs \<Longrightarrow>
     map_of (merge_join api ls rs) k = disagreement api (map_of ls) (map_of rs) k"
proof (induction api ls rs rule: merge_join.induct)
  case (1 api lk live ls rk rebuilt rs)
  have absent: "map_of ls j = None" if "j \<le> lk" for j using key_ordered_absent [OF "1.prems"(1) that] .
  have absent': "map_of rs j = None" if "j \<le> rk" for j using key_ordered_absent [OF "1.prems"(2) that] .
  consider "lk = rk" | "lk < rk" | "rk < lk" by (rule linorder_cases)
  then show ?case
  proof cases
    case 1
    then show ?thesis using "1.IH"(1) "1.prems" absent [of lk] absent' [of rk]
      by (cases "k = rk") (simp_all add: disagreement_def)
  next
    case 2
    then show ?thesis using "1.IH"(2) "1.prems" absent [of lk] absent' [of lk] by (auto simp: disagreement_def)
  next
    case 3
    then show ?thesis using "1.IH"(3) "1.prems" absent [of rk] absent' [of rk] by (auto simp: disagreement_def)
  qed
qed (auto simp: map_of_only disagreement_def split: option.splits)

lemma merge_join_ordered: "key_ordered ls \<Longrightarrow> key_ordered rs \<Longrightarrow> key_ordered (merge_join api ls rs)"
proof (induction api ls rs rule: merge_join.induct)
  case (1 api lk live ls rk rebuilt rs)
  have tail: "key_ordered ls" "key_ordered rs" and above: "\<forall>k \<in> fst ` set ls. lk < k" "\<forall>k \<in> fst ` set rs. rk < k"
    using "1.prems" by auto
  consider "lk = rk" | "lk < rk" | "rk < lk" by (rule linorder_cases)
  then show ?case
  proof cases
    case 1
    have "\<forall>k \<in> fst ` set (merge_join api ls rs). rk < k" using merge_join_keys [of api ls rs] above 1 by blast
    then show ?thesis using "1.IH"(1) tail 1 by simp
  next
    case 2
    have "\<forall>k \<in> fst ` set (merge_join api ls ((rk, rebuilt) # rs)). lk < k"
      using merge_join_keys [of api ls "(rk, rebuilt) # rs"] above 2 by fastforce
    then show ?thesis using "1.IH"(2) "1.prems" tail 2 by auto
  next
    case 3
    have "\<forall>k \<in> fst ` set (merge_join api ((lk, live) # ls) rs). rk < k"
      using merge_join_keys [of api "(lk, live) # ls" rs] above 3 by fastforce
    then show ?thesis using "1.IH"(3) "1.prems" tail 3 by auto
  qed
qed (simp_all add: comp_def split_beta)

lemma map_fst_drop_rows: "map fst (fst (drop_rows entity w krs s)) = map fst krs"
  by (induction krs arbitrary: s) (simp_all add: split_beta)

lemma readable_rows_keys:
  "map fst (fst (readable_rows entity keys ls rs)) = map fst ls \<and> map fst (snd (readable_rows entity keys ls rs)) = map fst rs"
  using map_fst_drop_rows [of entity _ ls] map_fst_drop_rows [of entity _ rs]
  by (auto simp: readable_rows_def split: option.splits prod.splits) (metis fst_conv)+

lemma keyed_rows_ordered: "distinct (map (key_of_row api entity) xs) \<Longrightarrow> key_ordered (keyed_rows api entity xs)"
  unfolding keyed_rows_def by (rule sort_strict) (simp add: comp_def)

text \<open>What the check reads of a ready model is the whole of the entity in key order.\<close>

lemma all_rows_listing:
  assumes "scannable api entity (query_all limit) stored rm" and "length stored < 2 ^ 63"
  shows "all_rows api entity rm = Inr (listing api entity (query_all limit) stored)"
proof -
  let ?q = "query_all (2 ^ 63 - 1)"
  have "scannable api entity ?q stored rm" using assms(1) by (simp add: scannable_def query_all_def)
  moreover have "filter (after_cursor api entity ?q) xs = xs" for xs
    by (simp add: after_cursor_def cursor_values_def usable_cursor_def query_all_def)
  moreover have "length (matched_rows api entity ?q stored) \<le> 2 ^ 63 - 1"
    using le_less_trans [OF length_filter_le assms(2), of "matches api entity (qu_filter ?q)"] by (simp add: matched_rows_def)
  ultimately have "select_rows api entity ?q rm = Inr (matched_rows api entity ?q stored)"
    by (simp add: select_rows_eq query_all_def)
  moreover have "matched_rows api entity ?q stored = matched_rows api entity (query_all limit) stored"
    by (simp add: matched_rows_def query_all_def)
  ultimately show ?thesis by (simp add: all_rows_def scan_rows_def listing_map)
qed

text \<open>
  C39: A rebuild is compared row by row with the live model.  When the keys of each side are distinct, the
  violations of an entity are in the order of their keys and are exactly the keys on which the two sides
  disagree once columns nobody can read are left out, each with how they disagree; so the check is clean
  only if the two hold the same readable rows, and a row only one side has is never mistaken for two.
\<close>

theorem comparison_reports_every_disagreement:
  assumes "all_rows api entity live = Inr live_rows" and "all_rows api entity rebuilt = Inr rebuilt_rows"
    and "distinct (map (key_of_row api entity) live_rows)" and "distinct (map (key_of_row api entity) rebuilt_rows)"
    and "readable_rows entity keys (keyed_rows api entity live_rows) (keyed_rows api entity rebuilt_rows) = (ls, rs)"
  shows "\<exists>reports. compare_entity api projector entity live rebuilt keys =
      Inr (map (\<lambda>(key, detail). RebuildMismatch projector (en_name entity) key detail) reports) \<and>
    sorted_wrt (<) (map fst reports) \<and>
    (\<forall>key. map_of reports key = disagreement api (map_of ls) (map_of rs) key) \<and> (reports = [] \<longleftrightarrow> map_of ls = map_of rs)"
proof -
  have "map fst ls = map fst (keyed_rows api entity live_rows)" "map fst rs = map fst (keyed_rows api entity rebuilt_rows)"
    using readable_rows_keys [of entity keys "keyed_rows api entity live_rows" "keyed_rows api entity rebuilt_rows"] assms(5)
    by simp_all
  then have ord: "key_ordered ls" "key_ordered rs" using keyed_rows_ordered assms(3,4) by metis+
  let ?reports = "merge_join api ls rs"
  have each: "\<forall>key. map_of ?reports key = disagreement api (map_of ls) (map_of rs) key"
    using merge_join_disagreement [OF ord] by blast
  have "?reports = [] \<longleftrightarrow> map_of ls = map_of rs"
  proof
    assume "?reports = []"
    then have none: "disagreement api (map_of ls) (map_of rs) key = None" for key using each by (metis map_of.simps(1))
    show "map_of ls = map_of rs"
    proof
      fix key show "map_of ls key = map_of rs key"
        using none [of key] by (auto simp: disagreement_def split: option.splits if_splits)
    qed
  next
    assume eq: "map_of ls = map_of rs"
    have "map_of ?reports key = None" for key using each by (simp add: eq disagreement_def split: option.splits)
    then show "?reports = []" by (metis list.exhaust map_of_Cons_code(2) option.distinct(1) prod.exhaust)
  qed
  moreover have "compare_entity api projector entity live rebuilt keys =
      Inr (map (\<lambda>(key, detail). RebuildMismatch projector (en_name entity) key detail) ?reports)"
    using assms(1,2,5) by (simp add: compare_entity_def)
  ultimately show ?thesis using each merge_join_ordered [OF ord, of api] by blast
qed

subsection \<open>Coverage of a sweep\<close>

definition accounted :: "report \<Rightarrow> nat" where
  "accounted rp = rp_invocations_checked rp + skips_total (rp_skipped rp)"

lemma sweep_one_covers: "sweep_one io name hash event_at outcome t rp = Inr rp' \<Longrightarrow> accounted rp' = Suc (accounted rp)"
  by (auto simp: sweep_one_def Let_def bind_res_Inr_iff accounted_def skips_total_def absorb_def skip_for_def
      split: if_splits option.splits uncovered.splits)

lemma sweep_each_covers: "sweep_each io name hash event_at outcome ts rp = Inr rp' \<Longrightarrow> accounted rp' = accounted rp + length ts"
  by (induction ts arbitrary: rp) (auto simp: bind_res_Inr_iff dest!: sweep_one_covers)

subsection \<open>Positions folded into another invocation\<close>

primrec next_range :: "(nat \<Rightarrow> nat option option) \<Rightarrow> 'g \<Rightarrow> (nat \<times> 'g option) list \<Rightarrow> nat option" where
  "next_range invocation g [] = None"
| "next_range invocation g (e # es) =
     (if snd e = Some g \<and> invocation (fst e) \<noteq> None then the (invocation (fst e)) else next_range invocation g es)"

definition swallowed :: "(nat \<Rightarrow> nat option option) \<Rightarrow> 'g \<Rightarrow> (nat \<times> 'g option) list \<Rightarrow> nat \<Rightarrow> bool" where
  "swallowed invocation g es p \<longleftrightarrow> (case next_range invocation g es of None \<Rightarrow> False | Some oldest \<Rightarrow> oldest \<le> p)"

text \<open>The reference: a position that ran no invocation counts when the next one of its arm and lane reaches back to it.\<close>

primrec folded_members :: "(nat \<Rightarrow> nat option option) \<Rightarrow> (nat \<times> 'g option) list \<Rightarrow> nat" where
  "folded_members invocation [] = 0"
| "folded_members invocation (e # es) =
     (case snd e of
        None \<Rightarrow> 0
      | Some g \<Rightarrow> if invocation (fst e) = None \<and> swallowed invocation g es (fst e) then 1 else 0) + folded_members invocation es"

lemma collapse_counts:
  assumes "finite G" and "\<forall>e \<in> set es. \<forall>g. snd e = Some g \<longrightarrow> g \<in> G"
  shows "snd (fold (collapse_step invocation) es (pending, n)) =
    n + (\<Sum>g \<in> G. length (filter (swallowed invocation g es) (pending g))) + folded_members invocation es"
  using assms(2)
proof (induction es arbitrary: pending n)
  case Nil
  then show ?case by (simp add: swallowed_def [abs_def])
next
  case (Cons e es)
  obtain p ag where e: "e = (p, ag)" by (cases e)
  have IH: "snd (fold (collapse_step invocation) es (pd, m)) =
      m + (\<Sum>g \<in> G. length (filter (swallowed invocation g es) (pd g))) + folded_members invocation es" for pd m
    using Cons.IH Cons.prems by simp
  show ?case
  proof (cases ag)
    case None
    have "swallowed invocation g (e # es) = swallowed invocation g es" for g by (rule ext) (simp add: swallowed_def e None)
    moreover have "collapse_step invocation e (pending, n) = (pending, n)" by (simp add: collapse_step_def e None)
    ultimately show ?thesis using IH [of pending n] by (simp add: e None)
  next
    case (Some g)
    have g: "g \<in> G" using Cons.prems Some e by auto
    have others: "swallowed invocation h (e # es) = swallowed invocation h es" if "h \<noteq> g" for h
      using that Some by (intro ext) (simp add: swallowed_def e)
    have split: "(\<Sum>h \<in> G. f h) = f g + (\<Sum>h \<in> G - {g}. f h)" for f :: "'a \<Rightarrow> nat" by (rule sum.remove [OF assms(1) g])
    have rest: "(\<Sum>h \<in> G - {g}. length (filter (swallowed invocation h (e # es)) (pending h))) =
        (\<Sum>h \<in> G - {g}. length (filter (swallowed invocation h es) ((pending(g := x)) h)))" for x
      using others by (intro sum.cong) auto
    show ?thesis
    proof (cases "invocation p")
      case None
      then have same: "swallowed invocation g (e # es) = swallowed invocation g es" by (intro ext) (simp add: swallowed_def e)
      have step: "collapse_step invocation e (pending, n) = (pending(g := pending g @ [p]), n)"
        by (simp add: collapse_step_def e Some None)
      show ?thesis unfolding fold.simps comp_def step IH split rest [of "pending g @ [p]"] same
        by (simp add: e Some None)
    next
      case inv: (Some range)
      then have here: "swallowed invocation g (e # es) = (\<lambda>seen. case range of None \<Rightarrow> False | Some oldest \<Rightarrow> oldest \<le> seen)"
        using Some by (intro ext) (simp add: swallowed_def e)
      have step: "collapse_step invocation e (pending, n) = (pending(g := []),
          n + length (filter (\<lambda>seen. case range of None \<Rightarrow> False | Some oldest \<Rightarrow> oldest \<le> seen) (pending g)))"
        by (cases range) (simp_all add: collapse_step_def e Some inv)
      show ?thesis unfolding fold.simps comp_def step IH split rest [of "[]"] here
        by (simp add: e Some inv)
    qed
  qed
qed

definition reported :: "string \<Rightarrow> string \<Rightarrow> (nat \<Rightarrow> string + bytes option) \<Rightarrow> (nat \<Rightarrow> replayed) \<Rightarrow> terminal \<Rightarrow> violation list" where
  "reported name hash event_at outcome t =
     (if tm_script_hash t = hash \<and> event_at (tm_position t) \<noteq> Inr None
      then opt_list (violation_of (outcome (tm_position t)) name (tm_position t)) else [])"

lemma sweep_one_reports:
  "sweep_one io name hash event_at outcome t rp = Inr rp' \<Longrightarrow>
     rp_violations rp' = rp_violations rp @ reported name hash event_at outcome t"
proof (cases "tm_script_hash t = hash")
  case True
  assume sw: "sweep_one io name hash event_at outcome t rp = Inr rp'"
  then obtain found where found: "event_at (tm_position t) = Inr found" using True by (auto simp: sweep_one_def bind_res_Inr_iff)
  show ?thesis
  proof (cases found)
    case None
    then show ?thesis using sw True found by (auto simp: sweep_one_def reported_def)
  next
    case (Some data)
    then show ?thesis using sw True found
      by (cases "uncovered_by (outcome (tm_position t))") (auto simp: sweep_one_def Let_def bind_res_Inr_iff absorb_def reported_def)
  qed
qed (auto simp: sweep_one_def reported_def)

lemma sweep_each_reports:
  "sweep_each io name hash event_at outcome ts rp = Inr rp' \<Longrightarrow>
     rp_violations rp' = rp_violations rp @ concat (map (reported name hash event_at outcome) ts)"
  by (induction ts arbitrary: rp) (auto simp: bind_res_Inr_iff dest!: sweep_one_reports)

lemma collapsed_members:
  "collapsed_positions hash terminals delivered =
     (let ranges = [(tm_position t, tm_collapsed_from t). t \<leftarrow> terminals, tm_script_hash t = hash] in
      case folded_into ranges of
        None \<Rightarrow> 0
      | Some (oldest, newest) \<Rightarrow>
          folded_members (map_of (rev ranges))
            (takeWhile (\<lambda>(position, _). position \<le> newest) (filter (\<lambda>(position, _). oldest \<le> position) delivered)))"
proof -
  have "snd (fold (collapse_step invocation) es (\<lambda>_. [], 0)) = folded_members invocation es"
    for invocation and es :: "(nat \<times> 'a option) list"
  proof -
    let ?G = "the ` (snd ` set es)"
    have "\<forall>e \<in> set es. \<forall>g. snd e = Some g \<longrightarrow> g \<in> ?G" by (force simp: image_iff)
    then show ?thesis using collapse_counts [of ?G es invocation "\<lambda>_. []" 0] by simp
  qed
  then show ?thesis by (simp add: collapsed_positions_def Let_def split: option.splits)
qed

text \<open>
  C40: A sweep accounts for every position it was given.  A sweep that ends has counted each recorded
  invocation once, as checked or under the one reason it was not; what it adds for collapsed batches is the
  number of delivered positions that ran no invocation and that the next invocation of the same arm and lane
  reaches back to; and it reports exactly the violations of the replays it ran, in order.
\<close>

theorem sweep_accounts_for_every_position:
  assumes "sweep_effect io name hash event_at outcome delivered terminals rp = Inr rp'"
  shows "rp_invocations_checked rp' + skips_total (rp_skipped rp') =
      rp_invocations_checked rp + skips_total (rp_skipped rp) + length terminals +
      (let ranges = [(tm_position t, tm_collapsed_from t). t \<leftarrow> terminals, tm_script_hash t = hash] in
       case folded_into ranges of
         None \<Rightarrow> 0
       | Some (oldest, newest) \<Rightarrow>
           folded_members (map_of (rev ranges))
             (takeWhile (\<lambda>(position, _). position \<le> newest) (filter (\<lambda>(position, _). oldest \<le> position) delivered))) \<and>
    rp_violations rp' = rp_violations rp @ concat (map (reported name hash event_at outcome) terminals)"
proof -
  let ?rp = "rp\<lparr>rp_skipped := (rp_skipped rp)\<lparr>sk_collapsed := sk_collapsed (rp_skipped rp) + collapsed_positions hash terminals delivered\<rparr>\<rparr>"
  have "sweep_each io name hash event_at outcome terminals ?rp = Inr rp'" using assms by (simp add: sweep_effect_def Let_def)
  note sweep_each_covers [OF this] sweep_each_reports [OF this]
  moreover have "accounted ?rp = accounted rp + collapsed_positions hash terminals delivered"
    by (simp add: accounted_def skips_total_def)
  ultimately show ?thesis unfolding collapsed_members [symmetric] by (simp add: accounted_def)
qed

end
