(* ===== verification/Read_Examples.thy ===== *)
theory Read_Examples
  imports Read_Index Projection_Sound Verify_Sound Command_Examples
begin

section \<open>Concrete reads\<close>

text \<open>
  A calendar of one instant, a table of three items and the requests that read it; a row with a sealed column
  written over the keys of two organisations; and a live model that differs from its rebuild.
\<close>

definition epoch :: civil where
  "epoch = \<lparr>cv_year = 1970, cv_month = 1, cv_day = 1, cv_hour = 0, cv_minute = 0, cv_second = 0, cv_micros = 0\<rparr>"

definition epoch_stored :: string where "epoch_stored = ''1970-01-01T00:00:00.000000Z''"
definition epoch_served :: string where "epoch_served = ''1970-01-01T00:00:00Z''"

definition cal :: cell_api where
  "cal = \<lparr>ca_timestamp = (\<lambda>s. if s = epoch_stored \<or> s = epoch_served then Some 0 else None),
     ca_rfc3339 = (\<lambda>m. if m = 0 then Some epoch_served else None),
     ca_civil = (\<lambda>m. if m = 0 then Some epoch else None),
     ca_write = put_json, ca_read = (\<lambda>b. case take_json (length b) b of Some (v, []) \<Rightarrow> Some v | _ \<Rightarrow> None),
     ca_numeric = parse_i64\<rparr>"

lemma cal_fields:
  "ca_timestamp cal s = (if s = epoch_stored \<or> s = epoch_served then Some 0 else None)"
  "ca_rfc3339 cal m = (if m = 0 then Some epoch_served else None)"
  "ca_civil cal m = (if m = 0 then Some epoch else None)" "ca_write cal = put_json"
  by (simp_all add: cal_def)

lemma stored_epoch: "stored_timestamp cal m = (if m = 0 then Some epoch_stored else None)"
proof -
  have "stored_timestamp cal 0 = Some epoch_stored" by code_simp
  then show ?thesis by (simp add: stored_timestamp_def cal_fields)
qed

lemma cal_ok: "calendar_ok cal"
  by (auto simp: calendar_ok_def stored_epoch cal_fields split: if_splits)

lemma cal_documents: "ca_read cal (ca_write cal v) = Some v"
  using take_put_json [of v "length (put_json v)" "[]"] by (simp add: cal_def)

lemma cal_documents_ok: "documents_ok cal"
  by (simp add: documents_ok_def cal_documents)

definition cursors :: cursor_api where
  "cursors = \<lparr>cr_encode = (\<lambda>c. put_json (JArr (JStr (cu_ordering c) # map JStr (cu_values c)))),
     cr_decode = (\<lambda>s. case ca_read cal s of
        Some (JArr (JStr token # vs)) \<Rightarrow> Some \<lparr>cu_ordering = token, cu_values = map (\<lambda>v. the (json_str v)) vs\<rparr> | _ \<Rightarrow> None)\<rparr>"

lemma cursors_ok: "cursor_api_ok cursors"
  unfolding cursor_api_ok_def
proof
  fix cursor :: scan_cursor
  have "ca_read cal (put_json (JArr (JStr (cu_ordering cursor) # map JStr (cu_values cursor)))) =
      Some (JArr (JStr (cu_ordering cursor) # map JStr (cu_values cursor)))"
    using cal_documents unfolding cal_fields .
  then show "cr_decode cursors (cr_encode cursors cursor) = Some cursor"
    by (simp add: cursors_def comp_def del: put_json.simps)
qed

subsection \<open>Items\<close>

definition item_entity :: entity_def where
  "item_entity = \<lparr>en_name = ''item'', en_key = ''id'',
     en_fields = [(''id'', plain_meta (Text None)), (''rank'', plain_meta I64), (''due'', plain_meta Timestamp)],
     en_indexes = [\<lparr>ix_name = ''by_rank'', ix_columns = [''rank'']\<rparr>]\<rparr>"

definition item_rows :: "sql_row list" where
  "item_rows = [[SText ''a'', SInteger 2, SText epoch_stored], [SText ''b'', SInteger 1, SText epoch_stored],
     [SText ''c'', SInteger 2, SText epoch_stored]]"

definition item_model :: read_model where
  "item_model = \<lparr>rm_format = FORMAT, rm_position = 7, rm_definition = None, rm_tables = [''item'' \<mapsto> item_rows],
     rm_indexes = [''item_by_rank'' \<mapsto> [''rank'', ''id'']]\<rparr>"

lemma item_entity_ok: "entity_ok item_entity"
  unfolding entity_ok_def by (intro conjI) code_simp+

lemma item_table_ok: "table_ok item_entity item_rows"
  by (simp add: table_ok_def item_rows_def item_entity_def row_typed_def cell_typed_def plain_meta_def i64_range_def
      row_key_def cell_of_def)

lemma item_rows_canonical: "\<forall>row \<in> set item_rows. row_canonical cal item_entity row"
  using stored_epoch
  by (simp add: item_rows_def item_entity_def row_canonical_def cell_canonical_def plain_meta_def canonical_text_def cal_fields)

lemma item_model_ready: "model_ready item_entity item_rows item_model"
  by (simp add: model_ready_def item_model_def item_entity_def index_name_def index_columns_def)

definition by_rank_query :: scan_query where
  "by_rank_query = \<lparr>qu_filter = no_filter, qu_order = \<lparr>or_index = Some ''by_rank'', or_descending = True\<rparr>, qu_cursor = None, qu_limit = 2\<rparr>"

abbreviation rank_params :: "(string \<times> string) list" where
  "rank_params \<equiv> [(''order_by'', ''-by_rank''), (''limit'', ''2'')]"

lemma rank_request: "scan_request cal cursors item_entity rank_params = Inr by_rank_query"
proof -
  let ?order = "\<lparr>or_index = Some ''by_rank'', or_descending = True\<rparr>"
  have "parse_u64 ''2'' = Some 2" by (simp add: parse_u64_def parse_digits_def is_digit_def)
  then have "scan_params_of no_params rank_params =
      Inr \<lparr>sp_raw = [], sp_limit = 2, sp_cursor = None, sp_order_by = Some ''-by_rank''\<rparr>"
    by (simp add: scan_param_def no_params_def MAX_LIMIT_def)
  moreover have "parse_filter item_entity [] = Inr no_filter" "scan_order_of item_entity (Some ''-by_rank'') = Inr ?order"
      "order_refused item_entity ?order = None" "choose_index item_entity no_filter ?order = Some (Index_Access ''by_rank'')"
      "check_filter cal item_entity no_filter = Inr ()"
    by code_simp+
  ultimately show ?thesis by (simp add: scan_request_def scan_cursor_of_def by_rank_query_def)
qed

text \<open>Two pages, highest rank first, the tie broken by the key.\<close>

theorem pages_cover_the_scan_witness:
  "\<exists>pages. follow cal cursors None item_entity item_model 4 rank_params = Some pages \<and>
     concat (map pg_items pages) = listing cal item_entity by_rank_query item_rows \<and>
     map (\<lambda>row. json_get row ''id'') (listing cal item_entity by_rank_query item_rows) =
       [Some (JStr ''c''), Some (JStr ''a''), Some (JStr ''b'')]"
proof -
  have "map (\<lambda>row. json_get row ''id'') (listing cal item_entity by_rank_query item_rows) =
      [Some (JStr ''c''), Some (JStr ''a''), Some (JStr ''b'')]" by code_simp
  then show ?thesis
    using pages_cover_the_scan [OF item_entity_ok cal_ok cursors_ok item_table_ok item_rows_canonical item_model_ready rank_request,
        of 4] by (auto simp: by_rank_query_def item_rows_def)
qed

theorem served_filter_is_one_run_witness:
  "\<exists>start. filter (matches cal item_entity \<lparr>fl_equals = [(''rank'', ''2'')], fl_range = None\<rparr>)
      (ordered_rows item_entity (access_order (Index_Access ''by_rank'')) item_rows) =
    take 2 (drop start (ordered_rows item_entity (access_order (Index_Access ''by_rank'')) item_rows))"
proof -
  let ?fl = "\<lparr>fl_equals = [(''rank'', ''2'')], fl_range = None\<rparr>"
  have path: "choose_index item_entity ?fl key_order = Some (Index_Access ''by_rank'')" by code_simp
  have len: "length (filter (matches cal item_entity ?fl) item_rows) = 2" by code_simp
  have names: "distinct (map ix_name (en_indexes item_entity))" by (simp add: item_entity_def)
  show ?thesis using served_filter_is_one_run [OF path _ names, where api = cal and rows = item_rows] len by simp
qed

definition put_d :: entity_op where
  "put_d = Put (put_json (JObj [(''due'', JStr epoch_stored), (''id'', JStr ''a''), (''rank'', JNum ''9'')]))"

theorem writes_refine_a_map_witness:
  "\<exists>rm' row. apply_one cal item_entity put_d item_model = Inr rm' \<and>
     get_row cal item_entity ''a'' rm' = Inr (Some row) \<and> json_get row ''rank'' = Some (JNum ''9'')"
proof -
  obtain rm' where rm': "apply_one cal item_entity put_d item_model = Inr rm'"
    and got: "map_sum id (map_option (\<lambda>row. json_get row ''rank'')) (get_row cal item_entity ''a'' rm') = Inr (Some (Some (JNum ''9'')))"
  proof -
    have "case apply_one cal item_entity put_d item_model of Inl _ \<Rightarrow> False
      | Inr rm' \<Rightarrow> map_sum id (map_option (\<lambda>row. json_get row ''rank'')) (get_row cal item_entity ''a'' rm') = Inr (Some (Some (JNum ''9'')))"
      by code_simp
    then show thesis using that by (auto split: sum.splits)
  qed
  have "rm_tables item_model (en_name item_entity) = Some item_rows" by (simp add: item_model_def item_entity_def)
  from writes_refine_a_map [OF item_entity_ok this item_table_ok rm'] have "\<exists>x. get_row cal item_entity ''a'' rm' = Inr x" by blast
  then show ?thesis using rm' got by auto
qed

subsection \<open>Notes with a sealed column\<close>

definition owner_seal :: seal where
  "owner_seal = \<lparr>sl_chain = [(''user'', ''owner'')]\<rparr>"

definition note_mail :: field_meta where
  "note_mail = \<lparr>fm_kind = Optional (Text None), fm_indexed = False, fm_sealed_under = Some owner_seal, fm_identifies = None\<rparr>"

definition note_entity :: entity_def where
  "note_entity = \<lparr>en_name = ''note'', en_key = ''id'',
     en_fields = [(''id'', plain_meta (Text None)), (''due'', plain_meta Timestamp),
       (''owner'', (plain_meta (Optional (Text None)))\<lparr>fm_identifies := Some ''user''\<rparr>), (''mail'', note_mail)],
     en_indexes = []\<rparr>"

definition note_model :: read_model where
  "note_model = open_model [note_entity] empty_model"

definition note_writer :: "key_world option \<Rightarrow> row_writer" where
  "note_writer keys = \<lparr>wr_table = [''note'' \<mapsto> note_entity], wr_declared = [''note'' \<mapsto> []], wr_keys = keys\<rparr>"

definition note_values :: "(string, string) value_api" where
  "note_values = \<lparr>va_from_json = (\<lambda>v ty. Inr (V_Opt None)), va_from_sealed = (\<lambda>s ty. Inr (V_Other s)), va_key_text = id\<rparr>"

definition note_row :: "string hk_row" where
  "note_row = fmap_of_list [(''id'', V_Other ''n1''), (''due'', V_Other epoch_served)]"

definition mailed_row :: "string hk_row" where
  "mailed_row = fmap_of_list [(''id'', V_Other ''n1''), (''due'', V_Other epoch_served), (''owner'', V_Other ''u3''), (''mail'', V_Other ''ho'')]"

theorem projection_never_mints_witness:
  "ks_table (snd (row_put (note_writer (Some toy)) toy_api cal ''note'' mailed_row note_model None (with_table two_orgs))) = two_orgs \<and>
   ks_table (snd (row_read (note_writer (Some toy)) note_values cal ''note'' [''n1''] note_model (with_table two_orgs))) = two_orgs"
proof -
  have w: "\<forall>w. wr_keys (note_writer (Some toy)) = Some w \<longrightarrow> undisturbed w" by (simp add: note_writer_def)
  have s: "ks_cache (with_table two_orgs) = None" "ks_table (with_table two_orgs) = two_orgs" by (simp_all add: with_table_def fresh_store_def)
  show ?thesis using projection_never_mints [OF w s(1)] s(2) by simp
qed

lemma u3_opens: "opens toy two_orgs (MAX_SUBJECT_DEPTH + 1) ''user'' ''u3'' = Inr (Some (secret_no 5))"
  unfolding MAX_SUBJECT_DEPTH_def
  using opens_user [where t = two_orgs and u = "''u3''" and v = "''o2''" and p = 4 and n = 5 and m = 31]
  by (simp add: two_orgs_def toy_rows find_row_def)


lemma note_entity_ok: "entity_ok note_entity"
  unfolding entity_ok_def by (intro conjI) code_simp+

theorem projected_table_can_be_paged_witness:
  "\<exists>rm' landed_rows. fst (row_put (note_writer None) toy_api cal ''note'' note_row note_model None fresh_store) = Inr (rm', None) \<and>
     rm' = with_rows note_entity landed_rows note_model \<and> table_ok note_entity landed_rows \<and>
     (\<forall>r \<in> set landed_rows. row_canonical cal note_entity r)"
proof -
  let ?doc = "JObj [(''due'', JStr epoch_stored), (''id'', JStr ''n1'')]"
  have stored: "stored_form cal Timestamp (JStr epoch_served) = JStr epoch_stored"
    by (simp add: stored_form_def stored_epoch cal_fields)
  have cols: "put_columns (note_writer None) toy_api cal note_row (en_fields note_entity) ([], []) fresh_store =
      (Inr ([(''due'', JStr epoch_stored), (''id'', JStr ''n1'')], []), fresh_store)"
    using stored
    by (simp add: note_entity_def put_column_def note_row_def fmlookup_of_list value_json_def toy_api_def plain_meta_def
        ks_simps stored_form_def [of cal "Text None"] column_form_def Let_def)
  have model: "rm_tables note_model (en_name note_entity) = Some []" by code_simp
  have "\<exists>rm'. apply_one cal note_entity (Put (ca_write cal ?doc)) note_model = Inr rm'"
  proof -
    have "case apply_one cal note_entity (Put (ca_write cal ?doc)) note_model of Inl _ \<Rightarrow> False | Inr _ \<Rightarrow> True" by code_simp
    then show ?thesis by (auto split: sum.splits)
  qed
  then obtain rm' where "apply_one cal note_entity (Put (ca_write cal ?doc)) note_model = Inr rm'" by blast
  then have put: "row_put (note_writer None) toy_api cal ''note'' note_row note_model None fresh_store = (Inr (rm', None), fresh_store)"
    using cols by (simp add: row_put_def note_writer_def ks_simps del: put_json.simps)
  have table: "wr_table (note_writer None) ''note'' = Some note_entity" by (simp add: note_writer_def)
  have empty: "table_ok note_entity []" "\<forall>r \<in> set []. row_canonical cal note_entity r" by (simp_all add: table_ok_def)
  from projected_table_can_be_paged [OF note_entity_ok cal_ok cal_documents_ok table model empty put] put
  show ?thesis by auto
qed

subsection \<open>A model that differs from its rebuild\<close>

definition rebuilt_rows :: "sql_row list" where
  "rebuilt_rows = [[SText ''a'', SInteger 2, SText epoch_stored], [SText ''b'', SInteger 5, SText epoch_stored]]"

definition rebuilt_model :: read_model where
  "rebuilt_model = item_model\<lparr>rm_tables := [''item'' \<mapsto> rebuilt_rows]\<rparr>"

lemma items_scannable:
  "scannable cal item_entity (query_all 1) item_rows item_model"
  "scannable cal item_entity (query_all 1) rebuilt_rows rebuilt_model"
proof -
  have order: "order_refused item_entity (qu_order (query_all 1)) = None"
      "choose_index item_entity (qu_filter (query_all 1)) (qu_order (query_all 1)) = Some Key_Access"
      "filter_columns (qu_filter (query_all 1)) = []"
    by code_simp+
  have "table_ok item_entity rebuilt_rows" "\<forall>row \<in> set rebuilt_rows. row_canonical cal item_entity row"
    using stored_epoch
    by (simp_all add: table_ok_def rebuilt_rows_def item_entity_def row_typed_def cell_typed_def plain_meta_def i64_range_def
        row_key_def cell_of_def row_canonical_def cell_canonical_def canonical_text_def cal_fields)
  moreover have "model_ready item_entity rebuilt_rows rebuilt_model"
    using item_model_ready by (simp add: model_ready_def rebuilt_model_def item_entity_def)
  ultimately show "scannable cal item_entity (query_all 1) item_rows item_model"
      "scannable cal item_entity (query_all 1) rebuilt_rows rebuilt_model"
    using order item_entity_ok cal_ok item_table_ok item_rows_canonical item_model_ready by (simp_all add: scannable_def)
qed

theorem comparison_reports_every_disagreement_witness:
  "\<exists>reports. compare_entity cal ''p'' item_entity item_model rebuilt_model None =
      Inr (map (\<lambda>(key, detail). RebuildMismatch ''p'' ''item'' key detail) reports) \<and>
    sorted_wrt (<) (map fst reports) \<and> map_of reports ''a'' = None \<and>
    (\<exists>detail. map_of reports ''c'' = Some (OnlyLive detail))"
proof -
  let ?l = "listing cal item_entity (query_all 1) item_rows" and ?r = "listing cal item_entity (query_all 1) rebuilt_rows"
  have len: "length item_rows < 2 ^ 63" "length rebuilt_rows < 2 ^ 63" by (simp_all add: item_rows_def rebuilt_rows_def)
  note all = all_rows_listing [OF items_scannable(1) len(1)] all_rows_listing [OF items_scannable(2) len(2)]
  have keys: "distinct (map (key_of_row cal item_entity) ?l)" "distinct (map (key_of_row cal item_entity) ?r)" by code_simp+
  have plain: "readable_rows item_entity None (keyed_rows cal item_entity ?l) (keyed_rows cal item_entity ?r) =
      (keyed_rows cal item_entity ?l, keyed_rows cal item_entity ?r)" by (simp add: readable_rows_def)
  have dis: "disagreement cal (map_of (keyed_rows cal item_entity ?l)) (map_of (keyed_rows cal item_entity ?r)) ''a'' = None"
      "case disagreement cal (map_of (keyed_rows cal item_entity ?l)) (map_of (keyed_rows cal item_entity ?r)) ''c'' of
         Some (OnlyLive _) \<Rightarrow> True | _ \<Rightarrow> False"
    by code_simp+
  have name: "en_name item_entity = ''item''" by (simp add: item_entity_def)
  have "\<exists>detail. disagreement cal (map_of (keyed_rows cal item_entity ?l)) (map_of (keyed_rows cal item_entity ?r)) ''c'' =
      Some (OnlyLive detail)"
    using dis(2) by (auto split: option.splits mismatch.splits)
  then show ?thesis
    using comparison_reports_every_disagreement [OF all keys plain, of "''p''"] dis(1) name by auto
qed

definition swept :: "terminal list" where
  "swept = [\<lparr>tm_position = 3, tm_script_hash = ''h'', tm_collapsed_from = Some 1\<rparr>,
     \<lparr>tm_position = 5, tm_script_hash = ''h'', tm_collapsed_from = None\<rparr>,
     \<lparr>tm_position = 6, tm_script_hash = ''old'', tm_collapsed_from = None\<rparr>]"

text \<open>Positions 1 and 2 of the lane were folded into the invocation at 3; one replay diverged.\<close>

theorem sweep_accounts_for_every_position_witness:
  "\<exists>rp. sweep_effect toy_wire ''mailer'' ''h'' (\<lambda>p. if p = 5 then Inr None else Inr (Some (encode_event toy_wire toy_envelope JNull)))
       (\<lambda>p. Different ''a'' ''b'') [(1, Some ''l''), (2, Some ''l''), (3, Some ''l''), (5, Some ''l'')] swept new_report = Inr rp \<and>
     rp_invocations_checked rp + skips_total (rp_skipped rp) = 5 \<and> length (rp_violations rp) = 1"
proof -
  let ?event = "\<lambda>p. if p = 5 then Inr None else Inr (Some (encode_event toy_wire toy_envelope JNull))"
  let ?delivered = "[(1, Some ''l''), (2, Some ''l''), (3, Some ''l''), (5, Some ''l'')]"
  have ids: "ids_ok toy_wire toy_envelope" by (simp add: ids_ok_def toy_wire_def)
  have read: "decode_event toy_wire (encode_event toy_wire toy_envelope JNull) = Inr (toy_envelope, JNull)"
    using decode_encode_event [OF toy_wire_ok ids] by simp
  obtain rp where rp: "sweep_effect toy_wire ''mailer'' ''h'' ?event (\<lambda>p. Different ''a'' ''b'') ?delivered swept new_report = Inr rp"
    using read by (simp add: sweep_effect_def swept_def sweep_one_def Let_def del: put_json.simps)
  have start: "rp_invocations_checked new_report = 0" "skips_total (rp_skipped new_report) = 0" "rp_violations new_report = []"
    by (simp_all add: new_report_def no_skips_def skips_total_def)
  show ?thesis
    using sweep_accounts_for_every_position [OF rp] rp start
    by (simp add: swept_def folded_into_def swallowed_def reported_def violation_of_def opt_list_def reproduces_def is_covered_def)
qed

subsection \<open>Two indexes with one name\<close>

text \<open>
  The name of an index joins its columns with an underscore, which a column may contain.  Opening a model
  creates the first of two indexes with one name and skips the second, so the access path chosen for a filter
  over the second names an index with other columns.
\<close>

definition clashing_entity :: entity_def where
  "clashing_entity = \<lparr>en_name = ''item'', en_key = ''id'',
     en_fields = [(''id'', plain_meta (Text None)), (''a'', plain_meta I64), (''b'', plain_meta I64), (''a_b'', plain_meta I64)],
     en_indexes = [\<lparr>ix_name = ''by_a_b'', ix_columns = [''a_b'']\<rparr>, \<lparr>ix_name = ''by_a_b'', ix_columns = [''a'', ''b'']\<rparr>]\<rparr>"

lemma one_name_two_indexes:
  "entity_ok clashing_entity \<and>
   choose_index clashing_entity \<lparr>fl_equals = [(''a'', ''1''), (''b'', ''2'')], fl_range = None\<rparr> key_order = Some (Index_Access ''by_a_b'') \<and>
   rm_indexes (open_model [clashing_entity] empty_model) ''item_by_a_b'' = Some [''a_b'', ''id'']"
  unfolding entity_ok_def by (intro conjI) code_simp+

end
