(* ===== verification/Spec2Isabelle.thy ===== *)
theory Spec2Isabelle
  imports Dispatch_Safety Keys_Examples Replay_Examples Command_Examples Read_Examples
begin

text \<open>
  A verification development for hekla (the Rust sources under src/src).

  \<^bold>\<open>The program.\<close>  hekla serves event-sourced projects written in heklang.  Commands append events to a
  log (the tephra crate); effects react to events with calls to the outside; projectors fold events
  into read models.  The part with the hardest promises is the effect side: an effect's events are
  spread over lanes, one worker at a time runs the head of a lane, every outward call is journaled,
  and what has been done survives crashes as a mark, lane rows, invocation rows and journal rows in
  the operational database.  Personal data is encrypted under per-subject keys in the same database,
  whose deletion is an erasure.

  \<^bold>\<open>Scheduler\<close> (lane.rs, lanes.rs and the driver loop of effect.rs).
  \<^item> \<open>Lane\<close>: lane identifiers, the encoding of an arm's key values; distinct keys get distinct names.
  \<^item> \<open>Lanes\<close>: \<open>LaneState\<close> as the record \<open>lane_state\<close>, one definition per method; \<open>Lane_Inv\<close> its
    invariants, \<open>Lane_Wake\<close> the deadlines.
  \<^item> \<open>Dispatcher\<close>: the reader and the workers of one effect as a step relation \<open>dispatch_step\<close>, each
    critical section under the state mutex one step, so that a run is any interleaving; parameters of
    the relation are what the compiled effect and heklang answer about an event.  \<open>Dispatcher_Inv\<close>,
    \<open>Dispatch_Run\<close>, \<open>Dispatch_Progress\<close> and \<open>Dispatch_Rows\<close> carry the invariants over runs, \<open>Dispatch_Exec\<close>
    runs a chosen schedule, and \<open>Dispatch_Safety\<close> states the properties: the mark never passes an
    unretired position, nothing is lost, nothing wedges, lanes run in order, a restart is sound.
    A steady run is one in which no published mark overtakes the reader's cursor, which every run that
    never re-subscribes is; the floor of a run is the mark it was booted from.  Two properties exhibit runs in which a
    re-subscribe or a lane row breaks the order or the claim the code's comments make.

  \<^bold>\<open>Operational database\<close> (opdb.rs).
  \<^item> \<open>Table\<close>: SQL statements on keyed lists of rows.  \<open>Opdb\<close>: the tables of the effect side and every
    statement on them; \<open>Opdb_Inv\<close> the table invariant; \<open>Opdb_Ledger\<close> and \<open>Opdb_Read\<close> what the ledger of
    invocations, the sweeps, rewinds, activations and declarations promise.
  \<^item> \<open>Opdb_Keys\<close>: the \<open>subject_key\<close> table; \<open>Opdb_Erasure\<close> and \<open>Opdb_Hierarchy\<close>: first writer wins, an
    erased key stays erased, adoption and its undo, the recursive counts; \<open>Opdb_Introspect\<close>: the
    listings and the question whether a subject is still readable; \<open>Opdb_Migrate\<close>: the upgrade to
    schema version 10 and the version loop.

  \<^bold>\<open>One attempt and its record\<close> (effect.rs, heklang_host.rs, invariant.rs).
  \<^item> \<open>Effect_Status\<close>: the published status, \<open>EffectShared\<close>.  \<open>Effect_Retry\<close>: backoff, \<open>Retry-After\<close>, the
    supervisor's ladder and the idle wait.
  \<^item> \<open>Effect_Attempt\<close>: \<open>attempt\<close>, \<open>attempt_caught\<close> and \<open>run_lane\<close> under faults: every database call may
    succeed, be lost, or succeed with its answer lost, and the handler may fail or panic.
    \<open>Effect_Sound\<close>: a position is retired only when it is durably terminal.
  \<^item> \<open>Effect_Journal\<close>: the journal of an invocation.  A handler is a script: a tree of impure calls
    whose answers choose the rest; the world decides what performing a call comes to, a process that
    dies before or after it included.  A recorded call is never performed again.
  \<^item> \<open>Effect_Replay\<close>, \<open>Effect_Replay_Sound\<close>: the replay check over the same scripts.
  \<^item> \<open>Effect_Sweep\<close>: the retention sweeper.

  \<^bold>\<open>Encryption of personal data\<close> (crypto.rs).
  \<^item> \<open>Crypto\<close>: ciphers, masters, associated data, derived keys, the walk up a chain of keys and the mint of
    one; each taking of the database lock is one step of the state \<open>keystore\<close>, between which other threads
    may act (\<open>kw_others\<close>) and statements fail (\<open>kw_fault\<close>).  \<open>Keystore\<close>: the operations the runtime calls.
  \<^item> \<open>Keystore_Sound\<close>: \<open>opens\<close>, what a load answers on a quiet table, and what it depends on;
    \<open>Keystore_Mint\<close>: a mint is sound and answers; \<open>Keystore_Props\<close>, \<open>Keystore_Adopt\<close>, \<open>Keystore_Rotate\<close>: what
    is sealed reads back, an erase shreds a subtree, adoption and rotation keep every secret.  These
    are stated for a store nobody else is changing and a declared hierarchy of at most
    \<open>MAX_SUBJECT_DEPTH\<close> levels, which bounds every walk; the ciphers are assumed to invert themselves.

  \<^bold>\<open>Commands\<close> (dispatch.rs, heklang_host.rs, envelope.rs, schema.rs, store.rs, runtime.rs).
  \<^item> \<open>Json\<close>: JSON on both sides of heklang's boundary and the codec of recorded answers; \<open>Envelope\<close>: the
    stored form of an event and the reserved tags; \<open>Schema\<close>: declarations, and the chain of subjects a
    sealed field is filed under; \<open>Event_Log\<close>: tephra's log, its two append clauses and its contract.
  \<^item> \<open>Lowering\<close>: an emitted event becomes a stored one; \<open>Command_Host\<close>: the append through the host, with
    other writers between any two looks at the log; \<open>Command_Run\<close>: binding, a run to a settled outcome and
    the recovery of a committed one, where what heklang does between two calls to the host is a tree
    \<open>session\<close>; \<open>Command_Response\<close>: the retry budget, bodies and statuses.
  \<^item> \<open>Lowering_Sound\<close>: the chains a declaration yields are chains the key store may mint, and what is
    sealed opens to what was emitted.  \<open>Command_Safety\<close>: what a run keeps of the log; \<open>Command_Once\<close>: a
    keyed request commits once and answers the same ever after, while the guard of an effect's invoke,
    whose tag lowering never stamps, cannot fire.

  \<^bold>\<open>Read models\<close> (schema.rs, heklang_host.rs, read_model.rs, read_api.rs, server.rs).
  \<^item> \<open>Entities\<close>: an entity and its indexes as SQL, and what a declaration must satisfy to load; \<open>Cells\<close>: a
    field value as a SQL cell and back, a filter's text as a bound value; what a cell serves is what
    was put in it, up to the forms the code normalises, and stored timestamps compare as time.
  \<^item> \<open>Read_Filter\<close>: the filter, the ordering and the cursor of a query string, the index that serves
    them, every refusal of a scan; \<open>Read_Model\<close>: the tables and their statements, the checkpoint, opening;
    \<open>Read_Page\<close>: one page and the cursor it answers.
  \<^item> \<open>Read_Order\<close>: typed tables, cells that bind back to themselves, and the keyset comparison as a
    strict order; \<open>Read_Follow\<close>: following cursors from the first page visits every row once, in order.
    \<open>follow\<close> carries fuel, and more fuel than the table has rows is enough, which its theorem proves.
  \<^item> \<open>Read_Index\<close>: a filter that an index serves is one run of that index; \<open>Read_Write\<close>: the writes of a
    projector refine a map from keys to rows, and opening prepares every declared table.

  \<^bold>\<open>Projection and verification\<close> (projection.rs, verify.rs).
  \<^item> \<open>Projection\<close>: the row writer, which puts, reads and deletes the rows of a handler, seals the columns
    that hold personal data under keys that exist already and opens them again when a row is read back.
    \<open>Projection_Sound\<close>: it never mints a key, and a sealed column serves what was put.
  \<^item> \<open>Verify\<close>: the comparison of a rebuilt read model with the live one, and the sweep that replays an
    effect's invocations; \<open>Verify_Sound\<close>: every disagreement is reported and nothing else, and every
    position of a sweep is checked or counted as skipped for a reason.
  The parameters of this part are records of functions: \<open>cell_api\<close> and \<open>cursor_api\<close> hold number and date
  parsing, base64url and serde.

  \<open>Opdb_Examples\<close>, \<open>Keys_Examples\<close>, \<open>Effect_Examples\<close>, \<open>Replay_Examples\<close>, \<open>Keystore_Examples\<close>,
  \<open>Command_Examples\<close> and \<open>Read_Examples\<close> apply the properties to concrete data.

  \<^bold>\<open>Conventions.\<close>  Strings are lists of characters, byte strings lists of bytes.  A \<open>u64\<close> is a \<open>nat\<close> with
  the width written where the code wraps, saturates or casts: \<open>as_i64\<close>, \<open>as_u64\<close>, \<open>saturating_add\<close>,
  \<open>clamp_i64\<close>.  Errors are the left of a sum.  The bounds are the code's: \<open>ORPHAN_PASSES\<close> is 32 and
  \<open>SWEEP_CHUNK\<close> 1000; a sweep of orphans is complete when no chain of orphans is longer than the
  passes, which its theorem states.  Loops that end by themselves carry a measure; the one fuel is that of
  \<open>follow\<close> above.

  \<^bold>\<open>Not modelled.\<close>  The heklang interpreter, the tephra log, SQLite and the clock are parameters: their
  sources are elsewhere.  Argument parsing, the HTTP listener and client, the user interface, metrics,
  the OpenAPI document and the test harness are input and output.  Threads, logging and pauses are
  left out of the effect driver.  The driver loop of a projector, the migration plan, backup and
  restore, the fold store and the loop of a key adoption have no theory.  A floating column is ordered
  only against other kinds of cell, since its value is SQLite's, and a table whose live shape differs
  from its entity is outside the model of reads.
\<close>

end
